(* ===== verification/Prelude.thy ===== *)
theory Prelude imports Main "HOL-Library.Word" begin

text \<open>
  What every component of the development shares: the machine integers of \<^verbatim>\<open>src/src/tnode.h\<close>,
  the outcome type of code that may abort on a failed assertion or leave the language
  (\<open>fault\<close>), its sequencing operation, the memory primitives the models of C buffers use, and the
  lemma collections the component theories extend.
\<close>

unbundle bit_operations_syntax

named_theorems flow_simps \<open>how a sequence of fallible steps evaluates\<close>
named_theorems byte_bits \<open>bits of the results of byte operations\<close>
named_theorems frame_simps \<open>fields an operation leaves alone\<close>

section \<open>Machine integers\<close>

type_synonym u8 = "8 word"
type_synonym u16 = "16 word"
type_synonym u32 = "32 word"
type_synonym u64 = "64 word"

text \<open>The sign extension of a C \<open>char\<close> (signed on the platform the build files name) to \<open>int\<close>.\<close>

definition char_int :: "u8 \<Rightarrow> int" where
  "char_int c = sint c"

text \<open>A string literal of the source, as its bytes.\<close>

definition bytes_of :: "string \<Rightarrow> u8 list" where
  "bytes_of s = map of_char s"

section \<open>Outcomes\<close>

text \<open>
  \<open>Assert_failed\<close> is an \<open>assert\<close> of the source that did not hold (the process aborts), and
  \<open>Undefined\<close> an operation the language gives no meaning to: a read or write outside an object, a
  read of memory never written, \<open>top\<close> of an empty \<open>std::stack\<close>, an element taken from an empty
  container.
\<close>

datatype fault = Assert_failed | Undefined

type_synonym 'a res = "fault + 'a"

definition seq :: "'e + 'a \<Rightarrow> ('a \<Rightarrow> 'e + 'b) \<Rightarrow> 'e + 'b" where
  "seq r f = (case r of Inl e \<Rightarrow> Inl e | Inr x \<Rightarrow> f x)"

definition check :: "bool \<Rightarrow> unit res" where
  "check b = (if b then Inr () else Inl Assert_failed)"

lemma seq_simps [simp, flow_simps]:
  "seq (Inl e) f = Inl e"
  "seq (Inr x) f = f x"
  by (simp_all add: seq_def)

lemma check_simps [simp, flow_simps]:
  "check True = Inr ()"
  "check False = Inl Assert_failed"
  by (simp_all add: check_def)

lemma seq_eq_Inr_iff [flow_simps]:
  "seq r f = Inr y \<longleftrightarrow> (\<exists>x. r = Inr x \<and> f x = Inr y)"
  by (cases r) auto

lemma check_eq_Inr_iff [simp]: "check b = Inr u \<longleftrightarrow> b"
  by (simp add: check_def)

lemma seq_check [flow_simps]: "b \<Longrightarrow> seq (check b) f = f ()"
  by simp

text \<open>
  Steps that may stop early by returning \<open>false\<close>: the C idiom
  \<^verbatim>\<open>if (!f(s)) { return false; }\<close>, over a state that \<open>f\<close> may have changed.
\<close>

definition if_ok :: "(bool \<times> 's) res \<Rightarrow> ('s \<Rightarrow> (bool \<times> 's) res) \<Rightarrow> (bool \<times> 's) res" where
  "if_ok r f = seq r (\<lambda>(b, s). if b then f s else Inr (False, s))"

lemma if_ok_simps [simp, flow_simps]:
  "if_ok (Inl e) f = Inl e"
  "if_ok (Inr (True, s)) f = f s"
  "if_ok (Inr (False, s)) f = Inr (False, s)"
  by (simp_all add: if_ok_def)

lemma if_ok_eq_Inr_iff:
  "if_ok r f = Inr y \<longleftrightarrow> (\<exists>s. r = Inr (True, s) \<and> f s = Inr y) \<or> (\<exists>s. r = Inr (False, s) \<and> y = (False, s))"
  by (cases r) (auto simp: if_ok_def split: prod.splits)

lemma seq_assoc: "seq (seq r f) g = seq r (\<lambda>x. seq (f x) g)"
  by (cases r) auto

text \<open>
  \<open>runs r Q\<close>: the computation \<open>r\<close> completes without a fault and its result satisfies \<open>Q\<close>. Its laws
  compute the condition under which a sequence of steps runs, backwards from its postcondition.
\<close>

definition runs :: "'a res \<Rightarrow> ('a \<Rightarrow> bool) \<Rightarrow> bool" where
  "runs r Q = (case r of Inl _ \<Rightarrow> False | Inr x \<Rightarrow> Q x)"

lemma runs_simps [simp, flow_simps]:
  "runs (Inr x) Q = Q x"
  "runs (Inl e) Q = False"
  "runs (seq r f) Q = runs r (\<lambda>x. runs (f x) Q)"
  "runs (check b) P = (b \<and> P ())"
  by (simp_all add: runs_def seq_def check_def split: sum.splits)

lemma runs_if_ok [simp, flow_simps]:
  "runs (if_ok r f) Q = runs r (\<lambda>(b, s). if b then runs (f s) Q else Q (False, s))"
  by (cases r) (auto simp: if_ok_def split: prod.splits)

lemma runs_mono: "runs r P \<Longrightarrow> (\<And>x. P x \<Longrightarrow> Q x) \<Longrightarrow> runs r Q"
  by (cases r) auto

lemma runs_iff: "runs r Q \<longleftrightarrow> (\<exists>x. r = Inr x \<and> Q x)"
  by (cases r) auto

lemma runs_True_iff: "runs r (\<lambda>_. True) \<longleftrightarrow> (\<forall>e. r \<noteq> Inl e)"
  by (cases r) auto

section \<open>Memory\<close>

text \<open>
  A C array of \<open>cap\<close> cells of which the first \<open>length xs\<close> have been written. Writing the cell
  after the last written one extends the list; a write further on, or outside the array, and a read
  of a cell never written are \<open>Undefined\<close>.
\<close>

definition poke :: "nat \<Rightarrow> nat \<Rightarrow> 'a \<Rightarrow> 'a list \<Rightarrow> 'a list res" where
  "poke cap i x xs =
     (if i < cap \<and> i < length xs then Inr (xs[i := x])
      else if i < cap \<and> i = length xs then Inr (xs @ [x])
      else Inl Undefined)"

definition peek :: "nat \<Rightarrow> 'a list \<Rightarrow> 'a res" where
  "peek i xs = (if i < length xs then Inr (xs ! i) else Inl Undefined)"

lemma peek_Inr: "i < length xs \<Longrightarrow> peek i xs = Inr (xs ! i)"
  by (simp add: peek_def)

lemma poke_Inr:
  assumes "i < cap" "i \<le> length xs"
  shows "poke cap i x xs = Inr (take i xs @ x # drop (Suc i) xs)"
  using assms by (auto simp: poke_def upd_conv_take_nth_drop)

section \<open>Lists\<close>

lemma take_Suc_snoc: "i < length xs \<Longrightarrow> take (Suc i) xs = take i xs @ [xs ! i]"
  by (simp add: take_Suc_conv_app_nth)

lemma list_all_upt_iff: "list_all P [0..<n] \<longleftrightarrow> (\<forall>i<n. P i)"
  by (auto simp: list_all_iff)

lemma list3_cases [case_names Nil One Two More]:
  assumes "xs = [] \<Longrightarrow> P" "\<And>a. xs = [a] \<Longrightarrow> P" "\<And>a b. xs = [a, b] \<Longrightarrow> P"
    "\<And>a b c ys. xs = a # b # c # ys \<Longrightarrow> P"
  shows P
  using assms by (cases xs; cases "tl xs"; cases "tl (tl xs)") auto

section \<open>Bytes\<close>

lemma less_8_cases: "n < 8 \<Longrightarrow> n = 0 \<or> n = 1 \<or> n = 2 \<or> n = 3 \<or> n = 4 \<or> n = 5 \<or> n = 6 \<or> n = (7::nat)"
  by presburger

lemma byte_no_bit [simp]: "8 \<le> n \<Longrightarrow> \<not> bit (a :: u8) n"
  by (auto dest: bit_imp_le_length)

lemma unat_drop_byte: "unat (drop_bit n (a :: 'a :: len word)) = unat a div 2 ^ n"
  unfolding unat_drop_bit_eq by (rule drop_bit_eq_div)

lemma unat_push_byte: "unat (push_bit n (a :: 'a :: len word)) = unat a * 2 ^ n mod 2 ^ LENGTH('a)"
  unfolding unsigned_push_bit_eq take_bit_nat_def push_bit_nat_def by (rule refl)

lemma unat_take_byte: "unat (take_bit n (a :: 'a :: len word)) = unat a mod 2 ^ n"
  unfolding unsigned_take_bit_eq by (rule take_bit_eq_mod)

lemma byte_eqI:
  fixes a b :: u8
  assumes "bit a 0 = bit b 0" "bit a 1 = bit b 1" "bit a 2 = bit b 2" "bit a 3 = bit b 3"
    "bit a 4 = bit b 4" "bit a 5 = bit b 5" "bit a 6 = bit b 6" "bit a 7 = bit b 7"
  shows "a = b"
proof (rule bit_word_eqI)
  fix n assume "n < LENGTH(8)"
  then have "n < 8" by simp
  then show "bit a n = bit b n" using assms less_8_cases [of n] by auto
qed

lemma unat_byte_less [simp]: "unat (b :: u8) < 256"
  using unsigned_less [of b, where ?'a = nat] by simp

lemma unat_u16_less [simp]: "unat (b :: u16) < 65536"
  using unsigned_less [of b, where ?'a = nat] by simp

lemma unat_u32_less [simp]: "unat (b :: u32) < 4294967296"
  using unsigned_less [of b, where ?'a = nat] by simp

lemma byte_all_iff: "(\<forall>b :: u8. P b) \<longleftrightarrow> list_all (\<lambda>n. P (word_of_nat n)) [0..<256]"
proof
  assume "list_all (\<lambda>n. P (word_of_nat n)) [0..<256]"
  then have *: "\<And>n. n < 256 \<Longrightarrow> P (word_of_nat n)" by (auto simp: list_all_iff)
  show "\<forall>b. P b"
  proof
    fix b :: u8
    have "P (word_of_nat (unat b))" by (rule *) simp
    then show "P b" by simp
  qed
qed (simp add: list_all_iff)

section \<open>Encodings\<close>

text \<open>
  The contract of a pair of routines that write a value in another form and read it back: on the
  values the pair is meant for, reading returns what was written.
\<close>

locale codec =
  fixes enc :: "'a \<Rightarrow> 'b"
    and dec :: "'b \<Rightarrow> 'a"
    and valid :: "'a \<Rightarrow> bool"
  assumes dec_enc: "valid x \<Longrightarrow> dec (enc x) = x"
begin

lemma inj_on_enc: "inj_on enc {x. valid x}"
  by (rule inj_on_inverseI [of _ dec]) (simp add: dec_enc)

lemma enc_eq_iff: "valid x \<Longrightarrow> valid y \<Longrightarrow> enc x = enc y \<longleftrightarrow> x = y"
  using dec_enc by metis

lemma dec_map_enc: "\<forall>x \<in> set xs. valid x \<Longrightarrow> map dec (map enc xs) = xs"
  by (induction xs) (simp_all add: dec_enc)

end

end
