(* ===== verification/Base64.thy ===== *)
theory Base64 imports Prelude begin

text \<open>
  \<^verbatim>\<open>src/src/tools/base64.cpp\<close>: the Base64 encoder and decoder that the Lua functions
  \<open>base64_encode\<close> and \<open>base64_decode\<close> call. A byte string is a list of 8-bit words. The two loop
  counters and the fixed arrays of the C++ loops are the list \<open>arr\<close> of the bytes collected so far
  (\<open>i\<close> is its length); the arithmetic is kept at 8 bits, where the C code computes in \<open>int\<close> and
  stores into \<open>unsigned char\<close>.
\<close>

section \<open>The code\<close>

definition base64_chars :: "u8 list" where
  "base64_chars = bytes_of
     ''ABCDEFGHIJKLMNOPQRSTUVWXYZabcdefghijklmnopqrstuvwxyz0123456789+/''"

definition isalnum :: "u8 \<Rightarrow> bool" where
  "isalnum c \<longleftrightarrow> (0x30 \<le> c \<and> c \<le> 0x39) \<or> (0x41 \<le> c \<and> c \<le> 0x5A) \<or> (0x61 \<le> c \<and> c \<le> 0x7A)"

definition is_base64 :: "u8 \<Rightarrow> bool" where
  "is_base64 c \<longleftrightarrow> isalnum c \<or> c = 0x2B \<or> c = 0x2F"

text \<open>\<open>std::string::find\<close>, stored into an \<open>unsigned char\<close>: \<open>npos\<close> becomes 255.\<close>

fun find_from :: "nat \<Rightarrow> 'a \<Rightarrow> 'a list \<Rightarrow> nat option" where
  "find_from i x [] = None"
| "find_from i x (y # ys) = (if x = y then Some i else find_from (Suc i) x ys)"

definition base64_index :: "u8 \<Rightarrow> u8" where
  "base64_index c = (case find_from 0 c base64_chars of Some i \<Rightarrow> word_of_nat i | None \<Rightarrow> 255)"

definition base64_char :: "u8 \<Rightarrow> u8" where
  "base64_char k = base64_chars ! unat k"

text \<open>\<open>char_array_4\<close> from \<open>char_array_3\<close>, and back.\<close>

definition split3 :: "u8 \<Rightarrow> u8 \<Rightarrow> u8 \<Rightarrow> u8 list" where
  "split3 a b c =
     [drop_bit 2 (a AND 0xfc),
      push_bit 4 (a AND 0x03) + drop_bit 4 (b AND 0xf0),
      push_bit 2 (b AND 0x0f) + drop_bit 6 (c AND 0xc0),
      c AND 0x3f]"

definition join4 :: "u8 \<Rightarrow> u8 \<Rightarrow> u8 \<Rightarrow> u8 \<Rightarrow> u8 list" where
  "join4 p q r s =
     [push_bit 2 p + drop_bit 4 (q AND 0x30),
      push_bit 4 (q AND 0xf) + drop_bit 2 (r AND 0x3c),
      push_bit 6 (r AND 0x3) + s]"

text \<open>The \<open>while (in_len--)\<close> loop: what is left in \<open>char_array_3\<close> and the output so far.\<close>

fun encode_loop :: "u8 list \<Rightarrow> u8 list \<Rightarrow> u8 list \<Rightarrow> u8 list \<times> u8 list" where
  "encode_loop [] arr out = (arr, out)"
| "encode_loop (b # bs) arr out =
     (let arr = arr @ [b] in
      if length arr = 3
      then encode_loop bs [] (out @ map base64_char (split3 (arr ! 0) (arr ! 1) (arr ! 2)))
      else encode_loop bs arr out)"

definition base64_encode :: "u8 list \<Rightarrow> u8 list" where
  "base64_encode bs =
     (let (arr, out) = encode_loop bs [] []; i = length arr in
      if i = 0 then out
      else
        let pad = arr @ replicate (3 - i) 0;
            four = split3 (pad ! 0) (pad ! 1) (pad ! 2)
        in out @ map base64_char (take (i + 1) four) @ replicate (3 - i) 0x3D)"

fun decode_loop :: "u8 list \<Rightarrow> u8 list \<Rightarrow> u8 list \<Rightarrow> u8 list \<times> u8 list" where
  "decode_loop [] arr out = (arr, out)"
| "decode_loop (c # cs) arr out =
     (if c \<noteq> 0x3D \<and> is_base64 c then
        let arr = arr @ [c] in
        if length arr = 4
        then decode_loop cs []
               (out @ join4 (base64_index (arr ! 0)) (base64_index (arr ! 1))
                            (base64_index (arr ! 2)) (base64_index (arr ! 3)))
        else decode_loop cs arr out
      else (arr, out))"

definition base64_decode :: "u8 list \<Rightarrow> u8 list" where
  "base64_decode cs =
     (let (arr, out) = decode_loop cs [] []; i = length arr in
      if i = 0 then out
      else
        let pad = map base64_index (arr @ replicate (4 - i) 0)
        in out @ take (i - 1) (join4 (pad ! 0) (pad ! 1) (pad ! 2) (pad ! 3)))"

section \<open>The alphabet\<close>

lemma base64_chars_list:
  "base64_chars =
    [0x41, 0x42, 0x43, 0x44, 0x45, 0x46, 0x47, 0x48, 0x49, 0x4a, 0x4b, 0x4c, 0x4d, 0x4e, 0x4f,
     0x50, 0x51, 0x52, 0x53, 0x54, 0x55, 0x56, 0x57, 0x58, 0x59, 0x5a, 0x61, 0x62, 0x63, 0x64,
     0x65, 0x66, 0x67, 0x68, 0x69, 0x6a, 0x6b, 0x6c, 0x6d, 0x6e, 0x6f, 0x70, 0x71, 0x72, 0x73,
     0x74, 0x75, 0x76, 0x77, 0x78, 0x79, 0x7a, 0x30, 0x31, 0x32, 0x33, 0x34, 0x35, 0x36, 0x37,
     0x38, 0x39, 0x2b, 0x2f]"
  by (simp add: base64_chars_def bytes_of_def)

lemma distinct_base64_chars: "distinct base64_chars"
  by (simp add: base64_chars_list)

lemma length_base64_chars: "length base64_chars = 64"
  by (simp add: base64_chars_list)

lemma base64_chars_ok: "c \<in> set base64_chars \<Longrightarrow> is_base64 c \<and> c \<noteq> 0x3D"
proof -
  have "list_all (\<lambda>c. is_base64 c \<and> c \<noteq> 0x3D) base64_chars"
    by (simp add: base64_chars_list is_base64_def isalnum_def)
  then show "c \<in> set base64_chars \<Longrightarrow> is_base64 c \<and> c \<noteq> 0x3D" by (simp add: list_all_iff)
qed

lemma find_from_nth: "distinct xs \<Longrightarrow> i < length xs \<Longrightarrow> find_from k (xs ! i) xs = Some (k + i)"
  by (induction xs arbitrary: i k) (auto simp: nth_Cons split: nat.splits)

lemma unat_less_64: "(k :: u8) < 64 \<Longrightarrow> unat k < 64"
  by (simp add: word_less_nat_alt)

lemma base64_index_char [simp]: "k < 64 \<Longrightarrow> base64_index (base64_char k) = k"
  using unat_less_64 [of k]
  by (simp add: base64_index_def base64_char_def find_from_nth distinct_base64_chars length_base64_chars)

lemma base64_char_ok [simp]: "k < 64 \<Longrightarrow> is_base64 (base64_char k)"
  and base64_char_not_pad [simp]: "k < 64 \<Longrightarrow> base64_char k \<noteq> 0x3D"
  using unat_less_64 [of k] base64_chars_ok [of "base64_char k"]
  by (simp_all add: base64_char_def length_base64_chars)

lemma or_split1: "push_bit 4 (a AND 3) + drop_bit 4 (b AND 0xf0) = (push_bit 4 (a AND 3) OR drop_bit 4 (b AND 0xf0) :: u8)"
  by (intro disjunctive_add_eq_or byte_eqI) (simp_all add: bit_simps)
lemma or_split2: "push_bit 2 (b AND 0xf) + drop_bit 6 (c AND 0xc0) = (push_bit 2 (b AND 0xf) OR drop_bit 6 (c AND 0xc0) :: u8)"
  by (intro disjunctive_add_eq_or byte_eqI) (simp_all add: bit_simps)
lemma or_join0: "push_bit 2 p + drop_bit 4 (q AND 0x30) = (push_bit 2 p OR drop_bit 4 (q AND 0x30) :: u8)"
  by (intro disjunctive_add_eq_or byte_eqI) (simp_all add: bit_simps)
lemma or_join1: "push_bit 4 (q AND 0xf) + drop_bit 2 (r AND 0x3c) = (push_bit 4 (q AND 0xf) OR drop_bit 2 (r AND 0x3c) :: u8)"
  by (intro disjunctive_add_eq_or byte_eqI) (simp_all add: bit_simps)
lemma or_join2: "push_bit 6 (r AND 0x3) + (c AND 0x3f) = (push_bit 6 (r AND 0x3) OR (c AND 0x3f) :: u8)"
  by (intro disjunctive_add_eq_or byte_eqI) (simp_all add: bit_simps)

lemmas base64_or = or_split1 or_split2 or_join0 or_join1 or_join2

lemma join_split0: "push_bit 2 (drop_bit 2 (a AND 0xfc)) +
   drop_bit 4 ((push_bit 4 (a AND 3) + drop_bit 4 (b AND 0xf0)) AND 0x30) = (a :: u8)"
  unfolding base64_or by (rule byte_eqI) (simp_all add: bit_simps)
lemma join_split1: "push_bit 4 ((push_bit 4 (a AND 3) + drop_bit 4 (b AND 0xf0)) AND 0xf) +
   drop_bit 2 ((push_bit 2 (b AND 0xf) + drop_bit 6 (c AND 0xc0)) AND 0x3c) = (b :: u8)"
  unfolding base64_or by (rule byte_eqI) (simp_all add: bit_simps)
lemma join_split2: "push_bit 6 ((push_bit 2 (b AND 0xf) + drop_bit 6 (c AND 0xc0)) AND 3) + (c AND 0x3f) = (c :: u8)"
  unfolding base64_or by (rule byte_eqI) (simp_all add: bit_simps)

lemma and_lt_64:  "(c AND 0x3f :: u8) < 64"
proof -
  have "c AND 0x3f \<le> (0x3f :: u8)" by (rule word_and_le1)
  then show ?thesis by (simp add: word_le_nat_alt word_less_nat_alt)
qed

lemma lt_64_if: "(x :: u8) AND 0x3f = x \<Longrightarrow> x < 64" using and_lt_64 [of x] by simp

lemma split3_lt_64: "x \<in> set (split3 a b c) \<Longrightarrow> x < 64"
proof -
  have "drop_bit 2 (a AND 0xfc) AND 0x3f = drop_bit 2 (a AND 0xfc)"
    by (rule byte_eqI) (simp_all add: bit_simps)
  moreover have "(push_bit 4 (a AND 3) + drop_bit 4 (b AND 0xf0)) AND 0x3f = push_bit 4 (a AND 3) + drop_bit 4 (b AND 0xf0)"
    unfolding base64_or by (rule byte_eqI) (simp_all add: bit_simps)
  moreover have "(push_bit 2 (b AND 0xf) + drop_bit 6 (c AND 0xc0)) AND 0x3f = push_bit 2 (b AND 0xf) + drop_bit 6 (c AND 0xc0)"
    unfolding base64_or by (rule byte_eqI) (simp_all add: bit_simps)
  ultimately show "x \<in> set (split3 a b c) \<Longrightarrow> x < 64"
    unfolding split3_def using and_lt_64 by (auto intro: lt_64_if)
qed

lemma length_split3 [simp]: "length (split3 a b c) = 4"
  by (simp add: split3_def)

lemma join4_split3: "split3 a b c = [p, q, r, s] \<Longrightarrow> join4 p q r s = [a, b, c]"
  unfolding split3_def join4_def by clarify (simp only: join_split0 join_split1 join_split2)

lemma split3_cases:
  obtains p q r s where "split3 a b c = [p, q, r, s]" "p < 64" "q < 64" "r < 64" "s < 64"
  using split3_lt_64 [of _ a b c] unfolding split3_def by simp

text \<open>The loops on a whole group of three bytes, and of four characters.\<close>

lemma encode_loop_group:
  "encode_loop (a # b # c # bs) [] out = encode_loop bs [] (out @ map base64_char (split3 a b c))"
  by (simp add: Let_def)

lemma decode_loop_split3:
  "decode_loop (map base64_char (split3 a b c) @ cs) [] out = decode_loop cs [] (out @ [a, b, c])"
proof -
  obtain p q r s where g: "split3 a b c = [p, q, r, s]" "p < 64" "q < 64" "r < 64" "s < 64"
    by (rule split3_cases)
  show ?thesis using g join4_split3 [OF g(1)] by (simp add: Let_def)
qed

section \<open>The encoder against the standard\<close>

text \<open>The encoding of RFC 4648, over numbers: a group of three bytes is one 24-bit number, and its
  four base-64 digits select the characters.\<close>

definition rfc_digits :: "u8 \<Rightarrow> u8 \<Rightarrow> u8 \<Rightarrow> nat list" where
  "rfc_digits a b c =
     (let v = unat a * 65536 + unat b * 256 + unat c
      in [v div 262144, v div 4096 mod 64, v div 64 mod 64, v mod 64])"

fun base64_rfc :: "u8 list \<Rightarrow> u8 list" where
  "base64_rfc [] = []"
| "base64_rfc [a] = map ((!) base64_chars) (take 2 (rfc_digits a 0 0)) @ [0x3D, 0x3D]"
| "base64_rfc [a, b] = map ((!) base64_chars) (take 3 (rfc_digits a b 0)) @ [0x3D]"
| "base64_rfc (a # b # c # bs) = map ((!) base64_chars) (rfc_digits a b c) @ base64_rfc bs"

lemma and_mask_byte:
  "(a AND 3 :: u8) = take_bit 2 a" "(a AND 0xf :: u8) = take_bit 4 a" "(a AND 0x3f :: u8) = take_bit 6 a"
  "drop_bit 2 (a AND 0xfc :: u8) = drop_bit 2 a"
  "drop_bit 4 (a AND 0xf0 :: u8) = drop_bit 4 a"
  "drop_bit 6 (a AND 0xc0 :: u8) = drop_bit 6 a"
  by ((rule byte_eqI; simp add: bit_simps)+)

lemma nat_group_digits:
  fixes a b c :: nat
  assumes "a < 256" "b < 256" "c < 256"
  defines "v \<equiv> a * 65536 + b * 256 + c"
  shows "v div 262144 = a div 4" "v div 4096 mod 64 = a mod 4 * 16 + b div 16"
    "v div 64 mod 64 = b mod 16 * 4 + c div 64" "v mod 64 = c mod 64"
proof -
  define x y where "x = a div 4" and "y = a mod 4"
  define z w where "z = b div 16" and "w = b mod 16"
  define p q where "p = c div 64" and "q = c mod 64"
  have a: "a = 4 * x + y" "y < 4" by (simp_all add: x_def y_def)
  have b: "b = 16 * z + w" "w < 16" "z < 16" using assms(2) by (simp_all add: z_def w_def)
  have c: "c = 64 * p + q" "q < 64" "p < 4" using assms(3) by (simp_all add: p_def q_def)
  have v: "v = 262144 * x + (65536 * y + 4096 * z + 256 * w + 64 * p + q)"
    by (simp add: v_def a(1) b(1) c(1))
  have m: "(64 * k + r) mod 64 = r" if "r < 64" for k r :: nat using that by simp
  have "v div 262144 = x" by (rule div_nat_eqI) (use v a b c in simp_all)
  then show "v div 262144 = a div 4" by (simp add: x_def)
  have "v div 4096 = 64 * x + (16 * y + z)" by (rule div_nat_eqI) (use v a b c in simp_all)
  moreover have "16 * y + z < 64" using a b by simp
  ultimately have "v div 4096 mod 64 = 16 * y + z" by (simp only: m)
  then show "v div 4096 mod 64 = a mod 4 * 16 + b div 16" by (simp add: y_def z_def)
  have "v div 64 = 64 * (64 * x + 16 * y + z) + (4 * w + p)"
    by (rule div_nat_eqI) (use v a b c in simp_all)
  moreover have "4 * w + p < 64" using b c by simp
  ultimately have "v div 64 mod 64 = 4 * w + p" by (simp only: m)
  then show "v div 64 mod 64 = b mod 16 * 4 + c div 64" by (simp add: w_def p_def)
  have "v = 64 * (4096 * x + 1024 * y + 64 * z + 4 * w + p) + q" using v by simp
  then have "v mod 64 = q" using c(2) m by metis
  then show "v mod 64 = c mod 64" by (simp add: q_def)
qed

lemma unat_split3: "map unat (split3 a b c) = rfc_digits a b c"
proof -
  let ?a = "unat a" and ?b = "unat b" and ?c = "unat c"
  have 1: "unat (drop_bit 2 a) = ?a div 4" by (simp add: unat_drop_byte)
  have "?a mod 4 * 16 + ?b div 16 < 256" "?b mod 16 * 4 + ?c div 64 < 256"
    using unat_byte_less [of b] unat_byte_less [of c] by linarith+
  then have 2: "unat (push_bit 4 (take_bit 2 a) + drop_bit 4 b) = ?a mod 4 * 16 + ?b div 16"
    and 3: "unat (push_bit 2 (take_bit 4 b) + drop_bit 6 c) = ?b mod 16 * 4 + ?c div 64"
    by (simp_all add: unat_word_ariths unat_drop_byte unat_push_byte unat_take_byte)
  have 4: "unat (take_bit 6 c) = ?c mod 64" by (simp add: unat_take_byte)
  show ?thesis unfolding split3_def rfc_digits_def and_mask_byte Let_def list.map 1 2 3 4
    by (simp add: nat_group_digits)
qed

lemma map_base64_char: "map base64_char ks = map ((!) base64_chars) (map unat ks)"
  by (simp add: base64_char_def)

lemma map_base64_char_split3: "map base64_char (split3 a b c) = map ((!) base64_chars) (rfc_digits a b c)"
  by (simp only: map_base64_char unat_split3)

lemma map_base64_char_take:
  "map base64_char (take n (split3 a b c)) = map ((!) base64_chars) (take n (rfc_digits a b c))"
  by (simp only: take_map [symmetric] map_base64_char_split3)

lemma replicate_2: "replicate 2 x = [x, x]"
  by (simp add: numeral_2_eq_2)

lemma base64_encode_Nil [simp]: "base64_encode [] = []"
  by (simp add: base64_encode_def)

lemma encode_loop_out:
  "encode_loop bs arr out = (fst (encode_loop bs arr []), out @ snd (encode_loop bs arr []))"
proof (induction bs arbitrary: arr out)
  case (Cons b bs)
  let ?g = "map base64_char (split3 ((arr @ [b]) ! 0) ((arr @ [b]) ! 1) ((arr @ [b]) ! 2))"
  show ?case
    using Cons.IH [of "[]" "out @ ?g"] Cons.IH [of "[]" ?g] Cons.IH [of "arr @ [b]" out]
    by (simp add: Let_def)
qed simp

lemma base64_encode_eq_rfc: "base64_encode bs = base64_rfc bs"
proof (induction bs rule: base64_rfc.induct)
  case (4 a b c bs)
  have "base64_encode (a # b # c # bs) = map base64_char (split3 a b c) @ base64_encode bs"
    by (simp add: base64_encode_def Let_def encode_loop_out [of bs "[]" "map base64_char (split3 a b c)"] split: prod.splits)
  with 4 show ?case by (simp add: map_base64_char_split3)
qed (simp_all add: base64_encode_def replicate_2 map_base64_char_take flip: numeral_2_eq_2 numeral_3_eq_3)

text \<open>
  C31. The encoder, with its byte-at-a-time loop and its padding, computes the encoding RFC 4648
  defines: each group of three bytes is a 24-bit number whose base-64 digits select the characters,
  and a last group of one or two bytes gives two or three characters and padding.
\<close>

theorem base64_encode_rfc: "base64_encode bs = base64_rfc bs"
  by (rule base64_encode_eq_rfc)

lemma base64_encode_group:
  "base64_encode (a # b # c # bs) = map base64_char (split3 a b c) @ base64_encode bs"
  by (simp add: base64_encode_eq_rfc map_base64_char_split3)

section \<open>Decoding\<close>

lemma decode_loop_out:
  "decode_loop cs arr out = (fst (decode_loop cs arr []), out @ snd (decode_loop cs arr []))"
proof (induction cs arbitrary: arr out)
  case (Cons c cs)
  let ?r = "arr @ [c]"
  let ?g = "join4 (base64_index (?r ! 0)) (base64_index (?r ! 1)) (base64_index (?r ! 2)) (base64_index (?r ! 3))"
  show ?case
    using Cons.IH [of "[]" "out @ ?g"] Cons.IH [of "[]" ?g] Cons.IH [of "?r" out]
    by (simp add: Let_def)
qed simp

lemma base64_decode_group:
  "base64_decode (map base64_char (split3 a b c) @ cs) = [a, b, c] @ base64_decode cs"
  by (simp add: base64_decode_def Let_def decode_loop_split3 decode_loop_out [of cs "[]" "[a, b, c]"]
      split: prod.splits)

lemma base64_tail2:
  "base64_decode (map base64_char (take 2 (split3 a 0 0)) @ [0x3D, 0x3D]) = [a]"
proof -
  obtain p q r s where g: "split3 a 0 0 = [p, q, r, s]" "p < 64" "q < 64" "r < 64" "s < 64"
    by (rule split3_cases)
  show ?thesis using g join4_split3 [OF g(1)]
    by (simp add: base64_decode_def Let_def join4_def numeral_2_eq_2)
qed

lemma base64_tail3:
  "base64_decode (map base64_char (take 3 (split3 a b 0)) @ [0x3D]) = [a, b]"
proof -
  obtain p q r s where g: "split3 a b 0 = [p, q, r, s]" "p < 64" "q < 64" "r < 64" "s < 64"
    by (rule split3_cases)
  show ?thesis using g join4_split3 [OF g(1)]
    by (simp add: base64_decode_def Let_def join4_def eval_nat_numeral)
qed

lemma base64_decode_encode: "base64_decode (base64_encode bs) = bs"
proof (induction bs rule: base64_rfc.induct)
  case (4 a b c bs)
  then show ?case by (simp add: base64_encode_group base64_decode_group)
qed (simp_all add: base64_encode_eq_rfc base64_tail2 base64_tail3 flip: map_base64_char_take,
  simp add: base64_decode_def)

interpretation base64: codec base64_encode base64_decode "\<lambda>_. True"
  by unfold_locales (rule base64_decode_encode)

lemma length_base64_encode: "length (base64_encode bs) = 4 * ((length bs + 2) div 3)"
proof (induction bs rule: base64_rfc.induct)
  case (4 a b c bs)
  then show ?case by (simp add: base64_encode_group) presburger
qed (simp_all add: base64_encode_eq_rfc rfc_digits_def Let_def)

lemma decode_loop_stop:
  "c = 0x3D \<or> \<not> is_base64 c \<Longrightarrow> decode_loop (xs @ c # ys) arr out = decode_loop xs arr out"
  by (induction xs arr out rule: decode_loop.induct) (auto simp: Let_def)

text \<open>
  Decoding stops at the first padding character or character outside the alphabet: whatever
  follows it has no influence, and no error is reported.
\<close>

theorem base64_decode_stops:
  assumes "c = 0x3D \<or> \<not> is_base64 c"
  shows "base64_decode (xs @ c # ys) = base64_decode xs"
  using assms by (simp add: base64_decode_def decode_loop_stop)

theorem base64_decode_stops_witness:
  "base64_decode ([0x54, 0x57, 0x46] @ 0x2A # [0x75]) = base64_decode [0x54, 0x57, 0x46]"
  by (rule base64_decode_stops) (simp add: is_base64_def isalnum_def)


end
