(* ===== verification/CLib.thy ===== *)
theory CLib imports Prelude begin

text \<open>
  The C and C++ library functions the program relies on for reading numbers from text, as the
  language's standard defines them for the \<open>C\<close> locale and 64-bit \<open>long\<close>: \<open>isspace\<close>,
  \<open>isdigit\<close>, the family of \<open>strtol\<close>, \<open>sscanf("%ld")\<close> and \<open>std::stoi\<close>, \<open>std::stol\<close>,
  \<open>std::stoll\<close>. A string is the list of its bytes without the terminating NUL.
\<close>

definition isspace :: "u8 \<Rightarrow> bool" where
  "isspace c \<longleftrightarrow> c = 0x20 \<or> (9 \<le> c \<and> c \<le> 13)"

definition isdigit :: "u8 \<Rightarrow> bool" where
  "isdigit c \<longleftrightarrow> 0x30 \<le> c \<and> c \<le> 0x39"

definition digit_value :: "u8 \<Rightarrow> nat" where
  "digit_value c = unat (c - 0x30)"

definition digits_value :: "u8 list \<Rightarrow> nat" where
  "digits_value ds = foldl (\<lambda>v d. 10 * v + digit_value d) 0 ds"

text \<open>Optional white space, an optional sign, and the digits: \<open>None\<close> when there is no digit.\<close>

definition scan_number :: "u8 list \<Rightarrow> (bool \<times> nat) option" where
  "scan_number s =
     (let s = dropWhile isspace s;
          neg = (s \<noteq> [] \<and> hd s = 0x2D);
          s = (if s \<noteq> [] \<and> (hd s = 0x2D \<or> hd s = 0x2B) then tl s else s);
          ds = takeWhile isdigit s
      in if ds = [] then None else Some (neg, digits_value ds))"

definition long_min :: int where "long_min = - (2 ^ 63)"
definition long_max :: int where "long_max = 2 ^ 63 - 1"
definition int_min :: int where "int_min = - (2 ^ 31)"
definition int_max :: int where "int_max = 2 ^ 31 - 1"

definition signed_value :: "bool \<times> nat \<Rightarrow> int" where
  "signed_value = (\<lambda>(neg, n). if neg then - int n else int n)"

definition clamp :: "int \<Rightarrow> int \<Rightarrow> int \<Rightarrow> int" where
  "clamp lo hi x = (if x < lo then lo else if hi < x then hi else x)"

text \<open>\<open>strtol\<close> and \<open>strtoll\<close>, base 10: 0 when nothing can be read, saturating on overflow.\<close>

definition strtol :: "u8 list \<Rightarrow> int" where
  "strtol s = (case scan_number s of None \<Rightarrow> 0 | Some v \<Rightarrow> clamp long_min long_max (signed_value v))"

text \<open>\<open>strtoul\<close> and \<open>strtoull\<close>: a minus sign negates modulo \<open>2 ^ 64\<close>; the largest value on overflow.\<close>

definition strtoul :: "u8 list \<Rightarrow> u64" where
  "strtoul s = (case scan_number s of None \<Rightarrow> 0
     | Some (neg, n) \<Rightarrow> if 2 ^ 64 \<le> n then - 1 else if neg then - word_of_nat n else word_of_nat n)"

text \<open>\<open>sscanf(s, "%ld", &v)\<close>: \<open>None\<close> when \<open>v\<close> is not assigned.\<close>

definition sscanf_ld :: "u8 list \<Rightarrow> int option" where
  "sscanf_ld s = map_option (\<lambda>v. clamp long_min long_max (signed_value v)) (scan_number s)"

text \<open>
  \<open>std::stoi\<close> and \<open>std::stol\<close>, \<open>std::stoll\<close>: \<open>None\<close> is an exception, \<open>std::invalid_argument\<close> when
  no digit can be read and \<open>std::out_of_range\<close> when the value does not fit.
\<close>

definition std_sto :: "int \<Rightarrow> int \<Rightarrow> u8 list \<Rightarrow> int option" where
  "std_sto lo hi s = (case scan_number s of None \<Rightarrow> None
     | Some v \<Rightarrow> let x = signed_value v in if lo \<le> x \<and> x \<le> hi then Some x else None)"

definition std_stoi :: "u8 list \<Rightarrow> int option" where
  "std_stoi = std_sto int_min int_max"

definition std_stol :: "u8 list \<Rightarrow> int option" where
  "std_stol = std_sto long_min long_max"

lemmas clib_limits = long_min_def long_max_def int_min_def int_max_def

section \<open>Writing and reading decimal numbers\<close>

text \<open>\<open>printf\<close>'s \<open>%u\<close> and \<open>%d\<close> families: the decimal digits of a number, with a minus sign.\<close>

definition digit_char :: "nat \<Rightarrow> u8" where
  "digit_char k = word_of_nat (k + 48)"

fun decimal :: "nat \<Rightarrow> u8 list" where
  "decimal n = (if n < 10 then [digit_char n] else decimal (n div 10) @ [digit_char (n mod 10)])"

declare decimal.simps [simp del]

definition decimal_int :: "int \<Rightarrow> u8 list" where
  "decimal_int x = (if x < 0 then 0x2D # decimal (nat (- x)) else decimal (nat x))"

lemma digit_char_facts:
  assumes "k < 10"
  shows "isdigit (digit_char k) \<and> digit_value (digit_char k) = k \<and> \<not> isspace (digit_char k)
    \<and> digit_char k \<noteq> 0x2D \<and> digit_char k \<noteq> 0x2B"
proof -
  have "list_all (\<lambda>k. isdigit (digit_char k) \<and> digit_value (digit_char k) = k
      \<and> \<not> isspace (digit_char k) \<and> digit_char k \<noteq> 0x2D \<and> digit_char k \<noteq> 0x2B) [0..<10]"
    by code_simp
  then show ?thesis unfolding list_all_upt_iff using assms by blast
qed

lemma digits_value_one: "digits_value [d] = digit_value d"
  by (simp add: digits_value_def)

lemma decimal_not_Nil [simp]: "decimal n \<noteq> []"
  by (subst decimal.simps) simp

lemma digits_value_snoc: "digits_value (ds @ [d]) = 10 * digits_value ds + digit_value d"
  by (simp add: digits_value_def)

lemma decimal_digits: "\<forall>d \<in> set (decimal n). isdigit d"
proof (induction n rule: decimal.induct)
  case (1 n)
  then show ?case by (subst decimal.simps) (auto simp: digit_char_facts)
qed

lemma digits_value_decimal [simp]: "digits_value (decimal n) = n"
proof (induction n rule: decimal.induct)
  case (1 n)
  then show ?case
    by (subst decimal.simps)
      (auto simp: digits_value_snoc digits_value_one digit_char_facts)
qed

lemma decimal_cons:
  obtains d ds where "decimal n = d # ds" "\<not> isspace d" "d \<noteq> 0x2D" "d \<noteq> 0x2B" "isdigit d"
proof (induction n arbitrary: thesis rule: decimal.induct)
  case (1 n)
  show ?case
  proof (cases "n < 10")
    case True
    have "decimal n = [digit_char n]" using True by (subst decimal.simps) simp
    then show ?thesis by (rule "1.prems") (use digit_char_facts [OF True] in auto)
  next
    case False
    obtain d ds where ds: "decimal (n div 10) = d # ds" "\<not> isspace d" "d \<noteq> 0x2D" "d \<noteq> 0x2B" "isdigit d"
      using "1.IH" [OF False] by blast
    have "decimal n = d # ds @ [digit_char (n mod 10)]" using False ds(1) by (subst decimal.simps) simp
    then show ?thesis by (rule "1.prems") (use ds in auto)
  qed
qed

lemma takeWhile_decimal:
  assumes "rest = [] \<or> \<not> isdigit (hd rest)"
  shows "takeWhile isdigit (decimal n @ rest) = decimal n"
  using decimal_digits [of n] assms by (cases rest) (auto simp: takeWhile_append)

lemma scan_decimal:
  assumes "rest = [] \<or> \<not> isdigit (hd rest)"
  shows "scan_number (decimal n @ rest) = Some (False, n)"
proof -
  obtain d ds where ds: "decimal n = d # ds" "\<not> isspace d" "d \<noteq> 0x2D" "d \<noteq> 0x2B" "isdigit d"
    by (rule decimal_cons)
  have 1: "dropWhile isspace (decimal n @ rest) = decimal n @ rest" using ds by simp
  have 2: "hd (decimal n @ rest) = d" using ds by simp
  show ?thesis unfolding scan_number_def 1 2 Let_def using ds(3,4) takeWhile_decimal [OF assms, of n] decimal_not_Nil [of n] by simp
qed

lemma scan_decimal_int:
  assumes "rest = [] \<or> \<not> isdigit (hd rest)"
  shows "scan_number (decimal_int x @ rest) = Some (x < 0, nat \<bar>x\<bar>)"
proof (cases "x < 0")
  case True
  then show ?thesis using takeWhile_decimal [OF assms, of "nat (- x)"]
    by (simp add: decimal_int_def scan_number_def Let_def isspace_def)
next
  case False
  then show ?thesis using scan_decimal [OF assms] by (simp add: decimal_int_def)
qed

end
