(* ===== verification/JsonTable.thy ===== *)
theory JsonTable imports CLib begin

text \<open>
  The tables of \<^verbatim>\<open>src/src/json/json_parser.cpp\<close>: character classes, states, actions and
  the state transition table, row by row as in the source. \<open>Bad\<close> is the source's \<open>__\<close> (-1), the
  universal error code; the unnamed negative codes -2 to -9 are
  \<open>A_2\<close> to \<open>A_9\<close>, and the action \<open>EX\<close> is \<open>A_EX\<close> (\<open>EX\<close> is a keyword of HOL).
\<close>

datatype jclass =
    C_SPACE | C_WHITE | C_LCURB | C_RCURB | C_LSQRB | C_RSQRB | C_COLON | C_COMMA
  | C_QUOTE | C_BACKS | C_SLASH | C_PLUS | C_MINUS | C_POINT | C_ZERO | C_DIGIT
  | C_LOW_A | C_LOW_B | C_LOW_C | C_LOW_D | C_LOW_E | C_LOW_F | C_LOW_L | C_LOW_N
  | C_LOW_R | C_LOW_S | C_LOW_T | C_LOW_U | C_ABCDF | C_E | C_ETC | C_STAR

datatype jstate =
    GO | OK | OB | KE | CO | VA | AR | ST | ES | U1 | U2 | U3 | U4 | MI | ZE | IT | FR
  | E1 | E2 | E3 | T1 | T2 | T3 | F1 | F2 | F3 | F4 | N1 | N2 | N3 | C1 | C2 | C3 | FX | D1 | D2

datatype jaction =
    CB | CE | FA | TR | NU | DE | DF | SB | MX | ZX | IX | A_EX | UC
  | A_9 | A_8 | A_7 | A_6 | A_5 | A_4 | A_3 | A_2

datatype jentry = To jstate | Do jaction | Bad

datatype jmode = MODE_ARRAY | MODE_DONE | MODE_KEY | MODE_OBJECT

definition all_classes :: "jclass list" where
  "all_classes =
    [C_SPACE, C_WHITE, C_LCURB, C_RCURB, C_LSQRB, C_RSQRB, C_COLON, C_COMMA,
     C_QUOTE, C_BACKS, C_SLASH, C_PLUS, C_MINUS, C_POINT, C_ZERO, C_DIGIT,
     C_LOW_A, C_LOW_B, C_LOW_C, C_LOW_D, C_LOW_E, C_LOW_F, C_LOW_L, C_LOW_N,
     C_LOW_R, C_LOW_S, C_LOW_T, C_LOW_U, C_ABCDF, C_E, C_ETC, C_STAR]"

definition all_states :: "jstate list" where
  "all_states =
    [GO, OK, OB, KE, CO, VA, AR, ST, ES, U1, U2, U3, U4, MI, ZE, IT, FR, E1, E2, E3,
     T1, T2, T3, F1, F2, F3, F4, N1, N2, N3, C1, C2, C3, FX, D1, D2]"

text \<open>The numbers of the enumerators, in their order of declaration.\<close>

fun class_no :: "jclass \<Rightarrow> nat" where
  "class_no C_SPACE = 0"
| "class_no C_WHITE = 1"
| "class_no C_LCURB = 2"
| "class_no C_RCURB = 3"
| "class_no C_LSQRB = 4"
| "class_no C_RSQRB = 5"
| "class_no C_COLON = 6"
| "class_no C_COMMA = 7"
| "class_no C_QUOTE = 8"
| "class_no C_BACKS = 9"
| "class_no C_SLASH = 10"
| "class_no C_PLUS = 11"
| "class_no C_MINUS = 12"
| "class_no C_POINT = 13"
| "class_no C_ZERO = 14"
| "class_no C_DIGIT = 15"
| "class_no C_LOW_A = 16"
| "class_no C_LOW_B = 17"
| "class_no C_LOW_C = 18"
| "class_no C_LOW_D = 19"
| "class_no C_LOW_E = 20"
| "class_no C_LOW_F = 21"
| "class_no C_LOW_L = 22"
| "class_no C_LOW_N = 23"
| "class_no C_LOW_R = 24"
| "class_no C_LOW_S = 25"
| "class_no C_LOW_T = 26"
| "class_no C_LOW_U = 27"
| "class_no C_ABCDF = 28"
| "class_no C_E = 29"
| "class_no C_ETC = 30"
| "class_no C_STAR = 31"

text \<open>\<open>ascii_class\<close>: the class of each ASCII character, \<open>None\<close> for the source's \<open>__\<close>.\<close>

definition ascii_class :: "jclass option list" where
  "ascii_class =
    [None, None, None, None, None, None, None, None,
     None, Some C_WHITE, Some C_WHITE, None, None, Some C_WHITE, None, None,
     None, None, None, None, None, None, None, None,
     None, None, None, None, None, None, None, None,
     Some C_SPACE, Some C_ETC, Some C_QUOTE, Some C_ETC, Some C_ETC, Some C_ETC, Some C_ETC, Some C_ETC,
     Some C_ETC, Some C_ETC, Some C_STAR, Some C_PLUS, Some C_COMMA, Some C_MINUS, Some C_POINT, Some C_SLASH,
     Some C_ZERO, Some C_DIGIT, Some C_DIGIT, Some C_DIGIT, Some C_DIGIT, Some C_DIGIT, Some C_DIGIT, Some C_DIGIT,
     Some C_DIGIT, Some C_DIGIT, Some C_COLON, Some C_ETC, Some C_ETC, Some C_ETC, Some C_ETC, Some C_ETC,
     Some C_ETC, Some C_ABCDF, Some C_ABCDF, Some C_ABCDF, Some C_ABCDF, Some C_E, Some C_ABCDF, Some C_ETC,
     Some C_ETC, Some C_ETC, Some C_ETC, Some C_ETC, Some C_ETC, Some C_ETC, Some C_ETC, Some C_ETC,
     Some C_ETC, Some C_ETC, Some C_ETC, Some C_ETC, Some C_ETC, Some C_ETC, Some C_ETC, Some C_ETC,
     Some C_ETC, Some C_ETC, Some C_ETC, Some C_LSQRB, Some C_BACKS, Some C_RSQRB, Some C_ETC, Some C_ETC,
     Some C_ETC, Some C_LOW_A, Some C_LOW_B, Some C_LOW_C, Some C_LOW_D, Some C_LOW_E, Some C_LOW_F, Some C_ETC,
     Some C_ETC, Some C_ETC, Some C_ETC, Some C_ETC, Some C_LOW_L, Some C_ETC, Some C_LOW_N, Some C_ETC,
     Some C_ETC, Some C_ETC, Some C_LOW_R, Some C_LOW_S, Some C_LOW_T, Some C_LOW_U, Some C_ETC, Some C_ETC,
     Some C_ETC, Some C_ETC, Some C_ETC, Some C_LCURB, Some C_ETC, Some C_RCURB, Some C_ETC, Some C_ETC]"

text \<open>\<open>state_transition_table\<close>: one row per state, one entry per class.\<close>

fun state_row :: "jstate \<Rightarrow> jentry list" where
  "state_row GO =
     [To GO, To GO, Do A_6, Bad, Do A_5, Bad, Bad, Bad, Bad, Bad, Do CB, Bad, Bad, Bad, Bad,
      Bad, Bad, Bad, Bad, Bad, Bad, Bad, Bad, Bad, Bad, Bad, Bad, Bad, Bad, Bad, Bad, Bad]"
| "state_row OK =
     [To OK, To OK, Bad, Do A_8, Bad, Do A_7, Bad, Do A_3, Bad, Bad, Do CB, Bad, Bad, Bad, Bad,
      Bad, Bad, Bad, Bad, Bad, Bad, Bad, Bad, Bad, Bad, Bad, Bad, Bad, Bad, Bad, Bad, Bad]"
| "state_row OB =
     [To OB, To OB, Bad, Do A_9, Bad, Bad, Bad, Bad, Do SB, Bad, Do CB, Bad, Bad, Bad, Bad, Bad,
      Bad, Bad, Bad, Bad, Bad, Bad, Bad, Bad, Bad, Bad, Bad, Bad, Bad, Bad, Bad, Bad]"
| "state_row KE =
     [To KE, To KE, Bad, Bad, Bad, Bad, Bad, Bad, Do SB, Bad, Do CB, Bad, Bad, Bad, Bad, Bad,
      Bad, Bad, Bad, Bad, Bad, Bad, Bad, Bad, Bad, Bad, Bad, Bad, Bad, Bad, Bad, Bad]"
| "state_row CO =
     [To CO, To CO, Bad, Bad, Bad, Bad, Do A_2, Bad, Bad, Bad, Do CB, Bad, Bad, Bad, Bad, Bad,
      Bad, Bad, Bad, Bad, Bad, Bad, Bad, Bad, Bad, Bad, Bad, Bad, Bad, Bad, Bad, Bad]"
| "state_row VA =
     [To VA, To VA, Do A_6, Bad, Do A_5, Bad, Bad, Bad, Do SB, Bad, Do CB, Bad, Do MX, Bad, Do
      ZX, Do IX, Bad, Bad, Bad, Bad, Bad, Do FA, Bad, Do NU, Bad, Bad, Do TR, Bad, Bad, Bad,
      Bad, Bad]"
| "state_row AR =
     [To AR, To AR, Do A_6, Bad, Do A_5, Do A_7, Bad, Bad, Do SB, Bad, Do CB, Bad, Do MX, Bad,
      Do ZX, Do IX, Bad, Bad, Bad, Bad, Bad, Do FA, Bad, Do NU, Bad, Bad, Do TR, Bad, Bad, Bad,
      Bad, Bad]"
| "state_row ST =
     [To ST, Bad, To ST, To ST, To ST, To ST, To ST, To ST, Do A_4, Do A_EX, To ST, To ST, To ST,
      To ST, To ST, To ST, To ST, To ST, To ST, To ST, To ST, To ST, To ST, To ST, To ST, To ST,
      To ST, To ST, To ST, To ST, To ST, To ST]"
| "state_row ES =
     [Bad, Bad, Bad, Bad, Bad, Bad, Bad, Bad, To ST, To ST, To ST, Bad, Bad, Bad, Bad, Bad, Bad,
      To ST, Bad, Bad, Bad, To ST, Bad, To ST, To ST, Bad, To ST, To U1, Bad, Bad, Bad, Bad]"
| "state_row U1 =
     [Bad, Bad, Bad, Bad, Bad, Bad, Bad, Bad, Bad, Bad, Bad, Bad, Bad, Bad, To U2, To U2, To U2,
      To U2, To U2, To U2, To U2, To U2, Bad, Bad, Bad, Bad, Bad, Bad, To U2, To U2, Bad, Bad]"
| "state_row U2 =
     [Bad, Bad, Bad, Bad, Bad, Bad, Bad, Bad, Bad, Bad, Bad, Bad, Bad, Bad, To U3, To U3, To U3,
      To U3, To U3, To U3, To U3, To U3, Bad, Bad, Bad, Bad, Bad, Bad, To U3, To U3, Bad, Bad]"
| "state_row U3 =
     [Bad, Bad, Bad, Bad, Bad, Bad, Bad, Bad, Bad, Bad, Bad, Bad, Bad, Bad, To U4, To U4, To U4,
      To U4, To U4, To U4, To U4, To U4, Bad, Bad, Bad, Bad, Bad, Bad, To U4, To U4, Bad, Bad]"
| "state_row U4 =
     [Bad, Bad, Bad, Bad, Bad, Bad, Bad, Bad, Bad, Bad, Bad, Bad, Bad, Bad, Do UC, Do UC, Do UC,
      Do UC, Do UC, Do UC, Do UC, Do UC, Bad, Bad, Bad, Bad, Bad, Bad, Do UC, Do UC, Bad, Bad]"
| "state_row MI =
     [Bad, Bad, Bad, Bad, Bad, Bad, Bad, Bad, Bad, Bad, Bad, Bad, Bad, Bad, To ZE, To IT, Bad,
      Bad, Bad, Bad, Bad, Bad, Bad, Bad, Bad, Bad, Bad, Bad, Bad, Bad, Bad, Bad]"
| "state_row ZE =
     [To OK, To OK, Bad, Do A_8, Bad, Do A_7, Bad, Do A_3, Bad, Bad, Do CB, Bad, Bad, Do DF,
      Bad, Bad, Bad, Bad, Bad, Bad, Bad, Bad, Bad, Bad, Bad, Bad, Bad, Bad, Bad, Bad, Bad, Bad]"
| "state_row IT =
     [To OK, To OK, Bad, Do A_8, Bad, Do A_7, Bad, Do A_3, Bad, Bad, Do CB, Bad, Bad, Do DF, To
      IT, To IT, Bad, Bad, Bad, Bad, Do DE, Bad, Bad, Bad, Bad, Bad, Bad, Bad, Bad, Do DE, Bad,
      Bad]"
| "state_row FR =
     [To OK, To OK, Bad, Do A_8, Bad, Do A_7, Bad, Do A_3, Bad, Bad, Do CB, Bad, Bad, Bad, To
      FR, To FR, Bad, Bad, Bad, Bad, To E1, Bad, Bad, Bad, Bad, Bad, Bad, Bad, Bad, To E1, Bad,
      Bad]"
| "state_row E1 =
     [Bad, Bad, Bad, Bad, Bad, Bad, Bad, Bad, Bad, Bad, Bad, To E2, To E2, Bad, To E3, To E3,
      Bad, Bad, Bad, Bad, Bad, Bad, Bad, Bad, Bad, Bad, Bad, Bad, Bad, Bad, Bad, Bad]"
| "state_row E2 =
     [Bad, Bad, Bad, Bad, Bad, Bad, Bad, Bad, Bad, Bad, Bad, Bad, Bad, Bad, To E3, To E3, Bad,
      Bad, Bad, Bad, Bad, Bad, Bad, Bad, Bad, Bad, Bad, Bad, Bad, Bad, Bad, Bad]"
| "state_row E3 =
     [To OK, To OK, Bad, Do A_8, Bad, Do A_7, Bad, Do A_3, Bad, Bad, Bad, Bad, Bad, Bad, To E3,
      To E3, Bad, Bad, Bad, Bad, Bad, Bad, Bad, Bad, Bad, Bad, Bad, Bad, Bad, Bad, Bad, Bad]"
| "state_row T1 =
     [Bad, Bad, Bad, Bad, Bad, Bad, Bad, Bad, Bad, Bad, Bad, Bad, Bad, Bad, Bad, Bad, Bad, Bad,
      Bad, Bad, Bad, Bad, Bad, Bad, To T2, Bad, Bad, Bad, Bad, Bad, Bad, Bad]"
| "state_row T2 =
     [Bad, Bad, Bad, Bad, Bad, Bad, Bad, Bad, Bad, Bad, Bad, Bad, Bad, Bad, Bad, Bad, Bad, Bad,
      Bad, Bad, Bad, Bad, Bad, Bad, Bad, Bad, Bad, To T3, Bad, Bad, Bad, Bad]"
| "state_row T3 =
     [Bad, Bad, Bad, Bad, Bad, Bad, Bad, Bad, Bad, Bad, Do CB, Bad, Bad, Bad, Bad, Bad, Bad,
      Bad, Bad, Bad, To OK, Bad, Bad, Bad, Bad, Bad, Bad, Bad, Bad, Bad, Bad, Bad]"
| "state_row F1 =
     [Bad, Bad, Bad, Bad, Bad, Bad, Bad, Bad, Bad, Bad, Bad, Bad, Bad, Bad, Bad, Bad, To F2,
      Bad, Bad, Bad, Bad, Bad, Bad, Bad, Bad, Bad, Bad, Bad, Bad, Bad, Bad, Bad]"
| "state_row F2 =
     [Bad, Bad, Bad, Bad, Bad, Bad, Bad, Bad, Bad, Bad, Bad, Bad, Bad, Bad, Bad, Bad, Bad, Bad,
      Bad, Bad, Bad, Bad, To F3, Bad, Bad, Bad, Bad, Bad, Bad, Bad, Bad, Bad]"
| "state_row F3 =
     [Bad, Bad, Bad, Bad, Bad, Bad, Bad, Bad, Bad, Bad, Bad, Bad, Bad, Bad, Bad, Bad, Bad, Bad,
      Bad, Bad, Bad, Bad, Bad, Bad, Bad, To F4, Bad, Bad, Bad, Bad, Bad, Bad]"
| "state_row F4 =
     [Bad, Bad, Bad, Bad, Bad, Bad, Bad, Bad, Bad, Bad, Do CB, Bad, Bad, Bad, Bad, Bad, Bad,
      Bad, Bad, Bad, To OK, Bad, Bad, Bad, Bad, Bad, Bad, Bad, Bad, Bad, Bad, Bad]"
| "state_row N1 =
     [Bad, Bad, Bad, Bad, Bad, Bad, Bad, Bad, Bad, Bad, Bad, Bad, Bad, Bad, Bad, Bad, Bad, Bad,
      Bad, Bad, Bad, Bad, Bad, Bad, Bad, Bad, Bad, To N2, Bad, Bad, Bad, Bad]"
| "state_row N2 =
     [Bad, Bad, Bad, Bad, Bad, Bad, Bad, Bad, Bad, Bad, Bad, Bad, Bad, Bad, Bad, Bad, Bad, Bad,
      Bad, Bad, Bad, Bad, To N3, Bad, Bad, Bad, Bad, Bad, Bad, Bad, Bad, Bad]"
| "state_row N3 =
     [Bad, Bad, Bad, Bad, Bad, Bad, Bad, Bad, Bad, Bad, Do CB, Bad, Bad, Bad, Bad, Bad, Bad,
      Bad, Bad, Bad, Bad, Bad, To OK, Bad, Bad, Bad, Bad, Bad, Bad, Bad, Bad, Bad]"
| "state_row C1 =
     [Bad, Bad, Bad, Bad, Bad, Bad, Bad, Bad, Bad, Bad, Bad, Bad, Bad, Bad, Bad, Bad, Bad, Bad,
      Bad, Bad, Bad, Bad, Bad, Bad, Bad, Bad, Bad, Bad, Bad, Bad, Bad, To C2]"
| "state_row C2 =
     [To C2, To C2, To C2, To C2, To C2, To C2, To C2, To C2, To C2, To C2, To C2, To C2, To C2,
      To C2, To C2, To C2, To C2, To C2, To C2, To C2, To C2, To C2, To C2, To C2, To C2, To C2,
      To C2, To C2, To C2, To C2, To C2, To C3]"
| "state_row C3 =
     [To C2, To C2, To C2, To C2, To C2, To C2, To C2, To C2, To C2, To C2, Do CE, To C2, To C2,
      To C2, To C2, To C2, To C2, To C2, To C2, To C2, To C2, To C2, To C2, To C2, To C2, To C2,
      To C2, To C2, To C2, To C2, To C2, To C3]"
| "state_row FX =
     [To OK, To OK, Bad, Do A_8, Bad, Do A_7, Bad, Do A_3, Bad, Bad, Bad, Bad, Bad, Bad, To FR,
      To FR, Bad, Bad, Bad, Bad, To E1, Bad, Bad, Bad, Bad, Bad, Bad, Bad, Bad, To E1, Bad, Bad]"
| "state_row D1 =
     [Bad, Bad, Bad, Bad, Bad, Bad, Bad, Bad, Bad, To D2, Bad, Bad, Bad, Bad, Bad, Bad, Bad,
      Bad, Bad, Bad, Bad, Bad, Bad, Bad, Bad, Bad, Bad, Bad, Bad, Bad, Bad, Bad]"
| "state_row D2 =
     [Bad, Bad, Bad, Bad, Bad, Bad, Bad, Bad, Bad, Bad, Bad, Bad, Bad, Bad, Bad, Bad, Bad, Bad,
      Bad, Bad, Bad, Bad, Bad, Bad, Bad, Bad, Bad, To U1, Bad, Bad, Bad, Bad]"

definition state_transition_table :: "jstate \<Rightarrow> jclass \<Rightarrow> jentry" where
  "state_transition_table s c = state_row s ! class_no c"

section \<open>Reasoning over the whole table\<close>

lemma in_all_classes [simp]: "c \<in> set all_classes"
  by (cases c) (simp_all add: all_classes_def)

lemma in_all_states [simp]: "s \<in> set all_states"
  by (cases s) (simp_all add: all_states_def)

lemma class_no_less [simp]: "class_no c < 32"
  by (cases c) simp_all

lemma length_state_row [simp]: "length (state_row s) = 32"
  by (cases s) simp_all

text \<open>A property of all entries is decided by evaluating it on the 36 * 32 entries.\<close>

lemma table_check:
  assumes "list_all (\<lambda>s. list_all (\<lambda>c. P s c (state_transition_table s c)) all_classes) all_states"
  shows "P s c (state_transition_table s c)"
  using assms in_all_states [of s] in_all_classes [of c] unfolding list_all_iff by blast

end
