(* ===== verification/JsonParser.thy ===== *)
theory JsonParser imports JsonTable begin

text \<open>
  The push parser of \<^verbatim>\<open>src/src/json/json_parser.cpp\<close>: the parser object, its mode
  stack and its parse buffer, every case of the switch of \<open>JSON_parser_char\<close> as a definition of
  its own, and the functions of the interface in \<^verbatim>\<open>json_parser.h\<close>.

  The two arrays that may live inside the object or on the heap are lists of the cells written so
  far, with their capacity and a flag for the heap. A read of a cell the parser never wrote counts
  as \<open>Undefined\<close>, also where the object's \<open>memset\<close> has zeroed it. Allocation succeeds, and sizes
  are unbounded: the parser doubles them, so they stay below \<open>2 ^ 63\<close> in any memory.
\<close>

section \<open>Data\<close>

datatype jtype =
    JSON_T_NONE | JSON_T_ARRAY_BEGIN | JSON_T_ARRAY_END | JSON_T_OBJECT_BEGIN | JSON_T_OBJECT_END
  | JSON_T_INTEGER | JSON_T_FLOAT | JSON_T_NULL | JSON_T_TRUE | JSON_T_FALSE | JSON_T_STRING | JSON_T_KEY

text \<open>
  \<open>JSON_value\<close>: a floating point value is kept as the text given to \<open>strtod\<close>; a string as the
  bytes between its pointer and its length.
\<close>

datatype jvalue = JV_integer int | JV_strtod "u8 list" | JV_str "u8 list"

text \<open>The callback answers whether parsing goes on, and changes what its context points to.\<close>

type_synonym 'c jcallback = "jtype \<Rightarrow> jvalue option \<Rightarrow> 'c \<Rightarrow> (bool \<times> 'c) res"

record 'c jconfig =
  cfg_callback :: "'c jcallback option"
  cfg_callback_ctx :: 'c
  cfg_depth :: int
  cfg_allow_comments :: int
  cfg_handle_floats_manually :: int

record 'c jparser =
  jc_callback :: "'c jcallback option"
  jc_ctx :: 'c
  jc_state :: jstate
  jc_before_comment_state :: jstate
  jc_type :: jtype
  jc_escaped :: bool
  jc_comment :: bool
  jc_allow_comments :: bool
  jc_handle_floats_manually :: bool
  jc_utf16_high_surrogate :: u16
  jc_depth :: int
  jc_top :: int
  jc_stack :: "jmode list"
  jc_stack_heap :: bool
  jc_stack_capacity :: int
  jc_decimal_point :: u8
  jc_parse_buffer :: "u8 list"
  jc_parse_buffer_heap :: bool
  jc_parse_buffer_capacity :: nat
  jc_parse_buffer_count :: nat

definition JSON_PARSER_STACK_SIZE :: nat where
  "JSON_PARSER_STACK_SIZE = 128"

definition JSON_PARSER_PARSE_BUFFER_SIZE :: nat where
  "JSON_PARSER_PARSE_BUFFER_SIZE = 3500"

section \<open>The mode stack\<close>

definition stack_cells :: "'c jparser \<Rightarrow> nat" where
  "stack_cells jc = (if jc_stack_heap jc then nat (jc_stack_capacity jc) else JSON_PARSER_STACK_SIZE)"

definition grow_stack :: "'c jparser \<Rightarrow> 'c jparser" where
  "grow_stack jc = jc\<lparr>jc_stack_capacity := jc_stack_capacity jc * 2,
     jc_stack := (if jc_stack_heap jc then jc_stack jc else take JSON_PARSER_STACK_SIZE (jc_stack jc)),
     jc_stack_heap := True\<rparr>"

definition store_mode :: "'c jparser \<Rightarrow> jmode \<Rightarrow> (bool \<times> 'c jparser) res" where
  "store_mode jc mode =
     (if jc_top jc < 0 then Inl Undefined
      else seq (poke (stack_cells jc) (nat (jc_top jc)) mode (jc_stack jc)) (\<lambda>st.
        Inr (True, jc\<lparr>jc_stack := st\<rparr>)))"

definition read_mode :: "'c jparser \<Rightarrow> jmode res" where
  "read_mode jc = (if jc_top jc < 0 then Inl Undefined else peek (nat (jc_top jc)) (jc_stack jc))"

definition push :: "'c jparser \<Rightarrow> jmode \<Rightarrow> (bool \<times> 'c jparser) res" where
  "push jc0 mode =
     (let jc = jc0\<lparr>jc_top := jc_top jc0 + 1\<rparr>
      in if jc_depth jc < 0 then
           store_mode (if jc_stack_capacity jc \<le> jc_top jc then grow_stack jc else jc) mode
         else if jc_depth jc \<le> jc_top jc then Inr (False, jc)
         else store_mode jc mode)"

definition pop :: "'c jparser \<Rightarrow> jmode \<Rightarrow> (bool \<times> 'c jparser) res" where
  "pop jc mode =
     (if jc_top jc < 0 then Inr (False, jc)
      else seq (read_mode jc) (\<lambda>m.
        if m \<noteq> mode then Inr (False, jc) else Inr (True, jc\<lparr>jc_top := jc_top jc - 1\<rparr>)))"

section \<open>The parse buffer\<close>

definition buffer_store :: "'c jparser \<Rightarrow> nat \<Rightarrow> u8 \<Rightarrow> 'c jparser res" where
  "buffer_store jc i c =
     seq (poke (jc_parse_buffer_capacity jc) i c (jc_parse_buffer jc)) (\<lambda>b. Inr (jc\<lparr>jc_parse_buffer := b\<rparr>))"

definition parse_buffer_clear :: "'c jparser \<Rightarrow> 'c jparser res" where
  "parse_buffer_clear jc = buffer_store (jc\<lparr>jc_parse_buffer_count := 0\<rparr>) 0 0"

definition parse_buffer_pop_back_char :: "'c jparser \<Rightarrow> 'c jparser res" where
  "parse_buffer_pop_back_char jc =
     seq (check (1 \<le> jc_parse_buffer_count jc)) (\<lambda>_.
       let n = jc_parse_buffer_count jc - 1
       in buffer_store (jc\<lparr>jc_parse_buffer_count := n\<rparr>) n 0)"

text \<open>The copy to a first heap block takes \<open>count\<close> bytes, without the terminating NUL.\<close>

definition grow_parse_buffer :: "'c jparser \<Rightarrow> 'c jparser" where
  "grow_parse_buffer jc = jc\<lparr>jc_parse_buffer_capacity := jc_parse_buffer_capacity jc * 2,
     jc_parse_buffer := (if jc_parse_buffer_heap jc then jc_parse_buffer jc
                         else take (jc_parse_buffer_count jc) (jc_parse_buffer jc)),
     jc_parse_buffer_heap := True\<rparr>"

definition parse_buffer_push_back_char :: "'c jparser \<Rightarrow> u8 \<Rightarrow> 'c jparser res" where
  "parse_buffer_push_back_char jc0 c =
     (let jc = (if jc_parse_buffer_capacity jc0 \<le> jc_parse_buffer_count jc0 + 1
                then grow_parse_buffer jc0 else jc0);
          n = jc_parse_buffer_count jc
      in seq (buffer_store jc n c) (\<lambda>jc.
         buffer_store (jc\<lparr>jc_parse_buffer_count := n + 1\<rparr>) (n + 1) 0))"

text \<open>The C string in the buffer: the bytes before the first NUL.\<close>

definition c_string :: "u8 list \<Rightarrow> u8 list res" where
  "c_string b = (if 0 \<in> set b then Inr (takeWhile (\<lambda>c. c \<noteq> 0) b) else Inl Undefined)"

section \<open>Calling back\<close>

definition call_back :: "'c jparser \<Rightarrow> jtype \<Rightarrow> jvalue option \<Rightarrow> (bool \<times> 'c jparser) res" where
  "call_back jc t v = (case jc_callback jc of None \<Rightarrow> Inr (True, jc)
     | Some f \<Rightarrow> seq (f t v (jc_ctx jc)) (\<lambda>(b, c). Inr (b, jc\<lparr>jc_ctx := c\<rparr>)))"

definition is_non_container_type :: "jtype \<Rightarrow> bool" where
  "is_non_container_type t \<longleftrightarrow> t \<in> {JSON_T_NULL, JSON_T_FALSE, JSON_T_TRUE, JSON_T_FLOAT, JSON_T_INTEGER, JSON_T_STRING}"

definition buffer_text :: "'c jparser \<Rightarrow> u8 list" where
  "buffer_text jc = take (jc_parse_buffer_count jc) (jc_parse_buffer jc)"

definition value_arg :: "'c jparser \<Rightarrow> jvalue option res" where
  "value_arg jc = (case jc_type jc of
       JSON_T_FLOAT \<Rightarrow>
         if jc_handle_floats_manually jc then Inr (Some (JV_str (buffer_text jc)))
         else seq (c_string (jc_parse_buffer jc)) (\<lambda>s. Inr (Some (JV_strtod s)))
     | JSON_T_INTEGER \<Rightarrow>
         seq (c_string (jc_parse_buffer jc)) (\<lambda>s.
           case sscanf_ld s of None \<Rightarrow> Inl Undefined | Some n \<Rightarrow> Inr (Some (JV_integer n)))
     | JSON_T_STRING \<Rightarrow> Inr (Some (JV_str (buffer_text jc)))
     | _ \<Rightarrow> Inr None)"

definition parse_parse_buffer :: "'c jparser \<Rightarrow> (bool \<times> 'c jparser) res" where
  "parse_parse_buffer jc =
     if_ok (if jc_callback jc \<noteq> None \<and> jc_type jc \<noteq> JSON_T_NONE then
              seq (check (is_non_container_type (jc_type jc))) (\<lambda>_.
              seq (value_arg jc) (\<lambda>arg.
              call_back jc (jc_type jc) arg))
            else Inr (True, jc))
       (\<lambda>jc. seq (parse_buffer_clear jc) (\<lambda>jc. Inr (True, jc)))"

section \<open>Escapes\<close>

definition is_high_surrogate :: "u32 \<Rightarrow> bool" where
  "is_high_surrogate uc \<longleftrightarrow> uc AND 0xFC00 = 0xD800"

definition is_low_surrogate :: "u32 \<Rightarrow> bool" where
  "is_low_surrogate uc \<longleftrightarrow> uc AND 0xFC00 = 0xDC00"

definition decode_surrogate_pair :: "u32 \<Rightarrow> u32 \<Rightarrow> u32" where
  "decode_surrogate_pair hi lo = push_bit 10 (hi AND 0x3FF) + (lo AND 0x3FF) + 0x10000"

definition utf8_lead_bits :: "u32 list" where
  "utf8_lead_bits = [0x00, 0xC0, 0xE0, 0xF0]"

definition hex_value :: "u8 \<Rightarrow> u32" where
  "hex_value c =
     (let x = (word_of_int (char_int c) :: u32)
      in if 0x61 \<le> x then x - (0x61 - 10) else if 0x41 \<le> x then x - (0x41 - 10) else x AND NOT 0x30)"

text \<open>The loop over the four digits: the shifts still to do, the read position, the value so far.\<close>

fun hex_loop :: "u8 list \<Rightarrow> nat list \<Rightarrow> nat \<Rightarrow> u32 \<Rightarrow> u32 res" where
  "hex_loop b [] p uc = Inr uc"
| "hex_loop b (i # is) p uc =
     seq (peek p b) (\<lambda>c.
     seq (check (hex_value c < 16)) (\<lambda>_.
     hex_loop b is (p + 1) (uc OR push_bit i (hex_value c))))"

definition utf8_bytes :: "u32 \<Rightarrow> nat \<Rightarrow> u8 list" where
  "utf8_bytes uc trail_bytes =
     ucast (drop_bit (trail_bytes * 6) uc OR utf8_lead_bits ! trail_bytes)
     # map (\<lambda>k. ucast (drop_bit (6 * k) uc AND 0x3F OR 0x80)) (rev [0..<trail_bytes])"

fun store_bytes :: "'c jparser \<Rightarrow> u8 list \<Rightarrow> 'c jparser res" where
  "store_bytes jc [] = buffer_store jc (jc_parse_buffer_count jc) 0"
| "store_bytes jc (c # cs) =
     seq (buffer_store jc (jc_parse_buffer_count jc) c) (\<lambda>jc.
     store_bytes (jc\<lparr>jc_parse_buffer_count := jc_parse_buffer_count jc + 1\<rparr>) cs)"

definition put_utf8 :: "'c jparser \<Rightarrow> u32 \<Rightarrow> nat \<Rightarrow> (bool \<times> 'c jparser) res" where
  "put_utf8 jc uc trail_bytes = seq (store_bytes jc (utf8_bytes uc trail_bytes)) (\<lambda>jc. Inr (True, jc))"

definition decode_unicode_char :: "'c jparser \<Rightarrow> (bool \<times> 'c jparser) res" where
  "decode_unicode_char jc =
     seq (check (6 \<le> jc_parse_buffer_count jc)) (\<lambda>_.
     seq (hex_loop (jc_parse_buffer jc) [12, 8, 4, 0] (jc_parse_buffer_count jc - 4) 0) (\<lambda>uc.
     let n = jc_parse_buffer_count jc - 6
     in seq (buffer_store (jc\<lparr>jc_parse_buffer_count := n\<rparr>) n 0) (\<lambda>jc.
        if jc_utf16_high_surrogate jc \<noteq> 0 then
          if is_low_surrogate uc then
            put_utf8 (jc\<lparr>jc_utf16_high_surrogate := 0\<rparr>)
              (decode_surrogate_pair (ucast (jc_utf16_high_surrogate jc)) uc) 3
          else Inr (False, jc)
        else if uc < 0x80 then put_utf8 jc uc 0
        else if uc < 0x800 then put_utf8 jc uc 1
        else if is_high_surrogate uc then Inr (True, jc\<lparr>jc_utf16_high_surrogate := ucast uc\<rparr>)
        else if is_low_surrogate uc then Inr (False, jc)
        else put_utf8 jc uc 2)))"

text \<open>The bytes that stand for an escape character in the buffer; \<open>\u\<close> stays as it is.\<close>

definition escape_bytes :: "int \<Rightarrow> u8 list option" where
  "escape_bytes next_char =
     (if next_char = 0x62 then Some [8]
      else if next_char = 0x66 then Some [12]
      else if next_char = 0x6E then Some [10]
      else if next_char = 0x72 then Some [13]
      else if next_char = 0x74 then Some [9]
      else if next_char = 0x22 then Some [0x22]
      else if next_char = 0x5C then Some [0x5C]
      else if next_char = 0x2F then Some [0x2F]
      else if next_char = 0x75 then Some [0x5C, 0x75]
      else None)"

fun push_back_chars :: "'c jparser \<Rightarrow> u8 list \<Rightarrow> 'c jparser res" where
  "push_back_chars jc [] = Inr jc"
| "push_back_chars jc (c # cs) = seq (parse_buffer_push_back_char jc c) (\<lambda>jc. push_back_chars jc cs)"

definition add_escaped_char_to_parse_buffer :: "'c jparser \<Rightarrow> int \<Rightarrow> (bool \<times> 'c jparser) res" where
  "add_escaped_char_to_parse_buffer jc next_char =
     seq (parse_buffer_pop_back_char (jc\<lparr>jc_escaped := False\<rparr>)) (\<lambda>jc.
     case escape_bytes next_char of
       None \<Rightarrow> Inr (False, jc)
     | Some cs \<Rightarrow> seq (push_back_chars jc cs) (\<lambda>jc. Inr (True, jc)))"

definition add_char_to_parse_buffer :: "'c jparser \<Rightarrow> int \<Rightarrow> jclass \<Rightarrow> (bool \<times> 'c jparser) res" where
  "add_char_to_parse_buffer jc next_char next_class =
     (if jc_escaped jc then add_escaped_char_to_parse_buffer jc next_char
      else if \<not> jc_comment jc \<and>
          (jc_type jc \<noteq> JSON_T_NONE \<or> \<not> (next_class = C_SPACE \<or> next_class = C_WHITE)) then
        seq (parse_buffer_push_back_char jc (word_of_int next_char)) (\<lambda>jc. Inr (True, jc))
      else Inr (True, jc))"

section \<open>The actions of the transition table\<close>

definition act_UC :: "'c jparser \<Rightarrow> (bool \<times> 'c jparser) res" where
  "act_UC jc = if_ok (decode_unicode_char jc) (\<lambda>jc.
     Inr (True, jc\<lparr>jc_state := (if jc_utf16_high_surrogate jc \<noteq> 0 then D1 else ST)\<rparr>))"

definition act_EX :: "'c jparser \<Rightarrow> (bool \<times> 'c jparser) res" where
  "act_EX jc = Inr (True, jc\<lparr>jc_escaped := True, jc_state := ES\<rparr>)"

definition act_MX :: "'c jparser \<Rightarrow> (bool \<times> 'c jparser) res" where
  "act_MX jc = Inr (True, jc\<lparr>jc_type := JSON_T_INTEGER, jc_state := MI\<rparr>)"

definition act_ZX :: "'c jparser \<Rightarrow> (bool \<times> 'c jparser) res" where
  "act_ZX jc = Inr (True, jc\<lparr>jc_type := JSON_T_INTEGER, jc_state := ZE\<rparr>)"

definition act_IX :: "'c jparser \<Rightarrow> (bool \<times> 'c jparser) res" where
  "act_IX jc = Inr (True, jc\<lparr>jc_type := JSON_T_INTEGER, jc_state := IT\<rparr>)"

definition isnt_string_null_or_bool :: "jtype \<Rightarrow> bool" where
  "isnt_string_null_or_bool t \<longleftrightarrow>
     t \<noteq> JSON_T_FALSE \<and> t \<noteq> JSON_T_TRUE \<and> t \<noteq> JSON_T_NULL \<and> t \<noteq> JSON_T_STRING"

definition act_DE :: "'c jparser \<Rightarrow> (bool \<times> 'c jparser) res" where
  "act_DE jc = seq (check (isnt_string_null_or_bool (jc_type jc))) (\<lambda>_.
     Inr (True, jc\<lparr>jc_type := JSON_T_FLOAT, jc_state := E1\<rparr>))"

text \<open>An index \<open>count - 1\<close> below zero is outside the buffer.\<close>

definition localize_point :: "'c jparser \<Rightarrow> 'c jparser res" where
  "localize_point jc =
     (let n = jc_parse_buffer_count jc
      in if n = 0 then Inl Undefined
         else seq (peek (n - 1) (jc_parse_buffer jc)) (\<lambda>c.
              seq (check (c = 0x2E)) (\<lambda>_.
              buffer_store jc (n - 1) (jc_decimal_point jc))))"

definition act_DF :: "'c jparser \<Rightarrow> (bool \<times> 'c jparser) res" where
  "act_DF jc = seq (check (isnt_string_null_or_bool (jc_type jc))) (\<lambda>_.
     seq (if \<not> jc_handle_floats_manually jc then localize_point jc else Inr jc) (\<lambda>jc.
     Inr (True, jc\<lparr>jc_type := JSON_T_FLOAT, jc_state := FX\<rparr>)))"

definition act_SB :: "'c jparser \<Rightarrow> (bool \<times> 'c jparser) res" where
  "act_SB jc = seq (parse_buffer_clear jc) (\<lambda>jc.
     seq (check (jc_type jc = JSON_T_NONE)) (\<lambda>_.
     Inr (True, jc\<lparr>jc_type := JSON_T_STRING, jc_state := ST\<rparr>)))"

definition act_NU :: "'c jparser \<Rightarrow> (bool \<times> 'c jparser) res" where
  "act_NU jc = seq (check (jc_type jc = JSON_T_NONE)) (\<lambda>_.
     Inr (True, jc\<lparr>jc_type := JSON_T_NULL, jc_state := N1\<rparr>))"

definition act_FA :: "'c jparser \<Rightarrow> (bool \<times> 'c jparser) res" where
  "act_FA jc = seq (check (jc_type jc = JSON_T_NONE)) (\<lambda>_.
     Inr (True, jc\<lparr>jc_type := JSON_T_FALSE, jc_state := F1\<rparr>))"

definition act_TR :: "'c jparser \<Rightarrow> (bool \<times> 'c jparser) res" where
  "act_TR jc = seq (check (jc_type jc = JSON_T_NONE)) (\<lambda>_.
     Inr (True, jc\<lparr>jc_type := JSON_T_TRUE, jc_state := T1\<rparr>))"

definition act_CE :: "'c jparser \<Rightarrow> (bool \<times> 'c jparser) res" where
  "act_CE jc0 =
     (let jc = jc0\<lparr>jc_comment := False\<rparr>
      in seq (check (jc_parse_buffer_count jc = 0)) (\<lambda>_.
         seq (check (jc_type jc = JSON_T_NONE)) (\<lambda>_.
         Inr (True, jc\<lparr>jc_state := jc_before_comment_state jc\<rparr>))))"

definition comment_return_state :: "jmode \<Rightarrow> jstate \<Rightarrow> jstate" where
  "comment_return_state m s =
     (if m = MODE_ARRAY \<or> m = MODE_OBJECT then (if s = VA \<or> s = AR then s else OK) else s)"

definition act_CB :: "'c jparser \<Rightarrow> (bool \<times> 'c jparser) res" where
  "act_CB jc =
     (if \<not> jc_allow_comments jc then Inr (False, jc)
      else seq (parse_buffer_pop_back_char jc) (\<lambda>jc.
        if_ok (parse_parse_buffer jc) (\<lambda>jc.
        seq (check (jc_parse_buffer_count jc = 0)) (\<lambda>_.
        seq (check (jc_type jc \<noteq> JSON_T_STRING)) (\<lambda>_.
        seq (read_mode jc) (\<lambda>m.
        Inr (True, jc\<lparr>jc_before_comment_state := comment_return_state m (jc_state jc),
          jc_type := JSON_T_NONE, jc_state := C1, jc_comment := True\<rparr>)))))))"

definition act_9 :: "'c jparser \<Rightarrow> (bool \<times> 'c jparser) res" where
  "act_9 jc = seq (parse_buffer_clear jc) (\<lambda>jc.
     if_ok (call_back jc JSON_T_OBJECT_END None) (\<lambda>jc.
     if_ok (pop jc MODE_KEY) (\<lambda>jc.
     Inr (True, jc\<lparr>jc_state := OK\<rparr>))))"

definition act_8 :: "'c jparser \<Rightarrow> (bool \<times> 'c jparser) res" where
  "act_8 jc = seq (parse_buffer_pop_back_char jc) (\<lambda>jc.
     if_ok (parse_parse_buffer jc) (\<lambda>jc.
     if_ok (call_back jc JSON_T_OBJECT_END None) (\<lambda>jc.
     if_ok (pop jc MODE_OBJECT) (\<lambda>jc.
     Inr (True, jc\<lparr>jc_type := JSON_T_NONE, jc_state := OK\<rparr>)))))"

definition act_7 :: "'c jparser \<Rightarrow> (bool \<times> 'c jparser) res" where
  "act_7 jc = seq (parse_buffer_pop_back_char jc) (\<lambda>jc.
     if_ok (parse_parse_buffer jc) (\<lambda>jc.
     if_ok (call_back jc JSON_T_ARRAY_END None) (\<lambda>jc.
     if_ok (pop jc MODE_ARRAY) (\<lambda>jc.
     Inr (True, jc\<lparr>jc_type := JSON_T_NONE, jc_state := OK\<rparr>)))))"

definition act_6 :: "'c jparser \<Rightarrow> (bool \<times> 'c jparser) res" where
  "act_6 jc = seq (parse_buffer_pop_back_char jc) (\<lambda>jc.
     if_ok (call_back jc JSON_T_OBJECT_BEGIN None) (\<lambda>jc.
     if_ok (push jc MODE_KEY) (\<lambda>jc.
     seq (check (jc_type jc = JSON_T_NONE)) (\<lambda>_.
     Inr (True, jc\<lparr>jc_state := OB\<rparr>)))))"

definition act_5 :: "'c jparser \<Rightarrow> (bool \<times> 'c jparser) res" where
  "act_5 jc = seq (parse_buffer_pop_back_char jc) (\<lambda>jc.
     if_ok (call_back jc JSON_T_ARRAY_BEGIN None) (\<lambda>jc.
     if_ok (push jc MODE_ARRAY) (\<lambda>jc.
     seq (check (jc_type jc = JSON_T_NONE)) (\<lambda>_.
     Inr (True, jc\<lparr>jc_state := AR\<rparr>)))))"

definition act_4 :: "'c jparser \<Rightarrow> (bool \<times> 'c jparser) res" where
  "act_4 jc = seq (parse_buffer_pop_back_char jc) (\<lambda>jc.
     seq (read_mode jc) (\<lambda>m. case m of
       MODE_KEY \<Rightarrow>
         seq (check (jc_type jc = JSON_T_STRING)) (\<lambda>_.
         let jc = jc\<lparr>jc_type := JSON_T_NONE, jc_state := CO\<rparr>
         in if_ok (call_back jc JSON_T_KEY (Some (JV_str (buffer_text jc)))) (\<lambda>jc.
            seq (parse_buffer_clear jc) (\<lambda>jc. Inr (True, jc))))
     | MODE_DONE \<Rightarrow> Inr (False, jc)
     | _ \<Rightarrow>
         seq (check (jc_type jc = JSON_T_STRING)) (\<lambda>_.
         if_ok (parse_parse_buffer jc) (\<lambda>jc.
         Inr (True, jc\<lparr>jc_type := JSON_T_NONE, jc_state := OK\<rparr>)))))"

definition act_3 :: "'c jparser \<Rightarrow> (bool \<times> 'c jparser) res" where
  "act_3 jc = seq (parse_buffer_pop_back_char jc) (\<lambda>jc.
     if_ok (parse_parse_buffer jc) (\<lambda>jc.
     seq (read_mode jc) (\<lambda>m. case m of
       MODE_OBJECT \<Rightarrow>
         if_ok (pop jc MODE_OBJECT) (\<lambda>jc.
         if_ok (push jc MODE_KEY) (\<lambda>jc.
         seq (check (jc_type jc \<noteq> JSON_T_STRING)) (\<lambda>_.
         Inr (True, jc\<lparr>jc_type := JSON_T_NONE, jc_state := KE\<rparr>))))
     | MODE_ARRAY \<Rightarrow>
         seq (check (jc_type jc \<noteq> JSON_T_STRING)) (\<lambda>_.
         Inr (True, jc\<lparr>jc_type := JSON_T_NONE, jc_state := VA\<rparr>))
     | _ \<Rightarrow> Inr (False, jc))))"

definition act_2 :: "'c jparser \<Rightarrow> (bool \<times> 'c jparser) res" where
  "act_2 jc = seq (parse_buffer_pop_back_char jc) (\<lambda>jc.
     if_ok (pop jc MODE_KEY) (\<lambda>jc.
     if_ok (push jc MODE_OBJECT) (\<lambda>jc.
     seq (check (jc_type jc = JSON_T_NONE)) (\<lambda>_.
     Inr (True, jc\<lparr>jc_state := VA\<rparr>)))))"

fun perform :: "jaction \<Rightarrow> 'c jparser \<Rightarrow> (bool \<times> 'c jparser) res" where
  "perform UC jc = act_UC jc"
| "perform A_EX jc = act_EX jc"
| "perform MX jc = act_MX jc"
| "perform ZX jc = act_ZX jc"
| "perform IX jc = act_IX jc"
| "perform DE jc = act_DE jc"
| "perform DF jc = act_DF jc"
| "perform SB jc = act_SB jc"
| "perform NU jc = act_NU jc"
| "perform FA jc = act_FA jc"
| "perform TR jc = act_TR jc"
| "perform CE jc = act_CE jc"
| "perform CB jc = act_CB jc"
| "perform A_9 jc = act_9 jc"
| "perform A_8 jc = act_8 jc"
| "perform A_7 jc = act_7 jc"
| "perform A_6 jc = act_6 jc"
| "perform A_5 jc = act_5 jc"
| "perform A_4 jc = act_4 jc"
| "perform A_3 jc = act_3 jc"
| "perform A_2 jc = act_2 jc"

section \<open>The interface\<close>

definition char_class :: "int \<Rightarrow> jclass option" where
  "char_class next_char = (if 128 \<le> next_char then Some C_ETC else ascii_class ! nat next_char)"

definition enter :: "jentry \<Rightarrow> 'c jparser \<Rightarrow> (bool \<times> 'c jparser) res" where
  "enter e jc = (case e of
       To s \<Rightarrow> Inr (True, jc\<lparr>jc_state := s\<rparr>)
     | Do a \<Rightarrow> perform a jc
     | Bad \<Rightarrow> Inr (False, jc))"

definition JSON_parser_char :: "'c jparser \<Rightarrow> int \<Rightarrow> (bool \<times> 'c jparser) res" where
  "JSON_parser_char jc next_char =
     (if next_char < 0 then Inr (False, jc)
      else case char_class next_char of
        None \<Rightarrow> Inr (False, jc)
      | Some next_class \<Rightarrow>
          if_ok (add_char_to_parse_buffer jc next_char next_class) (\<lambda>jc.
          enter (state_transition_table (jc_state jc) next_class) jc))"

definition JSON_parser_done :: "'c jparser \<Rightarrow> (bool \<times> 'c jparser) res" where
  "JSON_parser_done jc = (if jc_state jc = OK then pop jc MODE_DONE else Inr (False, jc))"

text \<open>\<open>None\<close> is the null pointer; a string ends at its first NUL.\<close>

fun legal_white_space_loop :: "u8 list \<Rightarrow> bool" where
  "legal_white_space_loop [] = True"
| "legal_white_space_loop (b # bs) =
     (if b = 0 then True
      else let c = char_int b
        in if c < 0 \<or> 128 \<le> c then False
           else if ascii_class ! nat c \<noteq> Some C_SPACE \<and> ascii_class ! nat c \<noteq> Some C_WHITE then False
           else legal_white_space_loop bs)"

definition JSON_parser_is_legal_white_space_string :: "u8 list option \<Rightarrow> bool" where
  "JSON_parser_is_legal_white_space_string s = (case s of None \<Rightarrow> False | Some s \<Rightarrow> legal_white_space_loop s)"

text \<open>\<open>null\<close> is the context's null pointer.\<close>

definition init_JSON_config :: "'c \<Rightarrow> 'c jconfig" where
  "init_JSON_config null = \<lparr>cfg_callback = None, cfg_callback_ctx = null,
     cfg_depth = int JSON_PARSER_STACK_SIZE - 1, cfg_allow_comments = 0, cfg_handle_floats_manually = 0\<rparr>"

definition blank_JSON_parser :: "'c jconfig \<Rightarrow> 'c jparser" where
  "blank_JSON_parser config =
     (let depth = (if cfg_depth config = 0 then 1 else cfg_depth config)
      in \<lparr>jc_callback = None, jc_ctx = cfg_callback_ctx config, jc_state = GO,
          jc_before_comment_state = GO, jc_type = JSON_T_NONE, jc_escaped = False, jc_comment = False,
          jc_allow_comments = False, jc_handle_floats_manually = False, jc_utf16_high_surrogate = 0,
          jc_depth = (if 0 < depth then depth else - 1), jc_top = - 1,
          jc_stack = [], jc_stack_heap = (int JSON_PARSER_STACK_SIZE < depth),
          jc_stack_capacity = (if 0 < depth then depth else int JSON_PARSER_STACK_SIZE),
          jc_decimal_point = 0, jc_parse_buffer = [], jc_parse_buffer_heap = False,
          jc_parse_buffer_capacity = JSON_PARSER_PARSE_BUFFER_SIZE, jc_parse_buffer_count = 0\<rparr>)"

text \<open>\<open>point\<close> is the first byte of \<open>localeconv()->decimal_point\<close>.\<close>

definition new_JSON_parser :: "u8 \<Rightarrow> 'c \<Rightarrow> 'c jconfig option \<Rightarrow> 'c jparser res" where
  "new_JSON_parser point null config_ptr =
     (let config = (case config_ptr of None \<Rightarrow> init_JSON_config null | Some c \<Rightarrow> c)
      in seq (push (blank_JSON_parser config) MODE_DONE) (\<lambda>(_, jc).
         seq (parse_buffer_clear jc) (\<lambda>jc.
         Inr (jc\<lparr>jc_callback := cfg_callback config, jc_ctx := cfg_callback_ctx config,
           jc_allow_comments := (cfg_allow_comments config \<noteq> 0),
           jc_handle_floats_manually := (cfg_handle_floats_manually config \<noteq> 0),
           jc_decimal_point := point\<rparr>))))"

text \<open>The heap blocks \<open>delete_JSON_parser\<close> frees, in its order.\<close>

datatype jblock = Stack_block | Buffer_block | Parser_block

definition delete_JSON_parser :: "'c jparser option \<Rightarrow> jblock list" where
  "delete_JSON_parser p = (case p of None \<Rightarrow> []
     | Some jc \<Rightarrow> (if jc_stack_heap jc then [Stack_block] else [])
         @ (if jc_parse_buffer_heap jc then [Buffer_block] else []) @ [Parser_block])"

text \<open>
  The caller's loop: one call per character until one answers \<open>false\<close>.
\<close>

fun feed :: "'c jparser \<Rightarrow> int list \<Rightarrow> (bool \<times> 'c jparser) res" where
  "feed jc [] = Inr (True, jc)"
| "feed jc (c # cs) = if_ok (JSON_parser_char jc c) (\<lambda>jc. feed jc cs)"

text \<open>The protocol of \<^verbatim>\<open>json_parser.h\<close>: make a parser, feed it the text, and ask for the verdict.\<close>

definition parse_text :: "u8 \<Rightarrow> 'c \<Rightarrow> 'c jconfig option \<Rightarrow> int list \<Rightarrow> (bool \<times> 'c jparser) res" where
  "parse_text point null config cs =
     seq (new_JSON_parser point null config) (\<lambda>jc. if_ok (feed jc cs) JSON_parser_done)"

end
