(* ===== verification/JsonSafe.thy ===== *)
theory JsonSafe imports JsonParser begin

text \<open>
  Safety of the parser: whatever characters arrive and whatever the callback answers, no
  \<open>assert\<close> of \<^verbatim>\<open>json_parser.cpp\<close> fails, no array is accessed outside its written
  cells, and no value is read before it was set. The object is viewed as its remaining fields
  (\<open>core\<close>), the text in the parse buffer and the modes on the stack; each primitive is specified on
  this view once, and the actions are checked against an invariant of the view.
\<close>

section \<open>The view of a parser\<close>

definition modes :: "'c jparser \<Rightarrow> jmode list" where
  "modes jc = take (nat (jc_top jc + 1)) (jc_stack jc)"

definition core :: "'c jparser \<Rightarrow> 'c jparser" where
  "core jc = jc\<lparr>jc_top := 0, jc_stack := [], jc_stack_heap := False, jc_stack_capacity := 0,
     jc_parse_buffer := [], jc_parse_buffer_heap := False, jc_parse_buffer_capacity := 0,
     jc_parse_buffer_count := 0\<rparr>"

definition buffer_ok :: "'c jparser \<Rightarrow> bool" where
  "buffer_ok jc \<longleftrightarrow> 2 \<le> jc_parse_buffer_capacity jc
     \<and> jc_parse_buffer_count jc < length (jc_parse_buffer jc)
     \<and> length (jc_parse_buffer jc) \<le> jc_parse_buffer_capacity jc
     \<and> jc_parse_buffer jc ! jc_parse_buffer_count jc = 0"

definition stack_ok :: "'c jparser \<Rightarrow> bool" where
  "stack_ok jc \<longleftrightarrow> 0 \<le> jc_top jc \<and> jc_top jc < int (length (jc_stack jc))
     \<and> int (length (jc_stack jc)) \<le> jc_stack_capacity jc
     \<and> jc_stack_capacity jc \<le> int (stack_cells jc)
     \<and> (0 \<le> jc_depth jc \<longrightarrow> jc_depth jc = jc_stack_capacity jc)"

definition memory_ok :: "'c jparser \<Rightarrow> bool" where
  "memory_ok jc \<longleftrightarrow> buffer_ok jc \<and> stack_ok jc"

lemma core_fields [simp]:
  "jc_callback (core jc) = jc_callback jc" "jc_ctx (core jc) = jc_ctx jc"
  "jc_state (core jc) = jc_state jc"
  "jc_before_comment_state (core jc) = jc_before_comment_state jc" "jc_type (core jc) = jc_type jc"
  "jc_escaped (core jc) = jc_escaped jc" "jc_comment (core jc) = jc_comment jc"
  "jc_allow_comments (core jc) = jc_allow_comments jc"
  "jc_handle_floats_manually (core jc) = jc_handle_floats_manually jc"
  "jc_utf16_high_surrogate (core jc) = jc_utf16_high_surrogate jc" "jc_depth (core jc) = jc_depth jc"
  "jc_decimal_point (core jc) = jc_decimal_point jc"
  by (simp_all add: core_def)

lemma core_eqD:
  assumes "core jc' = core jc"
  shows "jc_callback jc' = jc_callback jc" "jc_ctx jc' = jc_ctx jc" "jc_state jc' = jc_state jc"
    "jc_before_comment_state jc' = jc_before_comment_state jc" "jc_type jc' = jc_type jc"
    "jc_escaped jc' = jc_escaped jc" "jc_comment jc' = jc_comment jc"
    "jc_allow_comments jc' = jc_allow_comments jc"
    "jc_handle_floats_manually jc' = jc_handle_floats_manually jc"
    "jc_utf16_high_surrogate jc' = jc_utf16_high_surrogate jc" "jc_depth jc' = jc_depth jc"
    "jc_decimal_point jc' = jc_decimal_point jc"
  by (metis assms core_fields)+

text \<open>Setting a field of the core changes nothing the memory conditions look at.\<close>

lemma core_updates [simp]:
  "core (jc\<lparr>jc_ctx := c\<rparr>) = (core jc)\<lparr>jc_ctx := c\<rparr>"
  "core (jc\<lparr>jc_state := s\<rparr>) = (core jc)\<lparr>jc_state := s\<rparr>"
  "core (jc\<lparr>jc_before_comment_state := s\<rparr>) = (core jc)\<lparr>jc_before_comment_state := s\<rparr>"
  "core (jc\<lparr>jc_type := t\<rparr>) = (core jc)\<lparr>jc_type := t\<rparr>"
  "core (jc\<lparr>jc_escaped := e\<rparr>) = (core jc)\<lparr>jc_escaped := e\<rparr>"
  "core (jc\<lparr>jc_comment := m\<rparr>) = (core jc)\<lparr>jc_comment := m\<rparr>"
  "core (jc\<lparr>jc_utf16_high_surrogate := h\<rparr>) = (core jc)\<lparr>jc_utf16_high_surrogate := h\<rparr>"
  by (simp_all add: core_def)

lemma memory_ok_updates [simp]:
  "memory_ok (jc\<lparr>jc_ctx := c\<rparr>) = memory_ok jc"
  "memory_ok (jc\<lparr>jc_state := s\<rparr>) = memory_ok jc"
  "memory_ok (jc\<lparr>jc_before_comment_state := s\<rparr>) = memory_ok jc"
  "memory_ok (jc\<lparr>jc_type := t\<rparr>) = memory_ok jc"
  "memory_ok (jc\<lparr>jc_escaped := e\<rparr>) = memory_ok jc"
  "memory_ok (jc\<lparr>jc_comment := m\<rparr>) = memory_ok jc"
  "memory_ok (jc\<lparr>jc_utf16_high_surrogate := h\<rparr>) = memory_ok jc"
  by (simp_all add: memory_ok_def buffer_ok_def stack_ok_def stack_cells_def)

lemma stack_ok_surrogate: "stack_ok (jc\<lparr>jc_utf16_high_surrogate := h\<rparr>) = stack_ok jc"
  by (simp add: stack_ok_def stack_cells_def)

lemma modes_updates [simp]:
  "modes (jc\<lparr>jc_ctx := c\<rparr>) = modes jc"
  "modes (jc\<lparr>jc_state := s\<rparr>) = modes jc"
  "modes (jc\<lparr>jc_before_comment_state := s\<rparr>) = modes jc"
  "modes (jc\<lparr>jc_type := t\<rparr>) = modes jc"
  "modes (jc\<lparr>jc_escaped := e\<rparr>) = modes jc"
  "modes (jc\<lparr>jc_comment := m\<rparr>) = modes jc"
  "modes (jc\<lparr>jc_utf16_high_surrogate := h\<rparr>) = modes jc"
  by (simp_all add: modes_def)

lemma buffer_text_updates [simp]:
  "buffer_text (jc\<lparr>jc_ctx := c\<rparr>) = buffer_text jc"
  "buffer_text (jc\<lparr>jc_state := s\<rparr>) = buffer_text jc"
  "buffer_text (jc\<lparr>jc_before_comment_state := s\<rparr>) = buffer_text jc"
  "buffer_text (jc\<lparr>jc_type := t\<rparr>) = buffer_text jc"
  "buffer_text (jc\<lparr>jc_escaped := e\<rparr>) = buffer_text jc"
  "buffer_text (jc\<lparr>jc_comment := m\<rparr>) = buffer_text jc"
  "buffer_text (jc\<lparr>jc_utf16_high_surrogate := h\<rparr>) = buffer_text jc"
  by (simp_all add: buffer_text_def)

section \<open>Primitives on the view\<close>

lemma length_buffer_text [simp]: "memory_ok jc \<Longrightarrow> length (buffer_text jc) = jc_parse_buffer_count jc"
  by (simp add: memory_ok_def buffer_ok_def buffer_text_def)

lemma count_eq_length: "memory_ok jc \<Longrightarrow> jc_parse_buffer_count jc = length (buffer_text jc)"
  by simp

lemma modes_not_Nil [simp]: "memory_ok jc \<Longrightarrow> modes jc \<noteq> []"
  by (auto simp: memory_ok_def stack_ok_def modes_def)

lemma length_modes: "memory_ok jc \<Longrightarrow> int (length (modes jc)) = jc_top jc + 1"
  by (auto simp: memory_ok_def stack_ok_def modes_def)

lemma read_mode_last:
  assumes "memory_ok jc"
  shows "read_mode jc = Inr (last (modes jc))"
proof -
  have *: "0 \<le> jc_top jc" "nat (jc_top jc) < length (jc_stack jc)"
    using assms by (auto simp: memory_ok_def stack_ok_def)
  have "last (modes jc) = jc_stack jc ! nat (jc_top jc)"
    using * by (simp add: modes_def nat_add_distrib take_Suc_snoc)
  then show ?thesis using * by (simp add: read_mode_def peek_Inr)
qed

lemma runs_clear:
  assumes "memory_ok jc"
    and "\<And>jc'. memory_ok jc' \<Longrightarrow> core jc' = core jc \<Longrightarrow> modes jc' = modes jc \<Longrightarrow> buffer_text jc' = [] \<Longrightarrow> Q jc'"
  shows "runs (parse_buffer_clear jc) Q"
proof -
  have "poke (jc_parse_buffer_capacity jc) 0 0 (jc_parse_buffer jc)
      = Inr (0 # drop 1 (jc_parse_buffer jc))"
    using assms(1) by (subst poke_Inr) (auto simp: memory_ok_def buffer_ok_def)
  then show ?thesis using assms(1)
    unfolding parse_buffer_clear_def buffer_store_def
    by (simp, intro assms(2))
      (auto simp: memory_ok_def buffer_ok_def stack_ok_def stack_cells_def core_def modes_def buffer_text_def)
qed

lemma runs_pop_back:
  assumes "memory_ok jc" "buffer_text jc \<noteq> []"
    and "\<And>jc'. memory_ok jc' \<Longrightarrow> core jc' = core jc \<Longrightarrow> modes jc' = modes jc \<Longrightarrow>
      buffer_text jc' = butlast (buffer_text jc) \<Longrightarrow> Q jc'"
  shows "runs (parse_buffer_pop_back_char jc) Q"
proof -
  let ?n = "jc_parse_buffer_count jc - 1"
  have n: "1 \<le> jc_parse_buffer_count jc" using assms(1,2) by (cases "jc_parse_buffer_count jc") (auto simp: buffer_text_def)
  then have "poke (jc_parse_buffer_capacity jc) ?n 0 (jc_parse_buffer jc)
      = Inr (take ?n (jc_parse_buffer jc) @ 0 # drop (Suc ?n) (jc_parse_buffer jc))"
    using assms(1) by (subst poke_Inr) (auto simp: memory_ok_def buffer_ok_def)
  then show ?thesis using assms(1) n
    unfolding parse_buffer_pop_back_char_def buffer_store_def Let_def
    by (simp, intro assms(3))
      (auto simp: memory_ok_def buffer_ok_def stack_ok_def stack_cells_def core_def modes_def
        buffer_text_def nth_append butlast_take min_def)
qed

lemma runs_push_back:
  assumes "memory_ok jc"
    and "\<And>jc'. memory_ok jc' \<Longrightarrow> core jc' = core jc \<Longrightarrow> modes jc' = modes jc \<Longrightarrow>
      buffer_text jc' = buffer_text jc @ [c] \<Longrightarrow> Q jc'"
  shows "runs (parse_buffer_push_back_char jc c) Q"
proof -
  define j where "j = (if jc_parse_buffer_capacity jc \<le> jc_parse_buffer_count jc + 1
                then grow_parse_buffer jc else jc)"
  let ?n = "jc_parse_buffer_count jc" and ?b = "jc_parse_buffer j"
  have b: "jc_parse_buffer_count j = ?n" "?n \<le> length ?b" "length ?b \<le> jc_parse_buffer_capacity j"
    "?n + 1 < jc_parse_buffer_capacity j" "take ?n ?b = buffer_text jc"
    "length (buffer_text jc) = ?n"
    using assms(1) by (auto simp: j_def grow_parse_buffer_def memory_ok_def buffer_ok_def buffer_text_def)
  have f: "core j = core jc" "modes j = modes jc" "stack_ok j = stack_ok jc"
    by (auto simp: j_def grow_parse_buffer_def core_def modes_def stack_ok_def stack_cells_def)
  have 1: "poke (jc_parse_buffer_capacity j) ?n c ?b = Inr (take ?n ?b @ c # drop (Suc ?n) ?b)"
    using b by (subst poke_Inr) auto
  have 2: "poke (jc_parse_buffer_capacity j) (Suc ?n) 0 (take ?n ?b @ c # drop (Suc ?n) ?b)
      = Inr (take ?n ?b @ c # 0 # drop (Suc (Suc ?n)) ?b)"
    using b by (subst poke_Inr) (auto simp: min_def)
  show ?thesis
    unfolding parse_buffer_push_back_char_def Let_def j_def [symmetric] buffer_store_def b(1)
    using 1 2 f b assms(1)
    by (simp, intro assms(2))
      (auto simp: memory_ok_def buffer_ok_def stack_ok_def stack_cells_def core_def modes_def
        buffer_text_def nth_append min_def split: if_splits)
qed

lemma runs_push_back_chars:
  assumes "memory_ok jc"
    and "\<And>jc'. memory_ok jc' \<Longrightarrow> core jc' = core jc \<Longrightarrow> modes jc' = modes jc \<Longrightarrow>
      buffer_text jc' = buffer_text jc @ cs \<Longrightarrow> Q jc'"
  shows "runs (push_back_chars jc cs) Q"
  using assms
proof (induction cs arbitrary: jc)
  case (Cons c cs)
  show ?case
    by (simp, rule runs_push_back [OF Cons.prems(1)], rule Cons.IH) (auto intro!: Cons.prems(2))
qed simp

lemma runs_push:
  assumes "memory_ok jc"
    and "\<And>jc'. memory_ok jc' \<Longrightarrow> core jc' = core jc \<Longrightarrow> modes jc' = modes jc @ [m] \<Longrightarrow>
      buffer_text jc' = buffer_text jc \<Longrightarrow> (0 \<le> jc_depth jc \<Longrightarrow> int (length (modes jc)) < jc_depth jc) \<Longrightarrow> Q (True, jc')"
    and "\<And>jc'. 0 \<le> jc_depth jc \<Longrightarrow> jc_depth jc \<le> int (length (modes jc)) \<Longrightarrow> core jc' = core jc \<Longrightarrow> Q (False, jc')"
  shows "runs (push jc m) Q"
proof (cases "0 \<le> jc_depth jc \<and> jc_depth jc \<le> jc_top jc + 1")
  case True
  then have "push jc m = Inr (False, jc\<lparr>jc_top := jc_top jc + 1\<rparr>)" by (auto simp: push_def Let_def)
  moreover have "core (jc\<lparr>jc_top := jc_top jc + 1\<rparr>) = core jc" by (simp add: core_def)
  ultimately show ?thesis using True assms(3) length_modes [OF assms(1)] by simp
next
  case False
  define j where "j = (let j = jc\<lparr>jc_top := jc_top jc + 1\<rparr>
    in if jc_depth jc < 0 \<and> jc_stack_capacity jc \<le> jc_top jc + 1 then grow_stack j else j)"
  have p: "push jc m = store_mode j m"
    using False by (auto simp: push_def j_def Let_def)
  let ?t = "nat (jc_top jc + 1)"
  have st: "stack_ok jc" using assms(1) by (simp add: memory_ok_def)
  have j: "jc_top j = jc_top jc + 1" "?t < stack_cells j" "?t \<le> length (jc_stack j)"
    "take ?t (jc_stack j) = modes jc"
    "int (length (jc_stack j)) \<le> jc_stack_capacity j" "jc_top jc + 1 < jc_stack_capacity j"
    "jc_stack_capacity j \<le> int (stack_cells j)" "0 \<le> jc_depth jc \<longrightarrow> jc_depth jc = jc_stack_capacity j"
    using st False
    by (auto simp: j_def Let_def grow_stack_def stack_ok_def stack_cells_def modes_def split: if_splits)
  have f: "core j = core jc" "buffer_text j = buffer_text jc" "buffer_ok j = buffer_ok jc" "jc_depth j = jc_depth jc"
    by (auto simp: j_def Let_def grow_stack_def core_def buffer_text_def buffer_ok_def)
  have k: "poke (stack_cells j) ?t m (jc_stack j) = Inr (take ?t (jc_stack j) @ m # drop (Suc ?t) (jc_stack j))"
    using j by (subst poke_Inr) auto
  let ?j = "j\<lparr>jc_stack := take ?t (jc_stack j) @ m # drop (Suc ?t) (jc_stack j)\<rparr>"
  have s: "store_mode j m = Inr (True, ?j)"
    using k j(1) st by (simp add: store_mode_def stack_ok_def)
  have "stack_ok ?j"
    using j st f(4) length_modes [OF assms(1)] by (auto simp: stack_ok_def stack_cells_def)
  moreover have "modes ?j = modes jc @ [m]"
    using j st by (auto simp: modes_def nat_add_distrib stack_ok_def)
  moreover have "core ?j = core jc" "buffer_text ?j = buffer_text jc" "buffer_ok ?j"
    using f assms(1) by (auto simp: core_def buffer_text_def buffer_ok_def memory_ok_def)
  moreover have "0 \<le> jc_depth jc \<Longrightarrow> int (length (modes jc)) < jc_depth jc"
    using False length_modes [OF assms(1)] by simp
  ultimately have "Q (True, ?j)" by (intro assms(2)) (simp_all add: memory_ok_def)
  then show ?thesis using p s by simp
qed

lemma runs_pop:
  assumes "memory_ok jc" "last (modes jc) = m \<Longrightarrow> 2 \<le> length (modes jc)"
    and "\<And>jc'. last (modes jc) = m \<Longrightarrow> memory_ok jc' \<Longrightarrow> core jc' = core jc \<Longrightarrow>
      modes jc' = butlast (modes jc) \<Longrightarrow> buffer_text jc' = buffer_text jc \<Longrightarrow> Q (True, jc')"
    and "last (modes jc) \<noteq> m \<Longrightarrow> Q (False, jc)"
  shows "runs (pop jc m) Q"
proof (cases "last (modes jc) = m")
  case False
  then show ?thesis using assms(4) by (simp add: pop_def read_mode_last [OF assms(1)])
next
  case True
  let ?j = "jc\<lparr>jc_top := jc_top jc - 1\<rparr>"
  have t: "1 \<le> jc_top jc" using assms(2) [OF True] length_modes [OF assms(1)] by simp
  then have p: "pop jc m = Inr (True, ?j)"
    using True by (simp add: pop_def read_mode_last [OF assms(1)])
  have "memory_ok ?j" "core ?j = core jc" "buffer_text ?j = buffer_text jc"
    using assms(1) t by (auto simp: memory_ok_def stack_ok_def stack_cells_def buffer_ok_def core_def buffer_text_def)
  moreover have "nat (jc_top jc + 1) - 1 = nat (jc_top jc)" "nat (jc_top jc + 1) \<le> length (jc_stack jc)"
    using t assms(1) by (auto simp: memory_ok_def stack_ok_def)
  then have "modes ?j = butlast (modes jc)"
    unfolding modes_def by (subst butlast_take) simp_all
  ultimately show ?thesis using p assms(3) True by simp
qed

lemma runs_pop_done:
  assumes "memory_ok jc" "Q (last (modes jc) = m, if last (modes jc) = m then jc\<lparr>jc_top := jc_top jc - 1\<rparr> else jc)"
  shows "runs (pop jc m) Q"
  using assms(2) length_modes [OF assms(1)] assms(1)
  by (auto simp: pop_def read_mode_last [OF assms(1)] memory_ok_def stack_ok_def)

section \<open>Events\<close>

text \<open>The calls a list of events stands for: up to the first one the callback refuses.\<close>

fun deliver :: "'c jcallback option \<Rightarrow> (jtype \<times> jvalue option) list \<Rightarrow> 'c \<Rightarrow> (bool \<times> 'c) res" where
  "deliver None evs c = Inr (True, c)"
| "deliver (Some f) [] c = Inr (True, c)"
| "deliver (Some f) ((t, v) # evs) c = if_ok (f t v c) (deliver (Some f) evs)"

definition arg_value :: "bool \<Rightarrow> jtype \<Rightarrow> u8 list \<Rightarrow> jvalue option" where
  "arg_value manual t s = (case t of
       JSON_T_FLOAT \<Rightarrow> Some (if manual then JV_str s else JV_strtod (takeWhile (\<lambda>c. c \<noteq> 0) s))
     | JSON_T_INTEGER \<Rightarrow> map_option JV_integer (sscanf_ld (takeWhile (\<lambda>c. c \<noteq> 0) s))
     | JSON_T_STRING \<Rightarrow> Some (JV_str s)
     | _ \<Rightarrow> None)"

text \<open>The event \<open>parse_parse_buffer\<close> makes of the value being read.\<close>

definition pending :: "bool \<Rightarrow> jtype \<Rightarrow> u8 list \<Rightarrow> (jtype \<times> jvalue option) list" where
  "pending manual t s = (if t = JSON_T_NONE then [] else [(t, arg_value manual t s)])"

definition readable :: "jtype \<Rightarrow> u8 list \<Rightarrow> bool" where
  "readable t s \<longleftrightarrow> (t = JSON_T_NONE \<or> is_non_container_type t)
     \<and> (t = JSON_T_INTEGER \<longrightarrow> sscanf_ld (takeWhile (\<lambda>c. c \<noteq> 0) s) \<noteq> None)"

lemma deliver_append:
  "deliver cb (xs @ ys) c = if_ok (deliver cb xs c) (deliver cb ys)"
proof (cases cb)
  case (Some f)
  show ?thesis unfolding Some
  proof (induction xs arbitrary: c)
    case (Cons x xs)
    obtain t v where x: "x = (t, v)" by force
    show ?case unfolding x
      by (cases "f t v c") (auto simp: Cons if_ok_def split: prod.splits)
  qed simp
qed simp

lemma c_string_text:
  assumes "memory_ok jc"
  shows "c_string (jc_parse_buffer jc) = Inr (takeWhile (\<lambda>c. c \<noteq> 0) (buffer_text jc))"
proof -
  let ?b = "jc_parse_buffer jc" and ?n = "jc_parse_buffer_count jc"
  have n: "?n < length ?b" "?b ! ?n = 0" using assms by (auto simp: memory_ok_def buffer_ok_def)
  then have b: "?b = take ?n ?b @ 0 # drop (Suc ?n) ?b" by (metis id_take_nth_drop)
  then have "0 \<in> set ?b" by (metis in_set_conv_decomp)
  moreover have "takeWhile (\<lambda>c. c \<noteq> 0) (xs @ 0 # ys) = takeWhile (\<lambda>c. c \<noteq> 0) xs" for xs ys :: "u8 list"
    by (induction xs) auto
  then have "takeWhile (\<lambda>c. c \<noteq> 0) ?b = takeWhile (\<lambda>c. c \<noteq> 0) (buffer_text jc)"
    using b unfolding buffer_text_def by metis
  ultimately show ?thesis by (simp add: c_string_def)
qed

lemma value_arg_eq:
  assumes "memory_ok jc" "readable (jc_type jc) (buffer_text jc)"
  shows "value_arg jc = Inr (arg_value (jc_handle_floats_manually jc) (jc_type jc) (buffer_text jc))"
  using assms by (auto simp: value_arg_def arg_value_def c_string_text readable_def split: jtype.splits option.splits)

lemma runs_call_back:
  assumes "runs (deliver (jc_callback jc) [(t, v)] (jc_ctx jc)) (\<lambda>(b, c). Q (b, jc\<lparr>jc_ctx := c\<rparr>))"
  shows "runs (call_back jc t v) Q"
proof (cases "jc_callback jc")
  case None
  then show ?thesis using assms by (simp add: call_back_def)
next
  case (Some f)
  then show ?thesis using assms
    by (cases "f t v (jc_ctx jc)") (auto simp: call_back_def if_ok_def split: prod.splits if_splits)
qed

lemma runs_parse_parse_buffer:
  assumes "memory_ok jc" "readable (jc_type jc) (buffer_text jc)"
    and "runs (deliver (jc_callback jc) (pending (jc_handle_floats_manually jc) (jc_type jc) (buffer_text jc)) (jc_ctx jc))
      (\<lambda>(b, c). if b then (\<forall>jc'. memory_ok jc' \<longrightarrow> core jc' = (core jc)\<lparr>jc_ctx := c\<rparr> \<longrightarrow> modes jc' = modes jc \<longrightarrow>
          buffer_text jc' = [] \<longrightarrow> Q (True, jc'))
        else Q (False, jc\<lparr>jc_ctx := c\<rparr>))"
  shows "runs (parse_parse_buffer jc) Q"
proof (cases "jc_callback jc \<noteq> None \<and> jc_type jc \<noteq> JSON_T_NONE")
  case True
  then have nc: "is_non_container_type (jc_type jc)" using assms(2) by (simp add: readable_def)
  show ?thesis unfolding parse_parse_buffer_def
    apply (simp add: True nc value_arg_eq [OF assms(1,2)])
    apply (rule runs_call_back)
    apply (rule runs_mono [where P = "\<lambda>(b, c). if b then (\<forall>jc'. memory_ok jc' \<longrightarrow> core jc' = (core jc)\<lparr>jc_ctx := c\<rparr> \<longrightarrow> modes jc' = modes jc \<longrightarrow>
          buffer_text jc' = [] \<longrightarrow> Q (True, jc'))
        else Q (False, jc\<lparr>jc_ctx := c\<rparr>)"])
     apply (use assms(3) True in \<open>simp add: pending_def\<close>)
    apply (clarsimp split: if_splits)
    apply (intro conjI impI runs_clear)
        apply (simp_all add: assms(1))
    done
next
  case False
  have "runs (parse_buffer_clear jc) (\<lambda>jc'. Q (True, jc'))"
  proof (rule runs_clear [OF assms(1)])
    fix jc' assume j: "memory_ok jc'" "core jc' = core jc" "modes jc' = modes jc" "buffer_text jc' = []"
    have "deliver (jc_callback jc) (pending (jc_handle_floats_manually jc) (jc_type jc) (buffer_text jc)) (jc_ctx jc)
        = Inr (True, jc_ctx jc)"
      using False by (cases "jc_callback jc") (auto simp: pending_def)
    moreover have "core jc = (core jc)\<lparr>jc_ctx := jc_ctx jc\<rparr>" by (simp add: core_def)
    ultimately show "Q (True, jc')" using assms(3) j by auto
  qed
  then show ?thesis using False by (auto simp: parse_parse_buffer_def)
qed

section \<open>Unicode escapes\<close>

definition is_hex :: "u8 \<Rightarrow> bool" where
  "is_hex c \<longleftrightarrow> (0x30 \<le> c \<and> c \<le> 0x39) \<or> (0x41 \<le> c \<and> c \<le> 0x46) \<or> (0x61 \<le> c \<and> c \<le> 0x66)"

definition hex4 :: "u8 \<Rightarrow> u8 \<Rightarrow> u8 \<Rightarrow> u8 \<Rightarrow> u32" where
  "hex4 a b c d = push_bit 12 (hex_value a) OR push_bit 8 (hex_value b) OR push_bit 4 (hex_value c) OR hex_value d"

text \<open>
  What one \<open>\u\<close> escape does: from the saved high surrogate (0 for none) and the escape's code
  unit, the bytes to append and the new saved surrogate; \<open>None\<close> for an unpaired surrogate.
\<close>

definition utf16_step :: "u16 \<Rightarrow> u32 \<Rightarrow> (u8 list \<times> u16) option" where
  "utf16_step high uc =
     (if high \<noteq> 0 then
        if is_low_surrogate uc then Some (utf8_bytes (decode_surrogate_pair (ucast high) uc) 3, 0) else None
      else if uc < 0x80 then Some (utf8_bytes uc 0, 0)
      else if uc < 0x800 then Some (utf8_bytes uc 1, 0)
      else if is_high_surrogate uc then Some ([], ucast uc)
      else if is_low_surrogate uc then None
      else Some (utf8_bytes uc 2, 0))"

lemma hex_value_less: "is_hex c \<Longrightarrow> hex_value c < 16"
proof -
  have "\<forall>c. is_hex c \<longrightarrow> hex_value c < 16" unfolding byte_all_iff by code_simp
  then show "is_hex c \<Longrightarrow> hex_value c < 16" by blast
qed

lemma hex_loop_text:
  assumes "list_all is_hex [a, b, c, d]" "buf = pre @ [a, b, c, d] @ post"
  shows "hex_loop buf [12, 8, 4, 0] (length pre) 0 = Inr (hex4 a b c d)"
  using assms by (simp add: peek_Inr nth_append hex_value_less hex4_def or.assoc)

lemma length_utf8_bytes [simp]: "length (utf8_bytes uc n) = n + 1"
  by (simp add: utf8_bytes_def)

lemma runs_store_bytes:
  assumes "2 \<le> jc_parse_buffer_capacity jc" "stack_ok jc"
    "jc_parse_buffer_count jc < length (jc_parse_buffer jc)"
    "jc_parse_buffer_count jc + length cs < length (jc_parse_buffer jc)"
    "length (jc_parse_buffer jc) \<le> jc_parse_buffer_capacity jc"
    and "\<And>jc'. memory_ok jc' \<Longrightarrow> core jc' = core jc \<Longrightarrow> modes jc' = modes jc \<Longrightarrow>
      buffer_text jc' = buffer_text jc @ cs \<Longrightarrow> Q jc'"
  shows "runs (store_bytes jc cs) Q"
  using assms
proof (induction cs arbitrary: jc)
  case Nil
  then have "poke (jc_parse_buffer_capacity jc) (jc_parse_buffer_count jc) 0 (jc_parse_buffer jc)
    = Inr ((jc_parse_buffer jc)[jc_parse_buffer_count jc := 0])" by (simp add: poke_def)
  then show ?case using Nil.prems(1-5)
    by (simp add: buffer_store_def, intro Nil.prems(6))
      (auto simp: memory_ok_def buffer_ok_def stack_ok_def stack_cells_def core_def modes_def buffer_text_def)
next
  case (Cons c cs)
  let ?n = "jc_parse_buffer_count jc"
  have p: "poke (jc_parse_buffer_capacity jc) ?n c (jc_parse_buffer jc) = Inr ((jc_parse_buffer jc)[?n := c])"
    using Cons.prems by (simp add: poke_def)
  let ?j = "jc\<lparr>jc_parse_buffer := (jc_parse_buffer jc)[?n := c], jc_parse_buffer_count := ?n + 1\<rparr>"
  have "runs (store_bytes ?j cs) Q"
  proof (rule Cons.IH)
    fix j' assume j: "memory_ok j'" "core j' = core ?j" "modes j' = modes ?j" "buffer_text j' = buffer_text ?j @ cs"
    have t: "buffer_text ?j = buffer_text jc @ [c]"
      using Cons.prems(3) by (simp add: buffer_text_def take_Suc_snoc)
    show "Q j'" by (rule Cons.prems(6)) (use j t in \<open>simp_all add: core_def modes_def\<close>)
  qed (use Cons.prems in \<open>auto simp: stack_ok_def stack_cells_def\<close>)
  then show ?case by (simp add: buffer_store_def p)
qed

lemma runs_put_utf8:
  assumes "2 \<le> jc_parse_buffer_capacity jc" "stack_ok jc"
    "jc_parse_buffer_count jc + n + 1 < length (jc_parse_buffer jc)"
    "length (jc_parse_buffer jc) \<le> jc_parse_buffer_capacity jc"
    and "\<And>jc'. memory_ok jc' \<Longrightarrow> core jc' = core jc \<Longrightarrow> modes jc' = modes jc \<Longrightarrow>
      buffer_text jc' = buffer_text jc @ utf8_bytes uc n \<Longrightarrow> Q (True, jc')"
  shows "runs (put_utf8 jc uc n) Q"
  using assms unfolding put_utf8_def by (auto intro!: runs_store_bytes)

lemma runs_decode:
  assumes m: "memory_ok jc" and t: "buffer_text jc = t @ [p, q, a, b, c, d]" and h: "list_all is_hex [a, b, c, d]"
    and s: "\<And>bs hi jc'. utf16_step (jc_utf16_high_surrogate jc) (hex4 a b c d) = Some (bs, hi) \<Longrightarrow>
      memory_ok jc' \<Longrightarrow> core jc' = (core jc)\<lparr>jc_utf16_high_surrogate := hi\<rparr> \<Longrightarrow> modes jc' = modes jc \<Longrightarrow>
      buffer_text jc' = t @ bs \<Longrightarrow> Q (True, jc')"
    and n: "\<And>jc'. utf16_step (jc_utf16_high_surrogate jc) (hex4 a b c d) = None \<Longrightarrow> Q (False, jc')"
  shows "runs (decode_unicode_char jc) Q"
proof -
  let ?n = "jc_parse_buffer_count jc" and ?b = "jc_parse_buffer jc"
  have n6: "?n = length t + 6" using t count_eq_length [OF m] by simp
  have len: "?n < length ?b" "length ?b \<le> jc_parse_buffer_capacity jc" "2 \<le> jc_parse_buffer_capacity jc" "stack_ok jc"
    using m by (auto simp: memory_ok_def buffer_ok_def)
  have b: "?b = (t @ [p, q]) @ [a, b, c, d] @ drop ?n ?b"
    using t append_take_drop_id [of ?n ?b] by (simp add: buffer_text_def)
  have "length (t @ [p, q]) = ?n - 4" using n6 by simp
  then have hx: "hex_loop ?b [12, 8, 4, 0] (?n - 4) 0 = Inr (hex4 a b c d)"
    using hex_loop_text [OF h b] by simp
  let ?j = "jc\<lparr>jc_parse_buffer_count := ?n - 6, jc_parse_buffer := ?b[?n - 6 := 0]\<rparr>"
  have lt: "?n - 6 < jc_parse_buffer_capacity jc" "?n - 6 < length ?b" using len by linarith+
  then have pk: "poke (jc_parse_buffer_capacity jc) (?n - 6) 0 ?b = Inr (?b[?n - 6 := 0])"
    by (simp add: poke_def)
  have tj: "buffer_text ?j = t" using b n6 by (simp add: buffer_text_def) (metis append_eq_conv_conj)
  have fj: "core ?j = core jc" "modes ?j = modes jc" "stack_ok ?j"
    using len(4) by (auto simp: core_def modes_def stack_ok_def stack_cells_def split: if_splits)
  have put: "runs (put_utf8 (?j\<lparr>jc_utf16_high_surrogate := 0\<rparr>) uc k) Q" if "k \<le> 3"
    "utf16_step (jc_utf16_high_surrogate jc) (hex4 a b c d) = Some (utf8_bytes uc k, 0)" for uc k
  proof (rule runs_put_utf8)
    fix j' assume j: "memory_ok j'" "core j' = core (?j\<lparr>jc_utf16_high_surrogate := 0\<rparr>)"
      "modes j' = modes (?j\<lparr>jc_utf16_high_surrogate := 0\<rparr>)"
      "buffer_text j' = buffer_text (?j\<lparr>jc_utf16_high_surrogate := 0\<rparr>) @ utf8_bytes uc k"
    show "Q (True, j')"
    proof (rule s [OF that(2) j(1)])
      show "core j' = (core jc)\<lparr>jc_utf16_high_surrogate := 0\<rparr>" unfolding j(2) core_updates fj(1) ..
      show "modes j' = modes jc" unfolding j(3) modes_updates fj(2) ..
      show "buffer_text j' = t @ utf8_bytes uc k" unfolding j(4) buffer_text_updates tj ..
    qed
  next
    show "stack_ok (?j\<lparr>jc_utf16_high_surrogate := 0\<rparr>)" by (simp only: stack_ok_surrogate fj(3))
  next
    show "jc_parse_buffer_count (?j\<lparr>jc_utf16_high_surrogate := 0\<rparr>) + k + 1 < length (jc_parse_buffer (?j\<lparr>jc_utf16_high_surrogate := 0\<rparr>))"
      using that(1) n6 len(1) by simp
  qed (use len in simp_all)
  have z: "?j\<lparr>jc_utf16_high_surrogate := 0\<rparr> = ?j" if "jc_utf16_high_surrogate jc = 0" using that by simp
  have mj: "memory_ok ?j" using len lt fj(3) by (auto simp: memory_ok_def buffer_ok_def)
  have wait: "Q (True, ?j\<lparr>jc_utf16_high_surrogate := hi\<rparr>)"
    if "utf16_step (jc_utf16_high_surrogate jc) (hex4 a b c d) = Some ([], hi)" for hi
    by (intro s [OF that]) (unfold memory_ok_updates core_updates modes_updates buffer_text_updates,
        simp_all add: mj fj tj)
  have "runs (decode_unicode_char jc) Q \<longleftrightarrow> runs
     (if jc_utf16_high_surrogate jc \<noteq> 0 then
          if is_low_surrogate (hex4 a b c d) then
            put_utf8 (?j\<lparr>jc_utf16_high_surrogate := 0\<rparr>)
              (decode_surrogate_pair (ucast (jc_utf16_high_surrogate jc)) (hex4 a b c d)) 3
          else Inr (False, ?j)
        else if hex4 a b c d < 0x80 then put_utf8 ?j (hex4 a b c d) 0
        else if hex4 a b c d < 0x800 then put_utf8 ?j (hex4 a b c d) 1
        else if is_high_surrogate (hex4 a b c d) then Inr (True, ?j\<lparr>jc_utf16_high_surrogate := ucast (hex4 a b c d)\<rparr>)
        else if is_low_surrogate (hex4 a b c d) then Inr (False, ?j)
        else put_utf8 ?j (hex4 a b c d) 2) Q"
    unfolding decode_unicode_char_def buffer_store_def hx Let_def using n6 pk
    by (simp cong: if_cong)
  also have "\<dots>"
  proof (cases "jc_utf16_high_surrogate jc = 0")
    case True
    show ?thesis unfolding True
      by (simp, intro conjI impI put [unfolded z [OF True]] wait n) (simp_all add: utf16_step_def True)
  next
    case False
    then show ?thesis
      by (simp, intro conjI impI put n) (simp_all add: utf16_step_def)
  qed
  finally show ?thesis .
qed

section \<open>The primitives, over views\<close>

text \<open>
  \<open>views jc k x ms\<close>: \<open>jc\<close> is in good order, with remaining fields \<open>k\<close>, text \<open>x\<close> in its buffer
  and modes \<open>ms\<close> on its stack (the top last).
\<close>

definition views :: "'c jparser \<Rightarrow> 'c jparser \<Rightarrow> u8 list \<Rightarrow> jmode list \<Rightarrow> bool" where
  "views jc k x ms \<longleftrightarrow> memory_ok jc \<and> core jc = k \<and> buffer_text jc = x \<and> modes jc = ms"

definition stack_full :: "'c jparser \<Rightarrow> jmode list \<Rightarrow> bool" where
  "stack_full k ms \<longleftrightarrow> 0 \<le> jc_depth k \<and> jc_depth k \<le> int (length ms)"

text \<open>
  \<open>outcome r p P Q\<close>: the calls \<open>r\<close> are made; if the callback accepts them all and \<open>p\<close> holds, \<open>Q\<close>
  holds of \<open>true\<close> and any parser that \<open>P\<close> allows; otherwise of \<open>false\<close> and any parser with
  the callback's last context.
\<close>

definition outcome :: "(bool \<times> 'c) res \<Rightarrow> bool \<Rightarrow> ('c \<Rightarrow> 'c jparser \<Rightarrow> bool) \<Rightarrow> (bool \<times> 'c jparser \<Rightarrow> bool) \<Rightarrow> bool" where
  "outcome r p P Q \<longleftrightarrow> runs r (\<lambda>(b, c). \<forall>jc. if b \<and> p then P c jc \<longrightarrow> Q (True, jc) else jc_ctx jc = c \<longrightarrow> Q (False, jc))"

lemma views_fields:
  assumes "views jc k x ms"
  shows "jc_callback jc = jc_callback k" "jc_ctx jc = jc_ctx k" "jc_state jc = jc_state k"
    "jc_before_comment_state jc = jc_before_comment_state k" "jc_type jc = jc_type k"
    "jc_escaped jc = jc_escaped k" "jc_comment jc = jc_comment k"
    "jc_allow_comments jc = jc_allow_comments k"
    "jc_handle_floats_manually jc = jc_handle_floats_manually k"
    "jc_utf16_high_surrogate jc = jc_utf16_high_surrogate k" "jc_depth jc = jc_depth k"
    "jc_decimal_point jc = jc_decimal_point k"
    "buffer_text jc = x" "modes jc = ms" "memory_ok jc" "core jc = k"
    "jc_parse_buffer_count jc = length x" "read_mode jc = Inr (last ms)" "ms \<noteq> []"
  using assms read_mode_last [of jc] count_eq_length [of jc] modes_not_Nil [of jc]
  unfolding views_def by (metis core_fields)+

lemma views_updates [intro]:
  assumes "views jc k x ms"
  shows "views (jc\<lparr>jc_ctx := c\<rparr>) (k\<lparr>jc_ctx := c\<rparr>) x ms"
    "views (jc\<lparr>jc_state := s\<rparr>) (k\<lparr>jc_state := s\<rparr>) x ms"
    "views (jc\<lparr>jc_before_comment_state := s\<rparr>) (k\<lparr>jc_before_comment_state := s\<rparr>) x ms"
    "views (jc\<lparr>jc_type := t\<rparr>) (k\<lparr>jc_type := t\<rparr>) x ms"
    "views (jc\<lparr>jc_escaped := e\<rparr>) (k\<lparr>jc_escaped := e\<rparr>) x ms"
    "views (jc\<lparr>jc_comment := m\<rparr>) (k\<lparr>jc_comment := m\<rparr>) x ms"
    "views (jc\<lparr>jc_utf16_high_surrogate := h\<rparr>) (k\<lparr>jc_utf16_high_surrogate := h\<rparr>) x ms"
  using assms by (auto simp: views_def)

lemma views_clear:
  assumes "views jc k x ms" "\<And>jc. views jc k [] ms \<Longrightarrow> Q jc"
  shows "runs (parse_buffer_clear jc) Q"
  by (rule runs_clear) (use assms in \<open>auto simp: views_def\<close>)

lemma views_pop_back:
  assumes "views jc k (x @ [c]) ms" "\<And>jc. views jc k x ms \<Longrightarrow> Q jc"
  shows "runs (parse_buffer_pop_back_char jc) Q"
  by (rule runs_pop_back) (use assms in \<open>auto simp: views_def\<close>)

lemma views_push_back:
  assumes "views jc k x ms" "\<And>jc. views jc k (x @ [c]) ms \<Longrightarrow> Q jc"
  shows "runs (parse_buffer_push_back_char jc c) Q"
  by (rule runs_push_back) (use assms in \<open>auto simp: views_def\<close>)

lemma views_push_back_chars:
  assumes "views jc k x ms" "\<And>jc. views jc k (x @ cs) ms \<Longrightarrow> Q jc"
  shows "runs (push_back_chars jc cs) Q"
  by (rule runs_push_back_chars) (use assms in \<open>auto simp: views_def\<close>)

lemma views_push:
  assumes "views jc k x ms"
    and "\<And>jc. \<not> stack_full k ms \<Longrightarrow> views jc k x (ms @ [m]) \<Longrightarrow> Q (True, jc)"
    and "\<And>jc. stack_full k ms \<Longrightarrow> jc_ctx jc = jc_ctx k \<Longrightarrow> Q (False, jc)"
  shows "runs (push jc m) Q"
proof (rule runs_push)
  fix j assume "core j = core jc" "0 \<le> jc_depth jc" "jc_depth jc \<le> int (length (modes jc))"
  then show "Q (False, j)" using assms(1) core_eqD(2) [of j jc]
    by (intro assms(3)) (auto simp: views_fields [OF assms(1)] stack_full_def)
next
  fix j assume "memory_ok j" "core j = core jc" "modes j = modes jc @ [m]" "buffer_text j = buffer_text jc"
    "0 \<le> jc_depth jc \<Longrightarrow> int (length (modes jc)) < jc_depth jc"
  then show "Q (True, j)"
    by (intro assms(2)) (auto simp: views_fields [OF assms(1)] views_def stack_full_def)
next
  show "memory_ok jc" using assms(1) by (rule views_fields)
qed

lemma views_pop:
  assumes "views jc k x ms" "last ms = m \<Longrightarrow> 2 \<le> length ms"
    and "\<And>jc. last ms = m \<Longrightarrow> views jc k x (butlast ms) \<Longrightarrow> Q (True, jc)"
    and "\<And>jc. last ms \<noteq> m \<Longrightarrow> jc_ctx jc = jc_ctx k \<Longrightarrow> Q (False, jc)"
  shows "runs (pop jc m) Q"
  by (rule runs_pop) (use assms in \<open>auto simp: views_def\<close>)

lemma views_call_back:
  assumes "views jc k x ms"
    and "outcome (deliver (jc_callback k) [(t, v)] (jc_ctx k)) True (\<lambda>c jc. views jc (k\<lparr>jc_ctx := c\<rparr>) x ms) Q"
  shows "runs (call_back jc t v) Q"
proof (rule runs_call_back)
  show "runs (deliver (jc_callback jc) [(t, v)] (jc_ctx jc)) (\<lambda>(b, c). Q (b, jc\<lparr>jc_ctx := c\<rparr>))"
    unfolding views_fields(1,2) [OF assms(1)]
  proof (rule runs_mono [OF assms(2) [unfolded outcome_def]], clarify)
    fix b c
    assume *: "\<forall>j. if b \<and> True then views j (k\<lparr>jc_ctx := c\<rparr>) x ms \<longrightarrow> Q (True, j)
      else jc_ctx j = c \<longrightarrow> Q (False, j)"
    show "Q (b, jc\<lparr>jc_ctx := c\<rparr>)"
      using spec [OF *, of "jc\<lparr>jc_ctx := c\<rparr>"] views_updates(1) [OF assms(1)] by (cases b) simp_all
  qed
qed

lemma views_parse_parse_buffer:
  assumes "views jc k x ms" "readable (jc_type k) x"
    and "outcome (deliver (jc_callback k) (pending (jc_handle_floats_manually k) (jc_type k) x) (jc_ctx k)) True
      (\<lambda>c jc. views jc (k\<lparr>jc_ctx := c\<rparr>) [] ms) Q"
  shows "runs (parse_parse_buffer jc) Q"
proof (rule runs_parse_parse_buffer)
  show "memory_ok jc" "readable (jc_type jc) (buffer_text jc)"
    using assms(2) by (simp_all add: views_fields [OF assms(1)])
  show "runs (deliver (jc_callback jc) (pending (jc_handle_floats_manually jc) (jc_type jc) (buffer_text jc)) (jc_ctx jc))
      (\<lambda>(b, c). if b then (\<forall>jc'. memory_ok jc' \<longrightarrow> core jc' = (core jc)\<lparr>jc_ctx := c\<rparr> \<longrightarrow> modes jc' = modes jc \<longrightarrow>
          buffer_text jc' = [] \<longrightarrow> Q (True, jc'))
        else Q (False, jc\<lparr>jc_ctx := c\<rparr>))"
    unfolding views_fields [OF assms(1)]
    by (rule runs_mono [OF assms(3) [unfolded outcome_def]]) (auto simp: views_def split: if_splits)
qed

lemma views_decode:
  assumes "views jc k (t @ [p, q, a, b, c, d]) ms" "list_all is_hex [a, b, c, d]"
    and "\<And>bs hi jc. utf16_step (jc_utf16_high_surrogate k) (hex4 a b c d) = Some (bs, hi) \<Longrightarrow>
      views jc (k\<lparr>jc_utf16_high_surrogate := hi\<rparr>) (t @ bs) ms \<Longrightarrow> Q (True, jc)"
    and "\<And>jc. utf16_step (jc_utf16_high_surrogate k) (hex4 a b c d) = None \<Longrightarrow> Q (False, jc)"
  shows "runs (decode_unicode_char jc) Q"
  by (rule runs_decode [where t = t and p = p and q = q and a = a and b = b and c = c and d = d])
    (use assms(2-4) views_fields [OF assms(1)] in \<open>auto simp: views_def\<close>)

end
