(* ===== verification/JsonActions.thy ===== *)
theory JsonActions imports JsonSafe begin

text \<open>
  What each action of the transition table does, over views: the events it sends, the new text,
  modes and fields, and when it answers \<open>false\<close>. The safety and the correctness proofs use these
  facts only.
\<close>

lemma outcome_chain:
  assumes "outcome (deliver cb (ys @ zs) c) p P Q"
    and "\<And>c' jc. R c' jc \<Longrightarrow> outcome (deliver cb zs c') p P Q \<Longrightarrow> runs (f jc) Q"
  shows "outcome (deliver cb ys c) True R (\<lambda>(b, s). if b then runs (f s) Q else Q (False, s))"
proof (cases "deliver cb ys c")
  case (Inl e)
  then show ?thesis using assms(1) by (simp add: outcome_def deliver_append)
next
  case (Inr r)
  obtain b c' where r: "r = (b, c')" by (cases r)
  show ?thesis
  proof (cases b)
    case True
    then have "outcome (deliver cb zs c') p P Q"
      using assms(1) Inr r by (simp add: outcome_def deliver_append)
    then show ?thesis using assms(2) Inr r True by (simp add: outcome_def)
  next
    case False
    then show ?thesis using assms(1) Inr r by (simp add: outcome_def deliver_append)
  qed
qed

lemmas outcome_end = outcome_chain [where zs = "[]", simplified]

lemma outcome_NilD:
  assumes "outcome (deliver cb [] c) p P Q"
  shows "p \<Longrightarrow> P c jc \<Longrightarrow> Q (True, jc)" and "\<not> p \<Longrightarrow> jc_ctx jc = c \<Longrightarrow> Q (False, jc)"
  using assms by (cases cb; auto simp: outcome_def)+

section \<open>Actions that only change fields\<close>

lemma views_UC:
  assumes "views jc k (t @ [p, q, a, b, c, d]) ms" "list_all is_hex [a, b, c, d]"
    and "\<And>bs hi jc. utf16_step (jc_utf16_high_surrogate k) (hex4 a b c d) = Some (bs, hi) \<Longrightarrow>
      views jc (k\<lparr>jc_utf16_high_surrogate := hi, jc_state := (if hi \<noteq> 0 then D1 else ST)\<rparr>) (t @ bs) ms \<Longrightarrow>
      Q (True, jc)"
    and "\<And>jc. utf16_step (jc_utf16_high_surrogate k) (hex4 a b c d) = None \<Longrightarrow> Q (False, jc)"
  shows "runs (act_UC jc) Q"
  unfolding act_UC_def runs_if_ok
proof (rule views_decode [OF assms(1,2)])
  fix bs hi j
  assume *: "utf16_step (jc_utf16_high_surrogate k) (hex4 a b c d) = Some (bs, hi)"
    "views j (k\<lparr>jc_utf16_high_surrogate := hi\<rparr>) (t @ bs) ms"
  show "case (True, j) of (b, s) \<Rightarrow> if b
    then runs (Inr (True, s\<lparr>jc_state := (if jc_utf16_high_surrogate s \<noteq> 0 then D1 else ST)\<rparr>)) Q else Q (False, s)"
    using assms(3) [OF *(1)] views_updates(2) [OF *(2)] by (simp add: views_fields(10) [OF *(2)])
qed (simp add: assms(4))

lemma views_DE:
  assumes "views jc k x ms" "isnt_string_null_or_bool (jc_type k)"
    and "\<And>jc. views jc (k\<lparr>jc_type := JSON_T_FLOAT, jc_state := E1\<rparr>) x ms \<Longrightarrow> Q (True, jc)"
  shows "runs (act_DE jc) Q"
  using assms views_updates(2) [OF views_updates(4) [OF assms(1)]]
  by (simp add: act_DE_def views_fields [OF assms(1)])

lemma views_localize_point:
  assumes "views jc k (x @ [0x2E]) ms" "\<And>jc. views jc k (x @ [jc_decimal_point k]) ms \<Longrightarrow> Q jc"
  shows "runs (localize_point jc) Q"
proof -
  note f = views_fields [OF assms(1)]
  let ?n = "jc_parse_buffer_count jc" and ?b = "jc_parse_buffer jc"
  have n: "?n = length x + 1" "take ?n ?b = x @ [0x2E]" "?n < length ?b" "length ?b \<le> jc_parse_buffer_capacity jc"
    using f(13,15,17) by (auto simp: buffer_text_def memory_ok_def buffer_ok_def)
  have "?b ! length x = (take ?n ?b) ! length x" using n(1) by simp
  then have b: "?b ! length x = 0x2E" using n(2) by simp
  have p: "poke (jc_parse_buffer_capacity jc) (length x) (jc_decimal_point jc) ?b
      = Inr (?b[length x := jc_decimal_point jc])" using n by (simp add: poke_def)
  have t: "take ?n (?b[length x := jc_decimal_point jc]) = x @ [jc_decimal_point jc]"
    using n(1,2) by (simp add: take_update_swap list_update_append)
  let ?j = "jc\<lparr>jc_parse_buffer := ?b[length x := jc_decimal_point jc]\<rparr>"
  have "stack_ok ?j = stack_ok jc" by (simp add: stack_ok_def stack_cells_def)
  moreover have "buffer_ok jc" "stack_ok jc" using f(15) by (simp_all add: memory_ok_def)
  moreover have "buffer_ok jc \<Longrightarrow> buffer_ok ?j" using n(1) by (simp add: buffer_ok_def)
  moreover have "core ?j = k" "modes ?j = ms" using f(14,16) by (simp_all add: core_def modes_def)
  moreover have "buffer_text ?j = x @ [jc_decimal_point k]" using t f(12) by (simp add: buffer_text_def)
  ultimately have v: "views ?j k (x @ [jc_decimal_point k]) ms" by (simp add: views_def memory_ok_def)
  have "localize_point jc = Inr ?j"
    using n(1) n(3) b p by (simp add: localize_point_def Let_def peek_Inr buffer_store_def)
  then show ?thesis using assms(2) [OF v] by simp
qed

lemma views_DF:
  assumes "views jc k (x @ [0x2E]) ms" "isnt_string_null_or_bool (jc_type k)"
    and "\<And>jc. views jc (k\<lparr>jc_type := JSON_T_FLOAT, jc_state := FX\<rparr>)
      (x @ [if jc_handle_floats_manually k then 0x2E else jc_decimal_point k]) ms \<Longrightarrow> Q (True, jc)"
  shows "runs (act_DF jc) Q"
proof -
  note f = views_fields [OF assms(1)]
  have *: "Q (True, j\<lparr>jc_type := JSON_T_FLOAT, jc_state := FX\<rparr>)"
    if "views j k (x @ [if jc_handle_floats_manually k then 0x2E else jc_decimal_point k]) ms" for j
    using assms(3) views_updates(2) [OF views_updates(4) [OF that]] by simp
  show ?thesis
  proof (cases "jc_handle_floats_manually k")
    case True
    then show ?thesis using * [of jc] assms(1,2) by (simp add: act_DF_def f)
  next
    case False
    then show ?thesis using * assms(2)
      by (simp add: act_DF_def f) (rule views_localize_point [OF assms(1)], simp)
  qed
qed

lemma views_SB:
  assumes "views jc k x ms" "jc_type k = JSON_T_NONE"
    and "\<And>jc. views jc (k\<lparr>jc_type := JSON_T_STRING, jc_state := ST\<rparr>) [] ms \<Longrightarrow> Q (True, jc)"
  shows "runs (act_SB jc) Q"
  unfolding act_SB_def runs_simps
proof (rule views_clear [OF assms(1)])
  fix j assume *: "views j k [] ms"
  show "jc_type j = JSON_T_NONE \<and> Q (True, j\<lparr>jc_type := JSON_T_STRING, jc_state := ST\<rparr>)"
    using assms(2,3) views_updates(2) [OF views_updates(4) [OF *]] by (simp add: views_fields(5) [OF *])
qed

lemma views_begin_literal:
  assumes "views jc k x ms" "jc_type k = JSON_T_NONE"
  shows "(\<And>jc. views jc (k\<lparr>jc_type := JSON_T_NULL, jc_state := N1\<rparr>) x ms \<Longrightarrow> Q (True, jc)) \<Longrightarrow> runs (act_NU jc) Q"
    and "(\<And>jc. views jc (k\<lparr>jc_type := JSON_T_FALSE, jc_state := F1\<rparr>) x ms \<Longrightarrow> Q (True, jc)) \<Longrightarrow> runs (act_FA jc) Q"
    and "(\<And>jc. views jc (k\<lparr>jc_type := JSON_T_TRUE, jc_state := T1\<rparr>) x ms \<Longrightarrow> Q (True, jc)) \<Longrightarrow> runs (act_TR jc) Q"
  using views_updates(2) [OF views_updates(4) [OF assms(1)]] assms(2)
  by (simp_all add: act_NU_def act_FA_def act_TR_def views_fields(5) [OF assms(1)])

lemma views_begin_integer:
  assumes "views jc k x ms"
  shows "(\<And>jc. views jc (k\<lparr>jc_type := JSON_T_INTEGER, jc_state := MI\<rparr>) x ms \<Longrightarrow> Q (True, jc)) \<Longrightarrow> runs (act_MX jc) Q"
    and "(\<And>jc. views jc (k\<lparr>jc_type := JSON_T_INTEGER, jc_state := ZE\<rparr>) x ms \<Longrightarrow> Q (True, jc)) \<Longrightarrow> runs (act_ZX jc) Q"
    and "(\<And>jc. views jc (k\<lparr>jc_type := JSON_T_INTEGER, jc_state := IT\<rparr>) x ms \<Longrightarrow> Q (True, jc)) \<Longrightarrow> runs (act_IX jc) Q"
  using views_updates(2) [OF views_updates(4) [OF assms(1)]]
  by (simp_all add: act_MX_def act_ZX_def act_IX_def)

lemma views_EX:
  assumes "views jc k x ms" "\<And>jc. views jc (k\<lparr>jc_escaped := True, jc_state := ES\<rparr>) x ms \<Longrightarrow> Q (True, jc)"
  shows "runs (act_EX jc) Q"
  using views_updates(2) [OF views_updates(5) [OF assms(1)]] assms(2) by (simp add: act_EX_def)

lemma views_CE:
  assumes "views jc k [] ms" "jc_type k = JSON_T_NONE"
    and "\<And>jc. views jc (k\<lparr>jc_comment := False, jc_state := jc_before_comment_state k\<rparr>) [] ms \<Longrightarrow> Q (True, jc)"
  shows "runs (act_CE jc) Q"
  using views_updates(2) [OF views_updates(6) [OF assms(1)]] assms(2,3)
  by (simp add: act_CE_def views_fields [OF assms(1)])

section \<open>Actions that call back\<close>

lemma views_CB:
  assumes "views jc k (x @ [c]) ms" "readable (jc_type k) x" "jc_type k \<noteq> JSON_T_STRING"
    and "\<not> jc_allow_comments k \<Longrightarrow> Q (False, jc)"
    and "jc_allow_comments k \<Longrightarrow>
      outcome (deliver (jc_callback k) (pending (jc_handle_floats_manually k) (jc_type k) x) (jc_ctx k)) True
      (\<lambda>c jc. views jc (k\<lparr>jc_ctx := c, jc_before_comment_state := comment_return_state (last ms) (jc_state k),
          jc_type := JSON_T_NONE, jc_state := C1, jc_comment := True\<rparr>) [] ms) Q"
  shows "runs (act_CB jc) Q"
proof (cases "jc_allow_comments k")
  case False
  then show ?thesis using assms(4) by (simp add: act_CB_def views_fields [OF assms(1)])
next
  case True
  have d: "runs (seq (check (jc_parse_buffer_count j = 0)) (\<lambda>_.
        seq (check (jc_type j \<noteq> JSON_T_STRING)) (\<lambda>_.
        seq (read_mode j) (\<lambda>m.
        Inr (True, j\<lparr>jc_before_comment_state := comment_return_state m (jc_state j),
          jc_type := JSON_T_NONE, jc_state := C1, jc_comment := True\<rparr>))))) Q"
    if v: "views j (k\<lparr>jc_ctx := c'\<rparr>) [] ms" and o: "outcome (deliver (jc_callback k) [] c') True
      (\<lambda>c jc. views jc (k\<lparr>jc_ctx := c, jc_before_comment_state := comment_return_state (last ms) (jc_state k),
          jc_type := JSON_T_NONE, jc_state := C1, jc_comment := True\<rparr>) [] ms) Q" for j c'
    using views_updates(6) [OF views_updates(2) [OF views_updates(4) [OF views_updates(3) [OF v]]]] assms(3)
    by (simp add: views_fields [OF v], intro outcome_NilD(1) [OF o]) simp_all
  show ?thesis unfolding act_CB_def views_fields(8) [OF assms(1)]
    by (simp only: True not_True_eq_False if_False, subst runs_simps(3), rule views_pop_back [OF assms(1)],
      subst runs_if_ok, erule views_parse_parse_buffer [OF _ assms(2)],
      rule outcome_end [OF assms(5) [OF True]], rule d)
qed

text \<open>The common ends of the actions: a call with no value, then a mode popped or pushed.\<close>

lemma views_pop_then:
  assumes "views jc (k\<lparr>jc_ctx := c\<rparr>) x ms" "last ms = m \<Longrightarrow> 2 \<le> length ms"
    and "outcome (deliver (jc_callback k) [] c) (last ms = m) (\<lambda>c jc. views jc (upd c) y (butlast ms)) Q"
    and "\<And>jc. views jc (k\<lparr>jc_ctx := c\<rparr>) x (butlast ms) \<Longrightarrow> views (g jc) (upd c) y (butlast ms)"
  shows "runs (if_ok (pop jc m) (\<lambda>jc. Inr (True, g jc))) Q"
  unfolding runs_if_ok using assms
  by (intro views_pop [OF assms(1)]) (auto intro: outcome_NilD [OF assms(3)])

lemma views_push_then:
  assumes "views jc (k\<lparr>jc_ctx := c\<rparr>) x ms" "jc_type k = JSON_T_NONE"
    and "outcome (deliver (jc_callback k) [] c) (\<not> stack_full k ms)
      (\<lambda>c jc. views jc (k\<lparr>jc_ctx := c, jc_state := s\<rparr>) x (ms @ [m])) Q"
  shows "runs (if_ok (push jc m) (\<lambda>jc. seq (check (jc_type jc = JSON_T_NONE)) (\<lambda>_. Inr (True, jc\<lparr>jc_state := s\<rparr>)))) Q"
  unfolding runs_if_ok
proof (intro views_push [OF assms(1)], goal_cases)
  case (1 j)
  then show ?case
    using outcome_NilD(1) [OF assms(3)] views_updates(2) [OF 1(2)] assms(2)
    by (simp add: views_fields [OF 1(2)] stack_full_def)
next
  case (2 j)
  then show ?case
    using outcome_NilD(2) [OF assms(3)] by (simp add: stack_full_def)
qed

lemma views_call_back_ctx:
  assumes "views jc (k\<lparr>jc_ctx := c\<rparr>) x ms"
    and "outcome (deliver (jc_callback k) [(t, v)] c) True (\<lambda>c jc. views jc (k\<lparr>jc_ctx := c\<rparr>) x ms) Q"
  shows "runs (call_back jc t v) Q"
  using assms(2) by (intro views_call_back [OF assms(1)]) simp

lemma views_act_9:
  assumes "views jc k x ms" "last ms = MODE_KEY \<Longrightarrow> 2 \<le> length ms"
    and "outcome (deliver (jc_callback k) [(JSON_T_OBJECT_END, None)] (jc_ctx k)) (last ms = MODE_KEY)
      (\<lambda>c jc. views jc (k\<lparr>jc_ctx := c, jc_state := OK\<rparr>) [] (butlast ms)) Q"
  shows "runs (act_9 jc) Q"
  unfolding act_9_def
  by (subst runs_simps(3), rule views_clear [OF assms(1)], subst runs_if_ok, erule views_call_back,
      rule outcome_end [OF assms(3)], erule views_pop_then [OF _ assms(2)], assumption+,
      drule views_updates(2), simp)

lemma views_end_container:
  assumes "views jc k (x @ [c]) ms" "readable (jc_type k) x" "last ms = m \<Longrightarrow> 2 \<le> length ms"
    and "outcome (deliver (jc_callback k) (pending (jc_handle_floats_manually k) (jc_type k) x @ [(t, None)]) (jc_ctx k))
      (last ms = m) (\<lambda>c jc. views jc (k\<lparr>jc_ctx := c, jc_type := JSON_T_NONE, jc_state := OK\<rparr>) [] (butlast ms)) Q"
  shows "runs (seq (parse_buffer_pop_back_char jc) (\<lambda>jc.
     if_ok (parse_parse_buffer jc) (\<lambda>jc.
     if_ok (call_back jc t None) (\<lambda>jc.
     if_ok (pop jc m) (\<lambda>jc.
     Inr (True, jc\<lparr>jc_type := JSON_T_NONE, jc_state := OK\<rparr>)))))) Q"
proof -
  have d: "runs (if_ok (call_back j t None) (\<lambda>jc. if_ok (pop jc m) (\<lambda>jc.
     Inr (True, jc\<lparr>jc_type := JSON_T_NONE, jc_state := OK\<rparr>)))) Q"
    if v: "views j (k\<lparr>jc_ctx := c'\<rparr>) [] ms"
      and o: "outcome (deliver (jc_callback k) [(t, None)] c') (last ms = m)
        (\<lambda>c jc. views jc (k\<lparr>jc_ctx := c, jc_type := JSON_T_NONE, jc_state := OK\<rparr>) [] (butlast ms)) Q" for j c'
    by (subst runs_if_ok, rule views_call_back_ctx [OF v], rule outcome_end [OF o],
        erule views_pop_then [OF _ assms(3)], assumption+, drule views_updates(4), drule views_updates(2), simp)
  show ?thesis
    by (subst runs_simps(3), rule views_pop_back [OF assms(1)], subst runs_if_ok,
        erule views_parse_parse_buffer [OF _ assms(2)], rule outcome_chain [OF assms(4)], rule d)
qed

lemmas views_act_8 = views_end_container [where m = MODE_OBJECT and t = JSON_T_OBJECT_END, folded act_8_def]
lemmas views_act_7 = views_end_container [where m = MODE_ARRAY and t = JSON_T_ARRAY_END, folded act_7_def]

lemma views_begin_container:
  assumes "views jc k (x @ [c]) ms" "jc_type k = JSON_T_NONE"
    and "outcome (deliver (jc_callback k) [(t, None)] (jc_ctx k)) (\<not> stack_full k ms)
      (\<lambda>c jc. views jc (k\<lparr>jc_ctx := c, jc_state := s\<rparr>) x (ms @ [m])) Q"
  shows "runs (seq (parse_buffer_pop_back_char jc) (\<lambda>jc.
     if_ok (call_back jc t None) (\<lambda>jc.
     if_ok (push jc m) (\<lambda>jc.
     seq (check (jc_type jc = JSON_T_NONE)) (\<lambda>_.
     Inr (True, jc\<lparr>jc_state := s\<rparr>)))))) Q"
  by (subst runs_simps(3), rule views_pop_back [OF assms(1)], subst runs_if_ok, erule views_call_back,
      rule outcome_end [OF assms(3)], erule views_push_then [OF _ assms(2)])

lemmas views_act_6 = views_begin_container [where m = MODE_KEY and t = JSON_T_OBJECT_BEGIN and s = OB, folded act_6_def]
lemmas views_act_5 = views_begin_container [where m = MODE_ARRAY and t = JSON_T_ARRAY_BEGIN and s = AR, folded act_5_def]

text \<open>The end of a string is the end of a key or of a value, by the mode on top.\<close>

lemma views_act_4_key:
  assumes "views jc k (x @ [c]) ms" "jc_type k = JSON_T_STRING" "last ms = MODE_KEY"
    and "outcome (deliver (jc_callback k) [(JSON_T_KEY, Some (JV_str x))] (jc_ctx k)) True
      (\<lambda>c jc. views jc (k\<lparr>jc_ctx := c, jc_type := JSON_T_NONE, jc_state := CO\<rparr>) [] ms) Q"
  shows "runs (act_4 jc) Q"
  unfolding act_4_def
proof (subst runs_simps(3), rule views_pop_back [OF assms(1)])
  fix j assume v: "views j k x ms"
  let ?k = "k\<lparr>jc_type := JSON_T_NONE, jc_state := CO\<rparr>"
  have ctx: "?k\<lparr>jc_ctx := c\<rparr> = k\<lparr>jc_ctx := c, jc_type := JSON_T_NONE, jc_state := CO\<rparr>" for c
    by (cases k) simp
  have v': "views (j\<lparr>jc_type := JSON_T_NONE, jc_state := CO\<rparr>) ?k x ms"
    using views_updates(2) [OF views_updates(4) [OF v]] .
  have "outcome (deliver (jc_callback k) [(JSON_T_KEY, Some (JV_str x))] (jc_ctx k)) True
      (\<lambda>c jc. views jc (?k\<lparr>jc_ctx := c\<rparr>) x ms)
      (\<lambda>(b, s). if b then runs (seq (parse_buffer_clear s) (\<lambda>jc. Inr (True, jc))) Q else Q (False, s))"
  proof (rule outcome_end [OF assms(4)])
    fix c' i assume i: "views i (?k\<lparr>jc_ctx := c'\<rparr>) x ms"
      and o: "outcome (deliver (jc_callback k) [] c') True
        (\<lambda>c jc. views jc (k\<lparr>jc_ctx := c, jc_type := JSON_T_NONE, jc_state := CO\<rparr>) [] ms) Q"
    show "runs (seq (parse_buffer_clear i) (\<lambda>jc. Inr (True, jc))) Q"
      by (subst runs_simps(3), rule views_clear [OF i [unfolded ctx]]) (auto intro!: outcome_NilD(1) [OF o])
  qed
  then have "runs (if_ok (call_back (j\<lparr>jc_type := JSON_T_NONE, jc_state := CO\<rparr>) JSON_T_KEY (Some (JV_str x)))
      (\<lambda>jc. seq (parse_buffer_clear jc) (\<lambda>jc. Inr (True, jc)))) Q"
    by (subst runs_if_ok, intro views_call_back [OF v']) simp
  then show "runs (seq (read_mode j) (\<lambda>m. case m of
       MODE_KEY \<Rightarrow> seq (check (jc_type j = JSON_T_STRING)) (\<lambda>_.
         let jc = j\<lparr>jc_type := JSON_T_NONE, jc_state := CO\<rparr>
         in if_ok (call_back jc JSON_T_KEY (Some (JV_str (buffer_text jc)))) (\<lambda>jc.
            seq (parse_buffer_clear jc) (\<lambda>jc. Inr (True, jc))))
     | MODE_DONE \<Rightarrow> Inr (False, j)
     | _ \<Rightarrow> seq (check (jc_type j = JSON_T_STRING)) (\<lambda>_.
         if_ok (parse_parse_buffer j) (\<lambda>jc.
         Inr (True, jc\<lparr>jc_type := JSON_T_NONE, jc_state := OK\<rparr>))))) Q"
    using assms(2,3) by (simp add: views_fields [OF v] Let_def del: runs_if_ok)
qed

lemma views_act_4_value:
  assumes "views jc k (x @ [c]) ms" "jc_type k = JSON_T_STRING" "last ms = MODE_ARRAY \<or> last ms = MODE_OBJECT"
    and "outcome (deliver (jc_callback k) [(JSON_T_STRING, Some (JV_str x))] (jc_ctx k)) True
      (\<lambda>c jc. views jc (k\<lparr>jc_ctx := c, jc_type := JSON_T_NONE, jc_state := OK\<rparr>) [] ms) Q"
  shows "runs (act_4 jc) Q"
  unfolding act_4_def
proof (subst runs_simps(3), rule views_pop_back [OF assms(1)])
  fix j assume v: "views j k x ms"
  have r: "readable (jc_type k) x" using assms(2) by (simp add: readable_def is_non_container_type_def)
  have p: "pending (jc_handle_floats_manually k) (jc_type k) x = [(JSON_T_STRING, Some (JV_str x))]"
    using assms(2) by (simp add: pending_def arg_value_def)
  have o: "outcome (deliver (jc_callback k) (pending (jc_handle_floats_manually k) (jc_type k) x) (jc_ctx k)) True
      (\<lambda>c jc. views jc (k\<lparr>jc_ctx := c\<rparr>) [] ms)
      (\<lambda>(b, s). if b then runs (Inr (True, s\<lparr>jc_type := JSON_T_NONE, jc_state := OK\<rparr>)) Q else Q (False, s))"
    unfolding p
  proof (rule outcome_end [OF assms(4)])
    fix c' i assume i: "views i (k\<lparr>jc_ctx := c'\<rparr>) [] ms"
      and o: "outcome (deliver (jc_callback k) [] c') True
        (\<lambda>c jc. views jc (k\<lparr>jc_ctx := c, jc_type := JSON_T_NONE, jc_state := OK\<rparr>) [] ms) Q"
    show "runs (Inr (True, i\<lparr>jc_type := JSON_T_NONE, jc_state := OK\<rparr>)) Q"
      using views_updates(2) [OF views_updates(4) [OF i]] by (simp, intro outcome_NilD(1) [OF o]) simp_all
  qed
  have "runs (if_ok (parse_parse_buffer j) (\<lambda>jc. Inr (True, jc\<lparr>jc_type := JSON_T_NONE, jc_state := OK\<rparr>))) Q"
    by (subst runs_if_ok, rule views_parse_parse_buffer [OF v r o])
  then show "runs (seq (read_mode j) (\<lambda>m. case m of
       MODE_KEY \<Rightarrow> seq (check (jc_type j = JSON_T_STRING)) (\<lambda>_.
         let jc = j\<lparr>jc_type := JSON_T_NONE, jc_state := CO\<rparr>
         in if_ok (call_back jc JSON_T_KEY (Some (JV_str (buffer_text jc)))) (\<lambda>jc.
            seq (parse_buffer_clear jc) (\<lambda>jc. Inr (True, jc))))
     | MODE_DONE \<Rightarrow> Inr (False, j)
     | _ \<Rightarrow> seq (check (jc_type j = JSON_T_STRING)) (\<lambda>_.
         if_ok (parse_parse_buffer j) (\<lambda>jc.
         Inr (True, jc\<lparr>jc_type := JSON_T_NONE, jc_state := OK\<rparr>))))) Q"
    using assms(2,3) by (auto simp: views_fields [OF v] simp del: runs_if_ok)
qed

lemma views_act_4_done:
  assumes "views jc k (x @ [c]) ms" "last ms = MODE_DONE" "\<And>jc. Q (False, jc)"
  shows "runs (act_4 jc) Q"
  unfolding act_4_def
  by (subst runs_simps(3), rule views_pop_back [OF assms(1)]) (simp add: views_fields assms(2,3))

text \<open>
  A mode is replaced by popping it and pushing the other; the push has room, since the stack never
  holds more than \<open>depth\<close> modes.
\<close>

lemma views_depth:
  assumes "views jc k x ms" "0 \<le> jc_depth k"
  shows "int (length ms) \<le> jc_depth k"
proof -
  note f = views_fields [OF assms(1)]
  have "int (length ms) = jc_top jc + 1" "jc_top jc + 1 \<le> jc_depth jc"
    using length_modes [OF f(15)] f(11,14,15) assms(2) by (auto simp: memory_ok_def stack_ok_def)
  then show ?thesis using f(11) by simp
qed

lemma views_replace_mode:
  assumes v: "views jc k x ms" and l: "last ms = m" "2 \<le> length ms"
    and r: "\<And>jc. views jc k x (butlast ms @ [m']) \<Longrightarrow> runs (f jc) Q"
  shows "runs (if_ok (pop jc m) (\<lambda>jc. if_ok (push jc m') f)) Q"
  unfolding runs_if_ok
proof (intro views_pop [OF v])
  fix j assume j: "views j k x (butlast ms)"
  have "\<not> stack_full k (butlast ms)"
    using views_depth [OF v] l(2) by (auto simp: stack_full_def)
  then show "case (True, j) of (b, s) \<Rightarrow> if b
    then runs (push s m') (\<lambda>(b, s). if b then runs (f s) Q else Q (False, s)) else Q (False, s)"
    by (simp, intro views_push [OF j]) (simp_all add: r)
qed (use l in simp_all)

lemma views_act_3_object:
  assumes "views jc k (x @ [c]) ms" "readable (jc_type k) x" "jc_type k \<noteq> JSON_T_STRING"
    and "last ms = MODE_OBJECT" "2 \<le> length ms"
    and "outcome (deliver (jc_callback k) (pending (jc_handle_floats_manually k) (jc_type k) x) (jc_ctx k)) True
      (\<lambda>c jc. views jc (k\<lparr>jc_ctx := c, jc_type := JSON_T_NONE, jc_state := KE\<rparr>) [] (butlast ms @ [MODE_KEY])) Q"
  shows "runs (act_3 jc) Q"
proof -
  have d: "runs (seq (read_mode j) (\<lambda>m. case m of
       MODE_OBJECT \<Rightarrow>
         if_ok (pop j MODE_OBJECT) (\<lambda>jc.
         if_ok (push jc MODE_KEY) (\<lambda>jc.
         seq (check (jc_type jc \<noteq> JSON_T_STRING)) (\<lambda>_.
         Inr (True, jc\<lparr>jc_type := JSON_T_NONE, jc_state := KE\<rparr>))))
     | MODE_ARRAY \<Rightarrow>
         seq (check (jc_type j \<noteq> JSON_T_STRING)) (\<lambda>_.
         Inr (True, j\<lparr>jc_type := JSON_T_NONE, jc_state := VA\<rparr>))
     | _ \<Rightarrow> Inr (False, j))) Q"
    if v: "views j (k\<lparr>jc_ctx := c'\<rparr>) [] ms" and o: "outcome (deliver (jc_callback k) [] c') True
      (\<lambda>c jc. views jc (k\<lparr>jc_ctx := c, jc_type := JSON_T_NONE, jc_state := KE\<rparr>) [] (butlast ms @ [MODE_KEY])) Q" for j c'
  proof -
    have "runs (if_ok (pop j MODE_OBJECT) (\<lambda>jc.
         if_ok (push jc MODE_KEY) (\<lambda>jc.
         seq (check (jc_type jc \<noteq> JSON_T_STRING)) (\<lambda>_.
         Inr (True, jc\<lparr>jc_type := JSON_T_NONE, jc_state := KE\<rparr>))))) Q"
    proof (rule views_replace_mode [OF v assms(4,5)])
      fix i assume i: "views i (k\<lparr>jc_ctx := c'\<rparr>) [] (butlast ms @ [MODE_KEY])"
      show "runs (seq (check (jc_type i \<noteq> JSON_T_STRING)) (\<lambda>_.
         Inr (True, i\<lparr>jc_type := JSON_T_NONE, jc_state := KE\<rparr>))) Q"
        using views_updates(2) [OF views_updates(4) [OF i]] assms(3)
        by (simp add: views_fields [OF i], intro outcome_NilD(1) [OF o]) simp_all
    qed
    then show ?thesis using assms(4) by (simp add: views_fields [OF v] del: runs_if_ok)
  qed
  show ?thesis unfolding act_3_def
    by (subst runs_simps(3), rule views_pop_back [OF assms(1)], subst runs_if_ok,
        erule views_parse_parse_buffer [OF _ assms(2)], rule outcome_end [OF assms(6)], rule d)
qed

lemma views_act_3_other:
  assumes "views jc k (x @ [c]) ms" "readable (jc_type k) x" "jc_type k \<noteq> JSON_T_STRING" "last ms \<noteq> MODE_OBJECT"
    and "outcome (deliver (jc_callback k) (pending (jc_handle_floats_manually k) (jc_type k) x) (jc_ctx k))
      (last ms = MODE_ARRAY)
      (\<lambda>c jc. views jc (k\<lparr>jc_ctx := c, jc_type := JSON_T_NONE, jc_state := VA\<rparr>) [] ms) Q"
  shows "runs (act_3 jc) Q"
proof -
  let ?e = "pending (jc_handle_floats_manually k) (jc_type k) x"
  have d: "runs (seq (read_mode j) (\<lambda>m. case m of
       MODE_OBJECT \<Rightarrow>
         if_ok (pop j MODE_OBJECT) (\<lambda>jc.
         if_ok (push jc MODE_KEY) (\<lambda>jc.
         seq (check (jc_type jc \<noteq> JSON_T_STRING)) (\<lambda>_.
         Inr (True, jc\<lparr>jc_type := JSON_T_NONE, jc_state := KE\<rparr>))))
     | MODE_ARRAY \<Rightarrow>
         seq (check (jc_type j \<noteq> JSON_T_STRING)) (\<lambda>_.
         Inr (True, j\<lparr>jc_type := JSON_T_NONE, jc_state := VA\<rparr>))
     | _ \<Rightarrow> Inr (False, j))) Q"
    if v: "views j (k\<lparr>jc_ctx := c'\<rparr>) [] ms" and o: "outcome (deliver (jc_callback k) [] c') (last ms = MODE_ARRAY)
      (\<lambda>c jc. views jc (k\<lparr>jc_ctx := c, jc_type := JSON_T_NONE, jc_state := VA\<rparr>) [] ms) Q" for j c'
    using views_updates(2) [OF views_updates(4) [OF v]] assms(3,4)
      outcome_NilD(1) [OF o, of "j\<lparr>jc_type := JSON_T_NONE, jc_state := VA\<rparr>"] outcome_NilD(2) [OF o, of j]
    by (cases "last ms") (simp_all add: views_fields [OF v])
  show ?thesis unfolding act_3_def
    by (subst runs_simps(3), rule views_pop_back [OF assms(1)], subst runs_if_ok,
        erule views_parse_parse_buffer [OF _ assms(2)], rule outcome_end [OF assms(5)], rule d)
qed

lemma views_act_2:
  assumes "views jc k (x @ [c]) ms" "jc_type k = JSON_T_NONE" "last ms = MODE_KEY \<Longrightarrow> 2 \<le> length ms"
    and "\<And>jc. last ms = MODE_KEY \<Longrightarrow> views jc (k\<lparr>jc_state := VA\<rparr>) x (butlast ms @ [MODE_OBJECT]) \<Longrightarrow> Q (True, jc)"
    and "\<And>jc. last ms \<noteq> MODE_KEY \<Longrightarrow> jc_ctx jc = jc_ctx k \<Longrightarrow> Q (False, jc)"
  shows "runs (act_2 jc) Q"
  unfolding act_2_def
proof (subst runs_simps(3), rule views_pop_back [OF assms(1)])
  fix j assume v: "views j k x ms"
  show "runs (if_ok (pop j MODE_KEY) (\<lambda>jc. if_ok (push jc MODE_OBJECT) (\<lambda>jc.
     seq (check (jc_type jc = JSON_T_NONE)) (\<lambda>_. Inr (True, jc\<lparr>jc_state := VA\<rparr>))))) Q"
  proof (cases "last ms = MODE_KEY")
    case True
    show ?thesis
    proof (rule views_replace_mode [OF v True assms(3) [OF True]])
      fix i assume i: "views i k x (butlast ms @ [MODE_OBJECT])"
      show "runs (seq (check (jc_type i = JSON_T_NONE)) (\<lambda>_. Inr (True, i\<lparr>jc_state := VA\<rparr>))) Q"
        using assms(2,4) True views_updates(2) [OF i] by (simp add: views_fields [OF i])
    qed
  next
    case False
    show ?thesis unfolding runs_if_ok
      by (intro views_pop [OF v]) (use False assms(5) in simp_all)
  qed
qed

end
