(* ===== verification/JsonInvariant.thy ===== *)
theory JsonInvariant imports JsonActions begin

text \<open>
  The invariant of the parser between characters, its preservation by \<open>JSON_parser_char\<close>, and what
  follows for whole texts: no assertion fails and no memory error happens, whatever the input.
\<close>

section \<open>Facts about the tables\<close>

definition white :: "jclass \<Rightarrow> bool" where
  "white c \<longleftrightarrow> c = C_SPACE \<or> c = C_WHITE"

definition hex_classes :: "jclass list" where
  "hex_classes = [C_ZERO, C_DIGIT, C_LOW_A, C_LOW_B, C_LOW_C, C_LOW_D, C_LOW_E, C_LOW_F, C_ABCDF, C_E]"

text \<open>The moves between states the table contains.\<close>

fun move_ok :: "jstate \<Rightarrow> jclass \<Rightarrow> jstate \<Rightarrow> bool" where
  "move_ok ST c s' = (s' = ST)"
| "move_ok ES c s' = ((s' = ST \<and> c \<noteq> C_LOW_U) \<or> (s' = U1 \<and> c = C_LOW_U))"
| "move_ok U1 c s' = (s' = U2 \<and> c \<in> set hex_classes)"
| "move_ok U2 c s' = (s' = U3 \<and> c \<in> set hex_classes)"
| "move_ok U3 c s' = (s' = U4 \<and> c \<in> set hex_classes)"
| "move_ok MI c s' = ((s' = ZE \<and> c = C_ZERO) \<or> (s' = IT \<and> c = C_DIGIT))"
| "move_ok IT c s' = ((s' = OK \<and> white c) \<or> (s' = IT \<and> (c = C_ZERO \<or> c = C_DIGIT)))"
| "move_ok FR c s' = ((s' = OK \<and> white c) \<or> s' = FR \<or> s' = E1)"
| "move_ok FX c s' = ((s' = OK \<and> white c) \<or> s' = FR \<or> s' = E1)"
| "move_ok E1 c s' = (s' = E2 \<or> s' = E3)"
| "move_ok E2 c s' = (s' = E3)"
| "move_ok E3 c s' = ((s' = OK \<and> white c) \<or> s' = E3)"
| "move_ok T1 c s' = (s' = T2)"
| "move_ok T2 c s' = (s' = T3)"
| "move_ok T3 c s' = (s' = OK)"
| "move_ok F1 c s' = (s' = F2)"
| "move_ok F2 c s' = (s' = F3)"
| "move_ok F3 c s' = (s' = F4)"
| "move_ok F4 c s' = (s' = OK)"
| "move_ok N1 c s' = (s' = N2)"
| "move_ok N2 c s' = (s' = N3)"
| "move_ok N3 c s' = (s' = OK)"
| "move_ok C1 c s' = (s' = C2)"
| "move_ok C2 c s' = (s' = C2 \<or> s' = C3)"
| "move_ok C3 c s' = (s' = C2 \<or> s' = C3)"
| "move_ok D1 c s' = (s' = D2 \<and> c = C_BACKS)"
| "move_ok D2 c s' = (s' = U1 \<and> c = C_LOW_U)"
| "move_ok U4 c s' = False"
| "move_ok ZE c s' = (s' = OK \<and> white c)"
| "move_ok s c s' = (s' = s \<and> white c)"

text \<open>The states and classes an action is taken in.\<close>

definition after_value :: "jstate list" where
  "after_value = [OK, ZE, IT, FR, E3, FX]"

fun action_ok :: "jstate \<Rightarrow> jclass \<Rightarrow> jaction \<Rightarrow> bool" where
  "action_ok s c UC = (s = U4 \<and> c \<in> set hex_classes)"
| "action_ok s c A_EX = (s = ST \<and> c = C_BACKS)"
| "action_ok s c MX = ((s = VA \<or> s = AR) \<and> c = C_MINUS)"
| "action_ok s c ZX = ((s = VA \<or> s = AR) \<and> c = C_ZERO)"
| "action_ok s c IX = ((s = VA \<or> s = AR) \<and> c = C_DIGIT)"
| "action_ok s c DE = (s = IT)"
| "action_ok s c DF = ((s = ZE \<or> s = IT) \<and> c = C_POINT)"
| "action_ok s c SB = ((s = VA \<or> s = AR \<or> s = OB \<or> s = KE) \<and> c = C_QUOTE)"
| "action_ok s c NU = ((s = VA \<or> s = AR) \<and> c = C_LOW_N)"
| "action_ok s c FA = ((s = VA \<or> s = AR) \<and> c = C_LOW_F)"
| "action_ok s c TR = ((s = VA \<or> s = AR) \<and> c = C_LOW_T)"
| "action_ok s c CE = (s = C3)"
| "action_ok s c CB = (s \<in> set [GO, OK, OB, KE, CO, VA, AR, ZE, IT, FR, T3, F4, N3] \<and> c = C_SLASH)"
| "action_ok s c A_9 = (s = OB \<and> c = C_RCURB)"
| "action_ok s c A_8 = (s \<in> set after_value \<and> c = C_RCURB)"
| "action_ok s c A_7 = ((s = AR \<or> s \<in> set after_value) \<and> c = C_RSQRB)"
| "action_ok s c A_6 = ((s = GO \<or> s = VA \<or> s = AR) \<and> c = C_LCURB)"
| "action_ok s c A_5 = ((s = GO \<or> s = VA \<or> s = AR) \<and> c = C_LSQRB)"
| "action_ok s c A_4 = (s = ST \<and> c = C_QUOTE)"
| "action_ok s c A_3 = (s \<in> set after_value \<and> c = C_COMMA)"
| "action_ok s c A_2 = (s = CO \<and> c = C_COLON)"

fun entry_ok :: "jstate \<Rightarrow> jclass \<Rightarrow> jentry \<Rightarrow> bool" where
  "entry_ok s c (To s') = move_ok s c s'"
| "entry_ok s c (Do a) = action_ok s c a"
| "entry_ok s c Bad = True"

lemma table_entry_ok: "entry_ok s c (state_transition_table s c)"
  by (rule table_check [where P = entry_ok]) code_simp

lemma table_To: "state_transition_table s c = To s' \<Longrightarrow> move_ok s c s'"
  using table_entry_ok [of s c] by simp

lemma table_Do: "state_transition_table s c = Do a \<Longrightarrow> action_ok s c a"
  using table_entry_ok [of s c] by simp

text \<open>The characters of a class.\<close>

definition class_fact :: "nat \<Rightarrow> bool" where
  "class_fact n = (case ascii_class ! n of None \<Rightarrow> True
     | Some c \<Rightarrow>
         (c \<in> set hex_classes \<longrightarrow> is_hex (word_of_nat n)) \<and>
         (c = C_ZERO \<or> c = C_DIGIT \<longrightarrow> isdigit (word_of_nat n)) \<and>
         (c = C_MINUS \<longrightarrow> n = 0x2D) \<and> (c = C_POINT \<longrightarrow> n = 0x2E) \<and> (c = C_LOW_U \<longrightarrow> n = 0x75))"

lemma class_fact: "n < 128 \<Longrightarrow> class_fact n"
proof -
  have "list_all class_fact [0..<128]" by code_simp
  then show "n < 128 \<Longrightarrow> class_fact n" unfolding list_all_upt_iff by blast
qed

lemma char_class_facts:
  assumes "char_class n = Some c" "0 \<le> n"
  shows "c \<in> set hex_classes \<Longrightarrow> is_hex (word_of_int n)"
    and "c = C_ZERO \<or> c = C_DIGIT \<Longrightarrow> isdigit (word_of_int n)"
    and "c = C_MINUS \<Longrightarrow> word_of_int n = (0x2D :: u8)"
    and "c = C_POINT \<Longrightarrow> word_of_int n = (0x2E :: u8)"
    and "c = C_LOW_U \<Longrightarrow> n = 0x75"
proof -
  have *: "c \<noteq> C_ETC \<Longrightarrow> nat n < 128 \<and> ascii_class ! nat n = Some c"
    using assms by (auto simp: char_class_def split: if_splits)
  have w: "(word_of_int n :: u8) = word_of_nat (nat n)" using assms(2) by simp
  note f = class_fact [of "nat n", unfolded class_fact_def]
  show "c \<in> set hex_classes \<Longrightarrow> is_hex (word_of_int n)"
    using * f by (cases "c = C_ETC") (auto simp: w hex_classes_def)
  show "c = C_ZERO \<or> c = C_DIGIT \<Longrightarrow> isdigit (word_of_int n)"
    using * f by (cases "c = C_ETC") (auto simp: w)
  show "c = C_MINUS \<Longrightarrow> word_of_int n = (0x2D :: u8)"
    using * f by (cases "c = C_ETC") (auto simp: w)
  show "c = C_POINT \<Longrightarrow> word_of_int n = (0x2E :: u8)"
    using * f by (cases "c = C_ETC") (auto simp: w)
  show "c = C_LOW_U \<Longrightarrow> n = 0x75"
    using * f assms(2) by (cases "c = C_ETC") auto
qed

section \<open>Adding a character to the buffer\<close>

lemma views_add_escaped:
  assumes "views jc k (x @ [c]) ms" "jc_escaped k"
    and "\<And>cs jc. escape_bytes n = Some cs \<Longrightarrow> views jc (k\<lparr>jc_escaped := False\<rparr>) (x @ cs) ms \<Longrightarrow> Q (True, jc)"
    and "\<And>jc. escape_bytes n = None \<Longrightarrow> Q (False, jc)"
  shows "runs (add_char_to_parse_buffer jc n cls) Q"
proof -
  have e: "jc_escaped jc" using assms(2) views_fields(6) [OF assms(1)] by simp
  show ?thesis
    unfolding add_char_to_parse_buffer_def add_escaped_char_to_parse_buffer_def
    using e
  proof (simp, intro views_pop_back [OF views_updates(5) [OF assms(1)]])
    fix j assume j: "views j (k\<lparr>jc_escaped := False\<rparr>) x ms"
    show "runs (case escape_bytes n of None \<Rightarrow> Inr (False, j)
       | Some cs \<Rightarrow> seq (push_back_chars j cs) (\<lambda>jc. Inr (True, jc))) Q"
      by (cases "escape_bytes n") (auto simp: assms(4) intro: views_push_back_chars [OF j] assms(3))
  qed
qed

lemma views_add_char:
  assumes "views jc k x ms" "\<not> jc_escaped k" "\<not> jc_comment k"
    and "\<And>jc. jc_type k \<noteq> JSON_T_NONE \<or> \<not> white cls \<Longrightarrow> views jc k (x @ [word_of_int n]) ms \<Longrightarrow> Q (True, jc)"
    and "\<And>jc. jc_type k = JSON_T_NONE \<Longrightarrow> white cls \<Longrightarrow> views jc k x ms \<Longrightarrow> Q (True, jc)"
  shows "runs (add_char_to_parse_buffer jc n cls) Q"
proof (cases "jc_type k \<noteq> JSON_T_NONE \<or> \<not> white cls")
  case True
  then have "jc_type jc \<noteq> JSON_T_NONE \<or> \<not> (cls = C_SPACE \<or> cls = C_WHITE)"
    by (simp add: views_fields(5) [OF assms(1)] white_def)
  then have "add_char_to_parse_buffer jc n cls = seq (parse_buffer_push_back_char jc (word_of_int n)) (\<lambda>jc. Inr (True, jc))"
    using assms(2,3) by (simp add: add_char_to_parse_buffer_def views_fields(6,7) [OF assms(1)])
  then show ?thesis using True
    by (simp, intro views_push_back [OF assms(1)] assms(4)) simp_all
next
  case False
  then show ?thesis using assms(2,3,5) assms(1)
    by (auto simp: add_char_to_parse_buffer_def views_fields [OF assms(1)] white_def)
qed

lemma views_add_comment:
  assumes "views jc k x ms" "\<not> jc_escaped k" "jc_comment k" "Q (True, jc)"
  shows "runs (add_char_to_parse_buffer jc n cls) Q"
  using assms by (simp add: add_char_to_parse_buffer_def views_fields [OF assms(1)])

section \<open>The invariant\<close>

text \<open>A text \<open>sscanf\<close> reads a number from: a digit, or a minus sign and a digit.\<close>

fun int_start :: "u8 list \<Rightarrow> bool" where
  "int_start (c # d # ds) = (isdigit c \<or> (c = 0x2D \<and> isdigit d))"
| "int_start [c] = isdigit c"
| "int_start [] = False"

text \<open>The buffer ends in \<open>\u\<close> (two characters) and \<open>n\<close> hexadecimal digits.\<close>

definition escape_tail :: "nat \<Rightarrow> u8 list \<Rightarrow> bool" where
  "escape_tail n x \<longleftrightarrow> (\<exists>t p q hs. x = t @ [p, q] @ hs \<and> length hs = n \<and> list_all is_hex hs)"

fun text_ok :: "jstate \<Rightarrow> jtype \<Rightarrow> u8 list \<Rightarrow> bool" where
  "text_ok ST t x = (t = JSON_T_STRING)"
| "text_ok ES t x = (t = JSON_T_STRING \<and> x \<noteq> [])"
| "text_ok U1 t x = (t = JSON_T_STRING \<and> escape_tail 0 x)"
| "text_ok U2 t x = (t = JSON_T_STRING \<and> escape_tail 1 x)"
| "text_ok U3 t x = (t = JSON_T_STRING \<and> escape_tail 2 x)"
| "text_ok U4 t x = (t = JSON_T_STRING \<and> escape_tail 3 x)"
| "text_ok D1 t x = (t = JSON_T_STRING)"
| "text_ok D2 t x = (t = JSON_T_STRING \<and> x \<noteq> [])"
| "text_ok MI t x = (t = JSON_T_INTEGER \<and> x = [0x2D])"
| "text_ok ZE t x = (t = JSON_T_INTEGER \<and> int_start x)"
| "text_ok IT t x = (t = JSON_T_INTEGER \<and> int_start x)"
| "text_ok FR t x = (t = JSON_T_FLOAT)"
| "text_ok FX t x = (t = JSON_T_FLOAT)"
| "text_ok E1 t x = (t = JSON_T_FLOAT)"
| "text_ok E2 t x = (t = JSON_T_FLOAT)"
| "text_ok E3 t x = (t = JSON_T_FLOAT)"
| "text_ok T1 t x = (t = JSON_T_TRUE)"
| "text_ok T2 t x = (t = JSON_T_TRUE)"
| "text_ok T3 t x = (t = JSON_T_TRUE)"
| "text_ok F1 t x = (t = JSON_T_FALSE)"
| "text_ok F2 t x = (t = JSON_T_FALSE)"
| "text_ok F3 t x = (t = JSON_T_FALSE)"
| "text_ok F4 t x = (t = JSON_T_FALSE)"
| "text_ok N1 t x = (t = JSON_T_NULL)"
| "text_ok N2 t x = (t = JSON_T_NULL)"
| "text_ok N3 t x = (t = JSON_T_NULL)"
| "text_ok OK t x = ((t = JSON_T_NONE \<and> x = []) \<or> (t = JSON_T_INTEGER \<and> int_start x)
     \<or> t = JSON_T_FLOAT \<or> t = JSON_T_TRUE \<or> t = JSON_T_FALSE \<or> t = JSON_T_NULL)"
| "text_ok s t x = (t = JSON_T_NONE \<and> x = [])"

definition comment_states :: "jstate list" where
  "comment_states = [C1, C2, C3]"

definition resume_states :: "jstate list" where
  "resume_states = [GO, OK, OB, KE, CO, VA, AR]"

definition callback_ok :: "'c jcallback option \<Rightarrow> bool" where
  "callback_ok cb \<longleftrightarrow> (\<forall>f. cb = Some f \<longrightarrow> (\<forall>t v c. runs (f t v c) (\<lambda>_. True)))"

text \<open>\<open>MODE_DONE\<close> is at the bottom only, \<open>MODE_KEY\<close> on the top only.\<close>

definition modes_ok :: "jmode list \<Rightarrow> bool" where
  "modes_ok ms \<longleftrightarrow> (\<exists>ms'. ms = MODE_DONE # ms' \<and> MODE_DONE \<notin> set ms') \<and> MODE_KEY \<notin> set (butlast ms)"

text \<open>The states the parser can be in under a mode; in a comment, the state it returns to.\<close>

definition string_states :: "jstate list" where
  "string_states = [ST, ES, U1, U2, U3, U4, D1, D2]"

fun mode_fits :: "jmode \<Rightarrow> jstate \<Rightarrow> bool" where
  "mode_fits MODE_DONE s = (s = GO \<or> s = OK)"
| "mode_fits MODE_KEY s = (s = OB \<or> s = KE \<or> s = CO \<or> s \<in> set string_states)"
| "mode_fits m s = (s \<noteq> GO \<and> s \<noteq> OB \<and> s \<noteq> KE \<and> s \<noteq> CO)"

definition base_state :: "'c jparser \<Rightarrow> jstate" where
  "base_state k = (if jc_comment k then jc_before_comment_state k else jc_state k)"

definition view_ok :: "'c jparser \<Rightarrow> u8 list \<Rightarrow> jmode list \<Rightarrow> bool" where
  "view_ok k x ms \<longleftrightarrow> modes_ok ms \<and> text_ok (jc_state k) (jc_type k) x
     \<and> (jc_escaped k \<longleftrightarrow> jc_state k = ES)
     \<and> (jc_comment k \<longleftrightarrow> jc_state k \<in> set comment_states)
     \<and> (jc_comment k \<longrightarrow> jc_before_comment_state k \<in> set resume_states)
     \<and> mode_fits (last ms) (base_state k)
     \<and> (last ms = MODE_DONE \<longrightarrow> jc_type k = JSON_T_NONE)
     \<and> callback_ok (jc_callback k)"

definition parser_ok :: "'c jparser \<Rightarrow> bool" where
  "parser_ok jc \<longleftrightarrow> memory_ok jc \<and> view_ok (core jc) (buffer_text jc) (modes jc)"

lemma parser_okI: "views jc k x ms \<Longrightarrow> view_ok k x ms \<Longrightarrow> parser_ok jc"
  by (auto simp: parser_ok_def views_def)

lemma parser_okE:
  assumes "parser_ok jc"
  obtains k x ms where "views jc k x ms" "view_ok k x ms"
  using assms by (auto simp: parser_ok_def views_def)

lemma deliver_safe: "callback_ok cb \<Longrightarrow> runs (deliver cb evs c) (\<lambda>_. True)"
proof (cases cb)
  case (Some f)
  assume "callback_ok cb"
  then have f: "runs (f t v c) (\<lambda>_. True)" for t v c using Some by (simp add: callback_ok_def)
  show ?thesis unfolding Some
  proof (induction evs arbitrary: c)
    case (Cons e evs)
    obtain t v where e: "e = (t, v)" by force
    show ?case unfolding e deliver.simps runs_if_ok
      by (rule runs_mono [OF f [of t v c]]) (auto simp: Cons.IH)
  qed simp
qed simp

lemma outcome_safe:
  assumes "callback_ok cb" "\<And>c jc. p \<Longrightarrow> P c jc \<Longrightarrow> Q (True, jc)" "\<And>jc. Q (False, jc)"
  shows "outcome (deliver cb evs c) p P Q"
  unfolding outcome_def by (rule runs_mono [OF deliver_safe [OF assms(1)]]) (auto simp: assms(2,3))

lemma modes_ok_last: "modes_ok ms \<Longrightarrow> last ms \<noteq> MODE_DONE \<Longrightarrow> 2 \<le> length ms"
  by (cases ms rule: list3_cases) (auto simp: modes_ok_def)

lemma modes_ok_butlast: "modes_ok ms \<Longrightarrow> last ms \<noteq> MODE_DONE \<Longrightarrow> modes_ok (butlast ms)"
  by (auto simp: modes_ok_def dest: in_set_butlastD split: if_splits)

lemma modes_ok_last_butlast:
  assumes "modes_ok ms" "last ms \<noteq> MODE_DONE"
  shows "last (butlast ms) \<noteq> MODE_KEY"
proof -
  have "butlast ms \<noteq> []" using modes_ok_last [OF assms] by (cases ms rule: list3_cases) auto
  then have "last (butlast ms) \<in> set (butlast ms)" by simp
  then show ?thesis using assms(1) by (auto simp: modes_ok_def)
qed

lemma modes_ok_snoc:
  assumes "modes_ok ms" "m \<noteq> MODE_DONE" "last ms \<noteq> MODE_KEY"
  shows "modes_ok (ms @ [m])"
proof -
  have "ms \<noteq> []" using assms(1) by (auto simp: modes_ok_def)
  then have "set ms = insert (last ms) (set (butlast ms))"
    by (metis append_butlast_last_id list.simps(15) rotate1.simps(2) set_rotate1)
  then show ?thesis using assms by (auto simp: modes_ok_def)
qed

lemma modes_ok_replace:
  assumes "modes_ok ms" "last ms \<noteq> MODE_DONE" "m \<noteq> MODE_DONE"
  shows "modes_ok (butlast ms @ [m])"
  by (rule modes_ok_snoc [OF modes_ok_butlast [OF assms(1,2)] assms(3) modes_ok_last_butlast [OF assms(1,2)]])

text \<open>After a container is closed the parser is in \<open>OK\<close>, which fits what the stack has left.\<close>

lemma mode_fits_OK: "m \<noteq> MODE_KEY \<Longrightarrow> mode_fits m OK"
  by (cases m) simp_all

lemma int_start_append: "int_start x \<Longrightarrow> int_start (x @ y)"
  by (cases x rule: int_start.cases; cases y) auto

lemma isdigit_facts: "isdigit c \<Longrightarrow> c \<noteq> 0 \<and> \<not> isspace c \<and> c \<noteq> 0x2D \<and> c \<noteq> 0x2B"
proof -
  have "\<forall>c. isdigit c \<longrightarrow> c \<noteq> 0 \<and> \<not> isspace c \<and> c \<noteq> 0x2D \<and> c \<noteq> 0x2B"
    unfolding byte_all_iff by code_simp
  then show "isdigit c \<Longrightarrow> c \<noteq> 0 \<and> \<not> isspace c \<and> c \<noteq> 0x2D \<and> c \<noteq> 0x2B" by blast
qed

lemma int_start_read: "int_start x \<Longrightarrow> sscanf_ld (takeWhile (\<lambda>c. c \<noteq> 0) x) \<noteq> None"
proof (cases x rule: int_start.cases)
  case (1 c d ds)
  assume "int_start x"
  then consider "isdigit c" | "c = 0x2D" "isdigit d" using 1 by auto
  then show ?thesis
    by cases (use isdigit_facts [of c] isdigit_facts [of d] in
      \<open>auto simp: 1 sscanf_ld_def scan_number_def Let_def isspace_def\<close>)
next
  case (2 c)
  assume "int_start x"
  then show ?thesis using isdigit_facts [of c] by (auto simp: 2 sscanf_ld_def scan_number_def Let_def)
qed simp

lemma escape_tail_snoc: "escape_tail n x \<Longrightarrow> is_hex c \<Longrightarrow> escape_tail (Suc n) (x @ [c])"
  unfolding escape_tail_def 
  by clarify (rule exI, rule exI, rule exI, rule_tac x = "hs @ [c]" in exI, simp)

lemma text_ok_readable:
  assumes "text_ok s t x" "s \<in> set after_value \<union> {T3, F4, N3} \<union> set resume_states"
  shows "readable t x" "t \<noteq> JSON_T_STRING"
  using assms int_start_read [of x]
  by (auto simp: after_value_def resume_states_def readable_def is_non_container_type_def)

section \<open>Preservation\<close>

lemma move_text_ok:
  assumes "text_ok s t x" "move_ok s c s'" "s \<noteq> ES" "s \<notin> set comment_states" "char_class n = Some c" "0 \<le> n"
  shows "text_ok s' t (if t = JSON_T_NONE \<and> white c then x else x @ [word_of_int n])"
proof -
  note f = char_class_facts [OF assms(5,6)]
  have t1: "escape_tail 0 (y @ [a, b])" for y a b by (auto simp: escape_tail_def)
  then have t0: "y \<noteq> [] \<Longrightarrow> escape_tail 0 (y @ [b])" for y b
    by (metis append.assoc append_Cons append_Nil append_butlast_last_id)
  show ?thesis
    using assms(1-4) f t0 escape_tail_snoc [of 0 x] escape_tail_snoc [of 1 x] escape_tail_snoc [of 2 x] int_start_append [of x]
    by (cases s) (auto simp: white_def comment_states_def numeral_eq_Suc)
qed

lemma move_ok_states:
  assumes "move_ok s c s'"
  shows "s \<noteq> ES \<Longrightarrow> s' \<noteq> ES" and "s' \<in> set comment_states \<longleftrightarrow> s \<in> set comment_states"
    and "mode_fits m s \<Longrightarrow> mode_fits m s'"
proof -
  show "s \<noteq> ES \<Longrightarrow> s' \<noteq> ES" "s' \<in> set comment_states \<longleftrightarrow> s \<in> set comment_states"
    using assms by (cases s; auto simp: comment_states_def)+
  show "mode_fits m s \<Longrightarrow> mode_fits m s'"
    using assms by (cases m; cases s; simp add: string_states_def; auto)
qed

definition steps_ok :: "bool \<times> 'c jparser \<Rightarrow> bool" where
  "steps_ok r \<longleftrightarrow> (fst r \<longrightarrow> parser_ok (snd r))"

lemma steps_okI [intro]:
  "views jc k x ms \<Longrightarrow> view_ok k x ms \<Longrightarrow> steps_ok (True, jc)"
  "steps_ok (False, jc)"
  by (auto simp: steps_ok_def intro: parser_okI)

lemma to_entry_ok:
  assumes "views jc k x' ms" "view_ok k x ms" "move_ok (jc_state k) c s'" "char_class n = Some c" "0 \<le> n"
    "jc_state k \<noteq> ES" "x' = (if jc_comment k \<or> (jc_type k = JSON_T_NONE \<and> white c) then x else x @ [word_of_int n])"
  shows "steps_ok (True, jc\<lparr>jc_state := s'\<rparr>)"
proof (rule steps_okI(1) [OF views_updates(2) [OF assms(1)]])
  note m = move_ok_states [OF assms(3)]
  have "text_ok s' (jc_type k) x'"
  proof (cases "jc_comment k")
    case True
    then show ?thesis using assms(2,3,7) m by (cases s') (auto simp: view_ok_def comment_states_def)
  next
    case False
    then show ?thesis using assms(2,7) move_text_ok [OF _ assms(3,6) _ assms(4,5), of "jc_type k" x]
      by (auto simp: view_ok_def)
  qed
  then show "view_ok (k\<lparr>jc_state := s'\<rparr>) x' ms"
    using assms(2,6) m by (auto simp: view_ok_def base_state_def)
qed

end
