(* ===== verification/JsonPreserve.thy ===== *)
theory JsonPreserve imports JsonInvariant begin

text \<open>
  Every action keeps the invariant of \<open>JsonInvariant\<close>, so \<open>JSON_parser_char\<close> does, and no input
  makes the parser fail an assertion or leave its memory.
\<close>

section \<open>The situation in which an action is taken\<close>

text \<open>Fields \<open>k\<close> and modes \<open>ms\<close> as the invariant has them, and the new character already in the buffer.\<close>

definition acting :: "'c jparser \<Rightarrow> 'c jparser \<Rightarrow> u8 list \<Rightarrow> jmode list \<Rightarrow> jclass \<Rightarrow> int \<Rightarrow> bool" where
  "acting jc k x ms c n \<longleftrightarrow> views jc k (x @ [word_of_int n]) ms \<and> view_ok k x ms
     \<and> char_class n = Some c \<and> 0 \<le> n \<and> \<not> jc_escaped k \<and> \<not> jc_comment k"

lemma actingD:
  assumes "acting jc k x ms c n"
  shows "views jc k (x @ [word_of_int n]) ms" "view_ok k x ms" "char_class n = Some c" "0 \<le> n"
    "\<not> jc_escaped k" "\<not> jc_comment k" "modes_ok ms" "callback_ok (jc_callback k)"
    "text_ok (jc_state k) (jc_type k) x" "jc_state k \<noteq> ES" "jc_state k \<notin> set comment_states"
    "mode_fits (last ms) (jc_state k)" "last ms = MODE_DONE \<Longrightarrow> jc_type k = JSON_T_NONE"
  using assms by (auto simp: acting_def view_ok_def base_state_def)

text \<open>The invariant for a new state that is neither an escape nor in a comment.\<close>

definition plain :: "jstate \<Rightarrow> bool" where
  "plain s \<longleftrightarrow> s \<noteq> ES \<and> s \<notin> set comment_states"

lemma plain_simps [simp]:
  "plain ST" "plain OK" "plain OB" "plain KE" "plain CO" "plain VA" "plain AR" "plain D1" "plain MI"
  "plain ZE" "plain IT" "plain E1" "plain FX" "plain T1" "plain F1" "plain N1"
  by (simp_all add: plain_def comment_states_def)

lemma plain_okI:
  assumes "views jc k x ms" "modes_ok ms" "callback_ok (jc_callback k)" "\<not> jc_escaped k" "\<not> jc_comment k"
    "plain (jc_state k)" "text_ok (jc_state k) (jc_type k) x" "mode_fits (last ms) (jc_state k)"
    "last ms = MODE_DONE \<Longrightarrow> jc_type k = JSON_T_NONE"
  shows "steps_ok (True, jc)"
  by (rule steps_okI(1) [OF assms(1)]) (use assms in \<open>simp add: view_ok_def base_state_def plain_def\<close>)

text \<open>The modes of the states that read values, keys and escapes.\<close>

lemma mode_of_value: "mode_fits m s \<Longrightarrow> s = VA \<or> s = AR \<or> s = ZE \<or> s = IT \<Longrightarrow> m = MODE_ARRAY \<or> m = MODE_OBJECT"
  by (cases m) (auto simp: string_states_def)

lemma mode_of_key: "mode_fits m s \<Longrightarrow> s = OB \<or> s = KE \<or> s = CO \<Longrightarrow> m = MODE_KEY"
  by (cases m) auto

lemma mode_of_U4: "mode_fits m U4 \<Longrightarrow> m \<noteq> MODE_DONE \<and> mode_fits m ST \<and> mode_fits m D1"
  by (cases m) (simp_all add: string_states_def)

lemma value_mode_fits:
  assumes "m = MODE_ARRAY \<or> m = MODE_OBJECT"
  shows "mode_fits m s \<longleftrightarrow> s \<noteq> GO \<and> s \<noteq> OB \<and> s \<noteq> KE \<and> s \<noteq> CO" "m \<noteq> MODE_DONE"
  using assms by auto

lemma UC_ok:
  assumes A: "acting jc k x ms c n" and a: "action_ok (jc_state k) c UC"
  shows "runs (act_UC jc) steps_ok"
proof -
  note i = actingD [OF A]
  have s: "jc_state k = U4" using a by simp
  have h4: "is_hex (word_of_int n)" using a char_class_facts(1) [OF i(3,4)] by simp
  have t: "jc_type k = JSON_T_STRING" "escape_tail 3 x" using i(9) unfolding s by simp_all
  then obtain t0 p q hs where x: "x = t0 @ [p, q] @ hs" "length hs = 3" "list_all is_hex hs"
    unfolding escape_tail_def by blast
  from x(2) obtain h1 h2 h3 where hs: "hs = [h1, h2, h3]" by (auto simp: length_Suc_conv numeral_3_eq_3)
  have v: "views jc k (t0 @ [p, q, h1, h2, h3, word_of_int n]) ms" using i(1) x hs by simp
  have h: "list_all is_hex [h1, h2, h3, word_of_int n]" using x(3) hs h4 by simp
  have m: "last ms \<noteq> MODE_DONE" "mode_fits (last ms) ST" "mode_fits (last ms) D1"
    using mode_of_U4 i(12) unfolding s by blast+
  show ?thesis
  proof (rule views_UC [OF v h], goal_cases)
    case (1 bs hi j)
    show ?case
      by (rule plain_okI [OF 1(2) i(7)]) (use i(5,6,8) t(1) m in simp_all)
  qed (rule steps_okI)
qed

text \<open>Actions that only start or extend a value.\<close>

lemma value_okI:
  assumes A: "acting jc k x ms c n" and v: "views j (k\<lparr>jc_type := t, jc_state := s\<rparr>) y ms"
    and s: "jc_state k = VA \<or> jc_state k = AR \<or> jc_state k = ZE \<or> jc_state k = IT"
    and p: "plain s" "s \<noteq> GO \<and> s \<noteq> OB \<and> s \<noteq> KE \<and> s \<noteq> CO" "text_ok s t y"
  shows "steps_ok (True, j)"
proof -
  note i = actingD [OF A]
  have m: "last ms = MODE_ARRAY \<or> last ms = MODE_OBJECT" by (rule mode_of_value [OF i(12) s])
  show ?thesis
    by (rule plain_okI [OF v i(7)]) (use i(5,6,8) p value_mode_fits [OF m] in simp_all)
qed

lemma value_start:
  assumes A: "acting jc k x ms c n" and s: "jc_state k = VA \<or> jc_state k = AR"
  shows "jc_type k = JSON_T_NONE" "x = []"
  using actingD(9) [OF A] s by auto

lemma integer_actions_ok:
  assumes A: "acting jc k x ms c n"
  shows "action_ok (jc_state k) c MX \<Longrightarrow> runs (act_MX jc) steps_ok"
    and "action_ok (jc_state k) c ZX \<Longrightarrow> runs (act_ZX jc) steps_ok"
    and "action_ok (jc_state k) c IX \<Longrightarrow> runs (act_IX jc) steps_ok"
proof -
  note v = views_begin_integer [OF actingD(1) [OF A]] and f = char_class_facts [OF actingD(3,4) [OF A]]
  show "runs (act_MX jc) steps_ok" if "action_ok (jc_state k) c MX"
    by (rule v(1), erule value_okI [OF A]) (use that f(3) value_start [OF A] in auto)
  show "runs (act_ZX jc) steps_ok" if "action_ok (jc_state k) c ZX"
    by (rule v(2), erule value_okI [OF A]) (use that f(2) value_start [OF A] in auto)
  show "runs (act_IX jc) steps_ok" if "action_ok (jc_state k) c IX"
    by (rule v(3), erule value_okI [OF A]) (use that f(2) value_start [OF A] in auto)
qed

lemma literal_actions_ok:
  assumes A: "acting jc k x ms c n"
  shows "action_ok (jc_state k) c NU \<Longrightarrow> runs (act_NU jc) steps_ok"
    and "action_ok (jc_state k) c FA \<Longrightarrow> runs (act_FA jc) steps_ok"
    and "action_ok (jc_state k) c TR \<Longrightarrow> runs (act_TR jc) steps_ok"
proof -
  note v = views_begin_literal [OF actingD(1) [OF A]]
  show "runs (act_NU jc) steps_ok" if "action_ok (jc_state k) c NU"
    by (rule v(1), use that value_start [OF A] in simp, erule value_okI [OF A]) (use that in auto)
  show "runs (act_FA jc) steps_ok" if "action_ok (jc_state k) c FA"
    by (rule v(2), use that value_start [OF A] in simp, erule value_okI [OF A]) (use that in auto)
  show "runs (act_TR jc) steps_ok" if "action_ok (jc_state k) c TR"
    by (rule v(3), use that value_start [OF A] in simp, erule value_okI [OF A]) (use that in auto)
qed

lemma DE_ok:
  assumes A: "acting jc k x ms c n" and a: "action_ok (jc_state k) c DE"
  shows "runs (act_DE jc) steps_ok"
proof -
  have "isnt_string_null_or_bool (jc_type k)"
    using a actingD(9) [OF A] by (simp add: isnt_string_null_or_bool_def)
  then show ?thesis
    by (rule views_DE [OF actingD(1) [OF A]], erule_tac value_okI [OF A]) (use a in auto)
qed

lemma SB_ok:
  assumes A: "acting jc k x ms c n" and a: "action_ok (jc_state k) c SB"
  shows "runs (act_SB jc) steps_ok"
proof -
  note i = actingD [OF A]
  have t: "jc_type k = JSON_T_NONE" using i(9) a by auto
  have m: "last ms \<noteq> MODE_DONE" "mode_fits (last ms) ST"
    using i(12) a by (cases "last ms"; auto simp: string_states_def)+
  show ?thesis
    by (rule views_SB [OF i(1) t], erule plain_okI [OF _ i(7)]) (use i(5,6,8) m in simp_all)
qed

lemma EX_ok:
  assumes A: "acting jc k x ms c n" and a: "action_ok (jc_state k) c A_EX"
  shows "runs (act_EX jc) steps_ok"
proof (rule views_EX [OF actingD(1) [OF A]])
  note i = actingD [OF A]
  have m: "last ms \<noteq> MODE_DONE" "mode_fits (last ms) ES"
    using i(12) a by (cases "last ms"; simp add: string_states_def)+
  fix j assume "views j (k\<lparr>jc_escaped := True, jc_state := ES\<rparr>) (x @ [word_of_int n]) ms"
  then show "steps_ok (True, j)"
    by (rule steps_okI(1)) (use a i(6-9) m in \<open>simp add: view_ok_def comment_states_def base_state_def\<close>)
qed

lemma DF_ok:
  assumes A: "acting jc k x ms c n" and a: "action_ok (jc_state k) c DF"
  shows "runs (act_DF jc) steps_ok"
proof -
  note i = actingD [OF A]
  have v: "views jc k (x @ [0x2E]) ms" using i(1) a char_class_facts(4) [OF i(3,4)] by simp
  have t: "isnt_string_null_or_bool (jc_type k)" using a i(9) by (auto simp: isnt_string_null_or_bool_def)
  have m: "last ms \<noteq> MODE_DONE" "mode_fits (last ms) FX"
    using value_mode_fits [OF mode_of_value [OF i(12)]] a by auto
  show ?thesis
    by (rule views_DF [OF v t], erule plain_okI [OF _ i(7)]) (use i(5,6,8) m in simp_all)
qed

section \<open>Actions that call back\<close>

text \<open>Where a value may have been read, its text can be handed on.\<close>

definition closing_states :: "jstate set" where
  "closing_states = set after_value \<union> {T3, F4, N3} \<union> set resume_states"

lemma acting_readable:
  assumes A: "acting jc k x ms c n" and "jc_state k \<in> closing_states"
  shows "readable (jc_type k) x" "jc_type k \<noteq> JSON_T_STRING"
  using text_ok_readable [OF actingD(9) [OF A]] assms(2) by (simp_all add: closing_states_def)

lemma closing_states_simps [simp]:
  "set after_value \<subseteq> closing_states" "AR \<in> closing_states" "s \<in> set after_value \<Longrightarrow> s \<in> closing_states"
  by (auto simp: closing_states_def resume_states_def)

lemma comment_return_fits:
  assumes "mode_fits m s" "s \<in> set [GO, OK, OB, KE, CO, VA, AR, ZE, IT, FR, T3, F4, N3]"
  shows "mode_fits m (comment_return_state m s)" "comment_return_state m s \<in> set resume_states"
  using assms by (cases m; auto simp: comment_return_state_def resume_states_def string_states_def)+

lemma CB_ok:
  assumes A: "acting jc k x ms c n" and a: "action_ok (jc_state k) c CB"
  shows "runs (act_CB jc) steps_ok"
proof -
  note i = actingD [OF A]
  have s: "jc_state k \<in> closing_states"
    using a by (auto simp: closing_states_def after_value_def resume_states_def)
  have m: "mode_fits (last ms) (comment_return_state (last ms) (jc_state k))"
    "comment_return_state (last ms) (jc_state k) \<in> set resume_states"
    using comment_return_fits [OF i(12)] a by auto
  show ?thesis
  proof (intro views_CB [OF i(1) acting_readable [OF A s]] outcome_safe [OF i(8)])
    fix c' j assume "views j (k\<lparr>jc_ctx := c', jc_before_comment_state := comment_return_state (last ms) (jc_state k),
      jc_type := JSON_T_NONE, jc_state := C1, jc_comment := True\<rparr>) [] ms"
    then show "steps_ok (True, j)"
      by (rule steps_okI(1)) (use m i(5,7,8) in \<open>simp add: view_ok_def comment_states_def base_state_def\<close>)
  qed auto
qed

text \<open>A container is closed: the parser is in \<open>OK\<close> with one mode less.\<close>

lemma closed_ok:
  assumes A: "acting jc k x ms c n" and l: "last ms \<noteq> MODE_DONE"
    and v: "views j (k\<lparr>jc_ctx := c', jc_type := JSON_T_NONE, jc_state := OK\<rparr>) [] (butlast ms)"
  shows "steps_ok (True, j)"
  by (rule plain_okI [OF v]) (use actingD(5-8) [OF A] modes_ok_butlast [OF _ l]
      mode_fits_OK [OF modes_ok_last_butlast [OF _ l]] in simp_all)

lemma closing_actions_ok:
  assumes A: "acting jc k x ms c n"
  shows "action_ok (jc_state k) c A_8 \<Longrightarrow> runs (act_8 jc) steps_ok"
    and "action_ok (jc_state k) c A_7 \<Longrightarrow> runs (act_7 jc) steps_ok"
proof -
  note i = actingD [OF A]
  show "runs (act_8 jc) steps_ok" if "action_ok (jc_state k) c A_8"
  proof (intro views_act_8 [OF i(1) acting_readable(1) [OF A]] outcome_safe [OF i(8)])
    fix c' j assume "last ms = MODE_OBJECT"
      "views j (k\<lparr>jc_ctx := c', jc_type := JSON_T_NONE, jc_state := OK\<rparr>) [] (butlast ms)"
    then show "steps_ok (True, j)" by (intro closed_ok [OF A]) simp_all
  qed (use that modes_ok_last [OF i(7)] in auto)
  show "runs (act_7 jc) steps_ok" if "action_ok (jc_state k) c A_7"
  proof (intro views_act_7 [OF i(1) acting_readable(1) [OF A]] outcome_safe [OF i(8)])
    fix c' j assume "last ms = MODE_ARRAY"
      "views j (k\<lparr>jc_ctx := c', jc_type := JSON_T_NONE, jc_state := OK\<rparr>) [] (butlast ms)"
    then show "steps_ok (True, j)" by (intro closed_ok [OF A]) simp_all
  qed (use that modes_ok_last [OF i(7)] in auto)
qed

lemma act_9_ok:
  assumes A: "acting jc k x ms c n" and a: "action_ok (jc_state k) c A_9"
  shows "runs (act_9 jc) steps_ok"
proof -
  note i = actingD [OF A]
  have t: "jc_type k = JSON_T_NONE" using a i(9) by simp
  have k: "k\<lparr>jc_ctx := c', jc_state := OK\<rparr> = k\<lparr>jc_ctx := c', jc_type := JSON_T_NONE, jc_state := OK\<rparr>" for c'
    using t by (cases k) simp
  show ?thesis
  proof (intro views_act_9 [OF i(1)] outcome_safe [OF i(8)])
    fix c' j assume "last ms = MODE_KEY" "views j (k\<lparr>jc_ctx := c', jc_state := OK\<rparr>) [] (butlast ms)"
    then show "steps_ok (True, j)" unfolding k by (intro closed_ok [OF A]) simp_all
  qed (use modes_ok_last [OF i(7)] in auto)
qed

lemma opening_actions_ok:
  assumes A: "acting jc k x ms c n"
  shows "action_ok (jc_state k) c A_6 \<Longrightarrow> runs (act_6 jc) steps_ok"
    and "action_ok (jc_state k) c A_5 \<Longrightarrow> runs (act_5 jc) steps_ok"
proof -
  note i = actingD [OF A]
  have s: "last ms \<noteq> MODE_KEY" "jc_type k = JSON_T_NONE" "x = []" if "jc_state k = GO \<or> jc_state k = VA \<or> jc_state k = AR"
    using i(9,12) that by (auto simp: string_states_def)
  note m = modes_ok_snoc [OF i(7)]
  show "runs (act_6 jc) steps_ok" if "action_ok (jc_state k) c A_6"
  proof (intro views_act_6 [OF i(1)] outcome_safe [OF i(8)])
    fix c' j assume "views j (k\<lparr>jc_ctx := c', jc_state := OB\<rparr>) x (ms @ [MODE_KEY])"
    then show "steps_ok (True, j)"
      by (rule plain_okI) (use i(5,6,8) s that m in auto)
  qed (use s that in auto)
  show "runs (act_5 jc) steps_ok" if "action_ok (jc_state k) c A_5"
  proof (intro views_act_5 [OF i(1)] outcome_safe [OF i(8)])
    fix c' j assume "views j (k\<lparr>jc_ctx := c', jc_state := AR\<rparr>) x (ms @ [MODE_ARRAY])"
    then show "steps_ok (True, j)"
      by (rule plain_okI) (use i(5,6,8) s that m in auto)
  qed (use s that in auto)
qed

lemma act_4_ok:
  assumes A: "acting jc k x ms c n" and a: "action_ok (jc_state k) c A_4"
  shows "runs (act_4 jc) steps_ok"
proof -
  note i = actingD [OF A]
  have t: "jc_type k = JSON_T_STRING" using a i(9) by simp
  show ?thesis
  proof (cases "last ms")
    case MODE_KEY
    show ?thesis
    proof (intro views_act_4_key [OF i(1) t MODE_KEY] outcome_safe [OF i(8)])
      fix c' j assume "views j (k\<lparr>jc_ctx := c', jc_type := JSON_T_NONE, jc_state := CO\<rparr>) [] ms"
      then show "steps_ok (True, j)" by (rule plain_okI) (use i(5-8) MODE_KEY in simp_all)
    qed auto
  next
    case MODE_DONE
    then show ?thesis using i(13) t by simp
  qed (rule views_act_4_value [OF i(1) t], simp, rule outcome_safe [OF i(8)], erule plain_okI,
       use i(5-8) in \<open>auto\<close>)+
qed

lemma act_3_ok:
  assumes A: "acting jc k x ms c n" and a: "action_ok (jc_state k) c A_3"
  shows "runs (act_3 jc) steps_ok"
proof -
  note i = actingD [OF A]
  have s: "jc_state k \<in> closing_states" using a by simp
  note r = acting_readable [OF A s]
  show ?thesis
  proof (cases "last ms = MODE_OBJECT")
    case True
    show ?thesis
    proof (intro views_act_3_object [OF i(1) r True] outcome_safe [OF i(8)])
      fix c' j assume "views j (k\<lparr>jc_ctx := c', jc_type := JSON_T_NONE, jc_state := KE\<rparr>) [] (butlast ms @ [MODE_KEY])"
      then show "steps_ok (True, j)"
        by (rule plain_okI) (use i(5-8) True modes_ok_replace [OF i(7)] in simp_all)
    qed (use True modes_ok_last [OF i(7)] in auto)
  next
    case False
    show ?thesis
    proof (intro views_act_3_other [OF i(1) r False] outcome_safe [OF i(8)])
      fix c' j assume l: "last ms = MODE_ARRAY"
        and v: "views j (k\<lparr>jc_ctx := c', jc_type := JSON_T_NONE, jc_state := VA\<rparr>) [] ms"
      show "steps_ok (True, j)" by (rule plain_okI [OF v]) (use i(5-8) l in simp_all)
    qed auto
  qed
qed

lemma act_2_ok:
  assumes A: "acting jc k x ms c n" and a: "action_ok (jc_state k) c A_2"
  shows "runs (act_2 jc) steps_ok"
proof -
  note i = actingD [OF A]
  have t: "jc_type k = JSON_T_NONE" "x = []" using a i(9) by auto
  have l: "last ms = MODE_KEY" using mode_of_key [OF i(12)] a by simp
  show ?thesis
  proof (rule views_act_2 [OF i(1) t(1)])
    fix j assume "views j (k\<lparr>jc_state := VA\<rparr>) x (butlast ms @ [MODE_OBJECT])"
    then show "steps_ok (True, j)"
      by (rule plain_okI) (use i(5-8) t l modes_ok_replace [OF i(7)] in simp_all)
  qed (use l modes_ok_last [OF i(7)] in auto)
qed

text \<open>All actions on a character in the buffer; the end of a comment is apart.\<close>

lemma perform_ok:
  assumes A: "acting jc k x ms c n" and a: "action_ok (jc_state k) c a"
  shows "runs (perform a jc) steps_ok"
proof (cases a)
  case CE
  then show ?thesis using a actingD(11) [OF A] by (simp add: comment_states_def)
qed (use a UC_ok [OF A] EX_ok [OF A] integer_actions_ok [OF A] DE_ok [OF A] DF_ok [OF A] SB_ok [OF A]
      literal_actions_ok [OF A] CB_ok [OF A] act_9_ok [OF A] closing_actions_ok [OF A] opening_actions_ok [OF A]
      act_4_ok [OF A] act_3_ok [OF A] act_2_ok [OF A] in \<open>simp_all only: perform.simps\<close>)

section \<open>Characters and texts\<close>

lemma comment_char_ok:
  assumes v: "views jc k x ms" and o: "view_ok k x ms" and c: "jc_comment k" "char_class n = Some c" "0 \<le> n"
  shows "runs (enter (state_transition_table (jc_state k) c) jc) steps_ok"
proof -
  have s: "jc_state k \<in> set comment_states" "jc_state k \<noteq> ES" "text_ok (jc_state k) (jc_type k) x"
    using o c(1) by (auto simp: view_ok_def comment_states_def)
  have t: "jc_type k = JSON_T_NONE" "x = []" using s(1,3) by (auto simp: comment_states_def)
  show ?thesis
  proof (cases "state_transition_table (jc_state k) c")
    case (To s')
    show ?thesis unfolding To enter_def
      by (simp, rule to_entry_ok [OF v o table_To [OF To] c(2,3) s(2)]) (simp add: c(1))
  next
    case (Do a)
    have "a = CE" using table_Do [OF Do] s(1) by (cases a) (auto simp: comment_states_def after_value_def)
    moreover have "runs (act_CE jc) steps_ok"
    proof (rule views_CE [OF v [unfolded t(2)] t(1)])
      fix j assume "views j (k\<lparr>jc_comment := False, jc_state := jc_before_comment_state k\<rparr>) [] ms"
      then show "steps_ok (True, j)"
        by (rule steps_okI(1))
          (use o c(1) s(2) t in \<open>auto simp: view_ok_def base_state_def comment_states_def resume_states_def\<close>)
    qed
    ultimately show ?thesis by (simp add: enter_def Do)
  qed (simp add: enter_def steps_okI)
qed

lemma escaped_char_ok:
  assumes v: "views jc k x ms" and o: "view_ok k x ms" and e: "jc_escaped k" and n: "char_class n = Some c" "0 \<le> n"
  shows "runs (if_ok (add_char_to_parse_buffer jc n c) (\<lambda>jc. enter (state_transition_table (jc_state jc) c) jc)) steps_ok"
proof -
  have s: "jc_state k = ES" "jc_type k = JSON_T_STRING" "x \<noteq> []" "\<not> jc_comment k" "modes_ok ms"
    "callback_ok (jc_callback k)" "mode_fits (last ms) ES" "last ms \<noteq> MODE_DONE"
    using o e by (auto simp: view_ok_def base_state_def comment_states_def)
  obtain y b where x: "x = y @ [b]" using s(3) by (cases x rule: rev_cases) auto
  show ?thesis unfolding runs_if_ok
  proof (rule views_add_escaped [OF v [unfolded x] e], goal_cases)
    case (1 cs j)
    note j = views_fields(3) [OF 1(2)]
    show ?case
    proof (cases "state_transition_table ES c")
      case (To s')
      then have m: "move_ok ES c s'" by (rule table_To)
      have u: "c = C_LOW_U \<Longrightarrow> cs = [0x5C, 0x75]"
        using 1(1) char_class_facts(5) [OF n] by (simp add: escape_bytes_def)
      have t: "text_ok s' JSON_T_STRING (y @ cs)" using m u by (auto simp: escape_tail_def)
      have "steps_ok (True, j\<lparr>jc_state := s'\<rparr>)"
        by (rule plain_okI [OF views_updates(2) [OF 1(2)] s(5)])
          (use m s t move_ok_states(3) [OF m s(7)] in \<open>auto simp: plain_def comment_states_def\<close>)
      then show ?thesis using To s(1) by (simp add: j enter_def)
    next
      case (Do a)
      then show ?thesis using table_Do [OF Do] by (cases a) (auto simp: after_value_def)
    next
      case Bad
      then show ?thesis using s(1) by (simp add: j enter_def steps_okI)
    qed
  qed (simp add: steps_okI)
qed

lemma plain_char_ok:
  assumes v: "views jc k x ms" and o: "view_ok k x ms" and e: "\<not> jc_escaped k" "\<not> jc_comment k"
    and n: "char_class n = Some c" "0 \<le> n"
  shows "runs (if_ok (add_char_to_parse_buffer jc n c) (\<lambda>jc. enter (state_transition_table (jc_state jc) c) jc)) steps_ok"
proof -
  have s: "jc_state k \<noteq> ES" "text_ok (jc_state k) (jc_type k) x" "jc_state k \<notin> set comment_states"
    using o e by (auto simp: view_ok_def)
  have entry: "runs (enter (state_transition_table (jc_state j) c) j) steps_ok"
    if j: "views j k y ms" and y: "y = (if jc_type k = JSON_T_NONE \<and> white c then x else x @ [word_of_int n])" for j y
  proof (cases "state_transition_table (jc_state k) c")
    case (To s')
    then show ?thesis
      using to_entry_ok [OF j o table_To [OF To] n s(1)] y e(2) by (simp add: enter_def views_fields(3) [OF j])
  next
    case (Do a)
    have a: "action_ok (jc_state k) c a" by (rule table_Do [OF Do])
    then have "\<not> (jc_type k = JSON_T_NONE \<and> white c)"
      using s by (cases a) (auto simp: white_def hex_classes_def comment_states_def)
    then have "acting j k x ms c n" using j y o e n by (auto simp: acting_def)
    then show ?thesis using perform_ok a by (simp add: enter_def Do views_fields(3) [OF j])
  qed (simp add: enter_def steps_okI views_fields(3) [OF j])
  show ?thesis unfolding runs_if_ok
    by (rule views_add_char [OF v e]) (auto intro!: entry)
qed

lemma JSON_parser_char_ok:
  assumes "parser_ok jc"
  shows "runs (JSON_parser_char jc n) steps_ok"
proof -
  obtain k x ms where v: "views jc k x ms" "view_ok k x ms" using assms by (rule parser_okE)
  show ?thesis
  proof (cases "n < 0 \<or> char_class n = None")
    case True
    then show ?thesis by (auto simp: JSON_parser_char_def steps_okI)
  next
    case False
    then obtain c where c: "char_class n = Some c" "0 \<le> n" by auto
    have e: "JSON_parser_char jc n = if_ok (add_char_to_parse_buffer jc n c) (\<lambda>jc. enter (state_transition_table (jc_state jc) c) jc)"
      using c by (simp add: JSON_parser_char_def)
    consider "jc_escaped k" | "jc_comment k" "\<not> jc_escaped k" | "\<not> jc_escaped k" "\<not> jc_comment k" by blast
    then show ?thesis
    proof cases
      case 1
      then show ?thesis unfolding e by (rule escaped_char_ok [OF v _ c])
    next
      case 2
      show ?thesis unfolding e runs_if_ok
        by (rule views_add_comment [OF v(1) 2(2,1)])
          (use comment_char_ok [OF v 2(1) c] in \<open>simp add: views_fields(3) [OF v(1)]\<close>)
    next
      case 3
      then show ?thesis unfolding e by (rule plain_char_ok [OF v _ _ c])
    qed
  qed
qed

lemma feed_ok: "parser_ok jc \<Longrightarrow> runs (feed jc cs) steps_ok"
proof (induction cs arbitrary: jc)
  case Nil
  then show ?case by (simp add: steps_ok_def)
next
  case (Cons c cs)
  show ?case unfolding feed.simps runs_if_ok
    by (rule runs_mono [OF JSON_parser_char_ok [OF Cons.prems]]) (auto simp: steps_ok_def Cons.IH)
qed

section \<open>From the configuration to the verdict\<close>

definition config_of :: "'c \<Rightarrow> 'c jconfig option \<Rightarrow> 'c jconfig" where
  "config_of null c = (case c of None \<Rightarrow> init_JSON_config null | Some c \<Rightarrow> c)"

text \<open>The fields of a new parser.\<close>

definition new_core :: "u8 \<Rightarrow> 'c jconfig \<Rightarrow> 'c jparser" where
  "new_core point c = (core (blank_JSON_parser c))\<lparr>jc_callback := cfg_callback c,
     jc_ctx := cfg_callback_ctx c, jc_allow_comments := (cfg_allow_comments c \<noteq> 0),
     jc_handle_floats_manually := (cfg_handle_floats_manually c \<noteq> 0), jc_decimal_point := point\<rparr>"

lemma new_core_fields [simp]:
  "jc_callback (new_core point c) = cfg_callback c" "jc_ctx (new_core point c) = cfg_callback_ctx c"
  "jc_state (new_core point c) = GO" "jc_type (new_core point c) = JSON_T_NONE"
  "\<not> jc_escaped (new_core point c)" "\<not> jc_comment (new_core point c)"
  "jc_utf16_high_surrogate (new_core point c) = 0"
  "jc_allow_comments (new_core point c) = (cfg_allow_comments c \<noteq> 0)"
  "jc_handle_floats_manually (new_core point c) = (cfg_handle_floats_manually c \<noteq> 0)"
  "jc_decimal_point (new_core point c) = point"
  "jc_depth (new_core point c) = (if cfg_depth c = 0 then 1 else if 0 < cfg_depth c then cfg_depth c else - 1)"
  by (simp_all add: new_core_def core_def blank_JSON_parser_def Let_def)

lemma new_JSON_parser_views:
  "runs (new_JSON_parser point null config) (\<lambda>jc. views jc (new_core point (config_of null config)) [] [MODE_DONE])"
proof -
  let ?c = "config_of null config"
  let ?b = "(blank_JSON_parser ?c)\<lparr>jc_top := 0, jc_stack := [MODE_DONE]\<rparr>"
  let ?p = "?b\<lparr>jc_parse_buffer_count := 0, jc_parse_buffer := [0]\<rparr>"
  have 1: "push (blank_JSON_parser ?c) MODE_DONE = Inr (True, ?b)"
    by (auto simp: push_def blank_JSON_parser_def Let_def store_mode_def stack_cells_def poke_def JSON_PARSER_STACK_SIZE_def)
  have 2: "parse_buffer_clear ?b = Inr ?p"
    by (simp add: parse_buffer_clear_def buffer_store_def poke_def blank_JSON_parser_def Let_def JSON_PARSER_PARSE_BUFFER_SIZE_def)
  have 3: "new_JSON_parser point null config = Inr (?p\<lparr>jc_callback := cfg_callback ?c, jc_ctx := cfg_callback_ctx ?c,
           jc_allow_comments := (cfg_allow_comments ?c \<noteq> 0),
           jc_handle_floats_manually := (cfg_handle_floats_manually ?c \<noteq> 0), jc_decimal_point := point\<rparr>)"
    using 1 2 by (simp add: new_JSON_parser_def config_of_def Let_def)
  show ?thesis unfolding 3
    by (auto simp: views_def memory_ok_def buffer_ok_def stack_ok_def stack_cells_def core_def modes_def buffer_text_def
      new_core_def blank_JSON_parser_def Let_def JSON_PARSER_STACK_SIZE_def JSON_PARSER_PARSE_BUFFER_SIZE_def)
qed

lemma new_JSON_parser_ok:
  assumes "callback_ok (cfg_callback (config_of null config))"
  shows "runs (new_JSON_parser point null config) parser_ok"
proof (rule runs_mono [OF new_JSON_parser_views])
  fix jc assume "views jc (new_core point (config_of null config)) [] [MODE_DONE]"
  then show "parser_ok jc"
    by (rule parser_okI) (use assms in \<open>simp add: view_ok_def modes_ok_def base_state_def comment_states_def\<close>)
qed

lemma JSON_parser_done_runs: "parser_ok jc \<Longrightarrow> runs (JSON_parser_done jc) (\<lambda>_. True)"
  by (auto simp: JSON_parser_done_def parser_ok_def intro: runs_pop_done)

text \<open>
  C1. Memory and assertion safety of the parser. Whatever the configuration (depth limit,
  comments, float handling, callback or none), whatever the characters fed, and whatever the
  callback answers, no \<open>assert\<close> of \<^verbatim>\<open>json_parser.cpp\<close> fails and no cell of the stack
  or of the parse buffer is used out of bounds or before it was written, as long as the callback
  itself does not fail: a verdict is reached.
\<close>

theorem json_parser_safe:
  assumes "callback_ok (cfg_callback (config_of null config))"
  shows "\<exists>b jc. parse_text point null config cs = Inr (b, jc)"
proof -
  have "runs (parse_text point null config cs) (\<lambda>_. True)"
    unfolding parse_text_def runs_simps runs_if_ok
    by (rule runs_mono [OF new_JSON_parser_ok [OF assms]], rule runs_mono [OF feed_ok], assumption)
      (auto simp: steps_ok_def JSON_parser_done_runs)
  then show ?thesis by (auto simp: runs_iff)
qed

text \<open>The witness: a callback that counts its calls and refuses the fourth, on a nested text.\<close>

definition counting :: "nat jcallback" where
  "counting t v c = Inr (c < 3, c + 1)"

theorem json_parser_safe_witness:
  "\<exists>b jc. parse_text 0x2E 0 (Some \<lparr>cfg_callback = Some counting, cfg_callback_ctx = 0, cfg_depth = 3,
     cfg_allow_comments = 1, cfg_handle_floats_manually = 0\<rparr>) [0x5B, 0x31, 0x2F, 0x2A, 0x2A, 0x2F, 0x2C, 0x5B, 0x5D, 0x5D] = Inr (b, jc)"
  by (rule json_parser_safe) (simp add: callback_ok_def config_of_def counting_def)

text \<open>
  C23. The invariant behind it: every call of \<open>JSON_parser_char\<close> that answers \<open>true\<close> leaves the
  parser with its stack and buffer inside their arrays, the buffer terminated by a NUL, the state
  in agreement with the type of the value being read, the text in the buffer and the mode on the
  stack.
\<close>

theorem json_parser_char_invariant:
  assumes "parser_ok jc"
  shows "\<exists>b jc'. JSON_parser_char jc c = Inr (b, jc') \<and> (b \<longrightarrow> parser_ok jc')"
  using JSON_parser_char_ok [OF assms, of c] by (auto simp: steps_ok_def runs_iff)

theorem json_parser_char_invariant_witness:
  "\<exists>jc b jc'. new_JSON_parser 0x2E () None = Inr jc \<and> JSON_parser_char jc 0x5B = Inr (b, jc') \<and> (b \<longrightarrow> parser_ok jc')"
proof -
  obtain jc where jc: "new_JSON_parser 0x2E () None = Inr jc" "parser_ok jc"
    using new_JSON_parser_ok [of "()" None "0x2E"]
    by (auto simp: runs_iff callback_ok_def config_of_def init_JSON_config_def)
  then show ?thesis using json_parser_char_invariant [OF jc(2), of "0x5B"] by blast
qed

end
