(* ===== verification/JsonText.thy ===== *)
theory JsonText imports JsonPreserve begin

text \<open>
  The parser against the grammar of JSON texts. A text is given by its syntax tree, which keeps
  every lexical choice (white space, escapes, forms of numbers); \<open>unparse\<close> writes it, and \<open>events\<close>
  is what a reader of the tree reports. The parser, fed the text, makes exactly these calls.
\<close>

section \<open>Syntax trees\<close>

text \<open>
  A character of a string: itself, one of the eight short escapes, \<open>\u\<close> with four hexadecimal
  digits, or two of these for a surrogate pair.
\<close>

datatype strchar =
    Plain int
  | Short int
  | Unit u8 u8 u8 u8
  | Pair u8 u8 u8 u8 u8 u8 u8 u8

datatype sign = Plus | Minus | Unsigned

text \<open>A number: sign, integer part, and optionally the digits after the point and an exponent.\<close>

datatype jtree =
    T_null | T_true | T_false
  | T_int bool nat
  | T_float bool nat "nat list option" "(bool \<times> sign \<times> nat list) option"
  | T_str "strchar list"
  | T_arr0 "int list"
  | T_arr elems
  | T_obj0 "int list"
  | T_obj members
and elems =
    Last "int list" jtree "int list"
  | More "int list" jtree "int list" elems
and members =
    Last_m "int list" "strchar list" "int list" "int list" jtree "int list"
  | More_m "int list" "strchar list" "int list" "int list" jtree "int list" members

definition chars :: "u8 list \<Rightarrow> int list" where
  "chars bs = map uint bs"

definition digits :: "nat list \<Rightarrow> u8 list" where
  "digits ds = map digit_char ds"

fun unparse_strchar :: "strchar \<Rightarrow> int list" where
  "unparse_strchar (Plain n) = [n]"
| "unparse_strchar (Short n) = [0x5C, n]"
| "unparse_strchar (Unit a b c d) = [0x5C, 0x75] @ chars [a, b, c, d]"
| "unparse_strchar (Pair a b c d e f g h) = [0x5C, 0x75] @ chars [a, b, c, d] @ [0x5C, 0x75] @ chars [e, f, g, h]"

definition unparse_str :: "strchar list \<Rightarrow> int list" where
  "unparse_str cs = [0x22] @ concat (map unparse_strchar cs) @ [0x22]"

definition sign_text :: "sign \<Rightarrow> u8 list" where
  "sign_text s = (case s of Plus \<Rightarrow> [0x2B] | Minus \<Rightarrow> [0x2D] | Unsigned \<Rightarrow> [])"

text \<open>The text of a number, with \<open>pt\<close> for the decimal point.\<close>

definition int_text :: "bool \<Rightarrow> nat \<Rightarrow> u8 list" where
  "int_text neg n = (if neg then [0x2D] else []) @ decimal n"

definition frac_text :: "u8 \<Rightarrow> nat list option \<Rightarrow> u8 list" where
  "frac_text pt f = (case f of None \<Rightarrow> [] | Some ds \<Rightarrow> pt # digits ds)"

definition exp_text :: "(bool \<times> sign \<times> nat list) option \<Rightarrow> u8 list" where
  "exp_text e = (case e of None \<Rightarrow> []
     | Some (upper, s, ds) \<Rightarrow> (if upper then 0x45 else 0x65) # sign_text s @ digits ds)"

definition float_text :: "u8 \<Rightarrow> bool \<Rightarrow> nat \<Rightarrow> nat list option \<Rightarrow> (bool \<times> sign \<times> nat list) option \<Rightarrow> u8 list" where
  "float_text pt neg n f e = int_text neg n @ frac_text pt f @ exp_text e"

fun unparse :: "jtree \<Rightarrow> int list"
  and unparse_elems :: "elems \<Rightarrow> int list"
  and unparse_members :: "members \<Rightarrow> int list" where
  "unparse T_null = [0x6E, 0x75, 0x6C, 0x6C]"
| "unparse T_true = [0x74, 0x72, 0x75, 0x65]"
| "unparse T_false = [0x66, 0x61, 0x6C, 0x73, 0x65]"
| "unparse (T_int neg n) = chars (int_text neg n)"
| "unparse (T_float neg n f e) = chars (float_text 0x2E neg n f e)"
| "unparse (T_str cs) = unparse_str cs"
| "unparse (T_arr0 ws) = [0x5B] @ ws @ [0x5D]"
| "unparse (T_arr es) = [0x5B] @ unparse_elems es @ [0x5D]"
| "unparse (T_obj0 ws) = [0x7B] @ ws @ [0x7D]"
| "unparse (T_obj ms) = [0x7B] @ unparse_members ms @ [0x7D]"
| "unparse_elems (Last ws1 t ws2) = ws1 @ unparse t @ ws2"
| "unparse_elems (More ws1 t ws2 es) = ws1 @ unparse t @ ws2 @ [0x2C] @ unparse_elems es"
| "unparse_members (Last_m ws1 k ws2 ws3 t ws4) = ws1 @ unparse_str k @ ws2 @ [0x3A] @ ws3 @ unparse t @ ws4"
| "unparse_members (More_m ws1 k ws2 ws3 t ws4 ms) =
     ws1 @ unparse_str k @ ws2 @ [0x3A] @ ws3 @ unparse t @ ws4 @ [0x2C] @ unparse_members ms"

section \<open>Well-formed trees\<close>

text \<open>
  The conditions of the JSON grammar, but for one: the table has no entry for an exponent right
  after a single zero, so \<open>0e1\<close> is refused, and the trees leave it out.
\<close>

definition is_white :: "int \<Rightarrow> bool" where
  "is_white n \<longleftrightarrow> n = 0x20 \<or> n = 9 \<or> n = 10 \<or> n = 13"

fun strchar_ok :: "strchar \<Rightarrow> bool" where
  "strchar_ok (Plain n) = (0x20 \<le> n \<and> n \<noteq> 0x22 \<and> n \<noteq> 0x5C)"
| "strchar_ok (Short n) = (n \<in> set [0x22, 0x5C, 0x2F, 0x62, 0x66, 0x6E, 0x72, 0x74])"
| "strchar_ok (Unit a b c d) = (list_all is_hex [a, b, c, d] \<and>
     \<not> is_high_surrogate (hex4 a b c d) \<and> \<not> is_low_surrogate (hex4 a b c d))"
| "strchar_ok (Pair a b c d e f g h) = (list_all is_hex [a, b, c, d, e, f, g, h] \<and>
     is_high_surrogate (hex4 a b c d) \<and> is_low_surrogate (hex4 e f g h))"

definition digits_ok :: "nat list \<Rightarrow> bool" where
  "digits_ok ds \<longleftrightarrow> ds \<noteq> [] \<and> list_all (\<lambda>d. d < 10) ds"

fun tree_ok :: "jtree \<Rightarrow> bool"
  and elems_ok :: "elems \<Rightarrow> bool"
  and members_ok :: "members \<Rightarrow> bool" where
  "tree_ok (T_float neg n f e) = ((f \<noteq> None \<or> (e \<noteq> None \<and> n \<noteq> 0)) \<and> (case f of None \<Rightarrow> True | Some ds \<Rightarrow> digits_ok ds) \<and>
     (case e of None \<Rightarrow> True | Some (u, s, ds) \<Rightarrow> digits_ok ds))"
| "tree_ok (T_str cs) = list_all strchar_ok cs"
| "tree_ok (T_arr0 ws) = list_all is_white ws"
| "tree_ok (T_arr es) = elems_ok es"
| "tree_ok (T_obj0 ws) = list_all is_white ws"
| "tree_ok (T_obj ms) = members_ok ms"
| "tree_ok t = True"
| "elems_ok (Last ws1 t ws2) = (list_all is_white ws1 \<and> tree_ok t \<and> list_all is_white ws2)"
| "elems_ok (More ws1 t ws2 es) = (list_all is_white ws1 \<and> tree_ok t \<and> list_all is_white ws2 \<and> elems_ok es)"
| "members_ok (Last_m ws1 k ws2 ws3 t ws4) = (list_all is_white ws1 \<and> list_all strchar_ok k \<and> list_all is_white ws2 \<and>
     list_all is_white ws3 \<and> tree_ok t \<and> list_all is_white ws4)"
| "members_ok (More_m ws1 k ws2 ws3 t ws4 ms) = (list_all is_white ws1 \<and> list_all strchar_ok k \<and> list_all is_white ws2 \<and>
     list_all is_white ws3 \<and> tree_ok t \<and> list_all is_white ws4 \<and> members_ok ms)"

text \<open>The nesting of containers.\<close>

fun nesting :: "jtree \<Rightarrow> nat"
  and nesting_elems :: "elems \<Rightarrow> nat"
  and nesting_members :: "members \<Rightarrow> nat" where
  "nesting (T_arr0 ws) = 1"
| "nesting (T_arr es) = 1 + nesting_elems es"
| "nesting (T_obj0 ws) = 1"
| "nesting (T_obj ms) = 1 + nesting_members ms"
| "nesting t = 0"
| "nesting_elems (Last ws1 t ws2) = nesting t"
| "nesting_elems (More ws1 t ws2 es) = max (nesting t) (nesting_elems es)"
| "nesting_members (Last_m ws1 k ws2 ws3 t ws4) = nesting t"
| "nesting_members (More_m ws1 k ws2 ws3 t ws4 ms) = max (nesting t) (nesting_members ms)"

section \<open>The events of a tree\<close>

definition short_byte :: "int \<Rightarrow> u8" where
  "short_byte n = (if n = 0x62 then 8 else if n = 0x66 then 12 else if n = 0x6E then 10
     else if n = 0x72 then 13 else if n = 0x74 then 9 else word_of_int n)"

definition unit_bytes :: "u32 \<Rightarrow> u8 list" where
  "unit_bytes uc = utf8_bytes uc (if uc < 0x80 then 0 else if uc < 0x800 then 1 else 2)"

fun strchar_bytes :: "strchar \<Rightarrow> u8 list" where
  "strchar_bytes (Plain n) = [word_of_int n]"
| "strchar_bytes (Short n) = [short_byte n]"
| "strchar_bytes (Unit a b c d) = unit_bytes (hex4 a b c d)"
| "strchar_bytes (Pair a b c d e f g h) = utf8_bytes (decode_surrogate_pair (hex4 a b c d) (hex4 e f g h)) 3"

definition str_bytes :: "strchar list \<Rightarrow> u8 list" where
  "str_bytes cs = concat (map strchar_bytes cs)"

text \<open>
  The events, given whether floats are handed on as text (\<open>manual\<close>), the locale's decimal point,
  and the white space that follows the value: a floating point number is read with it.
\<close>

fun events :: "bool \<Rightarrow> u8 \<Rightarrow> jtree \<Rightarrow> int list \<Rightarrow> (jtype \<times> jvalue option) list"
  and events_elems :: "bool \<Rightarrow> u8 \<Rightarrow> elems \<Rightarrow> (jtype \<times> jvalue option) list"
  and events_members :: "bool \<Rightarrow> u8 \<Rightarrow> members \<Rightarrow> (jtype \<times> jvalue option) list" where
  "events m pt T_null ws = [(JSON_T_NULL, None)]"
| "events m pt T_true ws = [(JSON_T_TRUE, None)]"
| "events m pt T_false ws = [(JSON_T_FALSE, None)]"
| "events m pt (T_int neg n) ws = [(JSON_T_INTEGER, Some (JV_integer (clamp long_min long_max (signed_value (neg, n)))))]"
| "events m pt (T_float neg n f e) ws = [(JSON_T_FLOAT, arg_value m JSON_T_FLOAT
     (float_text (if m then 0x2E else pt) neg n f e @ map word_of_int ws))]"
| "events m pt (T_str cs) ws = [(JSON_T_STRING, Some (JV_str (str_bytes cs)))]"
| "events m pt (T_arr0 ws0) ws = [(JSON_T_ARRAY_BEGIN, None), (JSON_T_ARRAY_END, None)]"
| "events m pt (T_arr es) ws = [(JSON_T_ARRAY_BEGIN, None)] @ events_elems m pt es @ [(JSON_T_ARRAY_END, None)]"
| "events m pt (T_obj0 ws0) ws = [(JSON_T_OBJECT_BEGIN, None), (JSON_T_OBJECT_END, None)]"
| "events m pt (T_obj ms) ws = [(JSON_T_OBJECT_BEGIN, None)] @ events_members m pt ms @ [(JSON_T_OBJECT_END, None)]"
| "events_elems m pt (Last ws1 t ws2) = events m pt t ws2"
| "events_elems m pt (More ws1 t ws2 es) = events m pt t ws2 @ events_elems m pt es"
| "events_members m pt (Last_m ws1 k ws2 ws3 t ws4) = (JSON_T_KEY, Some (JV_str (str_bytes k))) # events m pt t ws4"
| "events_members m pt (More_m ws1 k ws2 ws3 t ws4 ms) =
     (JSON_T_KEY, Some (JV_str (str_bytes k))) # events m pt t ws4 @ events_members m pt ms"

section \<open>Running over a piece of text\<close>

text \<open>
  \<open>go (k, x, ms) cs (k', x', ms')\<close>: fed \<open>cs\<close>, a parser with the first view answers \<open>true\<close> and has
  the second.
\<close>

type_synonym 'c pview = "'c jparser \<times> u8 list \<times> jmode list"

definition sees :: "'c jparser \<Rightarrow> 'c pview \<Rightarrow> bool" where
  "sees jc = (\<lambda>(k, x, ms). views jc k x ms)"

definition go :: "'c pview \<Rightarrow> int list \<Rightarrow> 'c pview \<Rightarrow> bool" where
  "go a cs b \<longleftrightarrow> (\<forall>jc. sees jc a \<longrightarrow> runs (feed jc cs) (\<lambda>(r, jc'). r \<and> sees jc' b))"

lemma feed_append: "feed jc (xs @ ys) = if_ok (feed jc xs) (\<lambda>jc. feed jc ys)"
  by (induction xs arbitrary: jc) (auto simp: if_ok_def seq_assoc intro!: arg_cong2 [where f = seq] split: prod.splits)

lemma go_Nil [simp]: "go a [] a"
  by (simp add: go_def)

lemma go_append: "go a xs b \<Longrightarrow> go b ys c \<Longrightarrow> go a (xs @ ys) c"
  unfolding go_def feed_append runs_if_ok
proof (intro allI impI)
  fix jc
  assume ab: "\<forall>jc. sees jc a \<longrightarrow> runs (feed jc xs) (\<lambda>(r, jc'). r \<and> sees jc' b)"
    and bc: "\<forall>jc. sees jc b \<longrightarrow> runs (feed jc ys) (\<lambda>(r, jc'). r \<and> sees jc' c)" and a: "sees jc a"
  show "runs (feed jc xs) (\<lambda>(b, s). if b then runs (feed s ys) (\<lambda>(r, jc'). r \<and> sees jc' c)
      else (case (False, s) of (r, jc') \<Rightarrow> r \<and> sees jc' c))"
    by (rule runs_mono [OF mp [OF spec [OF ab] a]]) (use bc in auto)
qed

lemma go_Cons: "go a [c] b \<Longrightarrow> go b cs d \<Longrightarrow> go a (c # cs) d"
  using go_append [of a "[c]" b cs d] by simp

lemma go_one:
  assumes "\<And>jc. sees jc a \<Longrightarrow> runs (JSON_parser_char jc c) (\<lambda>(r, jc'). r \<and> sees jc' b)"
  shows "go a [c] b"
  unfolding go_def feed.simps runs_if_ok
proof (intro allI impI)
  fix jc assume "sees jc a"
  then show "runs (JSON_parser_char jc c) (\<lambda>(ba, s). if ba then runs (Inr (True, s)) (\<lambda>(r, jc'). r \<and> sees jc' b)
      else (case (False, s) of (r, jc') \<Rightarrow> r \<and> sees jc' b))"
    by (rule runs_mono [OF assms]) auto
qed

text \<open>A character outside comments and escapes: what the table says is done with it in the buffer.\<close>

lemma go_char:
  assumes "char_class n = Some c" "0 \<le> n" "\<not> jc_escaped k" "\<not> jc_comment k"
    and "y = (if jc_type k = JSON_T_NONE \<and> white c then x else x @ [word_of_int n])"
    and "\<And>jc. views jc k y ms \<Longrightarrow> runs (enter (state_transition_table (jc_state k) c) jc) (\<lambda>(r, jc'). r \<and> sees jc' b)"
  shows "go (k, x, ms) [n] b"
proof (rule go_one)
  fix jc assume "sees jc (k, x, ms)"
  then have v: "views jc k x ms" by (simp add: sees_def)
  show "runs (JSON_parser_char jc n) (\<lambda>(r, jc'). r \<and> sees jc' b)"
    unfolding JSON_parser_char_def using assms(1,2)
    by (simp, intro views_add_char [OF v assms(3,4)])
      (use assms(5,6) in \<open>auto simp: views_fields(3) simp del: enter_def\<close>)
qed

lemma go_move:
  assumes "char_class n = Some c" "0 \<le> n" "\<not> jc_escaped k" "\<not> jc_comment k"
    and "state_transition_table (jc_state k) c = To s"
    and "y = (if jc_type k = JSON_T_NONE \<and> white c then x else x @ [word_of_int n])"
  shows "go (k, x, ms) [n] (k\<lparr>jc_state := s\<rparr>, y, ms)"
  by (rule go_char [OF assms(1-4,6)]) (simp add: assms(5) enter_def sees_def views_updates)

lemma go_action:
  assumes "char_class n = Some c" "0 \<le> n" "\<not> jc_escaped k" "\<not> jc_comment k"
    and "state_transition_table (jc_state k) c = Do a" "\<not> white c \<or> jc_type k \<noteq> JSON_T_NONE"
    and "\<And>jc. views jc k (x @ [word_of_int n]) ms \<Longrightarrow> runs (perform a jc) (\<lambda>(r, jc'). r \<and> sees jc' b)"
  shows "go (k, x, ms) [n] b"
  by (rule go_char [OF assms(1-4) refl]) (use assms(5-7) in \<open>auto simp: enter_def\<close>)

lemma outcome_success:
  assumes "deliver cb evs c = Inr (True, c')" "p" "\<And>jc. P c' jc \<Longrightarrow> Q (True, jc)"
  shows "outcome (deliver cb evs c) p P Q"
  using assms by (simp add: outcome_def)

lemma deliver_split:
  assumes "deliver cb (xs @ ys) c = Inr (True, c')"
  obtains d where "deliver cb xs c = Inr (True, d)" "deliver cb ys d = Inr (True, c')"
  using assms by (auto simp: deliver_append if_ok_eq_Inr_iff)

end
