(* ===== verification/JsonAccept.thy ===== *)
theory JsonAccept imports JsonText begin

text \<open>
  Running the parser over the pieces of a text: white space, strings, literals, numbers, and then
  whole trees by induction.
\<close>

section \<open>Views with given state, type and context\<close>

definition at :: "'c jparser \<Rightarrow> jstate \<Rightarrow> jtype \<Rightarrow> 'c \<Rightarrow> 'c jparser" where
  "at K s t c = K\<lparr>jc_ctx := c, jc_type := t, jc_state := s\<rparr>"

definition ready :: "'c jparser \<Rightarrow> bool" where
  "ready K \<longleftrightarrow> \<not> jc_escaped K \<and> \<not> jc_comment K \<and> jc_utf16_high_surrogate K = 0"

lemma at_fields [simp]:
  "jc_state (at K s t c) = s" "jc_type (at K s t c) = t" "jc_ctx (at K s t c) = c"
  "jc_callback (at K s t c) = jc_callback K" "jc_escaped (at K s t c) = jc_escaped K"
  "jc_comment (at K s t c) = jc_comment K" "jc_utf16_high_surrogate (at K s t c) = jc_utf16_high_surrogate K"
  "jc_handle_floats_manually (at K s t c) = jc_handle_floats_manually K" "jc_depth (at K s t c) = jc_depth K"
  "jc_decimal_point (at K s t c) = jc_decimal_point K" "jc_allow_comments (at K s t c) = jc_allow_comments K"
  by (simp_all add: at_def)

lemma at_updates [simp]:
  "(at K s t c)\<lparr>jc_state := s'\<rparr> = at K s' t c"
  "(at K s t c)\<lparr>jc_type := t', jc_state := s'\<rparr> = at K s' t' c"
  "(at K s t c)\<lparr>jc_ctx := c', jc_state := s'\<rparr> = at K s' t c'"
  "(at K s t c)\<lparr>jc_ctx := c', jc_type := t', jc_state := s'\<rparr> = at K s' t' c'"
  by (cases K; simp add: at_def)+

lemma at_escaped:
  assumes "ready K"
  shows "(at K s t c)\<lparr>jc_escaped := True, jc_state := s', jc_escaped := False, jc_state := s''\<rparr> = at K s'' t c"
    and "(at K s t c)\<lparr>jc_escaped := False\<rparr> = at K s t c"
  using assms by (cases K; simp add: at_def ready_def)+

lemma at_surrogate:
  assumes "ready K"
  shows "(at K s t c)\<lparr>jc_utf16_high_surrogate := h, jc_state := s', jc_utf16_high_surrogate := 0\<rparr> = at K s' t c"
    and "(at K s t c)\<lparr>jc_utf16_high_surrogate := 0, jc_state := s'\<rparr> = at K s' t c"
  using assms by (cases K; simp add: at_def ready_def)+

lemma at_surrogate_state:
  "(at K s t c)\<lparr>jc_utf16_high_surrogate := h, jc_state := s'\<rparr> = (at K s' t c)\<lparr>jc_utf16_high_surrogate := h\<rparr>"
  by (cases K) (simp add: at_def)

section \<open>Table facts\<close>

text \<open>The single characters of the syntax.\<close>

lemma punctuation_class:
  "char_class 0x5B = Some C_LSQRB" "char_class 0x5D = Some C_RSQRB" "char_class 0x7B = Some C_LCURB"
  "char_class 0x7D = Some C_RCURB" "char_class 0x3A = Some C_COLON" "char_class 0x2C = Some C_COMMA"
  "char_class 0x22 = Some C_QUOTE" "char_class 0x5C = Some C_BACKS" "char_class 0x2D = Some C_MINUS"
  "char_class 0x2E = Some C_POINT" "char_class 0x2B = Some C_PLUS" "char_class 0x45 = Some C_E"
  "char_class 0x65 = Some C_LOW_E" "char_class 0x75 = Some C_LOW_U" "char_class 0x2F = Some C_SLASH"
  "char_class 0x2A = Some C_STAR" "char_class 0x30 = Some C_ZERO"
  "char_class 0x6E = Some C_LOW_N" "char_class 0x6C = Some C_LOW_L" "char_class 0x74 = Some C_LOW_T"
  "char_class 0x72 = Some C_LOW_R" "char_class 0x66 = Some C_LOW_F" "char_class 0x61 = Some C_LOW_A"
  "char_class 0x73 = Some C_LOW_S"
  by code_simp+

lemma white_class:
  assumes "is_white n"
  obtains c where "char_class n = Some c" "white c" "0 \<le> n"
proof -
  have "case char_class n of None \<Rightarrow> False | Some c \<Rightarrow> white c" if "n \<in> set [0x20, 9, 10, 13]" for n
  proof -
    have "list_all (\<lambda>n. case char_class n of None \<Rightarrow> False | Some c \<Rightarrow> white c) [0x20, 9, 10, 13]" by code_simp
    then show ?thesis using that unfolding list_all_iff by blast
  qed
  then have "case char_class n of None \<Rightarrow> False | Some c \<Rightarrow> white c" using assms by (auto simp: is_white_def)
  then show ?thesis using that assms by (auto simp: is_white_def split: option.splits)
qed

lemma plain_class:
  assumes "0x20 \<le> n" "n \<noteq> 0x22" "n \<noteq> 0x5C"
  obtains c where "char_class n = Some c" "state_transition_table ST c = To ST"
proof -
  let ?P = "\<lambda>n. n = 0x22 \<or> n = 0x5C \<or>
      (case char_class (int n) of None \<Rightarrow> False | Some c \<Rightarrow> state_transition_table ST c = To ST)"
  have "list_all ?P [32..<128]" by code_simp
  then have all: "\<forall>n \<in> set [32..<128]. ?P n" unfolding list_all_iff .
  have *: "?P (nat n)" if "n < 128"
    by (rule bspec [OF all], unfold set_upt atLeastLessThan_iff) (use that assms(1) in linarith)
  show ?thesis
  proof (cases "n < 128")
    case True
    then show ?thesis using * assms that by (auto split: option.splits)
  next
    case False
    moreover have "state_transition_table ST C_ETC = To ST" by code_simp
    ultimately show ?thesis using that by (simp add: char_class_def)
  qed
qed

lemma hex_class:
  assumes "is_hex b"
  obtains c where "char_class (uint b) = Some c" "c \<in> set hex_classes"
proof -
  have "\<forall>b. is_hex b \<longrightarrow> (case char_class (uint b) of None \<Rightarrow> False | Some c \<Rightarrow> c \<in> set hex_classes)"
    unfolding byte_all_iff by code_simp
  then show ?thesis using assms that by (metis option.case_eq_if option.collapse)
qed

lemma hex_entries:
  assumes "c \<in> set hex_classes"
  shows "state_transition_table U1 c = To U2" "state_transition_table U2 c = To U3"
    "state_transition_table U3 c = To U4" "state_transition_table U4 c = Do UC"
proof -
  have "list_all (\<lambda>c. state_transition_table U1 c = To U2 \<and> state_transition_table U2 c = To U3 \<and>
    state_transition_table U3 c = To U4 \<and> state_transition_table U4 c = Do UC) hex_classes" by code_simp
  then show "state_transition_table U1 c = To U2" "state_transition_table U2 c = To U3"
    "state_transition_table U3 c = To U4" "state_transition_table U4 c = Do UC"
    using assms unfolding list_all_iff by blast+
qed

lemma short_entries:
  assumes "n \<in> set [0x22, 0x5C, 0x2F, 0x62, 0x66, 0x6E, 0x72, 0x74]"
  shows "0 \<le> n" "escape_bytes n = Some [short_byte n]"
    "\<exists>c. char_class n = Some c \<and> state_transition_table ES c = To ST"
proof -
  have "list_all (\<lambda>n. 0 \<le> n \<and> escape_bytes n = Some [short_byte n] \<and>
      (case char_class n of None \<Rightarrow> False | Some c \<Rightarrow> state_transition_table ES c = To ST))
    [0x22, 0x5C, 0x2F, 0x62, 0x66, 0x6E, 0x72, 0x74]" by code_simp
  then have *: "0 \<le> n \<and> escape_bytes n = Some [short_byte n] \<and>
      (case char_class n of None \<Rightarrow> False | Some c \<Rightarrow> state_transition_table ES c = To ST)"
    using assms unfolding list_all_iff by blast
  then show "0 \<le> n" "escape_bytes n = Some [short_byte n]" by simp_all
  show "\<exists>c. char_class n = Some c \<and> state_transition_table ES c = To ST"
    using * by (auto split: option.splits)
qed

text \<open>White space keeps the states before a value and ends a number.\<close>

lemma white_entries:
  assumes "white c"
  shows "s \<in> set resume_states \<Longrightarrow> state_transition_table s c = To s"
    and "s \<in> set after_value \<Longrightarrow> state_transition_table s c = To OK"
proof -
  have "list_all (\<lambda>c. list_all (\<lambda>s. state_transition_table s c = To s) resume_states \<and>
    list_all (\<lambda>s. state_transition_table s c = To OK) after_value) [C_SPACE, C_WHITE]" by code_simp
  moreover have "c \<in> set [C_SPACE, C_WHITE]" using assms by (auto simp: white_def)
  ultimately show "s \<in> set resume_states \<Longrightarrow> state_transition_table s c = To s"
    "s \<in> set after_value \<Longrightarrow> state_transition_table s c = To OK"
    unfolding list_all_iff by blast+
qed

lemma not_white [simp]:
  "\<not> white C_LSQRB" "\<not> white C_RSQRB" "\<not> white C_LCURB" "\<not> white C_RCURB" "\<not> white C_COLON" "\<not> white C_COMMA"
  "\<not> white C_QUOTE" "\<not> white C_BACKS" "\<not> white C_MINUS" "\<not> white C_POINT" "\<not> white C_PLUS" "\<not> white C_E"
  "\<not> white C_LOW_E" "\<not> white C_LOW_U" "\<not> white C_ZERO" "\<not> white C_DIGIT" "\<not> white C_SLASH" "\<not> white C_STAR"
  "\<not> white C_LOW_N" "\<not> white C_LOW_T" "\<not> white C_LOW_F"
  by (simp_all add: white_def)

section \<open>White space\<close>

lemma go_white_before:
  assumes "list_all is_white ws" "ready K" "s \<in> set resume_states"
  shows "go (at K s JSON_T_NONE c, [], ms) ws (at K s JSON_T_NONE c, [], ms)"
  using assms(1)
proof (induction ws)
  case (Cons w ws)
  then obtain cl where w: "char_class w = Some cl" "white cl" "0 \<le> w" by (auto elim: white_class)
  have "go (at K s JSON_T_NONE c, [], ms) [w] ((at K s JSON_T_NONE c)\<lparr>jc_state := s\<rparr>, [], ms)"
    by (rule go_move [OF w(1,3)]) (use assms(2,3) w(2) white_entries(1) in \<open>auto simp: ready_def\<close>)
  then have *: "go (at K s JSON_T_NONE c, [], ms) [w] (at K s JSON_T_NONE c, [], ms)" by simp
  show ?case by (rule go_Cons [OF *]) (use Cons in simp)
qed simp

definition white_text :: "int list \<Rightarrow> u8 list" where
  "white_text ws = map word_of_int ws"

text \<open>After a value: a pending scalar keeps the white space in its text.\<close>

lemma go_white_after:
  assumes "list_all is_white ws" "ready K" "s \<in> set after_value" "t = JSON_T_NONE \<longrightarrow> x = []"
  shows "go (at K s t c, x, ms) ws
    (at K (if ws = [] then s else OK) t c, if t = JSON_T_NONE then [] else x @ white_text ws, ms)"
  using assms(1,3,4)
proof (induction ws arbitrary: s x)
  case (Cons w ws)
  then obtain cl where w: "char_class w = Some cl" "white cl" "0 \<le> w" by (auto elim: white_class)
  let ?y = "if t = JSON_T_NONE \<and> white cl then x else x @ [word_of_int w]"
  have "go (at K s t c, x, ms) [w] ((at K s t c)\<lparr>jc_state := OK\<rparr>, ?y, ms)"
    by (rule go_move [OF w(1,3)]) (use assms(2) Cons.prems(2) w(2) white_entries(2) in \<open>auto simp: ready_def\<close>)
  moreover have "go (at K OK t c, ?y, ms) ws
    (at K (if ws = [] then OK else OK) t c, if t = JSON_T_NONE then [] else ?y @ white_text ws, ms)"
    by (rule Cons.IH) (use Cons.prems w(2) in \<open>auto simp: after_value_def\<close>)
  ultimately have "go (at K s t c, x, ms) (w # ws)
    (at K (if ws = [] then OK else OK) t c, if t = JSON_T_NONE then [] else ?y @ white_text ws, ms)"
    unfolding at_updates by (rule go_Cons)
  then show ?case using w(2) by (cases "t = JSON_T_NONE") (simp_all add: white_text_def)
qed (auto simp: white_text_def)

section \<open>Strings\<close>

lemma go_escaped:
  assumes "char_class n = Some c" "0 \<le> n" "jc_escaped k" "escape_bytes n = Some cs"
    and "state_transition_table (jc_state k) c = To s"
  shows "go (k, x @ [b], ms) [n] (k\<lparr>jc_escaped := False, jc_state := s\<rparr>, x @ cs, ms)"
proof (rule go_one)
  fix jc assume "sees jc (k, x @ [b], ms)"
  then have v: "views jc k (x @ [b]) ms" by (simp add: sees_def)
  have e: "JSON_parser_char jc n = if_ok (add_char_to_parse_buffer jc n c) (\<lambda>jc. enter (state_transition_table (jc_state jc) c) jc)"
    using assms(1,2) by (simp add: JSON_parser_char_def)
  show "runs (JSON_parser_char jc n) (\<lambda>(r, jc'). r \<and> sees jc' (k\<lparr>jc_escaped := False, jc_state := s\<rparr>, x @ cs, ms))"
    unfolding e runs_if_ok
  proof (rule views_add_escaped [OF v assms(3)], goal_cases)
    case (1 cs' j)
    then show ?case using assms(4,5) views_updates(2) [OF 1(2)]
      by (simp add: views_fields(3) [OF 1(2)] enter_def sees_def)
  qed (use assms(4) in simp_all)
qed

lemma go_backslash:
  assumes "ready K"
  shows "go (at K ST t c, x, ms) [0x5C] ((at K ST t c)\<lparr>jc_escaped := True, jc_state := ES\<rparr>, x @ [0x5C], ms)"
proof (rule go_action [OF punctuation_class(8)])
  show "state_transition_table (jc_state (at K ST t c)) C_BACKS = Do A_EX"
    unfolding at_fields by code_simp
  fix jc assume "views jc (at K ST t c) (x @ [word_of_int 0x5C]) ms"
  then show "runs (perform A_EX jc) (\<lambda>(r, jc'). r \<and> sees jc' ((at K ST t c)\<lparr>jc_escaped := True, jc_state := ES\<rparr>, x @ [0x5C], ms))"
    unfolding perform.simps by (intro views_EX) (auto simp: sees_def)
qed (use assms in \<open>auto simp: ready_def\<close>)

text \<open>Four hexadecimal digits after \<open>\u\<close>, with or without a saved surrogate.\<close>

lemma go_hex_move:
  assumes "is_hex b" "\<not> jc_escaped k" "\<not> jc_comment k" "jc_type k \<noteq> JSON_T_NONE"
    "(jc_state k, s) \<in> {(U1, U2), (U2, U3), (U3, U4)}"
  shows "go (k, x, ms) [uint b] (k\<lparr>jc_state := s\<rparr>, x @ [b], ms)"
proof -
  obtain c where c: "char_class (uint b) = Some c" "c \<in> set hex_classes" using hex_class [OF assms(1)] by blast
  show ?thesis by (rule go_move [OF c(1)]) (use assms hex_entries [OF c(2)] in auto)
qed

lemma go_hex4:
  assumes h: "list_all is_hex [a, b, c, d]" and k: "\<not> jc_escaped k" "\<not> jc_comment k" "jc_type k \<noteq> JSON_T_NONE" "jc_state k = U1"
    and u: "utf16_step (jc_utf16_high_surrogate k) (hex4 a b c d) = Some (bs, hi)"
  shows "go (k, x @ [p, q], ms) (chars [a, b, c, d])
    (k\<lparr>jc_utf16_high_surrogate := hi, jc_state := (if hi \<noteq> 0 then D1 else ST)\<rparr>, x @ bs, ms)"
proof -
  let ?k = "\<lambda>s. k\<lparr>jc_state := s\<rparr>"
  have 1: "go (k, x @ [p, q], ms) [uint a] (?k U2, (x @ [p, q]) @ [a], ms)"
    by (rule go_hex_move) (use h k in simp_all)
  have 2: "go (?k U2, (x @ [p, q]) @ [a], ms) [uint b] ((?k U2)\<lparr>jc_state := U3\<rparr>, ((x @ [p, q]) @ [a]) @ [b], ms)"
    by (rule go_hex_move) (use h k in simp_all)
  have 3: "go (?k U3, ((x @ [p, q]) @ [a]) @ [b], ms) [uint c]
      ((?k U3)\<lparr>jc_state := U4\<rparr>, (((x @ [p, q]) @ [a]) @ [b]) @ [c], ms)"
    by (rule go_hex_move) (use h k in simp_all)
  obtain cl where cl: "char_class (uint d) = Some cl" "cl \<in> set hex_classes"
    using hex_class [of d] h by auto
  have 4: "go (?k U4, x @ [p, q, a, b, c], ms) [uint d]
      ((?k U4)\<lparr>jc_utf16_high_surrogate := hi, jc_state := (if hi \<noteq> 0 then D1 else ST)\<rparr>, x @ bs, ms)"
  proof (rule go_action [OF cl(1)])
    show "state_transition_table (jc_state (?k U4)) cl = Do UC" using hex_entries [OF cl(2)] by simp
    fix jc assume "views jc (?k U4) ((x @ [p, q, a, b, c]) @ [word_of_int (uint d)]) ms"
    then have v: "views jc (?k U4) (x @ [p, q, a, b, c, d]) ms" by simp
    show "runs (perform UC jc) (\<lambda>(r, jc'). r \<and> sees jc'
      ((?k U4)\<lparr>jc_utf16_high_surrogate := hi, jc_state := (if hi \<noteq> 0 then D1 else ST)\<rparr>, x @ bs, ms))"
      unfolding perform.simps by (rule views_UC [OF v h]) (use u in \<open>auto simp: sees_def\<close>)
  qed (use k in simp_all)
  have k': "(?k U4)\<lparr>jc_utf16_high_surrogate := hi, jc_state := s\<rparr> = k\<lparr>jc_utf16_high_surrogate := hi, jc_state := s\<rparr>" for s
    by (cases k) simp
  show ?thesis
    using go_Cons [OF 1 [simplified] go_Cons [OF 2 [simplified] go_Cons [OF 3 [simplified] 4 [unfolded k']]]]
    by (simp add: chars_def)
qed

lemma surrogate_facts:
  assumes "is_high_surrogate uc"
  shows "\<not> uc < 0x80" "\<not> uc < 0x800" "\<not> is_low_surrogate uc"
proof -
  have "uc AND 0xFC00 \<le> uc" by (rule word_and_le2)
  then have "(0xD800 :: u32) \<le> uc" using assms by (simp add: is_high_surrogate_def)
  then show "\<not> uc < 0x80" "\<not> uc < 0x800" by unat_arith+
  show "\<not> is_low_surrogate uc" using assms by (simp add: is_high_surrogate_def is_low_surrogate_def)
qed

lemma take_bit_id: "unat (w :: 'a :: len word) < 2 ^ n \<Longrightarrow> take_bit n w = w"
  by (rule word_unat_eq_iff [THEN iffD2]) (simp add: unsigned_take_bit_eq take_bit_nat_eq_self_iff)

lemma hex4_take:
  assumes "list_all is_hex [a, b, c, d]"
  shows "take_bit 16 (hex4 a b c d) = hex4 a b c d"
proof -
  have *: "unat (hex_value x) < 2 ^ 4" if "is_hex x" for x
    using hex_value_less [OF that] by (simp add: word_less_nat_alt)
  have n: "take_bit n (hex_value x) = hex_value x" if "is_hex x" "4 \<le> n" for x n
    by (rule take_bit_id) (use * [OF that(1)] power_increasing [OF that(2), of "2 :: nat"] in linarith)
  show ?thesis unfolding hex4_def take_bit_or take_bit_push_bit using assms by (simp add: n)
qed

lemma ucast_u16: "ucast (ucast (x :: u32) :: u16) = take_bit 16 x"
  by (rule bit_word_eqI) (auto simp: bit_simps)

lemma go_unit:
  assumes "ready K" "strchar_ok (Unit a b c d)"
  shows "go (at K U1 JSON_T_STRING e, x @ [p, q], ms) (chars [a, b, c, d])
    (at K ST JSON_T_STRING e, x @ unit_bytes (hex4 a b c d), ms)"
proof -
  have u: "utf16_step (jc_utf16_high_surrogate (at K U1 JSON_T_STRING e)) (hex4 a b c d) = Some (unit_bytes (hex4 a b c d), 0)"
    using assms by (auto simp: utf16_step_def ready_def unit_bytes_def)
  show ?thesis
    using go_hex4 [OF _ _ _ _ _ u, of x p q ms] assms at_surrogate(2) [OF assms(1)] by (simp add: ready_def)
qed

lemma go_escape_u:
  assumes "ready K"
  shows "go (at K ST JSON_T_STRING e, x, ms) [0x5C, 0x75] (at K U1 JSON_T_STRING e, x @ [0x5C, 0x75], ms)"
proof -
  let ?k = "(at K ST JSON_T_STRING e)\<lparr>jc_escaped := True, jc_state := ES\<rparr>"
  have "go (?k, x @ [0x5C], ms) [0x75] (?k\<lparr>jc_escaped := False, jc_state := U1\<rparr>, x @ [0x5C, 0x75], ms)"
  proof (rule go_escaped [OF punctuation_class(14)])
    show "state_transition_table (jc_state ?k) C_LOW_U = To U1" by simp code_simp
  qed (simp_all add: escape_bytes_def)
  from go_Cons [OF go_backslash [OF assms] this] show ?thesis by (simp add: at_escaped [OF assms])
qed

lemma go_pair:
  assumes K: "ready K" and o: "strchar_ok (Pair a b c d a' b' c' d')"
  shows "go (at K U1 JSON_T_STRING e, x @ [p, q], ms) (chars [a, b, c, d] @ [0x5C, 0x75] @ chars [a', b', c', d'])
    (at K ST JSON_T_STRING e, x @ utf8_bytes (decode_surrogate_pair (hex4 a b c d) (hex4 a' b' c' d')) 3, ms)"
proof -
  let ?hi = "ucast (hex4 a b c d) :: u16" and ?a = "\<lambda>s. at K s JSON_T_STRING e"
  let ?h = "\<lambda>s. (?a s)\<lparr>jc_utf16_high_surrogate := ?hi\<rparr>"
  have hs: "is_high_surrogate (hex4 a b c d)" "is_low_surrogate (hex4 a' b' c' d')" using o by simp_all
  have hi2: "ucast ?hi = hex4 a b c d" unfolding ucast_u16 by (rule hex4_take) (use o in simp)
  moreover have "?hi \<noteq> 0"
  proof
    assume "?hi = 0"
    then have "(ucast ?hi :: u32) = 0" by (metis unsigned_0)
    with hi2 have "hex4 a b c d = 0" by (rule HOL.trans [OF HOL.sym])
    then show False using hs(1) by (simp add: is_high_surrogate_def)
  qed
  ultimately have hi: "?hi \<noteq> 0" "ucast ?hi = hex4 a b c d" by simp_all
  have u1: "utf16_step (jc_utf16_high_surrogate (?a U1)) (hex4 a b c d) = Some ([], ?hi)"
    using K hs(1) surrogate_facts [OF hs(1)] by (simp add: utf16_step_def ready_def)
  have 1: "go (?a U1, x @ [p, q], ms) (chars [a, b, c, d]) (?h D1, x, ms)"
    using go_hex4 [OF _ _ _ _ _ u1, of x p q ms] o K hi(1)
    by (simp add: ready_def at_surrogate_state)
  have f: "\<not> jc_escaped (?h s)" "\<not> jc_comment (?h s)" "jc_type (?h s) \<noteq> JSON_T_NONE" "jc_state (?h s) = s" for s
    using K by (simp_all add: ready_def)
  have s: "(?h s)\<lparr>jc_state := s'\<rparr> = ?h s'" for s s' by (simp add: at_def)
  have 2: "go (?h D1, x, ms) [0x5C] (?h D2, x @ [0x5C], ms)"
  proof -
    have "go (?h D1, x, ms) [0x5C] ((?h D1)\<lparr>jc_state := D2\<rparr>, x @ [0x5C], ms)"
    proof (rule go_move [OF punctuation_class(8)])
      show "state_transition_table (jc_state (?h D1)) C_BACKS = To D2" unfolding f(4) by code_simp
    qed (use f in simp_all)
    then show ?thesis unfolding s .
  qed
  have 3: "go (?h D2, x @ [0x5C], ms) [0x75] (?h U1, x @ [0x5C, 0x75], ms)"
  proof -
    have "go (?h D2, x @ [0x5C], ms) [0x75] ((?h D2)\<lparr>jc_state := U1\<rparr>, x @ [0x5C, 0x75], ms)"
    proof (rule go_move [OF punctuation_class(14)])
      show "state_transition_table (jc_state (?h D2)) C_LOW_U = To U1" unfolding f(4) by code_simp
    qed (use f in simp_all)
    then show ?thesis unfolding s .
  qed
  have u2: "utf16_step (jc_utf16_high_surrogate (?h U1)) (hex4 a' b' c' d')
      = Some (utf8_bytes (decode_surrogate_pair (hex4 a b c d) (hex4 a' b' c' d')) 3, 0)"
    using hs(2) hi by (simp add: utf16_step_def)
  have 4: "go (?h U1, x @ [0x5C, 0x75], ms) (chars [a', b', c', d'])
     (?a ST, x @ utf8_bytes (decode_surrogate_pair (hex4 a b c d) (hex4 a' b' c' d')) 3, ms)"
    using go_hex4 [OF _ f(1-3) f(4) u2, of x "0x5C" "0x75" ms] o at_surrogate(2) [OF K] by (simp add: at_def)
  show ?thesis using go_append [OF 1 go_Cons [OF 2 go_Cons [OF 3 4]]] by simp
qed

lemma go_strchar:
  assumes K: "ready K" and o: "strchar_ok ch"
  shows "go (at K ST JSON_T_STRING e, x, ms) (unparse_strchar ch) (at K ST JSON_T_STRING e, x @ strchar_bytes ch, ms)"
proof (cases ch)
  case (Plain n)
  then obtain c where c: "char_class n = Some c" "state_transition_table ST c = To ST"
    using o plain_class by auto
  have "go (at K ST JSON_T_STRING e, x, ms) [n] ((at K ST JSON_T_STRING e)\<lparr>jc_state := ST\<rparr>, x @ [word_of_int n], ms)"
    by (rule go_move [OF c(1)]) (use c K o Plain in \<open>auto simp: ready_def\<close>)
  then show ?thesis by (simp add: Plain)
next
  case (Short n)
  have n: "n \<in> set [0x22, 0x5C, 0x2F, 0x62, 0x66, 0x6E, 0x72, 0x74]" using o Short by simp
  note e = short_entries [OF n]
  obtain c where c: "char_class n = Some c" "state_transition_table ES c = To ST" using e(3) by blast
  let ?k = "(at K ST JSON_T_STRING e)\<lparr>jc_escaped := True, jc_state := ES\<rparr>"
  have "go (?k, x @ [0x5C], ms) [n] (?k\<lparr>jc_escaped := False, jc_state := ST\<rparr>, x @ [short_byte n], ms)"
    by (rule go_escaped [OF c(1) e(1)]) (use c e in simp_all)
  from go_Cons [OF go_backslash [OF K] this] show ?thesis by (simp add: at_escaped [OF K] Short)
next
  case (Unit a b c d)
  then show ?thesis using go_append [OF go_escape_u [OF K] go_unit [OF K]] o by simp
next
  case (Pair a b c d a' b' c' d')
  then show ?thesis using go_append [OF go_escape_u [OF K] go_pair [OF K]] o by simp
qed

lemma go_strchars:
  assumes "ready K" "list_all strchar_ok cs"
  shows "go (at K ST JSON_T_STRING e, x, ms) (concat (map unparse_strchar cs)) (at K ST JSON_T_STRING e, x @ str_bytes cs, ms)"
  using assms(2)
proof (induction cs arbitrary: x)
  case (Cons ch cs)
  then show ?case using go_append [OF go_strchar [OF assms(1)] Cons.IH] by (simp add: str_bytes_def)
qed (simp add: str_bytes_def)

text \<open>The opening quote, before a value or a key.\<close>

lemma go_quote:
  assumes "ready K" "s \<in> {VA, AR, OB, KE}"
  shows "go (at K s JSON_T_NONE e, x, ms) [0x22] (at K ST JSON_T_STRING e, [], ms)"
proof (rule go_action [OF punctuation_class(7)])
  have "list_all (\<lambda>s. state_transition_table s C_QUOTE = Do SB) [VA, AR, OB, KE]" by code_simp
  then show "state_transition_table (jc_state (at K s JSON_T_NONE e)) C_QUOTE = Do SB"
    using assms(2) by auto
  fix jc assume v: "views jc (at K s JSON_T_NONE e) (x @ [word_of_int 0x22]) ms"
  show "runs (perform SB jc) (\<lambda>(r, jc'). r \<and> sees jc' (at K ST JSON_T_STRING e, [], ms))"
    unfolding perform.simps by (rule views_SB [OF v]) (auto simp: sees_def)
qed (use assms in \<open>auto simp: ready_def\<close>)

lemma go_key:
  assumes K: "ready K" and s: "s \<in> {OB, KE}" and o: "list_all strchar_ok cs" and m: "last ms = MODE_KEY"
    and d: "deliver (jc_callback K) [(JSON_T_KEY, Some (JV_str (str_bytes cs)))] e = Inr (True, e')"
  shows "go (at K s JSON_T_NONE e, x, ms) (unparse_str cs) (at K CO JSON_T_NONE e', [], ms)"
proof -
  have 1: "go (at K s JSON_T_NONE e, x, ms) [0x22] (at K ST JSON_T_STRING e, [], ms)"
    by (rule go_quote [OF K]) (use s in auto)
  have 2: "go (at K ST JSON_T_STRING e, [], ms) (concat (map unparse_strchar cs)) (at K ST JSON_T_STRING e, str_bytes cs, ms)"
    using go_strchars [OF K o, of e "[]" ms] by simp
  have 3: "go (at K ST JSON_T_STRING e, str_bytes cs, ms) [0x22] (at K CO JSON_T_NONE e', [], ms)"
  proof (rule go_action [OF punctuation_class(7)])
    show "state_transition_table (jc_state (at K ST JSON_T_STRING e)) C_QUOTE = Do A_4"
      unfolding at_fields by code_simp
    fix jc assume v: "views jc (at K ST JSON_T_STRING e) (str_bytes cs @ [word_of_int 0x22]) ms"
    show "runs (perform A_4 jc) (\<lambda>(r, jc'). r \<and> sees jc' (at K CO JSON_T_NONE e', [], ms))"
      unfolding perform.simps
      by (rule views_act_4_key [OF v _ m], simp, rule outcome_success [where c' = e']) (use d in \<open>auto simp: sees_def\<close>)
  qed (use K in \<open>auto simp: ready_def\<close>)
  show ?thesis unfolding unparse_str_def by (rule go_append [OF 1 go_append [OF 2 3]])
qed

lemma go_str:
  assumes K: "ready K" and s: "s \<in> {VA, AR}" and o: "list_all strchar_ok cs" and m: "last ms = MODE_ARRAY \<or> last ms = MODE_OBJECT"
    and d: "deliver (jc_callback K) [(JSON_T_STRING, Some (JV_str (str_bytes cs)))] e = Inr (True, e')"
  shows "go (at K s JSON_T_NONE e, x, ms) (unparse_str cs) (at K OK JSON_T_NONE e', [], ms)"
proof -
  have 1: "go (at K s JSON_T_NONE e, x, ms) [0x22] (at K ST JSON_T_STRING e, [], ms)"
    by (rule go_quote [OF K]) (use s in auto)
  have 2: "go (at K ST JSON_T_STRING e, [], ms) (concat (map unparse_strchar cs)) (at K ST JSON_T_STRING e, str_bytes cs, ms)"
    using go_strchars [OF K o, of e "[]" ms] by simp
  have 3: "go (at K ST JSON_T_STRING e, str_bytes cs, ms) [0x22] (at K OK JSON_T_NONE e', [], ms)"
  proof (rule go_action [OF punctuation_class(7)])
    show "state_transition_table (jc_state (at K ST JSON_T_STRING e)) C_QUOTE = Do A_4"
      unfolding at_fields by code_simp
    fix jc assume v: "views jc (at K ST JSON_T_STRING e) (str_bytes cs @ [word_of_int 0x22]) ms"
    show "runs (perform A_4 jc) (\<lambda>(r, jc'). r \<and> sees jc' (at K OK JSON_T_NONE e', [], ms))"
      unfolding perform.simps
      by (rule views_act_4_value [OF v _ m], simp, rule outcome_success [where c' = e']) (use d in \<open>auto simp: sees_def\<close>)
  qed (use K in \<open>auto simp: ready_def\<close>)
  show ?thesis unfolding unparse_str_def by (rule go_append [OF 1 go_append [OF 2 3]])
qed

section \<open>Literals and numbers\<close>

lemma go_plain_move:
  assumes "ready K" "char_class n = Some c" "0 \<le> n" "state_transition_table s c = To s'" "t \<noteq> JSON_T_NONE"
  shows "go (at K s t e, x, ms) [n] (at K s' t e, x @ [word_of_int n], ms)"
proof -
  have "go (at K s t e, x, ms) [n] ((at K s t e)\<lparr>jc_state := s'\<rparr>, x @ [word_of_int n], ms)"
    by (rule go_move [OF assms(2,3)]) (use assms in \<open>auto simp: ready_def\<close>)
  then show ?thesis by simp
qed

lemma go_literals:
  assumes K: "ready K" and s: "s \<in> {VA, AR}"
  shows "go (at K s JSON_T_NONE e, [], ms) (unparse T_null) (at K OK JSON_T_NULL e, bytes_of ''null'', ms)"
    and "go (at K s JSON_T_NONE e, [], ms) (unparse T_true) (at K OK JSON_T_TRUE e, bytes_of ''true'', ms)"
    and "go (at K s JSON_T_NONE e, [], ms) (unparse T_false) (at K OK JSON_T_FALSE e, bytes_of ''false'', ms)"
proof -
  have first: "go (at K s JSON_T_NONE e, [], ms) [n] (at K s' t e, [word_of_int n], ms)"
    if "char_class n = Some c" "0 \<le> n" "\<not> white c" "state_transition_table s c = Do a"
      "\<And>jc. views jc (at K s JSON_T_NONE e) ([] @ [word_of_int n]) ms \<Longrightarrow>
        runs (perform a jc) (\<lambda>(r, jc'). r \<and> sees jc' (at K s' t e, [word_of_int n], ms))" for n c a s' t
    by (rule go_action [OF that(1,2)]) (use that(3-5) K in \<open>auto simp: ready_def\<close>)
  have T: "list_all (\<lambda>s. state_transition_table s C_LOW_N = Do NU \<and> state_transition_table s C_LOW_T = Do TR \<and>
      state_transition_table s C_LOW_F = Do FA) [VA, AR]" by code_simp
  have N: "state_transition_table N1 C_LOW_U = To N2" "state_transition_table N2 C_LOW_L = To N3"
    "state_transition_table N3 C_LOW_L = To OK" by code_simp+
  have R: "state_transition_table T1 C_LOW_R = To T2" "state_transition_table T2 C_LOW_U = To T3"
    "state_transition_table T3 C_LOW_E = To OK" by code_simp+
  have F: "state_transition_table F1 C_LOW_A = To F2" "state_transition_table F2 C_LOW_L = To F3"
    "state_transition_table F3 C_LOW_S = To F4" "state_transition_table F4 C_LOW_E = To OK" by code_simp+
  note m = go_plain_move [OF K] and c = punctuation_class
  have n1: "go (at K s JSON_T_NONE e, [], ms) [0x6E] (at K N1 JSON_T_NULL e, [word_of_int 0x6E], ms)"
    by (rule first [OF c(18)]) (use s T in \<open>auto intro!: views_begin_literal(1) simp: sees_def\<close>)
  have t1: "go (at K s JSON_T_NONE e, [], ms) [0x74] (at K T1 JSON_T_TRUE e, [word_of_int 0x74], ms)"
    by (rule first [OF c(20)]) (use s T in \<open>auto intro!: views_begin_literal(3) simp: sees_def\<close>)
  have f1: "go (at K s JSON_T_NONE e, [], ms) [0x66] (at K F1 JSON_T_FALSE e, [word_of_int 0x66], ms)"
    by (rule first [OF c(22)]) (use s T in \<open>auto intro!: views_begin_literal(2) simp: sees_def\<close>)
  show "go (at K s JSON_T_NONE e, [], ms) (unparse T_null) (at K OK JSON_T_NULL e, bytes_of ''null'', ms)"
    using go_Cons [OF n1 go_Cons [OF m [OF c(14) _ N(1)] go_Cons [OF m [OF c(19) _ N(2)] m [OF c(19) _ N(3)]]]]
    by (simp add: bytes_of_def)
  show "go (at K s JSON_T_NONE e, [], ms) (unparse T_true) (at K OK JSON_T_TRUE e, bytes_of ''true'', ms)"
    using go_Cons [OF t1 go_Cons [OF m [OF c(21) _ R(1)] go_Cons [OF m [OF c(14) _ R(2)] m [OF c(13) _ R(3)]]]]
    by (simp add: bytes_of_def)
  show "go (at K s JSON_T_NONE e, [], ms) (unparse T_false) (at K OK JSON_T_FALSE e, bytes_of ''false'', ms)"
    using go_Cons [OF f1 go_Cons [OF m [OF c(23) _ F(1)] go_Cons [OF m [OF c(19) _ F(2)]
      go_Cons [OF m [OF c(24) _ F(3)] m [OF c(13) _ F(4)]]]]]
    by (simp add: bytes_of_def)
qed

text \<open>Digits: zero or not, and the states that stay on them.\<close>

lemma digit_class:
  assumes "isdigit b"
  shows "char_class (uint b) = Some (if b = 0x30 then C_ZERO else C_DIGIT)"
proof -
  have "\<forall>b. isdigit b \<longrightarrow> char_class (uint b) = Some (if b = 0x30 then C_ZERO else C_DIGIT)"
    unfolding byte_all_iff by code_simp
  then show ?thesis using assms by blast
qed

lemma digit_entries:
  "c = C_ZERO \<or> c = C_DIGIT \<Longrightarrow> state_transition_table IT c = To IT"
  "c = C_ZERO \<or> c = C_DIGIT \<Longrightarrow> state_transition_table FX c = To FR"
  "c = C_ZERO \<or> c = C_DIGIT \<Longrightarrow> state_transition_table FR c = To FR"
  "c = C_ZERO \<or> c = C_DIGIT \<Longrightarrow> state_transition_table E1 c = To E3"
  "c = C_ZERO \<or> c = C_DIGIT \<Longrightarrow> state_transition_table E2 c = To E3"
  "c = C_ZERO \<or> c = C_DIGIT \<Longrightarrow> state_transition_table E3 c = To E3"
proof -
  have "list_all (\<lambda>c. state_transition_table IT c = To IT \<and> state_transition_table FX c = To FR \<and>
    state_transition_table FR c = To FR \<and> state_transition_table E1 c = To E3 \<and>
    state_transition_table E2 c = To E3 \<and> state_transition_table E3 c = To E3) [C_ZERO, C_DIGIT]" by code_simp
  then show
  "c = C_ZERO \<or> c = C_DIGIT \<Longrightarrow> state_transition_table IT c = To IT"
  "c = C_ZERO \<or> c = C_DIGIT \<Longrightarrow> state_transition_table FX c = To FR"
  "c = C_ZERO \<or> c = C_DIGIT \<Longrightarrow> state_transition_table FR c = To FR"
  "c = C_ZERO \<or> c = C_DIGIT \<Longrightarrow> state_transition_table E1 c = To E3"
  "c = C_ZERO \<or> c = C_DIGIT \<Longrightarrow> state_transition_table E2 c = To E3"
  "c = C_ZERO \<or> c = C_DIGIT \<Longrightarrow> state_transition_table E3 c = To E3"
    by auto
qed

text \<open>A run of digits, entering a state and staying in it.\<close>

lemma go_digits:
  assumes K: "ready K" and t: "t \<noteq> JSON_T_NONE" and d: "\<forall>b \<in> set ds. isdigit b"
    and s: "\<And>c. c = C_ZERO \<or> c = C_DIGIT \<Longrightarrow> state_transition_table s c = To s"
  shows "go (at K s t e, x, ms) (chars ds) (at K s t e, x @ ds, ms)"
  using d
proof (induction ds arbitrary: x)
  case (Cons b ds)
  have "go (at K s t e, x, ms) [uint b] (at K s t e, x @ [word_of_int (uint b)], ms)"
    by (rule go_plain_move [OF K digit_class _ s t]) (use Cons.prems in auto)
  then have 1: "go (at K s t e, x, ms) [uint b] (at K s t e, x @ [b], ms)" by simp
  have 2: "go (at K s t e, x @ [b], ms) (chars ds) (at K s t e, (x @ [b]) @ ds, ms)"
    by (rule Cons.IH) (use Cons.prems in simp)
  show ?case using go_Cons [OF 1 2] by (simp add: chars_def)
qed (simp add: chars_def)

lemma go_digits1:
  assumes K: "ready K" and t: "t \<noteq> JSON_T_NONE" and d: "\<forall>b \<in> set ds. isdigit b" "ds \<noteq> []"
    and s: "\<And>c. c = C_ZERO \<or> c = C_DIGIT \<Longrightarrow> state_transition_table s c = To s'"
    and s': "\<And>c. c = C_ZERO \<or> c = C_DIGIT \<Longrightarrow> state_transition_table s' c = To s'"
  shows "go (at K s t e, x, ms) (chars ds) (at K s' t e, x @ ds, ms)"
proof -
  obtain b bs where ds: "ds = b # bs" using d(2) by (cases ds) auto
  have "go (at K s t e, x, ms) [uint b] (at K s' t e, x @ [word_of_int (uint b)], ms)"
    by (rule go_plain_move [OF K digit_class _ s t]) (use d ds in auto)
  from go_Cons [OF this [simplified] go_digits [OF K t _ s']] d ds show ?thesis by (simp add: chars_def)
qed

lemma decimal_zero: "decimal 0 = [0x30]"
  by (subst decimal.simps) (simp add: digit_char_def)

lemma decimal_head:
  assumes "n \<noteq> 0"
  shows "hd (decimal n) \<noteq> 0x30"
  using assms
proof (induction n rule: decimal.induct)
  case (1 n)
  show ?case
  proof (cases "n < 10")
    case True
    have "list_all (\<lambda>k. k = 0 \<or> digit_char k \<noteq> 0x30) [0..<10]" by code_simp
    then have "digit_char n \<noteq> 0x30" using True "1.prems" unfolding list_all_upt_iff by blast
    then show ?thesis using True by (subst decimal.simps) simp
  next
    case False
    then have "hd (decimal n) = hd (decimal (n div 10))" by (subst decimal.simps) simp
    then show ?thesis using 1 False by simp
  qed
qed

text \<open>The integer part: a zero alone, or digits that do not start with one.\<close>

definition int_state :: "nat \<Rightarrow> jstate" where
  "int_state n = (if n = 0 then ZE else IT)"

lemma go_decimal:
  assumes K: "ready K" and t: "t \<noteq> JSON_T_NONE"
    and z: "\<And>c. c = C_ZERO \<Longrightarrow> state_transition_table s c = To ZE"
    and d: "\<And>c. c = C_DIGIT \<Longrightarrow> state_transition_table s c = To IT"
  shows "go (at K s t e, x, ms) (chars (decimal n)) (at K (int_state n) t e, x @ decimal n, ms)"
proof (cases "n = 0")
  case True
  have "go (at K s t e, x, ms) [0x30] (at K ZE t e, x @ [word_of_int 0x30], ms)"
    by (rule go_plain_move [OF K punctuation_class(17) _ z t]) simp_all
  then show ?thesis by (simp add: True decimal_zero chars_def int_state_def)
next
  case False
  obtain b bs where b: "decimal n = b # bs" "isdigit b" by (rule decimal_cons)
  have bs: "\<forall>b \<in> set bs. isdigit b" using decimal_digits [of n] b by simp
  have c: "char_class (uint b) = Some C_DIGIT" using digit_class [OF b(2)] decimal_head [OF False] b(1) by simp
  have "go (at K s t e, x, ms) [uint b] (at K IT t e, x @ [word_of_int (uint b)], ms)"
    by (rule go_plain_move [OF K c _ d t]) simp_all
  then have 1: "go (at K s t e, x, ms) [uint b] (at K IT t e, x @ [b], ms)" by simp
  have 2: "go (at K IT t e, x @ [b], ms) (chars bs) (at K IT t e, (x @ [b]) @ bs, ms)"
    by (rule go_digits [OF K t bs digit_entries(1)])
  show ?thesis using go_Cons [OF 1 2] False b(1) by (simp add: chars_def int_state_def)
qed

lemma value_entries:
  assumes "s \<in> {VA, AR}"
  shows "state_transition_table s C_MINUS = Do MX" "state_transition_table s C_ZERO = Do ZX"
    "state_transition_table s C_DIGIT = Do IX" "state_transition_table s C_LCURB = Do A_6"
    "state_transition_table s C_LSQRB = Do A_5"
proof -
  have "list_all (\<lambda>s. state_transition_table s C_MINUS = Do MX \<and> state_transition_table s C_ZERO = Do ZX \<and>
    state_transition_table s C_DIGIT = Do IX \<and> state_transition_table s C_LCURB = Do A_6 \<and>
    state_transition_table s C_LSQRB = Do A_5) [VA, AR]" by code_simp
  then show "state_transition_table s C_MINUS = Do MX" "state_transition_table s C_ZERO = Do ZX"
    "state_transition_table s C_DIGIT = Do IX" "state_transition_table s C_LCURB = Do A_6"
    "state_transition_table s C_LSQRB = Do A_5"
    using assms by auto
qed

lemma go_start_number:
  assumes K: "ready K" and s: "s \<in> {VA, AR}" and c: "char_class n = Some c" "0 \<le> n"
  shows "c = C_MINUS \<Longrightarrow> go (at K s JSON_T_NONE e, x, ms) [n] (at K MI JSON_T_INTEGER e, x @ [word_of_int n], ms)"
    and "c = C_ZERO \<Longrightarrow> go (at K s JSON_T_NONE e, x, ms) [n] (at K ZE JSON_T_INTEGER e, x @ [word_of_int n], ms)"
    and "c = C_DIGIT \<Longrightarrow> go (at K s JSON_T_NONE e, x, ms) [n] (at K IT JSON_T_INTEGER e, x @ [word_of_int n], ms)"
proof -
  have m: "go (at K s JSON_T_NONE e, x, ms) [n] (at K s' JSON_T_INTEGER e, x @ [word_of_int n], ms)"
    if "state_transition_table s c = Do a" "\<not> white c"
      "\<And>jc. views jc (at K s JSON_T_NONE e) (x @ [word_of_int n]) ms \<Longrightarrow>
        runs (perform a jc) (\<lambda>(r, jc'). r \<and> sees jc' (at K s' JSON_T_INTEGER e, x @ [word_of_int n], ms))" for a s'
    by (rule go_action [OF c]) (use that K in \<open>auto simp: ready_def\<close>)
  show "c = C_MINUS \<Longrightarrow> go (at K s JSON_T_NONE e, x, ms) [n] (at K MI JSON_T_INTEGER e, x @ [word_of_int n], ms)"
    by (rule m [of MX], use s value_entries in simp, simp, unfold perform.simps, erule views_begin_integer)
      (simp add: sees_def)
  show "c = C_ZERO \<Longrightarrow> go (at K s JSON_T_NONE e, x, ms) [n] (at K ZE JSON_T_INTEGER e, x @ [word_of_int n], ms)"
    by (rule m [of ZX], use s value_entries in simp, simp, unfold perform.simps, erule views_begin_integer)
      (simp add: sees_def)
  show "c = C_DIGIT \<Longrightarrow> go (at K s JSON_T_NONE e, x, ms) [n] (at K IT JSON_T_INTEGER e, x @ [word_of_int n], ms)"
    by (rule m [of IX], use s value_entries in simp, simp, unfold perform.simps, erule views_begin_integer)
      (simp add: sees_def)
qed

lemma go_int:
  assumes K: "ready K" and s: "s \<in> {VA, AR}"
  shows "go (at K s JSON_T_NONE e, [], ms) (chars (int_text neg n)) (at K (int_state n) JSON_T_INTEGER e, int_text neg n, ms)"
proof (cases neg)
  case True
  have T: "state_transition_table MI C_ZERO = To ZE" "state_transition_table MI C_DIGIT = To IT" by code_simp+
  have 1: "go (at K s JSON_T_NONE e, [], ms) [0x2D] (at K MI JSON_T_INTEGER e, [] @ [word_of_int 0x2D], ms)"
    by (rule go_start_number(1) [OF K s punctuation_class(9)]) simp_all
  have 2: "go (at K MI JSON_T_INTEGER e, [0x2D], ms) (chars (decimal n)) (at K (int_state n) JSON_T_INTEGER e, [0x2D] @ decimal n, ms)"
    by (rule go_decimal [OF K]) (use T in simp_all)
  show ?thesis using go_Cons [OF 1 [simplified] 2] True by (simp add: int_text_def chars_def)
next
  case False
  show ?thesis
  proof (cases "n = 0")
    case True
    have "go (at K s JSON_T_NONE e, [], ms) [0x30] (at K ZE JSON_T_INTEGER e, [] @ [word_of_int 0x30], ms)"
      by (rule go_start_number(2) [OF K s punctuation_class(17)]) simp_all
    then show ?thesis using True False by (simp add: int_text_def decimal_zero chars_def int_state_def)
  next
    case n: False
    obtain b bs where b: "decimal n = b # bs" "isdigit b" by (rule decimal_cons)
    have bs: "\<forall>b \<in> set bs. isdigit b" using decimal_digits [of n] b by simp
    have c: "char_class (uint b) = Some C_DIGIT" using digit_class [OF b(2)] decimal_head [OF n] b(1) by simp
    have 1: "go (at K s JSON_T_NONE e, [], ms) [uint b] (at K IT JSON_T_INTEGER e, [] @ [word_of_int (uint b)], ms)"
      by (rule go_start_number(3) [OF K s c]) simp_all
    have 2: "go (at K IT JSON_T_INTEGER e, [b], ms) (chars bs) (at K IT JSON_T_INTEGER e, [b] @ bs, ms)"
      by (rule go_digits [OF K _ bs digit_entries(1)]) simp
    show ?thesis using go_Cons [OF 1 [simplified] 2] False n b(1) by (simp add: int_text_def chars_def int_state_def)
  qed
qed

lemma digits_isdigit: "list_all (\<lambda>d. d < 10) ds \<Longrightarrow> \<forall>b \<in> set (digits ds). isdigit b"
  by (auto simp: digits_def list_all_iff digit_char_facts)

text \<open>The fraction, with the locale's decimal point put in its place.\<close>

lemma go_fraction:
  assumes K: "ready K" and d: "digits_ok ds" and s: "s \<in> {ZE, IT}"
    and p: "pt = (if jc_handle_floats_manually K then 0x2E else jc_decimal_point K)"
  shows "go (at K s JSON_T_INTEGER e, x, ms) (0x2E # chars (digits ds)) (at K FR JSON_T_FLOAT e, x @ pt # digits ds, ms)"
proof -
  have T: "list_all (\<lambda>s. state_transition_table s C_POINT = Do DF) [ZE, IT]" by code_simp
  have 1: "go (at K s JSON_T_INTEGER e, x, ms) [0x2E] (at K FX JSON_T_FLOAT e, x @ [pt], ms)"
  proof (rule go_action [OF punctuation_class(10)])
    show "state_transition_table (jc_state (at K s JSON_T_INTEGER e)) C_POINT = Do DF" using T s by auto
    fix jc assume "views jc (at K s JSON_T_INTEGER e) (x @ [word_of_int 0x2E]) ms"
    then have v: "views jc (at K s JSON_T_INTEGER e) (x @ [0x2E]) ms" by simp
    show "runs (perform DF jc) (\<lambda>(r, jc'). r \<and> sees jc' (at K FX JSON_T_FLOAT e, x @ [pt], ms))"
      unfolding perform.simps by (rule views_DF [OF v]) (use p in \<open>auto simp: isnt_string_null_or_bool_def sees_def\<close>)
  qed (use K in \<open>auto simp: ready_def\<close>)
  have 2: "go (at K FX JSON_T_FLOAT e, x @ [pt], ms) (chars (digits ds)) (at K FR JSON_T_FLOAT e, (x @ [pt]) @ digits ds, ms)"
    by (rule go_digits1 [OF K _ _ _ digit_entries(2,3)])
      (use d digits_isdigit in \<open>auto simp: digits_ok_def digits_def\<close>)
  show ?thesis using go_Cons [OF 1 2] by simp
qed

lemma go_exponent:
  assumes K: "ready K" and d: "digits_ok ds" and s: "(s, t) \<in> {(IT, JSON_T_INTEGER), (FR, JSON_T_FLOAT)}"
  shows "go (at K s t e, x, ms) (chars (exp_text (Some (upper, sg, ds)))) (at K E3 JSON_T_FLOAT e, x @ exp_text (Some (upper, sg, ds)), ms)"
proof -
  let ?b = "if upper then 0x45 else 0x65 :: u8"
  have T: "list_all (\<lambda>c. state_transition_table IT c = Do DE \<and> state_transition_table FR c = To E1) [C_E, C_LOW_E]"
    by code_simp
  obtain c where c: "char_class (uint ?b) = Some c" "c = C_E \<or> c = C_LOW_E"
    using punctuation_class(12,13) by (cases upper) auto
  have w: "\<not> white c" using c(2) by auto
  have 1: "go (at K s t e, x, ms) [uint ?b] (at K E1 JSON_T_FLOAT e, x @ [?b], ms)"
  proof (cases "s = FR")
    case True
    then have t: "t = JSON_T_FLOAT" using s by simp
    have "go (at K FR JSON_T_FLOAT e, x, ms) [uint ?b] (at K E1 JSON_T_FLOAT e, x @ [word_of_int (uint ?b)], ms)"
      by (rule go_plain_move [OF K c(1)]) (use T c(2) in auto)
    then show ?thesis using True t by simp
  next
    case False
    then have st: "s = IT" "t = JSON_T_INTEGER" using s by auto
    have "go (at K IT JSON_T_INTEGER e, x, ms) [uint ?b] (at K E1 JSON_T_FLOAT e, x @ [word_of_int (uint ?b)], ms)"
    proof (rule go_action [OF c(1)])
      fix jc assume v: "views jc (at K IT JSON_T_INTEGER e) (x @ [word_of_int (uint ?b)]) ms"
      show "runs (perform DE jc) (\<lambda>(r, jc'). r \<and> sees jc' (at K E1 JSON_T_FLOAT e, x @ [word_of_int (uint ?b)], ms))"
        unfolding perform.simps by (rule views_DE [OF v]) (auto simp: isnt_string_null_or_bool_def sees_def)
    qed (use K T c(2) w in \<open>auto simp: ready_def\<close>)
    then show ?thesis using st by simp
  qed
  have D: "\<forall>b \<in> set (digits ds). isdigit b" "digits ds \<noteq> []"
    using d digits_isdigit by (auto simp: digits_ok_def digits_def)
  have 2: "go (at K E1 JSON_T_FLOAT e, x @ [?b], ms) (chars (sign_text sg @ digits ds)) (at K E3 JSON_T_FLOAT e, (x @ [?b]) @ sign_text sg @ digits ds, ms)"
  proof (cases "sg = Unsigned")
    case True
    have "go (at K E1 JSON_T_FLOAT e, x @ [?b], ms) (chars (digits ds)) (at K E3 JSON_T_FLOAT e, (x @ [?b]) @ digits ds, ms)"
      by (rule go_digits1 [OF K _ D digit_entries(4,6)]) simp
    then show ?thesis using True by (simp add: sign_text_def)
  next
    case False
    let ?g = "if sg = Plus then 0x2B else 0x2D :: u8"
    have S: "state_transition_table E1 C_PLUS = To E2" "state_transition_table E1 C_MINUS = To E2" by code_simp+
    obtain cl where cl: "char_class (uint ?g) = Some cl" "state_transition_table E1 cl = To E2"
      using punctuation_class(9,11) S by (cases "sg = Plus") auto
    have "go (at K E1 JSON_T_FLOAT e, x @ [?b], ms) [uint ?g] (at K E2 JSON_T_FLOAT e, (x @ [?b]) @ [word_of_int (uint ?g)], ms)"
      by (rule go_plain_move [OF K cl(1) _ cl(2)]) simp_all
    then have 3: "go (at K E1 JSON_T_FLOAT e, x @ [?b], ms) [uint ?g] (at K E2 JSON_T_FLOAT e, (x @ [?b]) @ [?g], ms)"
      by simp
    have 4: "go (at K E2 JSON_T_FLOAT e, (x @ [?b]) @ [?g], ms) (chars (digits ds)) (at K E3 JSON_T_FLOAT e, ((x @ [?b]) @ [?g]) @ digits ds, ms)"
      by (rule go_digits1 [OF K _ D digit_entries(5,6)]) simp
    have g: "sign_text sg = [?g]" using False by (cases sg) (auto simp: sign_text_def)
    show ?thesis using go_Cons [OF 3 4] unfolding g by (simp add: chars_def)
  qed
  show ?thesis using go_Cons [OF 1 2] by (simp add: exp_text_def chars_def)
qed

definition float_state :: "(bool \<times> sign \<times> nat list) option \<Rightarrow> jstate" where
  "float_state e = (if e = None then FR else E3)"

lemma chars_append: "chars (xs @ ys) = chars xs @ chars ys"
  by (simp add: chars_def)

lemma go_float:
  assumes K: "ready K" and s: "s \<in> {VA, AR}" and o: "tree_ok (T_float neg n f ex)"
    and p: "pt = (if jc_handle_floats_manually K then 0x2E else jc_decimal_point K)"
  shows "go (at K s JSON_T_NONE e, [], ms) (chars (float_text 0x2E neg n f ex)) (at K (float_state ex) JSON_T_FLOAT e, float_text pt neg n f ex, ms)"
proof -
  note 1 = go_int [OF K s, of e ms neg n]
  show ?thesis
  proof (cases f)
    case None
    then obtain u sg ds where ex: "ex = Some (u, sg, ds)" "n \<noteq> 0" "digits_ok ds" using o by (cases ex) auto
    have "go (at K IT JSON_T_INTEGER e, int_text neg n, ms) (chars (exp_text ex)) (at K E3 JSON_T_FLOAT e, int_text neg n @ exp_text ex, ms)"
      unfolding ex(1) by (rule go_exponent [OF K ex(3)]) simp
    then show ?thesis using go_append [OF 1] ex None
      by (simp add: float_text_def frac_text_def float_state_def int_state_def chars_append)
  next
    case (Some ds)
    have 2: "go (at K (int_state n) JSON_T_INTEGER e, int_text neg n, ms) (0x2E # chars (digits ds)) (at K FR JSON_T_FLOAT e, int_text neg n @ pt # digits ds, ms)"
      by (rule go_fraction [OF K _ _ p]) (use o Some in \<open>auto simp: int_state_def\<close>)
    note 12 = go_append [OF 1 2]
    have c: "chars (frac_text 0x2E f) = 0x2E # chars (digits ds)" "frac_text pt f = pt # digits ds"
      by (simp_all add: Some frac_text_def chars_def)
    show ?thesis
    proof (cases ex)
      case None
      show ?thesis using 12 unfolding float_text_def chars_append c None
        by (simp add: exp_text_def float_state_def chars_def)
    next
      case e: (Some z)
      obtain u sg ds' where z: "ex = Some (u, sg, ds')" "digits_ok ds'" using o e by (cases z) auto
      have 3: "go (at K FR JSON_T_FLOAT e, int_text neg n @ pt # digits ds, ms) (chars (exp_text ex))
          (at K E3 JSON_T_FLOAT e, (int_text neg n @ pt # digits ds) @ exp_text ex, ms)"
        unfolding z(1) by (rule go_exponent [OF K z(2)]) simp
      show ?thesis using go_append [OF 12 3] unfolding float_text_def chars_append c
        by (simp add: float_state_def z)
    qed
  qed
qed

end
