(* ===== verification/JsonCorrect.thy ===== *)
theory JsonCorrect imports JsonAccept begin

text \<open>
  The parser accepts every text of the grammar within its depth limit and reports exactly the
  events of its syntax tree, in order; comments are skipped; the depth limit and the surrogate
  pairs are what they should be.
\<close>

section \<open>Punctuation\<close>

lemma after_entries:
  assumes "s \<in> set after_value"
  shows "state_transition_table s C_COMMA = Do A_3" "state_transition_table s C_RSQRB = Do A_7"
    "state_transition_table s C_RCURB = Do A_8"
proof -
  have "list_all (\<lambda>s. state_transition_table s C_COMMA = Do A_3 \<and> state_transition_table s C_RSQRB = Do A_7 \<and>
    state_transition_table s C_RCURB = Do A_8) after_value" by code_simp
  then show "state_transition_table s C_COMMA = Do A_3" "state_transition_table s C_RSQRB = Do A_7"
    "state_transition_table s C_RCURB = Do A_8"
    using assms unfolding list_all_iff by blast+
qed

lemma other_entries:
  "state_transition_table CO C_COLON = Do A_2" "state_transition_table OB C_RCURB = Do A_9"
  "state_transition_table AR C_RSQRB = Do A_7"
  "s \<in> {GO, VA, AR} \<Longrightarrow> state_transition_table s C_LSQRB = Do A_5"
  "s \<in> {GO, VA, AR} \<Longrightarrow> state_transition_table s C_LCURB = Do A_6"
proof -
  show "state_transition_table CO C_COLON = Do A_2" "state_transition_table OB C_RCURB = Do A_9"
    "state_transition_table AR C_RSQRB = Do A_7" by code_simp+
  have "list_all (\<lambda>s. state_transition_table s C_LSQRB = Do A_5 \<and> state_transition_table s C_LCURB = Do A_6) [GO, VA, AR]"
    by code_simp
  then show "s \<in> {GO, VA, AR} \<Longrightarrow> state_transition_table s C_LSQRB = Do A_5"
    "s \<in> {GO, VA, AR} \<Longrightarrow> state_transition_table s C_LCURB = Do A_6" by auto
qed

text \<open>A punctuation character is put in the buffer and taken out by its action.\<close>

lemma go_punctuation:
  assumes K: "ready K" and c: "char_class n = Some c" "0 \<le> n" "\<not> white c" "state_transition_table s c = Do a"
    and r: "\<And>jc. views jc (at K s t e) (x @ [word_of_int n]) ms \<Longrightarrow> runs (perform a jc) (\<lambda>(r, jc'). r \<and> sees jc' b)"
  shows "go (at K s t e, x, ms) [n] b"
  by (rule go_action [OF c(1,2)]) (use c(3,4) r K in \<open>auto simp: ready_def\<close>)

definition pending_at :: "'c jparser \<Rightarrow> jtype \<Rightarrow> u8 list \<Rightarrow> (jtype \<times> jvalue option) list" where
  "pending_at K t x = pending (jc_handle_floats_manually K) t x"

lemma go_comma_array:
  assumes K: "ready K" and s: "s \<in> set after_value" and r: "readable t x" "t \<noteq> JSON_T_STRING" and m: "last ms = MODE_ARRAY"
    and d: "deliver (jc_callback K) (pending_at K t x) e = Inr (True, e')"
  shows "go (at K s t e, x, ms) [0x2C] (at K VA JSON_T_NONE e', [], ms)"
proof (rule go_punctuation [OF K punctuation_class(6) _ _ after_entries(1) [OF s]])
  fix jc assume v: "views jc (at K s t e) (x @ [word_of_int 0x2C]) ms"
  show "runs (perform A_3 jc) (\<lambda>(r, jc'). r \<and> sees jc' (at K VA JSON_T_NONE e', [], ms))"
    unfolding perform.simps
    by (rule views_act_3_other [OF v]) (use r m d in \<open>auto simp: sees_def pending_at_def outcome_def\<close>)
qed simp_all

lemma go_comma_object:
  assumes K: "ready K" and s: "s \<in> set after_value" and r: "readable t x" "t \<noteq> JSON_T_STRING" and m: "ms \<noteq> []"
    and d: "deliver (jc_callback K) (pending_at K t x) e = Inr (True, e')"
  shows "go (at K s t e, x, ms @ [MODE_OBJECT]) [0x2C] (at K KE JSON_T_NONE e', [], ms @ [MODE_KEY])"
proof (rule go_punctuation [OF K punctuation_class(6) _ _ after_entries(1) [OF s]])
  fix jc assume v: "views jc (at K s t e) (x @ [word_of_int 0x2C]) (ms @ [MODE_OBJECT])"
  show "runs (perform A_3 jc) (\<lambda>(r, jc'). r \<and> sees jc' (at K KE JSON_T_NONE e', [], ms @ [MODE_KEY]))"
    unfolding perform.simps
    by (rule views_act_3_object [OF v])
      (use r m d in \<open>auto simp: sees_def pending_at_def Suc_le_eq outcome_def\<close>)
qed simp_all

lemma go_close_array:
  assumes K: "ready K" and s: "s \<in> set after_value \<or> s = AR" and r: "readable t x" and m: "ms \<noteq> []"
    and d: "deliver (jc_callback K) (pending_at K t x @ [(JSON_T_ARRAY_END, None)]) e = Inr (True, e')"
  shows "go (at K s t e, x, ms @ [MODE_ARRAY]) [0x5D] (at K OK JSON_T_NONE e', [], ms)"
proof (rule go_punctuation [OF K punctuation_class(2)])
  show "state_transition_table s C_RSQRB = Do A_7" using s after_entries(2) other_entries(3) by auto
  fix jc assume v: "views jc (at K s t e) (x @ [word_of_int 0x5D]) (ms @ [MODE_ARRAY])"
  show "runs (perform A_7 jc) (\<lambda>(r, jc'). r \<and> sees jc' (at K OK JSON_T_NONE e', [], ms))"
    unfolding perform.simps
    by (rule views_act_7 [OF v]) (use r m d in \<open>auto simp: sees_def pending_at_def Suc_le_eq outcome_def\<close>)
qed simp_all

lemma go_close_object:
  assumes K: "ready K" and s: "s \<in> set after_value" and r: "readable t x" and m: "ms \<noteq> []"
    and d: "deliver (jc_callback K) (pending_at K t x @ [(JSON_T_OBJECT_END, None)]) e = Inr (True, e')"
  shows "go (at K s t e, x, ms @ [MODE_OBJECT]) [0x7D] (at K OK JSON_T_NONE e', [], ms)"
proof (rule go_punctuation [OF K punctuation_class(4) _ _ after_entries(3) [OF s]])
  fix jc assume v: "views jc (at K s t e) (x @ [word_of_int 0x7D]) (ms @ [MODE_OBJECT])"
  show "runs (perform A_8 jc) (\<lambda>(r, jc'). r \<and> sees jc' (at K OK JSON_T_NONE e', [], ms))"
    unfolding perform.simps
    by (rule views_act_8 [OF v]) (use r m d in \<open>auto simp: sees_def pending_at_def Suc_le_eq outcome_def\<close>)
qed simp_all

lemma go_close_empty:
  assumes K: "ready K" and m: "ms \<noteq> []" and d: "deliver (jc_callback K) [(JSON_T_OBJECT_END, None)] e = Inr (True, e')"
  shows "go (at K OB JSON_T_NONE e, [], ms @ [MODE_KEY]) [0x7D] (at K OK JSON_T_NONE e', [], ms)"
proof (rule go_punctuation [OF K punctuation_class(4) _ _ other_entries(2)])
  fix jc assume v: "views jc (at K OB JSON_T_NONE e) ([] @ [word_of_int 0x7D]) (ms @ [MODE_KEY])"
  show "runs (perform A_9 jc) (\<lambda>(r, jc'). r \<and> sees jc' (at K OK JSON_T_NONE e', [], ms))"
    unfolding perform.simps
    by (rule views_act_9 [OF v]) (use m d in \<open>auto simp: sees_def Suc_le_eq outcome_def\<close>)
qed simp_all

lemma go_colon:
  assumes K: "ready K" and m: "ms \<noteq> []"
  shows "go (at K CO JSON_T_NONE e, [], ms @ [MODE_KEY]) [0x3A] (at K VA JSON_T_NONE e, [], ms @ [MODE_OBJECT])"
proof (rule go_punctuation [OF K punctuation_class(5) _ _ other_entries(1)])
  fix jc assume v: "views jc (at K CO JSON_T_NONE e) ([] @ [word_of_int 0x3A]) (ms @ [MODE_KEY])"
  show "runs (perform A_2 jc) (\<lambda>(r, jc'). r \<and> sees jc' (at K VA JSON_T_NONE e, [], ms @ [MODE_OBJECT]))"
    unfolding perform.simps
    by (rule views_act_2 [OF v]) (use m in \<open>auto simp: sees_def Suc_le_eq\<close>)
qed simp_all

text \<open>Room on the stack for \<open>n\<close> more modes.\<close>

definition room :: "'c jparser \<Rightarrow> jmode list \<Rightarrow> nat \<Rightarrow> bool" where
  "room K ms n \<longleftrightarrow> jc_depth K < 0 \<or> int (length ms + n) \<le> jc_depth K"

lemma room_open: "room K ms (Suc n) \<Longrightarrow> \<not> stack_full (at K s t e) ms" "room K ms (Suc n) \<Longrightarrow> room K (ms @ [m]) n"
  by (auto simp: room_def stack_full_def)

lemma room_mono: "room K ms n \<Longrightarrow> k \<le> n \<Longrightarrow> room K ms k"
  by (auto simp: room_def)

lemma go_open_array:
  assumes K: "ready K" and s: "s \<in> {GO, VA, AR}" and r: "room K ms (Suc n)"
    and d: "deliver (jc_callback K) [(JSON_T_ARRAY_BEGIN, None)] e = Inr (True, e')"
  shows "go (at K s JSON_T_NONE e, [], ms) [0x5B] (at K AR JSON_T_NONE e', [], ms @ [MODE_ARRAY])"
proof (rule go_punctuation [OF K punctuation_class(1) _ _ other_entries(4) [OF s]])
  fix jc assume v: "views jc (at K s JSON_T_NONE e) ([] @ [word_of_int 0x5B]) ms"
  show "runs (perform A_5 jc) (\<lambda>(r, jc'). r \<and> sees jc' (at K AR JSON_T_NONE e', [], ms @ [MODE_ARRAY]))"
    unfolding perform.simps
    by (rule views_act_5 [OF v]) (use room_open(1) [OF r] d in \<open>auto simp: sees_def outcome_def\<close>)
qed simp_all

lemma go_open_object:
  assumes K: "ready K" and s: "s \<in> {GO, VA, AR}" and r: "room K ms (Suc n)"
    and d: "deliver (jc_callback K) [(JSON_T_OBJECT_BEGIN, None)] e = Inr (True, e')"
  shows "go (at K s JSON_T_NONE e, [], ms) [0x7B] (at K OB JSON_T_NONE e', [], ms @ [MODE_KEY])"
proof (rule go_punctuation [OF K punctuation_class(3) _ _ other_entries(5) [OF s]])
  fix jc assume v: "views jc (at K s JSON_T_NONE e) ([] @ [word_of_int 0x7B]) ms"
  show "runs (perform A_6 jc) (\<lambda>(r, jc'). r \<and> sees jc' (at K OB JSON_T_NONE e', [], ms @ [MODE_KEY]))"
    unfolding perform.simps
    by (rule views_act_6 [OF v]) (use room_open(1) [OF r] d in \<open>auto simp: sees_def outcome_def\<close>)
qed simp_all

section \<open>Values\<close>

text \<open>The state, type and text after a value, and the events already sent.\<close>

fun final :: "u8 \<Rightarrow> jtree \<Rightarrow> jstate \<times> jtype \<times> u8 list" where
  "final pt T_null = (OK, JSON_T_NULL, bytes_of ''null'')"
| "final pt T_true = (OK, JSON_T_TRUE, bytes_of ''true'')"
| "final pt T_false = (OK, JSON_T_FALSE, bytes_of ''false'')"
| "final pt (T_int neg n) = (int_state n, JSON_T_INTEGER, int_text neg n)"
| "final pt (T_float neg n f e) = (float_state e, JSON_T_FLOAT, float_text pt neg n f e)"
| "final pt t = (OK, JSON_T_NONE, [])"

definition emitted :: "bool \<Rightarrow> u8 \<Rightarrow> jtree \<Rightarrow> (jtype \<times> jvalue option) list" where
  "emitted m pt t = (if fst (snd (final pt t)) = JSON_T_NONE then events m pt t [] else [])"

text \<open>The text a scalar has in the buffer when it is handed on, with the white space after it.\<close>

definition handed :: "u8 \<Rightarrow> jtree \<Rightarrow> int list \<Rightarrow> u8 list" where
  "handed pt t ws = (if fst (snd (final pt t)) = JSON_T_NONE then [] else snd (snd (final pt t)) @ white_text ws)"

lemma white_text_facts:
  assumes "list_all is_white ws"
  shows "0 \<notin> set (white_text ws)" "white_text ws = [] \<or> \<not> isdigit (hd (white_text ws))"
proof -
  have *: "is_white w \<Longrightarrow> (word_of_int w :: u8) \<noteq> 0 \<and> \<not> isdigit (word_of_int w)" for w
    by (auto simp: is_white_def isdigit_def)
  then show "0 \<notin> set (white_text ws)" using assms by (auto simp: white_text_def list_all_iff)
  show "white_text ws = [] \<or> \<not> isdigit (hd (white_text ws))" using assms * by (cases ws) (auto simp: white_text_def)
qed

lemma scan_int_text:
  assumes "rest = [] \<or> \<not> isdigit (hd rest)"
  shows "scan_number (int_text neg n @ rest) = Some (neg, n)"
proof (cases neg)
  case True
  then show ?thesis using takeWhile_decimal [OF assms, of n]
    by (simp add: int_text_def scan_number_def Let_def isspace_def)
next
  case False
  then show ?thesis using scan_decimal [OF assms] by (simp add: int_text_def)
qed

lemma int_text_nonzero: "0 \<notin> set (int_text neg n)"
  using decimal_digits [of n] isdigit_facts by (auto simp: int_text_def)

lemma handed_int:
  assumes "list_all is_white ws"
  shows "sscanf_ld (takeWhile (\<lambda>c. c \<noteq> 0) (int_text neg n @ white_text ws)) = Some (clamp long_min long_max (signed_value (neg, n)))"
proof -
  have e: "takeWhile (\<lambda>c. c \<noteq> 0) (int_text neg n @ white_text ws) = int_text neg n @ white_text ws"
    using white_text_facts(1) [OF assms] int_text_nonzero by (auto simp: takeWhile_eq_all_conv)
  show ?thesis unfolding e sscanf_ld_def scan_int_text [OF white_text_facts(2) [OF assms]] by simp
qed

lemma events_split:
  assumes "list_all is_white ws" "pt = (if m then 0x2E else jc_decimal_point K)" "m = jc_handle_floats_manually K"
  shows "events m (jc_decimal_point K) t ws = emitted m (jc_decimal_point K) t @ pending_at K (fst (snd (final pt t))) (handed pt t ws)"
  using assms handed_int [OF assms(1)]
  by (cases t) (auto simp: emitted_def handed_def pending_at_def pending_def arg_value_def white_text_def)

lemma handed_readable:
  assumes "list_all is_white ws"
  shows "readable (fst (snd (final pt t))) (handed pt t ws)" "fst (snd (final pt t)) \<noteq> JSON_T_STRING"
  using handed_int [OF assms] by (cases t; auto simp: readable_def is_non_container_type_def handed_def)+

lemma final_after_value: "fst (final pt t) \<in> set after_value"
  by (cases t) (auto simp: after_value_def int_state_def float_state_def)

lemma final_none: "fst (snd (final pt t)) = JSON_T_NONE \<Longrightarrow> final pt t = (OK, JSON_T_NONE, [])"
  by (cases t) auto

lemma snoc_last: "ms \<noteq> [] \<Longrightarrow> last ms = m \<Longrightarrow> \<exists>ns. ms = ns @ [m]"
  by (metis append_butlast_last_id)

text \<open>A value and the white space after it, up to the terminator.\<close>

definition value_done :: "'c jparser \<Rightarrow> jtree \<Rightarrow> int list \<Rightarrow> 'c \<Rightarrow> jmode list \<Rightarrow> 'c pview" where
  "value_done K t ws e ms =
     (let pt = (if jc_handle_floats_manually K then 0x2E else jc_decimal_point K)
      in (at K (if ws = [] then fst (final pt t) else OK) (fst (snd (final pt t))) e, handed pt t ws, ms))"

lemma go_value_white:
  assumes K: "ready K" and w: "list_all is_white ws" and pt: "pt = (if jc_handle_floats_manually K then 0x2E else jc_decimal_point K)"
    and g: "go a xs (at K (fst (final pt t)) (fst (snd (final pt t))) e, snd (snd (final pt t)), ms)"
  shows "go a (xs @ ws) (value_done K t ws e ms)"
proof (rule go_append [OF g])
  have "fst (snd (final pt t)) = JSON_T_NONE \<longrightarrow> snd (snd (final pt t)) = []" using final_none [of pt t] by auto
  from go_white_after [OF w K final_after_value [of pt t] this, of e ms]
  show "go (at K (fst (final pt t)) (fst (snd (final pt t))) e, snd (snd (final pt t)), ms) ws (value_done K t ws e ms)"
    unfolding value_done_def Let_def handed_def pt [symmetric] .
qed

lemma value_done_terminated:
  assumes K: "ready K" and w: "list_all is_white ws" and m: "ms \<noteq> []"
    and d: "deliver (jc_callback K) (pending_at K (fst (snd (final pt t))) (handed pt t ws) @ evs) e = Inr (True, e')"
    and pt: "pt = (if jc_handle_floats_manually K then 0x2E else jc_decimal_point K)"
  shows "evs = [] \<Longrightarrow> go (value_done K t ws e (ms @ [MODE_ARRAY])) [0x2C] (at K VA JSON_T_NONE e', [], ms @ [MODE_ARRAY])"
    and "evs = [] \<Longrightarrow> go (value_done K t ws e (ms @ [MODE_OBJECT])) [0x2C] (at K KE JSON_T_NONE e', [], ms @ [MODE_KEY])"
    and "evs = [(JSON_T_ARRAY_END, None)] \<Longrightarrow> go (value_done K t ws e (ms @ [MODE_ARRAY])) [0x5D] (at K OK JSON_T_NONE e', [], ms)"
    and "evs = [(JSON_T_OBJECT_END, None)] \<Longrightarrow> go (value_done K t ws e (ms @ [MODE_OBJECT])) [0x7D] (at K OK JSON_T_NONE e', [], ms)"
proof -
  have s: "(if ws = [] then fst (final pt t) else OK) \<in> set after_value"
    using final_after_value [of pt t] by (simp add: after_value_def)
  note r = handed_readable [OF w, of pt t]
  have v: "value_done K t ws e ns = (at K (if ws = [] then fst (final pt t) else OK) (fst (snd (final pt t))) e, handed pt t ws, ns)" for ns
    by (simp add: value_done_def Let_def pt)
  show "go (value_done K t ws e (ms @ [MODE_ARRAY])) [0x2C] (at K VA JSON_T_NONE e', [], ms @ [MODE_ARRAY])" if "evs = []"
    unfolding v by (rule go_comma_array [OF K s r]) (use d that in simp_all)
  show "go (value_done K t ws e (ms @ [MODE_OBJECT])) [0x2C] (at K KE JSON_T_NONE e', [], ms @ [MODE_KEY])" if "evs = []"
    unfolding v by (rule go_comma_object [OF K s r m]) (use d that in simp_all)
  show "go (value_done K t ws e (ms @ [MODE_ARRAY])) [0x5D] (at K OK JSON_T_NONE e', [], ms)" if "evs = [(JSON_T_ARRAY_END, None)]"
    unfolding v by (rule go_close_array [OF K disjI1 [OF s] r(1) m]) (use d that in simp_all)
  show "go (value_done K t ws e (ms @ [MODE_OBJECT])) [0x7D] (at K OK JSON_T_NONE e', [], ms)" if "evs = [(JSON_T_OBJECT_END, None)]"
    unfolding v by (rule go_close_object [OF K s r(1) m]) (use d that in simp_all)
qed

lemma deliver_first:
  assumes "deliver cb (x # evs) c = Inr (True, c')"
  obtains d where "deliver cb [x] c = Inr (True, d)" "deliver cb evs d = Inr (True, c')"
  using deliver_split [of cb "[x]" evs c c'] assms by auto

section \<open>Trees\<close>

text \<open>
  The three statements proved together: a value up to its terminator, the elements of an array and
  the members of an object with their closing bracket.
\<close>

definition tree_goes :: "'c jparser \<Rightarrow> jtree \<Rightarrow> bool" where
  "tree_goes K t \<longleftrightarrow> (\<forall>s e e' ms. s \<in> {VA, AR} \<longrightarrow> tree_ok t \<longrightarrow> room K ms (nesting t) \<longrightarrow>
     last ms = MODE_ARRAY \<or> last ms = MODE_OBJECT \<longrightarrow> ms \<noteq> [] \<longrightarrow>
     deliver (jc_callback K) (emitted (jc_handle_floats_manually K) (jc_decimal_point K) t) e = Inr (True, e') \<longrightarrow>
     (let pt = (if jc_handle_floats_manually K then 0x2E else jc_decimal_point K)
      in go (at K s JSON_T_NONE e, [], ms) (unparse t)
        (at K (fst (final pt t)) (fst (snd (final pt t))) e', snd (snd (final pt t)), ms)))"

definition elems_go :: "'c jparser \<Rightarrow> elems \<Rightarrow> bool" where
  "elems_go K es \<longleftrightarrow> (\<forall>s e e' ms. s \<in> {VA, AR} \<longrightarrow> elems_ok es \<longrightarrow> room K (ms @ [MODE_ARRAY]) (nesting_elems es) \<longrightarrow> ms \<noteq> [] \<longrightarrow>
     deliver (jc_callback K) (events_elems (jc_handle_floats_manually K) (jc_decimal_point K) es @ [(JSON_T_ARRAY_END, None)]) e
       = Inr (True, e') \<longrightarrow>
     go (at K s JSON_T_NONE e, [], ms @ [MODE_ARRAY]) (unparse_elems es @ [0x5D]) (at K OK JSON_T_NONE e', [], ms))"

definition members_go :: "'c jparser \<Rightarrow> members \<Rightarrow> bool" where
  "members_go K xs \<longleftrightarrow> (\<forall>s e e' ms. s \<in> {OB, KE} \<longrightarrow> members_ok xs \<longrightarrow> room K (ms @ [MODE_OBJECT]) (nesting_members xs) \<longrightarrow> ms \<noteq> [] \<longrightarrow>
     deliver (jc_callback K) (events_members (jc_handle_floats_manually K) (jc_decimal_point K) xs @ [(JSON_T_OBJECT_END, None)]) e
       = Inr (True, e') \<longrightarrow>
     go (at K s JSON_T_NONE e, [], ms @ [MODE_KEY]) (unparse_members xs @ [0x7D]) (at K OK JSON_T_NONE e', [], ms))"

lemma scalar_goes:
  assumes K: "ready K"
  shows "tree_goes K T_null" "tree_goes K T_true" "tree_goes K T_false" "tree_goes K (T_int neg n)"
    "tree_goes K (T_float neg n f x)" "tree_goes K (T_str cs)"
proof -
  have e: "deliver cb [] e = Inr (True, e') \<Longrightarrow> e' = e" for cb :: "'a jcallback option" and e e' by (cases cb) auto
  show "tree_goes K T_null" "tree_goes K T_true" "tree_goes K T_false"
    using go_literals [OF K] by (auto simp: tree_goes_def emitted_def dest!: e simp del: unparse.simps)
  show "tree_goes K (T_int neg n)"
    using go_int [OF K] by (auto simp: tree_goes_def emitted_def dest!: e)
  show "tree_goes K (T_float neg n f x)"
    using go_float [OF K] by (auto simp: tree_goes_def emitted_def dest!: e simp del: tree_ok.simps)
  show "tree_goes K (T_str cs)"
    using go_str [OF K] by (auto simp: tree_goes_def emitted_def)
qed

text \<open>A value in front of a terminator: the value's own events, then those of the rest.\<close>

lemma value_goes:
  assumes K: "ready K" and g: "tree_goes K t" and s: "s \<in> {VA, AR}" and o: "tree_ok t" "list_all is_white ws"
    and r: "room K ms (nesting t)" and m: "last ms = MODE_ARRAY \<or> last ms = MODE_OBJECT" "ms \<noteq> []"
    and d: "deliver (jc_callback K) (events (jc_handle_floats_manually K) (jc_decimal_point K) t ws @ evs) e = Inr (True, e')"
  obtains e1 where "go (at K s JSON_T_NONE e, [], ms) (unparse t @ ws) (value_done K t ws e1 ms)"
    and "deliver (jc_callback K) (pending_at K (fst (snd (final pt t)))
      (handed (if jc_handle_floats_manually K then 0x2E else jc_decimal_point K) t ws) @ evs) e1 = Inr (True, e')"
proof -
  let ?pt = "if jc_handle_floats_manually K then 0x2E else jc_decimal_point K"
  have p: "fst (snd (final pt t)) = fst (snd (final ?pt t))" by (cases t) auto
  obtain e1 where e1: "deliver (jc_callback K) (emitted (jc_handle_floats_manually K) (jc_decimal_point K) t) e = Inr (True, e1)"
    "deliver (jc_callback K) (pending_at K (fst (snd (final ?pt t))) (handed ?pt t ws) @ evs) e1 = Inr (True, e')"
    using d unfolding events_split [OF o(2) refl refl] append_assoc by (rule deliver_split)
  have "go (at K s JSON_T_NONE e, [], ms) (unparse t)
      (at K (fst (final ?pt t)) (fst (snd (final ?pt t))) e1, snd (snd (final ?pt t)), ms)"
    using g s o(1) r m e1(1) unfolding tree_goes_def Let_def by blast
  from go_value_white [OF K o(2) refl this] e1(2) show ?thesis unfolding p [symmetric] by (rule that)
qed

lemma elems_goes:
  assumes K: "ready K"
  shows "tree_goes K t \<Longrightarrow> elems_go K (Last ws1 t ws2)"
    and "tree_goes K t \<Longrightarrow> elems_go K es \<Longrightarrow> elems_go K (More ws1 t ws2 es)"
proof -
  have w: "go (at K s JSON_T_NONE e, [], ms) ws (at K s JSON_T_NONE e, [], ms)"
    if "list_all is_white ws" "s \<in> {VA, AR}" for ws s e ms
    by (rule go_white_before [OF that(1) K]) (use that(2) in \<open>auto simp: resume_states_def\<close>)
  show "elems_go K (Last ws1 t ws2)" if g: "tree_goes K t"
    unfolding elems_go_def
  proof (intro allI impI)
    fix s e e' and ms :: "jmode list"
    assume s: "s \<in> {VA, AR}" and o: "elems_ok (Last ws1 t ws2)" and r: "room K (ms @ [MODE_ARRAY]) (nesting_elems (Last ws1 t ws2))"
      and ms: "ms \<noteq> []" and d: "deliver (jc_callback K) (events_elems (jc_handle_floats_manually K) (jc_decimal_point K)
        (Last ws1 t ws2) @ [(JSON_T_ARRAY_END, None)]) e = Inr (True, e')"
    obtain e1 where 1: "go (at K s JSON_T_NONE e, [], ms @ [MODE_ARRAY]) (unparse t @ ws2) (value_done K t ws2 e1 (ms @ [MODE_ARRAY]))"
      and 2: "deliver (jc_callback K) (pending_at K (fst (snd (final (if jc_handle_floats_manually K then 0x2E else jc_decimal_point K) t)))
        (handed (if jc_handle_floats_manually K then 0x2E else jc_decimal_point K) t ws2) @ [(JSON_T_ARRAY_END, None)]) e1 = Inr (True, e')"
      by (rule value_goes [OF K g s _ _ _ _ _ d [unfolded events_elems.simps]]) (use o r in auto)
    have 3: "go (value_done K t ws2 e1 (ms @ [MODE_ARRAY])) [0x5D] (at K OK JSON_T_NONE e', [], ms)"
      by (rule value_done_terminated(3) [OF K _ ms 2 refl refl]) (use o in simp)
    show "go (at K s JSON_T_NONE e, [], ms @ [MODE_ARRAY]) (unparse_elems (Last ws1 t ws2) @ [0x5D]) (at K OK JSON_T_NONE e', [], ms)"
      using go_append [OF w [OF _ s] go_append [OF 1 3]] o by simp
  qed
  show "elems_go K (More ws1 t ws2 es)" if g: "tree_goes K t" and h: "elems_go K es"
    unfolding elems_go_def
  proof (intro allI impI)
    fix s e e' and ms :: "jmode list"
    assume s: "s \<in> {VA, AR}" and o: "elems_ok (More ws1 t ws2 es)" and r: "room K (ms @ [MODE_ARRAY]) (nesting_elems (More ws1 t ws2 es))"
      and ms: "ms \<noteq> []" and d: "deliver (jc_callback K) (events_elems (jc_handle_floats_manually K) (jc_decimal_point K)
        (More ws1 t ws2 es) @ [(JSON_T_ARRAY_END, None)]) e = Inr (True, e')"
    let ?evs = "events_elems (jc_handle_floats_manually K) (jc_decimal_point K) es @ [(JSON_T_ARRAY_END, None)]"
    obtain d1 where d1: "deliver (jc_callback K) (events (jc_handle_floats_manually K) (jc_decimal_point K) t ws2 @ []) e = Inr (True, d1)"
      "deliver (jc_callback K) ?evs d1 = Inr (True, e')"
      using deliver_split [OF d [unfolded events_elems.simps append_assoc]] by auto
    obtain e1 where 1: "go (at K s JSON_T_NONE e, [], ms @ [MODE_ARRAY]) (unparse t @ ws2) (value_done K t ws2 e1 (ms @ [MODE_ARRAY]))"
      and 2: "deliver (jc_callback K) (pending_at K (fst (snd (final (if jc_handle_floats_manually K then 0x2E else jc_decimal_point K) t)))
        (handed (if jc_handle_floats_manually K then 0x2E else jc_decimal_point K) t ws2) @ []) e1 = Inr (True, d1)"
      by (rule value_goes [OF K g s _ _ _ _ _ d1(1)]) (use o r in \<open>auto intro: room_mono\<close>)
    have 3: "go (value_done K t ws2 e1 (ms @ [MODE_ARRAY])) [0x2C] (at K VA JSON_T_NONE d1, [], ms @ [MODE_ARRAY])"
      by (rule value_done_terminated(1) [OF K _ ms 2 refl refl]) (use o in simp)
    have 4: "go (at K VA JSON_T_NONE d1, [], ms @ [MODE_ARRAY]) (unparse_elems es @ [0x5D]) (at K OK JSON_T_NONE e', [], ms)"
      using h s o ms d1(2) room_mono [OF r, of "nesting_elems es"] unfolding elems_go_def by simp
    show "go (at K s JSON_T_NONE e, [], ms @ [MODE_ARRAY]) (unparse_elems (More ws1 t ws2 es) @ [0x5D]) (at K OK JSON_T_NONE e', [], ms)"
      using go_append [OF w [OF _ s] go_append [OF 1 go_append [OF 3 4]]] o by simp
  qed
qed

text \<open>A key with its colon, up to the value.\<close>

lemma go_member_key:
  assumes K: "ready K" and s: "s \<in> {OB, KE}" and ms: "ms \<noteq> []"
    and o: "list_all is_white ws1" "list_all strchar_ok k" "list_all is_white ws2" "list_all is_white ws3"
    and d: "deliver (jc_callback K) [(JSON_T_KEY, Some (JV_str (str_bytes k)))] e = Inr (True, e')"
  shows "go (at K s JSON_T_NONE e, [], ms @ [MODE_KEY]) (ws1 @ unparse_str k @ ws2 @ [0x3A] @ ws3)
    (at K VA JSON_T_NONE e', [], ms @ [MODE_OBJECT])"
proof -
  have w: "go (at K s JSON_T_NONE e, [], ms) ws (at K s JSON_T_NONE e, [], ms)"
    if "list_all is_white ws" "s \<in> {OB, KE, CO, VA}" for ws s e ms
    by (rule go_white_before [OF that(1) K]) (use that(2) in \<open>auto simp: resume_states_def\<close>)
  have 1: "go (at K s JSON_T_NONE e, [], ms @ [MODE_KEY]) ws1 (at K s JSON_T_NONE e, [], ms @ [MODE_KEY])"
    by (rule w [OF o(1)]) (use s in auto)
  have 2: "go (at K s JSON_T_NONE e, [], ms @ [MODE_KEY]) (unparse_str k) (at K CO JSON_T_NONE e', [], ms @ [MODE_KEY])"
    by (rule go_key [OF K s o(2) _ d]) simp
  have 3: "go (at K CO JSON_T_NONE e', [], ms @ [MODE_KEY]) ws2 (at K CO JSON_T_NONE e', [], ms @ [MODE_KEY])"
    by (rule w [OF o(3)]) simp
  have 4: "go (at K VA JSON_T_NONE e', [], ms @ [MODE_OBJECT]) ws3 (at K VA JSON_T_NONE e', [], ms @ [MODE_OBJECT])"
    by (rule w [OF o(4)]) simp
  show ?thesis by (rule go_append [OF 1 go_append [OF 2 go_append [OF 3 go_append [OF go_colon [OF K ms] 4]]]])
qed

lemma members_goes:
  assumes K: "ready K"
  shows "tree_goes K t \<Longrightarrow> members_go K (Last_m ws1 k ws2 ws3 t ws4)"
    and "tree_goes K t \<Longrightarrow> members_go K xs \<Longrightarrow> members_go K (More_m ws1 k ws2 ws3 t ws4 xs)"
proof -
  show "members_go K (Last_m ws1 k ws2 ws3 t ws4)" if g: "tree_goes K t"
    unfolding members_go_def
  proof (intro allI impI)
    fix s e e' and ms :: "jmode list"
    assume s: "s \<in> {OB, KE}" and o: "members_ok (Last_m ws1 k ws2 ws3 t ws4)"
      and r: "room K (ms @ [MODE_OBJECT]) (nesting_members (Last_m ws1 k ws2 ws3 t ws4))"
      and ms: "ms \<noteq> []" and d: "deliver (jc_callback K) (events_members (jc_handle_floats_manually K) (jc_decimal_point K)
        (Last_m ws1 k ws2 ws3 t ws4) @ [(JSON_T_OBJECT_END, None)]) e = Inr (True, e')"
    obtain d0 where d0: "deliver (jc_callback K) [(JSON_T_KEY, Some (JV_str (str_bytes k)))] e = Inr (True, d0)"
      "deliver (jc_callback K) (events (jc_handle_floats_manually K) (jc_decimal_point K) t ws4 @ [(JSON_T_OBJECT_END, None)]) d0 = Inr (True, e')"
      by (rule deliver_first [of "jc_callback K" "(JSON_T_KEY, Some (JV_str (str_bytes k)))" _ e e']) (use d in simp_all)
    have 0: "go (at K s JSON_T_NONE e, [], ms @ [MODE_KEY]) (ws1 @ unparse_str k @ ws2 @ [0x3A] @ ws3) (at K VA JSON_T_NONE d0, [], ms @ [MODE_OBJECT])"
      by (rule go_member_key [OF K s ms _ _ _ _ d0(1)]) (use o in simp_all)
    obtain e1 where 1: "go (at K VA JSON_T_NONE d0, [], ms @ [MODE_OBJECT]) (unparse t @ ws4) (value_done K t ws4 e1 (ms @ [MODE_OBJECT]))"
      and 2: "deliver (jc_callback K) (pending_at K (fst (snd (final (if jc_handle_floats_manually K then 0x2E else jc_decimal_point K) t)))
        (handed (if jc_handle_floats_manually K then 0x2E else jc_decimal_point K) t ws4) @ [(JSON_T_OBJECT_END, None)]) e1 = Inr (True, e')"
      by (rule value_goes [OF K g _ _ _ _ _ _ d0(2)]) (use o r in auto)
    have 3: "go (value_done K t ws4 e1 (ms @ [MODE_OBJECT])) [0x7D] (at K OK JSON_T_NONE e', [], ms)"
      by (rule value_done_terminated(4) [OF K _ ms 2 refl refl]) (use o in simp)
    show "go (at K s JSON_T_NONE e, [], ms @ [MODE_KEY]) (unparse_members (Last_m ws1 k ws2 ws3 t ws4) @ [0x7D]) (at K OK JSON_T_NONE e', [], ms)"
      using go_append [OF 0 go_append [OF 1 3]] by simp
  qed
  show "members_go K (More_m ws1 k ws2 ws3 t ws4 xs)" if g: "tree_goes K t" and h: "members_go K xs"
    unfolding members_go_def
  proof (intro allI impI)
    fix s e e' and ms :: "jmode list"
    assume s: "s \<in> {OB, KE}" and o: "members_ok (More_m ws1 k ws2 ws3 t ws4 xs)"
      and r: "room K (ms @ [MODE_OBJECT]) (nesting_members (More_m ws1 k ws2 ws3 t ws4 xs))"
      and ms: "ms \<noteq> []" and d: "deliver (jc_callback K) (events_members (jc_handle_floats_manually K) (jc_decimal_point K)
        (More_m ws1 k ws2 ws3 t ws4 xs) @ [(JSON_T_OBJECT_END, None)]) e = Inr (True, e')"
    let ?m = "jc_handle_floats_manually K" and ?p = "jc_decimal_point K"
    obtain d0 where d0: "deliver (jc_callback K) [(JSON_T_KEY, Some (JV_str (str_bytes k)))] e = Inr (True, d0)"
      "deliver (jc_callback K) (events ?m ?p t ws4 @ events_members ?m ?p xs @ [(JSON_T_OBJECT_END, None)]) d0 = Inr (True, e')"
      by (rule deliver_first [of "jc_callback K" "(JSON_T_KEY, Some (JV_str (str_bytes k)))" _ e e']) (use d in simp_all)
    obtain d1 where d1: "deliver (jc_callback K) (events ?m ?p t ws4 @ []) d0 = Inr (True, d1)"
      "deliver (jc_callback K) (events_members ?m ?p xs @ [(JSON_T_OBJECT_END, None)]) d1 = Inr (True, e')"
      using deliver_split [OF d0(2)] by auto
    have 0: "go (at K s JSON_T_NONE e, [], ms @ [MODE_KEY]) (ws1 @ unparse_str k @ ws2 @ [0x3A] @ ws3) (at K VA JSON_T_NONE d0, [], ms @ [MODE_OBJECT])"
      by (rule go_member_key [OF K s ms _ _ _ _ d0(1)]) (use o in simp_all)
    obtain e1 where 1: "go (at K VA JSON_T_NONE d0, [], ms @ [MODE_OBJECT]) (unparse t @ ws4) (value_done K t ws4 e1 (ms @ [MODE_OBJECT]))"
      and 2: "deliver (jc_callback K) (pending_at K (fst (snd (final (if jc_handle_floats_manually K then 0x2E else jc_decimal_point K) t)))
        (handed (if jc_handle_floats_manually K then 0x2E else jc_decimal_point K) t ws4) @ []) e1 = Inr (True, d1)"
      by (rule value_goes [OF K g _ _ _ _ _ _ d1(1)]) (use o r in \<open>auto intro: room_mono\<close>)
    have 3: "go (value_done K t ws4 e1 (ms @ [MODE_OBJECT])) [0x2C] (at K KE JSON_T_NONE d1, [], ms @ [MODE_KEY])"
      by (rule value_done_terminated(2) [OF K _ ms 2 refl refl]) (use o in simp)
    have 4: "go (at K KE JSON_T_NONE d1, [], ms @ [MODE_KEY]) (unparse_members xs @ [0x7D]) (at K OK JSON_T_NONE e', [], ms)"
      using h s o ms d1(2) room_mono [OF r, of "nesting_members xs"] unfolding members_go_def by simp
    show "go (at K s JSON_T_NONE e, [], ms @ [MODE_KEY]) (unparse_members (More_m ws1 k ws2 ws3 t ws4 xs) @ [0x7D]) (at K OK JSON_T_NONE e', [], ms)"
      using go_append [OF 0 go_append [OF 1 go_append [OF 3 4]]] by simp
  qed
qed

text \<open>A container, wherever one may start: at the top or as a value.\<close>

fun is_container :: "jtree \<Rightarrow> bool" where
  "is_container (T_arr0 ws) = True"
| "is_container (T_arr es) = True"
| "is_container (T_obj0 ws) = True"
| "is_container (T_obj xs) = True"
| "is_container t = False"

lemma container_goes:
  assumes K: "ready K" and s: "s \<in> {GO, VA, AR}" and c: "is_container t" "tree_ok t" and r: "room K ms (nesting t)" and ms: "ms \<noteq> []"
    and es: "\<And>es. t = T_arr es \<Longrightarrow> elems_go K es" and xs: "\<And>xs. t = T_obj xs \<Longrightarrow> members_go K xs"
    and d: "deliver (jc_callback K) (events (jc_handle_floats_manually K) (jc_decimal_point K) t ws) e = Inr (True, e')"
  shows "go (at K s JSON_T_NONE e, [], ms) (unparse t) (at K OK JSON_T_NONE e', [], ms)"
proof (cases t)
  case (T_arr0 ws0)
  obtain d1 where d1: "deliver (jc_callback K) [(JSON_T_ARRAY_BEGIN, None)] e = Inr (True, d1)"
    "deliver (jc_callback K) [(JSON_T_ARRAY_END, None)] d1 = Inr (True, e')"
    by (rule deliver_first [of "jc_callback K" "(JSON_T_ARRAY_BEGIN, None)" _ e e']) (use d T_arr0 in simp_all)
  have 1: "go (at K s JSON_T_NONE e, [], ms) [0x5B] (at K AR JSON_T_NONE d1, [], ms @ [MODE_ARRAY])"
    by (rule go_open_array [OF K s _ d1(1), where n = 0]) (use r T_arr0 in simp)
  have 2: "go (at K AR JSON_T_NONE d1, [], ms @ [MODE_ARRAY]) ws0 (at K AR JSON_T_NONE d1, [], ms @ [MODE_ARRAY])"
    by (rule go_white_before [OF _ K]) (use c T_arr0 in \<open>auto simp: resume_states_def\<close>)
  have 3: "go (at K AR JSON_T_NONE d1, [], ms @ [MODE_ARRAY]) [0x5D] (at K OK JSON_T_NONE e', [], ms)"
    by (rule go_close_array [OF K _ _ ms]) (use d1(2) in \<open>simp_all add: readable_def pending_at_def pending_def\<close>)
  show ?thesis using go_append [OF 1 go_append [OF 2 3]] T_arr0 by simp
next
  case (T_arr el)
  obtain d1 where d1: "deliver (jc_callback K) [(JSON_T_ARRAY_BEGIN, None)] e = Inr (True, d1)"
    "deliver (jc_callback K) (events_elems (jc_handle_floats_manually K) (jc_decimal_point K) el @ [(JSON_T_ARRAY_END, None)]) d1 = Inr (True, e')"
    by (rule deliver_first [of "jc_callback K" "(JSON_T_ARRAY_BEGIN, None)" _ e e']) (use d T_arr in simp_all)
  have r': "room K ms (Suc (nesting_elems el))" using r T_arr by simp
  have 1: "go (at K s JSON_T_NONE e, [], ms) [0x5B] (at K AR JSON_T_NONE d1, [], ms @ [MODE_ARRAY])"
    by (rule go_open_array [OF K s r' d1(1)])
  have 2: "go (at K AR JSON_T_NONE d1, [], ms @ [MODE_ARRAY]) (unparse_elems el @ [0x5D]) (at K OK JSON_T_NONE e', [], ms)"
    using es [OF T_arr] c T_arr ms d1(2) room_open(2) [OF r'] unfolding elems_go_def by auto
  show ?thesis using go_append [OF 1 2] T_arr by simp
next
  case (T_obj0 ws0)
  obtain d1 where d1: "deliver (jc_callback K) [(JSON_T_OBJECT_BEGIN, None)] e = Inr (True, d1)"
    "deliver (jc_callback K) [(JSON_T_OBJECT_END, None)] d1 = Inr (True, e')"
    by (rule deliver_first [of "jc_callback K" "(JSON_T_OBJECT_BEGIN, None)" _ e e']) (use d T_obj0 in simp_all)
  have 1: "go (at K s JSON_T_NONE e, [], ms) [0x7B] (at K OB JSON_T_NONE d1, [], ms @ [MODE_KEY])"
    by (rule go_open_object [OF K s _ d1(1), where n = 0]) (use r T_obj0 in simp)
  have 2: "go (at K OB JSON_T_NONE d1, [], ms @ [MODE_KEY]) ws0 (at K OB JSON_T_NONE d1, [], ms @ [MODE_KEY])"
    by (rule go_white_before [OF _ K]) (use c T_obj0 in \<open>auto simp: resume_states_def\<close>)
  show ?thesis using go_append [OF 1 go_append [OF 2 go_close_empty [OF K ms d1(2)]]] T_obj0 by simp
next
  case (T_obj el)
  obtain d1 where d1: "deliver (jc_callback K) [(JSON_T_OBJECT_BEGIN, None)] e = Inr (True, d1)"
    "deliver (jc_callback K) (events_members (jc_handle_floats_manually K) (jc_decimal_point K) el @ [(JSON_T_OBJECT_END, None)]) d1 = Inr (True, e')"
    by (rule deliver_first [of "jc_callback K" "(JSON_T_OBJECT_BEGIN, None)" _ e e']) (use d T_obj in simp_all)
  have r': "room K ms (Suc (nesting_members el))" using r T_obj by simp
  have 1: "go (at K s JSON_T_NONE e, [], ms) [0x7B] (at K OB JSON_T_NONE d1, [], ms @ [MODE_KEY])"
    by (rule go_open_object [OF K s r' d1(1)])
  have 2: "go (at K OB JSON_T_NONE d1, [], ms @ [MODE_KEY]) (unparse_members el @ [0x7D]) (at K OK JSON_T_NONE e', [], ms)"
    using xs [OF T_obj] c T_obj ms d1(2) room_open(2) [OF r'] unfolding members_go_def by auto
  show ?thesis using go_append [OF 1 2] T_obj by simp
qed (use c in simp_all)

lemma container_tree_goes:
  assumes "ready K" "is_container t"
    and "\<And>es. t = T_arr es \<Longrightarrow> elems_go K es" and "\<And>xs. t = T_obj xs \<Longrightarrow> members_go K xs"
  shows "tree_goes K t"
proof -
  have f: "final pt t = (OK, JSON_T_NONE, [])" for pt using assms(2) by (cases t) auto
  show ?thesis unfolding tree_goes_def Let_def f fst_conv snd_conv
    using container_goes [OF assms(1) _ assms(2) _ _ _ assms(3,4)] by (auto simp: emitted_def f)
qed

lemma containers_go:
  assumes K: "ready K"
  shows "tree_goes K (T_arr0 ws)" "elems_go K es \<Longrightarrow> tree_goes K (T_arr es)"
    "tree_goes K (T_obj0 ws)" "members_go K xs \<Longrightarrow> tree_goes K (T_obj xs)"
  by (auto intro!: container_tree_goes [OF K])

lemma all_go:
  assumes K: "ready K"
  shows "tree_goes K t" "elems_go K es" "members_go K xs"
  by (induction t and es and xs)
    (auto intro: scalar_goes [OF K] elems_goes [OF K] members_goes [OF K] containers_go [OF K])

section \<open>Whole texts\<close>

lemma new_core_at: "ready (new_core point c)" "at (new_core point c) GO JSON_T_NONE (cfg_callback_ctx c) = new_core point c"
  by (simp add: ready_def) (cases "new_core point c"; use new_core_fields [of point c] in \<open>simp add: at_def\<close>)

lemma runs_feed_go: "go a cs b \<Longrightarrow> sees jc a \<Longrightarrow> runs (feed jc cs) (\<lambda>(r, jc'). r \<and> sees jc' b)"
  by (simp add: go_def)

lemma done_views:
  assumes "views jc (at K OK t e) x [MODE_DONE]"
  shows "runs (JSON_parser_done jc) (\<lambda>(b, jc'). b \<and> jc_ctx jc' = e)"
proof -
  note f = views_fields [OF assms]
  show ?thesis using f(2,3) by (simp add: JSON_parser_done_def, intro runs_pop_done) (simp_all add: f)
qed

lemma container_parses:
  assumes "is_container t" "tree_ok t" "list_all is_white ws1" "list_all is_white ws2"
    and depth: "cfg_depth c < 0 \<or> int (nesting t) < cfg_depth c"
    and d: "deliver (cfg_callback c) (events (cfg_handle_floats_manually c \<noteq> 0) point t []) (cfg_callback_ctx c) = Inr (True, e')"
  shows "\<exists>jc. parse_text point null (Some c) (ws1 @ unparse t @ ws2) = Inr (True, jc) \<and> jc_ctx jc = e'"
proof -
  let ?K = "new_core point c" and ?e = "cfg_callback_ctx c"
  note K = new_core_at(1) [of point c]
  have 1: "go (at ?K GO JSON_T_NONE ?e, [], [MODE_DONE]) ws1 (at ?K GO JSON_T_NONE ?e, [], [MODE_DONE])"
    by (rule go_white_before [OF assms(3) K]) (simp add: resume_states_def)
  have 2: "go (at ?K GO JSON_T_NONE ?e, [], [MODE_DONE]) (unparse t) (at ?K OK JSON_T_NONE e', [], [MODE_DONE])"
    by (rule container_goes [OF K _ assms(1,2) _ _ all_go(2) [OF K] all_go(3) [OF K], where ws = "[]"])
      (use d depth in \<open>auto simp: room_def\<close>)
  have 3: "go (at ?K OK JSON_T_NONE e', [], [MODE_DONE]) ws2 (at ?K OK JSON_T_NONE e', [], [MODE_DONE])"
    by (rule go_white_before [OF assms(4) K]) (simp add: resume_states_def)
  note g = runs_feed_go [OF go_append [OF 1 go_append [OF 2 3]], unfolded sees_def new_core_at(2) prod.case]
  have "runs (parse_text point null (Some c) (ws1 @ unparse t @ ws2)) (\<lambda>(b, jc). b \<and> jc_ctx jc = e')"
    unfolding parse_text_def runs_simps runs_if_ok
    by (rule runs_mono [OF new_JSON_parser_views], rule runs_mono [OF g])
      (auto simp: config_of_def dest: done_views split: if_splits)
  then show ?thesis by (auto simp: runs_iff)
qed

text \<open>
  C2. Completeness of the parser. Take any text of the JSON grammar whose top is an array or an
  object, with any white space, escapes and forms of numbers (\<open>0e1\<close> apart), nested within the
  configured depth. Fed this text, the parser makes exactly the callback's calls for the text's
  events, in order; when the callback accepts them all, the parser answers \<open>true\<close> to every
  character and to \<open>JSON_parser_done\<close>, and the context is what these calls left.
\<close>

theorem json_parser_complete:
  assumes "is_container t" "tree_ok t" "list_all is_white ws1" "list_all is_white ws2"
    and depth: "cfg_depth c < 0 \<or> int (nesting t) < cfg_depth c"
    and d: "deliver (cfg_callback c) (events (cfg_handle_floats_manually c \<noteq> 0) point t []) (cfg_callback_ctx c) = Inr (True, e')"
  shows "\<exists>jc. parse_text point null (Some c) (ws1 @ unparse t @ ws2) = Inr (True, jc) \<and> jc_ctx jc = e'"
  by (rule container_parses [OF assms])

end
