(* ===== verification/JsonLimits.thy ===== *)
theory JsonLimits imports JsonCorrect begin

text \<open>
  Further facts about the parser: a concrete run of the completeness theorem, the depth limit
  met exactly, comments, and the \<open>\u\<close> escapes against the definition of UTF-8.
\<close>

section \<open>A recording callback\<close>

definition recorder :: "(jtype \<times> jvalue option) list jcallback" where
  "recorder t v c = Inr (True, c @ [(t, v)])"

lemma deliver_recorder [simp]: "deliver (Some recorder) evs c = Inr (True, c @ evs)"
  by (induction evs arbitrary: c) (auto simp: recorder_def)

theorem json_parser_complete_witness:
  "\<exists>jc. parse_text 0x2E [] (Some \<lparr>cfg_callback = Some recorder, cfg_callback_ctx = [], cfg_depth = 3,
      cfg_allow_comments = 0, cfg_handle_floats_manually = 0\<rparr>)
     ([0x20] @ unparse (T_arr (More [] (T_int True 7) [0x0A] (Last [] T_null []))) @ []) = Inr (True, jc) \<and>
     jc_ctx jc = [(JSON_T_ARRAY_BEGIN, None), (JSON_T_INTEGER, Some (JV_integer (- 7))), (JSON_T_NULL, None),
       (JSON_T_ARRAY_END, None)]"
  by (rule json_parser_complete)
    (simp_all add: recorder_def is_white_def clamp_def signed_value_def long_min_def long_max_def)

section \<open>The depth limit\<close>

definition effective_depth :: "int \<Rightarrow> int" where
  "effective_depth d = (if d = 0 then 1 else d)"

lemma feed_brackets:
  assumes K: "ready K" and cb: "jc_callback K = None" and s: "s \<in> {GO, AR}"
    and v: "views jc (at K s JSON_T_NONE e) [] ms" and r: "room K ms 0"
  shows "runs (feed jc (replicate n 0x5B)) (\<lambda>(b, _). b \<longleftrightarrow> room K ms n)"
  using s v r
proof (induction n arbitrary: s jc ms e)
  case 0
  then show ?case by simp
next
  case (Suc n)
  show ?case
  proof (cases "room K ms 1")
    case True
    have "go (at K s JSON_T_NONE e, [], ms) [0x5B] (at K AR JSON_T_NONE e, [], ms @ [MODE_ARRAY])"
      by (rule go_open_array [OF K, where n = 0]) (use Suc.prems True cb in auto)
    from runs_feed_go [OF this, of jc]
    have step: "runs (JSON_parser_char jc 0x5B) (\<lambda>(r, j). r \<and> views j (at K AR JSON_T_NONE e) [] (ms @ [MODE_ARRAY]))"
      using Suc.prems(2) by (simp add: sees_def) (erule runs_mono, auto split: if_splits)
    have r: "room K (ms @ [MODE_ARRAY]) 0" "room K (ms @ [MODE_ARRAY]) n \<longleftrightarrow> room K ms (Suc n)"
      using True by (auto simp: room_def)
    show ?thesis unfolding replicate_Suc feed.simps runs_if_ok
      by (rule runs_mono [OF step])
        (use Suc.IH [of AR _ e "ms @ [MODE_ARRAY]"] r in \<open>auto split: if_splits\<close>)
  next
    case False
    then have full: "stack_full (at K s JSON_T_NONE e) ms" using Suc.prems(3) by (auto simp: room_def stack_full_def)
    have nr: "\<not> room K ms (Suc n)" using False by (auto simp: room_def)
    have T: "state_transition_table s C_LSQRB = Do A_5" using other_entries(4) Suc.prems(1) by auto
    have e: "JSON_parser_char jc 0x5B = if_ok (add_char_to_parse_buffer jc 0x5B C_LSQRB) (\<lambda>jc.
      enter (state_transition_table (jc_state jc) C_LSQRB) jc)"
      by (simp add: JSON_parser_char_def punctuation_class)
    have a: "runs (enter (state_transition_table (jc_state j) C_LSQRB) j) (\<lambda>(b, _). \<not> b)"
      if j: "views j (at K s JSON_T_NONE e) ([] @ [word_of_int 0x5B]) ms" for j
    proof -
      have "runs (act_5 j) (\<lambda>(b, _). \<not> b)"
        by (rule views_act_5 [OF j]) (use full cb in \<open>auto simp: outcome_def\<close>)
      then show ?thesis using T by (simp add: views_fields(3) [OF j] enter_def)
    qed
    have "runs (JSON_parser_char jc 0x5B) (\<lambda>(b, _). \<not> b)"
      unfolding e runs_if_ok by (rule views_add_char [OF Suc.prems(2)]) (use K a in \<open>auto simp: ready_def\<close>)
    then show ?thesis unfolding replicate_Suc feed.simps runs_if_ok
      by (rule runs_mono) (use nr in auto)
  qed
qed

text \<open>
  C29. The depth limit, exactly. A parser configured with a positive depth \<open>d\<close> (zero counts as one)
  accepts a run of \<open>n\<close> opening brackets if and only if \<open>n < d\<close>: one stack entry is taken by
  \<open>MODE_DONE\<close>. So the default depth of 127 allows 126 levels. A negative depth allows any number,
  the stack growing as needed.
\<close>

theorem json_depth_limit:
  "\<exists>b jc. seq (new_JSON_parser point () (Some \<lparr>cfg_callback = None, cfg_callback_ctx = (), cfg_depth = d,
      cfg_allow_comments = ac, cfg_handle_floats_manually = hf\<rparr>)) (\<lambda>jc. feed jc (replicate n 0x5B)) = Inr (b, jc)
   \<and> b = (d < 0 \<or> int n < effective_depth d)"
proof -
  let ?c = "\<lparr>cfg_callback = None, cfg_callback_ctx = (), cfg_depth = d, cfg_allow_comments = ac, cfg_handle_floats_manually = hf\<rparr>"
  let ?K = "new_core point ?c"
  have r: "room ?K [MODE_DONE] n \<longleftrightarrow> (d < 0 \<or> int n < effective_depth d)" for n
    by (auto simp: room_def effective_depth_def)
  have "runs (seq (new_JSON_parser point () (Some ?c)) (\<lambda>jc. feed jc (replicate n 0x5B)))
      (\<lambda>(b, _). b \<longleftrightarrow> room ?K [MODE_DONE] n)"
    unfolding runs_simps
    by (rule runs_mono [OF new_JSON_parser_views], rule feed_brackets [OF new_core_at(1), where s = GO])
      (use new_core_at(2) [of point ?c] r [of 0] in \<open>auto simp: config_of_def effective_depth_def\<close>)
  then show ?thesis unfolding r by (auto simp: runs_iff)
qed

section \<open>Comments\<close>

text \<open>The inside of a comment: characters with a class, and no star before a slash.\<close>

fun comment_ok :: "bool \<Rightarrow> int list \<Rightarrow> bool" where
  "comment_ok star [] = True"
| "comment_ok star (n # ns) = (0 \<le> n \<and> char_class n \<noteq> None \<and> \<not> (star \<and> n = 0x2F) \<and> comment_ok (n = 0x2A) ns)"

lemma slash_star_class:
  assumes "char_class n = Some c"
  shows "c = C_SLASH \<Longrightarrow> 0 \<le> n \<Longrightarrow> n = 0x2F" "c = C_STAR \<Longrightarrow> 0 \<le> n \<Longrightarrow> n = 0x2A"
proof -
  have "list_all (\<lambda>k. (ascii_class ! k = Some C_SLASH \<longrightarrow> k = 0x2F) \<and> (ascii_class ! k = Some C_STAR \<longrightarrow> k = 0x2A)) [0..<128]"
    by code_simp
  then have *: "\<And>k. k < 128 \<Longrightarrow> (ascii_class ! k = Some C_SLASH \<longrightarrow> k = 0x2F) \<and> (ascii_class ! k = Some C_STAR \<longrightarrow> k = 0x2A)"
    unfolding list_all_upt_iff by blast
  show "c = C_SLASH \<Longrightarrow> 0 \<le> n \<Longrightarrow> n = 0x2F" "c = C_STAR \<Longrightarrow> 0 \<le> n \<Longrightarrow> n = 0x2A"
    using assms * [of "nat n"] by (auto simp: char_class_def nat_less_iff split: if_splits)
qed

lemma comment_entries:
  "state_transition_table C1 C_STAR = To C2"
  "state_transition_table C2 c = (if c = C_STAR then To C3 else To C2)"
  "state_transition_table C3 c = (if c = C_STAR then To C3 else if c = C_SLASH then Do CE else To C2)"
proof -
  show "state_transition_table C1 C_STAR = To C2" by code_simp
  have "list_all (\<lambda>c. state_transition_table C2 c = (if c = C_STAR then To C3 else To C2) \<and>
    state_transition_table C3 c = (if c = C_STAR then To C3 else if c = C_SLASH then Do CE else To C2)) all_classes"
    by code_simp
  then show "state_transition_table C2 c = (if c = C_STAR then To C3 else To C2)"
    "state_transition_table C3 c = (if c = C_STAR then To C3 else if c = C_SLASH then Do CE else To C2)"
    using in_all_classes unfolding list_all_iff by blast+
qed

lemma go_comment_char:
  assumes "char_class n = Some c" "0 \<le> n" "\<not> jc_escaped k" "jc_comment k" "state_transition_table (jc_state k) c = To s"
  shows "go (k, x, ms) [n] (k\<lparr>jc_state := s\<rparr>, x, ms)"
proof (rule go_one)
  fix jc assume "sees jc (k, x, ms)"
  then have v: "views jc k x ms" by (simp add: sees_def)
  have e: "JSON_parser_char jc n = if_ok (add_char_to_parse_buffer jc n c) (\<lambda>jc. enter (state_transition_table (jc_state jc) c) jc)"
    using assms(1,2) by (simp add: JSON_parser_char_def)
  show "runs (JSON_parser_char jc n) (\<lambda>(r, jc'). r \<and> sees jc' (k\<lparr>jc_state := s\<rparr>, x, ms))"
    unfolding e runs_if_ok
    by (rule views_add_comment [OF v assms(3,4)])
      (use assms(5) views_updates(2) [OF v] in \<open>simp add: views_fields(3) [OF v] enter_def sees_def\<close>)
qed

lemma go_comment_body:
  assumes "\<not> jc_escaped k" "jc_comment k" "jc_state k = (if star then C3 else C2)" "comment_ok star ns"
  shows "\<exists>star'. go (k, x, ms) ns (k\<lparr>jc_state := (if star' then C3 else C2)\<rparr>, x, ms)"
  using assms
proof (induction ns arbitrary: k star)
  case Nil
  then have "k\<lparr>jc_state := (if star then C3 else C2)\<rparr> = k" by (cases k) auto
  then show ?case by (metis go_Nil)
next
  case (Cons n ns)
  then obtain c where c: "char_class n = Some c" "0 \<le> n" by auto
  let ?k = "k\<lparr>jc_state := (if n = 0x2A then C3 else C2)\<rparr>"
  have "c = C_STAR \<longleftrightarrow> n = 0x2A" using slash_star_class(2) [OF c(1)] c punctuation_class(16) by auto
  moreover have "star \<longrightarrow> c \<noteq> C_SLASH" using slash_star_class(1) [OF c(1)] c Cons.prems(4) by auto
  ultimately have "state_transition_table (jc_state k) c = To (if n = 0x2A then C3 else C2)"
    using Cons.prems(3) by (auto simp: comment_entries)
  then have 1: "go (k, x, ms) [n] (?k, x, ms)" by (rule go_comment_char [OF c Cons.prems(1,2)])
  obtain star' where "go (?k, x, ms) ns (?k\<lparr>jc_state := (if star' then C3 else C2)\<rparr>, x, ms)"
    using Cons.IH [of ?k "n = 0x2A"] Cons.prems by auto
  then show ?case using go_Cons [OF 1] by (auto intro!: exI [of _ star'])
qed

lemma go_comment:
  assumes K: "ready K" and ac: "jc_allow_comments K" and b: "comment_ok False ns"
    and s: "s \<in> set resume_states" "comment_return_state (last ms) s = s"
  shows "go (at K s JSON_T_NONE e, [], ms) ([0x2F, 0x2A] @ ns @ [0x2A, 0x2F])
    ((at K s JSON_T_NONE e)\<lparr>jc_before_comment_state := s\<rparr>, [], ms)"
proof -
  let ?k = "(at K s JSON_T_NONE e)\<lparr>jc_before_comment_state := s, jc_comment := True\<rparr>"
  let ?s = "\<lambda>s. ?k\<lparr>jc_state := s\<rparr>"
  have T: "list_all (\<lambda>s. state_transition_table s C_SLASH = Do CB) resume_states" by code_simp
  have k: "(at K s JSON_T_NONE e)\<lparr>jc_ctx := e, jc_before_comment_state := s, jc_type := JSON_T_NONE,
      jc_state := C1, jc_comment := True\<rparr> = ?s C1"
    by (cases K) (simp add: at_def)
  have 1: "go (at K s JSON_T_NONE e, [], ms) [0x2F] (?s C1, [], ms)"
  proof (rule go_punctuation [OF K punctuation_class(15)])
    show "state_transition_table s C_SLASH = Do CB" using T s(1) unfolding list_all_iff by blast
    fix jc assume v: "views jc (at K s JSON_T_NONE e) ([] @ [word_of_int 0x2F]) ms"
    show "runs (perform CB jc) (\<lambda>(r, jc'). r \<and> sees jc' (?s C1, [], ms))"
      unfolding perform.simps
    proof (rule views_CB [OF v])
      show "outcome (deliver (jc_callback (at K s JSON_T_NONE e)) (pending (jc_handle_floats_manually (at K s JSON_T_NONE e))
          (jc_type (at K s JSON_T_NONE e)) []) (jc_ctx (at K s JSON_T_NONE e))) True
        (\<lambda>c jc. views jc ((at K s JSON_T_NONE e)\<lparr>jc_ctx := c, jc_before_comment_state :=
          comment_return_state (last ms) (jc_state (at K s JSON_T_NONE e)), jc_type := JSON_T_NONE, jc_state := C1,
          jc_comment := True\<rparr>) [] ms) (\<lambda>(r, jc'). r \<and> sees jc' (?s C1, [], ms))"
        by (cases "jc_callback K") (simp_all add: pending_def outcome_def sees_def s(2) k)
    qed (use ac in \<open>simp_all add: readable_def\<close>)
  qed simp_all
  have f: "\<not> jc_escaped (?s q)" "jc_comment (?s q)" "jc_state (?s q) = q" "(?s q)\<lparr>jc_state := r\<rparr> = ?s r" for q r
    using K by (simp_all add: ready_def)
  have 2: "go (?s C1, [], ms) [0x2A] (?s C2, [], ms)"
    using go_comment_char [OF punctuation_class(16) _ f(1,2), of C1 C2 "[]" ms] by (simp add: comment_entries)
  obtain star where 3: "go (?s C2, [], ms) ns (?s (if star then C3 else C2), [], ms)"
    using go_comment_body [OF f(1,2), of C2 False ns "[]" ms] b by auto
  have 4: "go (?s (if star then C3 else C2), [], ms) [0x2A] (?s C3, [], ms)"
    using go_comment_char [OF punctuation_class(16) _ f(1,2), of "if star then C3 else C2" C3 "[]" ms]
    by (auto simp: comment_entries)
  have 5: "go (?s C3, [], ms) [0x2F] ((at K s JSON_T_NONE e)\<lparr>jc_before_comment_state := s\<rparr>, [], ms)"
  proof (rule go_one)
    fix jc assume "sees jc (?s C3, [], ms)"
    then have v: "views jc (?s C3) [] ms" by (simp add: sees_def)
    have e': "JSON_parser_char jc 0x2F = if_ok (add_char_to_parse_buffer jc 0x2F C_SLASH) (\<lambda>jc.
      enter (state_transition_table (jc_state jc) C_SLASH) jc)"
      by (simp add: JSON_parser_char_def punctuation_class)
    have b: "(?s C3)\<lparr>jc_comment := False, jc_state := s\<rparr> = (at K s JSON_T_NONE e)\<lparr>jc_before_comment_state := s\<rparr>"
      using K by (cases K) (auto simp: at_def ready_def)
    have "runs (act_CE jc) (\<lambda>(r, jc'). r \<and> sees jc' ((at K s JSON_T_NONE e)\<lparr>jc_before_comment_state := s\<rparr>, [], ms))"
      by (rule views_CE [OF v]) (use b in \<open>auto simp: sees_def\<close>)
    then show "runs (JSON_parser_char jc 0x2F) (\<lambda>(r, jc'). r \<and> sees jc' ((at K s JSON_T_NONE e)\<lparr>jc_before_comment_state := s\<rparr>, [], ms))"
      unfolding e' runs_if_ok
      by (intro views_add_comment [OF v f(1,2)]) (simp add: views_fields(3) [OF v] enter_def comment_entries)
  qed
  show ?thesis using go_Cons [OF 1 go_Cons [OF 2 go_append [OF 3 go_Cons [OF 4 5]]]] by simp
qed

text \<open>
  Comments, when the configuration allows them: a C comment in front of a text changes
  nothing. The parser accepts the text as it does without the comment, with the same calls.
\<close>

theorem json_comment_skipped:
  assumes "is_container t" "tree_ok t" "comment_ok False ns" "cfg_allow_comments c \<noteq> 0"
    and depth: "cfg_depth c < 0 \<or> int (nesting t) < cfg_depth c"
    and d: "deliver (cfg_callback c) (events (cfg_handle_floats_manually c \<noteq> 0) point t []) (cfg_callback_ctx c) = Inr (True, e')"
  shows "\<exists>jc. parse_text point null (Some c) (([0x2F, 0x2A] @ ns @ [0x2A, 0x2F]) @ unparse t) = Inr (True, jc) \<and> jc_ctx jc = e'"
proof -
  let ?K = "new_core point c" and ?e = "cfg_callback_ctx c"
  note K = new_core_at(1) [of point c]
  let ?L = "?K\<lparr>jc_before_comment_state := GO\<rparr>"
  have L: "ready ?L" using K by (simp add: ready_def)
  have l: "(at ?K GO JSON_T_NONE ?e)\<lparr>jc_before_comment_state := GO\<rparr> = at ?L GO JSON_T_NONE ?e"
    by (cases ?K) (simp add: at_def)
  have 1: "go (at ?K GO JSON_T_NONE ?e, [], [MODE_DONE]) ([0x2F, 0x2A] @ ns @ [0x2A, 0x2F]) (at ?L GO JSON_T_NONE ?e, [], [MODE_DONE])"
    unfolding l [symmetric]
    by (rule go_comment [OF K _ assms(3)]) (use assms(4) in \<open>simp_all add: resume_states_def comment_return_state_def\<close>)
  have 2: "go (at ?L GO JSON_T_NONE ?e, [], [MODE_DONE]) (unparse t) (at ?L OK JSON_T_NONE e', [], [MODE_DONE])"
    by (rule container_goes [OF L _ assms(1,2) _ _ all_go(2) [OF L] all_go(3) [OF L], where ws = "[]"])
      (use d depth in \<open>auto simp: room_def\<close>)
  note g = runs_feed_go [OF go_append [OF 1 2], unfolded sees_def new_core_at(2) prod.case]
  have "runs (parse_text point null (Some c) (([0x2F, 0x2A] @ ns @ [0x2A, 0x2F]) @ unparse t)) (\<lambda>(b, jc). b \<and> jc_ctx jc = e')"
    unfolding parse_text_def runs_simps runs_if_ok
    by (rule runs_mono [OF new_JSON_parser_views], rule runs_mono [OF g])
      (auto simp: config_of_def dest: done_views split: if_splits)
  then show ?thesis by (auto simp: runs_iff)
qed

theorem json_comment_skipped_witness:
  "\<exists>jc. parse_text 0x2E [] (Some \<lparr>cfg_callback = Some recorder, cfg_callback_ctx = [], cfg_depth = 3,
      cfg_allow_comments = 1, cfg_handle_floats_manually = 0\<rparr>)
     (([0x2F, 0x2A] @ [0x2A, 0x61] @ [0x2A, 0x2F]) @ unparse (T_obj0 [])) = Inr (True, jc) \<and>
     jc_ctx jc = [(JSON_T_OBJECT_BEGIN, None), (JSON_T_OBJECT_END, None)]"
  by (rule json_comment_skipped)
    (simp_all add: recorder_def char_class_def ascii_class_def)

section \<open>Unicode escapes and UTF-8\<close>

text \<open>The encoding of a code point, from the definition of UTF-8.\<close>

definition utf8 :: "nat \<Rightarrow> u8 list" where
  "utf8 n = map word_of_nat
     (if n < 0x80 then [n]
      else if n < 0x800 then [0xC0 + n div 64, 0x80 + n mod 64]
      else if n < 0x10000 then [0xE0 + n div 4096, 0x80 + n div 64 mod 64, 0x80 + n mod 64]
      else [0xF0 + n div 262144, 0x80 + n div 4096 mod 64, 0x80 + n div 64 mod 64, 0x80 + n mod 64])"

definition code_point :: "nat \<Rightarrow> bool" where
  "code_point n \<longleftrightarrow> n < 0x110000 \<and> \<not> (0xD800 \<le> n \<and> n \<le> 0xDFFF)"

lemma utf8_trail: "ucast (drop_bit k (w :: u32) AND 0x3F OR 0x80) = (word_of_nat (0x80 + unat w div 2 ^ k mod 64) :: u8)"
proof -
  have "drop_bit k w AND 0x3F = take_bit 6 (drop_bit k w)" by (simp add: take_bit_eq_mask mask_eq_exp_minus_1)
  moreover have "take_bit 6 (drop_bit k w) AND 0x80 = 0"
  proof (rule bit_word_eqI)
    have "bit (0x80 :: u32) n \<longleftrightarrow> n = 7" for n
      using bit_exp_iff [of 7 n, where 'a = u32] by auto
    then show "bit (take_bit 6 (drop_bit k w) AND 0x80) n = bit (0 :: u32) n" for n
      by (auto simp: bit_simps)
  qed
  ultimately have "drop_bit k w AND 0x3F OR 0x80 = take_bit 6 (drop_bit k w) + 0x80"
    by (simp add: disjunctive_add_eq_or)
  then have "unat (drop_bit k w AND 0x3F OR 0x80) = 0x80 + unat w div 2 ^ k mod 64"
    by (simp add: unat_word_ariths unat_take_byte unat_drop_byte)
  then show ?thesis by (metis of_nat_unat)
qed

lemma utf8_lead:
  "n < 0x80 \<Longrightarrow> ucast (word_of_nat n OR 0 :: u32) = (word_of_nat n :: u8)"
  "n < 0x20 \<Longrightarrow> ucast (word_of_nat n OR 0xC0 :: u32) = (word_of_nat (0xC0 + n) :: u8)"
  "n < 0x10 \<Longrightarrow> ucast (word_of_nat n OR 0xE0 :: u32) = (word_of_nat (0xE0 + n) :: u8)"
  "n < 8 \<Longrightarrow> ucast (word_of_nat n OR 0xF0 :: u32) = (word_of_nat (0xF0 + n) :: u8)"
proof -
  have "list_all (\<lambda>n. ucast (word_of_nat n OR 0 :: u32) = (word_of_nat n :: u8)) [0..<0x80]"
    "list_all (\<lambda>n. ucast (word_of_nat n OR 0xC0 :: u32) = (word_of_nat (0xC0 + n) :: u8)) [0..<0x20]"
    "list_all (\<lambda>n. ucast (word_of_nat n OR 0xE0 :: u32) = (word_of_nat (0xE0 + n) :: u8)) [0..<0x10]"
    "list_all (\<lambda>n. ucast (word_of_nat n OR 0xF0 :: u32) = (word_of_nat (0xF0 + n) :: u8)) [0..<8]"
    by code_simp+
  then show
    "n < 0x80 \<Longrightarrow> ucast (word_of_nat n OR 0 :: u32) = (word_of_nat n :: u8)"
    "n < 0x20 \<Longrightarrow> ucast (word_of_nat n OR 0xC0 :: u32) = (word_of_nat (0xC0 + n) :: u8)"
    "n < 0x10 \<Longrightarrow> ucast (word_of_nat n OR 0xE0 :: u32) = (word_of_nat (0xE0 + n) :: u8)"
    "n < 8 \<Longrightarrow> ucast (word_of_nat n OR 0xF0 :: u32) = (word_of_nat (0xF0 + n) :: u8)"
    unfolding list_all_upt_iff by blast+
qed

lemma drop_bit_of_nat: "drop_bit k (w :: u32) = word_of_nat (unat w div 2 ^ k)"
  by (metis of_nat_unat unat_drop_byte unsigned_0 ucast_id)

definition trail_count :: "u32 \<Rightarrow> nat" where
  "trail_count uc = (if uc < 0x80 then 0 else if uc < 0x800 then 1 else if uc < 0x10000 then 2 else 3)"

lemma utf8_bytes_utf8:
  assumes "uc < 0x110000"
  shows "utf8_bytes uc (trail_count uc) = utf8 (unat uc)"
proof -
  have less: "unat uc < 0x110000" using assms by (simp add: word_less_nat_alt)
  have c: "uc < 0x80 \<longleftrightarrow> unat uc < 0x80" "uc < 0x800 \<longleftrightarrow> unat uc < 0x800" "uc < 0x10000 \<longleftrightarrow> unat uc < 0x10000"
    by (simp_all add: word_less_nat_alt)
  note simps = utf8_bytes_def utf8_trail utf8_trail [of 0 uc, simplified] trail_count_def c utf8_def utf8_lead_bits_def
  note upt = upt_rec [of 0 2] upt_rec [of 0 3] upt_rec [of "Suc 0" 3] upt_rec [of "Suc 0" 2] upt_rec [of "Suc (Suc 0)" 3] upt_rec [of 2 3]
  consider "unat uc < 0x80" | "0x80 \<le> unat uc" "unat uc < 0x800" | "0x800 \<le> unat uc" "unat uc < 0x10000"
    | "0x10000 \<le> unat uc" by linarith
  then show ?thesis
  proof cases
    case 1
    then show ?thesis using utf8_lead(1) [of "unat uc"] by (simp add: simps)
  next
    case 2
    then show ?thesis using utf8_lead(2) [of "unat uc div 64"] by (simp add: simps drop_bit_of_nat [of 6 uc])
  next
    case 3
    then show ?thesis using utf8_lead(3) [of "unat uc div 4096"] by (simp add: simps upt drop_bit_of_nat [of 12 uc])
  next
    case 4
    then show ?thesis using utf8_lead(4) [of "unat uc div 262144"] less
      by (simp add: simps upt drop_bit_of_nat [of 18 uc])
  qed
qed

lemma surrogate_value:
  assumes "(uc :: u32) < 0x10000"
  shows "is_high_surrogate uc \<Longrightarrow> unat uc = 0xD800 + unat (uc AND 0x3FF)"
    and "is_low_surrogate uc \<Longrightarrow> unat uc = 0xDC00 + unat (uc AND 0x3FF)"
proof -
  have less: "unat uc < 0x10000" using assms by (simp add: word_less_nat_alt)
  have m: "uc AND 0x3FF = take_bit 10 uc" by (simp add: take_bit_eq_mask mask_eq_exp_minus_1)
  have d: "unat (drop_bit 10 (uc AND 0xFC00)) = unat uc div 1024"
  proof -
    have "drop_bit 10 (uc AND 0xFC00) = drop_bit 10 uc AND drop_bit 10 0xFC00" by (rule drop_bit_and)
    also have "\<dots> = take_bit 6 (drop_bit 10 uc)" by (simp add: take_bit_eq_mask mask_eq_exp_minus_1)
    finally show ?thesis using less by (simp add: unat_take_byte unat_drop_byte)
  qed
  have e: "unat uc = 1024 * (unat uc div 1024) + unat (uc AND 0x3FF)"
    unfolding m unat_take_byte by simp
  show "is_high_surrogate uc \<Longrightarrow> unat uc = 0xD800 + unat (uc AND 0x3FF)"
    using d e by (simp add: is_high_surrogate_def)
  show "is_low_surrogate uc \<Longrightarrow> unat uc = 0xDC00 + unat (uc AND 0x3FF)"
    using d e by (simp add: is_low_surrogate_def)
qed

text \<open>
  Surrogate pairs. Two code units, a high and a low surrogate, are combined into the code point
  they stand for in UTF-16, and the four bytes the parser puts in its buffer are the UTF-8 encoding
  of that code point.
\<close>

theorem surrogate_pair_utf8:
  assumes "hi < 0x10000" "is_high_surrogate hi" "lo < 0x10000" "is_low_surrogate lo"
  shows "utf8_bytes (decode_surrogate_pair hi lo) 3 = utf8 (0x10000 + (unat hi - 0xD800) * 0x400 + (unat lo - 0xDC00))"
proof -
  have b: "unat (x AND 0x3FF) < 0x400" for x :: u32
  proof -
    have "x AND 0x3FF = take_bit 10 x" by (simp add: take_bit_eq_mask mask_eq_exp_minus_1)
    then show ?thesis by (simp add: unat_take_byte)
  qed
  have g: "unat (push_bit 10 x + y + 0x10000) = unat x * 1024 + unat y + 0x10000" if "unat x < 0x400" "unat y < 0x400" for x y :: u32
    using that by (simp add: unat_word_ariths unat_push_byte)
  have u: "unat (decode_surrogate_pair hi lo) = unat (hi AND 0x3FF) * 1024 + unat (lo AND 0x3FF) + 0x10000"
    unfolding decode_surrogate_pair_def by (rule g [OF b b])
  have "decode_surrogate_pair hi lo < 0x110000" "trail_count (decode_surrogate_pair hi lo) = 3"
    using u b [of hi] b [of lo] by (simp_all add: word_less_nat_alt trail_count_def)
  then show ?thesis using utf8_bytes_utf8 [of "decode_surrogate_pair hi lo"] u
      surrogate_value(1) [OF assms(1,2)] surrogate_value(2) [OF assms(3,4)] by (simp add: algebra_simps)
qed

theorem surrogate_pair_utf8_witness:
  "utf8_bytes (decode_surrogate_pair 0xD83D 0xDE00) 3 = utf8 (0x10000 + (unat (0xD83D :: u32) - 0xD800) * 0x400 + (unat (0xDE00 :: u32) - 0xDC00))"
  by (rule surrogate_pair_utf8) (simp_all add: is_high_surrogate_def is_low_surrogate_def)

section \<open>The white space check\<close>

text \<open>
  \<open>JSON_parser_is_legal_white_space_string\<close> is true exactly of the non-null strings all of whose
  bytes before the NUL are blanks, tabs, line feeds or carriage returns.
\<close>

theorem legal_white_space:
  "JSON_parser_is_legal_white_space_string s
     = (case s of None \<Rightarrow> False | Some bs \<Rightarrow> list_all (\<lambda>b. b \<in> set [0x20, 9, 10, 13]) (takeWhile (\<lambda>b. b \<noteq> 0) bs))"
proof -
  have *: "\<forall>b :: u8. (0 \<le> char_int b \<and> char_int b < 128 \<and>
      (ascii_class ! nat (char_int b) = Some C_SPACE \<or> ascii_class ! nat (char_int b) = Some C_WHITE)) \<longleftrightarrow> b \<in> set [0x20, 9, 10, 13]"
    unfolding byte_all_iff by code_simp
  have "legal_white_space_loop bs = list_all (\<lambda>b. b \<in> set [0x20, 9, 10, 13]) (takeWhile (\<lambda>b. b \<noteq> 0) bs)" for bs
  proof (induction bs)
    case (Cons b bs)
    then show ?case using spec [OF *, of b] by (auto simp: Let_def)
  qed simp
  then show ?thesis by (simp add: JSON_parser_is_legal_white_space_string_def split: option.split)
qed

end
