(* ===== verification/Machine.thy ===== *)
theory Machine imports Prelude begin

text \<open>
  Memory and sizes of a 64-bit machine, shared by the components that work on raw bytes:
  \<open>size_t\<close> arithmetic without wrap-around, a block of memory whose cells may not have been written
  (\<open>cells\<close>), \<open>memcpy\<close> from and to it, \<open>realloc\<close>, and the little-endian layout of integers.
\<close>

section \<open>Sizes\<close>

lemma unat_plus_small:
  "unat a + unat b < 2 ^ LENGTH('a) \<Longrightarrow> unat (a + b :: 'a :: len word) = unat a + unat b"
  by (simp add: unat_word_ariths)

lemma unat_minus_le: "b \<le> a \<Longrightarrow> unat (a - b :: 'a :: len word) = unat a - unat b"
  by (rule unat_sub)

lemma unat_u64_less [simp]: "unat (b :: u64) < 18446744073709551616"
  using unsigned_less [of b, where ?'a = nat] by simp

lemma unat_of_nat_small: "n < 2 ^ LENGTH('a) \<Longrightarrow> unat (word_of_nat n :: 'a :: len word) = n"
  by (simp add: unat_of_nat)

section \<open>Memory cells\<close>

text \<open>A block of memory: \<open>None\<close> is a cell never written. The null pointer is the empty block.\<close>

type_synonym cells = "u8 option list"

definition load :: "cells \<Rightarrow> nat \<Rightarrow> nat \<Rightarrow> cells res" where
  "load m a n = (if a + n \<le> length m then Inr (take n (drop a m)) else Inl Undefined)"

definition store :: "cells \<Rightarrow> nat \<Rightarrow> u8 list \<Rightarrow> cells res" where
  "store m a bs =
     (if a + length bs \<le> length m then Inr (take a m @ map Some bs @ drop (a + length bs) m)
      else Inl Undefined)"

text \<open>The bytes of cells that have all been written; using any other value is undefined.\<close>

definition written :: "cells \<Rightarrow> u8 list res" where
  "written cs = (if None \<in> set cs then Inl Undefined else Inr (map the cs))"

text \<open>
  \<open>realloc\<close>: the first cells are kept, the new ones are not written. The library refuses blocks of
  more than \<open>PTRDIFF_MAX\<close> bytes by returning the null pointer; below that it is taken to succeed.
\<close>

definition realloc :: "cells \<Rightarrow> u64 \<Rightarrow> cells" where
  "realloc m n = (if n < 0x8000000000000000 then take (unat n) m @ replicate (unat n - length m) None else [])"

lemma length_realloc: "unat n < 0x8000000000000000 \<Longrightarrow> length (realloc m n) = unat n"
  by (auto simp: realloc_def word_less_nat_alt)

lemma realloc_grow:
  "unat n < 0x8000000000000000 \<Longrightarrow> length m \<le> unat n \<Longrightarrow> realloc m n = m @ replicate (unat n - length m) None"
  by (auto simp: realloc_def word_less_nat_alt)

lemma written_map_Some [simp]: "written (map Some bs) = Inr bs"
  by (auto simp: written_def comp_def)

lemma map_Some_the: "None \<notin> set cs \<Longrightarrow> map Some (map the cs) = cs"
  by (induction cs) auto

lemma store_Inr: "a + length bs \<le> length m \<Longrightarrow> store m a bs = Inr (take a m @ map Some bs @ drop (a + length bs) m)"
  by (simp add: store_def)

lemma load_Inr: "a + n \<le> length m \<Longrightarrow> load m a n = Inr (take n (drop a m))"
  by (simp add: load_def)

section \<open>Little-endian layout\<close>

definition to_le :: "'a :: len word \<Rightarrow> u8 list" where
  "to_le w = map (\<lambda>i. ucast (drop_bit (8 * i) w)) [0..<LENGTH('a) div 8]"

fun from_le :: "u8 list \<Rightarrow> 'a :: len word" where
  "from_le [] = 0"
| "from_le (b # bs) = ucast b OR push_bit 8 (from_le bs)"

lemma length_to_le [simp]: "length (to_le (w :: 'a :: len word)) = LENGTH('a) div 8"
  by (simp add: to_le_def)

lemma bit_from_le:
  "n < LENGTH('a) \<Longrightarrow> n < 8 * length bs \<Longrightarrow> bit (from_le bs :: 'a :: len word) n = bit (bs ! (n div 8)) (n mod 8)"
proof (induction bs arbitrary: n)
  case (Cons b bs)
  show ?case
  proof (cases "n < 8")
    case True
    then show ?thesis using Cons.prems by (simp add: bit_simps)
  next
    case False
    then have "bit (from_le bs :: 'a word) (n - 8) = bit (bs ! ((n - 8) div 8)) ((n - 8) mod 8)"
      using Cons.prems by (intro Cons.IH) auto
    moreover have "n div 8 = Suc ((n - 8) div 8)" "(n - 8) mod 8 = n mod 8"
      using False by (auto simp: le_div_geq le_mod_geq)
    ultimately show ?thesis using False Cons.prems by (simp add: bit_simps)
  qed
qed simp

lemma from_to_le [simp]:
  assumes "8 dvd LENGTH('a)"
  shows "from_le (to_le (w :: 'a :: len word)) = w"
proof (rule bit_word_eqI)
  fix n assume n: "n < LENGTH('a)"
  have d: "n div 8 < LENGTH('a) div 8" using n assms by (auto elim!: dvdE)
  have "bit (from_le (to_le w) :: 'a word) n = bit (to_le w ! (n div 8)) (n mod 8)"
    by (rule bit_from_le) (use n assms in auto)
  also have "\<dots> = bit w n"
    using d n by (simp add: to_le_def bit_simps)
  finally show "bit (from_le (to_le w) :: 'a word) n = bit w n" .
qed

section \<open>Computations that may not return\<close>

text \<open>\<open>None\<close> is a loop that never ends; a computation that returns may still end in a fault.\<close>

type_synonym 'a run = "'a res option"

definition bind_run :: "'a run \<Rightarrow> ('a \<Rightarrow> 'b run) \<Rightarrow> 'b run" where
  "bind_run m f = Option.bind m (\<lambda>r. case r of Inl e \<Rightarrow> Some (Inl e) | Inr x \<Rightarrow> f x)"

definition ret :: "'a \<Rightarrow> 'a run" where
  "ret x = Some (Inr x)"

lemma bind_run_simps [simp]:
  "bind_run None f = None"
  "bind_run (Some (Inl e)) f = Some (Inl e)"
  "bind_run (Some (Inr x)) f = f x"
  "bind_run (ret x) f = f x"
  by (simp_all add: bind_run_def ret_def)

lemma ret_eq_iff [simp]: "ret x = ret y \<longleftrightarrow> x = y"
  by (simp add: ret_def)

lemma bind_run_assoc: "bind_run (bind_run m f) g = bind_run m (\<lambda>x. bind_run (f x) g)"
proof (cases m)
  case (Some r)
  then show ?thesis by (cases r) simp_all
qed simp

text \<open>Loops written with \<open>bind_run\<close> may be defined by \<open>partial_function (option)\<close>.\<close>

lemma bind_run_mono [partial_function_mono]:
  assumes "mono_option F" "\<And>x. mono_option (\<lambda>f. G x f)"
  shows "mono_option (\<lambda>f. bind_run (F f) (\<lambda>x. G x f))"
proof -
  have *: "mono_option (\<lambda>f. case r of Inl e \<Rightarrow> Some (Inl e) | Inr x \<Rightarrow> G x f)" for r
    using assms(2) by (cases r) (simp_all add: monotone_def flat_ord_def)
  show ?thesis unfolding bind_run_def by (intro bind_mono assms(1) *)
qed

end
