(* ===== verification/ByteBuf.thy ===== *)
theory ByteBuf imports Machine begin

text \<open>
  \<^verbatim>\<open>tools/ByteBuffer.h\<close> and \<^verbatim>\<open>tools/ByteBuffer.cpp\<close>: the growing byte queue the network layer
  reads into and writes from. Indices are 64-bit \<open>size_t\<close> and wrap; an \<open>assert\<close> that does not hold and
  an access outside the block are faults. The protobuf calls of \<open>CopyFrom\<close> and \<open>CopyTo\<close> are
  parameters. The class is then shown to be a queue of bytes (locale \<open>byte_queue\<close>), and its typed
  stream operators to return what was written, in order.
\<close>

section \<open>The class\<close>

type_synonym s8 = "8 word"
type_synonym s16 = "16 word"
type_synonym s32 = "32 word"
type_synonym s64 = "64 word"

record byte_buffer =
  bb_buf :: cells
  bb_capacity :: u64
  bb_rindex :: u64
  bb_windex :: u64

definition BUFFER_CHUNK_SIZE :: u64 where "BUFFER_CHUNK_SIZE = 0x200"

definition ByteBuffer_blank :: "byte_buffer \<Rightarrow> u64" where
  "ByteBuffer_blank b = (if bb_capacity b \<le> bb_windex b then 0 else bb_capacity b - bb_windex b)"

definition ByteBuffer_reserve :: "byte_buffer \<Rightarrow> u64 \<Rightarrow> byte_buffer" where
  "ByteBuffer_reserve b newsize =
     (if newsize < ByteBuffer_blank b then b
      else let newsize = (if newsize < BUFFER_CHUNK_SIZE then BUFFER_CHUNK_SIZE else newsize);
               newsize = newsize + bb_capacity b
           in b\<lparr>bb_buf := realloc (bb_buf b) newsize, bb_capacity := newsize\<rparr>)"

definition new_ByteBuffer :: "u64 \<Rightarrow> byte_buffer" where
  "new_ByteBuffer n =
     ByteBuffer_reserve \<lparr>bb_buf = [], bb_capacity = 0, bb_rindex = 0, bb_windex = 0\<rparr> n"

definition ByteBuffer_clear :: "byte_buffer \<Rightarrow> byte_buffer" where
  "ByteBuffer_clear b = b\<lparr>bb_buf := [], bb_capacity := 0, bb_rindex := 0, bb_windex := 0\<rparr>"

definition ByteBuffer_reset :: "byte_buffer \<Rightarrow> byte_buffer" where
  "ByteBuffer_reset b = b\<lparr>bb_rindex := 0, bb_windex := 0\<rparr>"

definition ByteBuffer_size :: "byte_buffer \<Rightarrow> u64 res" where
  "ByteBuffer_size b = seq (check (bb_rindex b \<le> bb_windex b)) (\<lambda>_. Inr (bb_windex b - bb_rindex b))"

definition ByteBuffer_shrink :: "byte_buffer \<Rightarrow> byte_buffer res" where
  "ByteBuffer_shrink b = seq (ByteBuffer_size b) (\<lambda>n. Inr (if n = 0 then ByteBuffer_reset b else b))"

definition ByteBuffer_rlength :: "byte_buffer \<Rightarrow> u64 \<Rightarrow> byte_buffer res" where
  "ByteBuffer_rlength b len =
     (let b = b\<lparr>bb_rindex := bb_rindex b + len\<rparr>
      in seq (check (bb_rindex b \<le> bb_windex b)) (\<lambda>_. ByteBuffer_shrink b))"

definition ByteBuffer_wlength :: "byte_buffer \<Rightarrow> u64 \<Rightarrow> byte_buffer res" where
  "ByteBuffer_wlength b len =
     (let b = b\<lparr>bb_windex := bb_windex b + len\<rparr>
      in seq (check (bb_windex b \<le> bb_capacity b)) (\<lambda>_. Inr b))"

text \<open>The pointers \<open>rbuffer\<close> and \<open>wbuffer\<close> return are offsets into the block.\<close>

definition ByteBuffer_rbuffer :: "byte_buffer \<Rightarrow> nat" where
  "ByteBuffer_rbuffer b = unat (bb_rindex b)"

definition ByteBuffer_wbuffer :: "byte_buffer \<Rightarrow> u64 \<Rightarrow> byte_buffer \<times> nat" where
  "ByteBuffer_wbuffer b reserve_size =
     (let b = ByteBuffer_reserve b reserve_size in (b, unat (bb_windex b)))"

text \<open>\<open>append\<close> copies the first \<open>len\<close> bytes of \<open>s\<close>, which must have that many.\<close>

definition ByteBuffer_append :: "byte_buffer \<Rightarrow> u8 list \<Rightarrow> u64 \<Rightarrow> byte_buffer res" where
  "ByteBuffer_append b s len =
     (case ByteBuffer_wbuffer b len of (b, p) \<Rightarrow>
        if length s < unat len then Inl Undefined
        else seq (store (bb_buf b) p (take (unat len) s)) (\<lambda>m.
             ByteBuffer_wlength (b\<lparr>bb_buf := m\<rparr>) len))"

definition append_value :: "byte_buffer \<Rightarrow> 'a :: len word \<Rightarrow> byte_buffer res" where
  "append_value b v = ByteBuffer_append b (to_le v) (word_of_nat (LENGTH('a) div 8))"

definition ByteBuffer_read :: "byte_buffer \<Rightarrow> u64 \<Rightarrow> (cells \<times> byte_buffer) res" where
  "ByteBuffer_read b len =
     seq (load (bb_buf b) (ByteBuffer_rbuffer b) (unat len)) (\<lambda>out.
     seq (ByteBuffer_rlength b len) (\<lambda>b. Inr (out, b)))"

definition read_value :: "byte_buffer \<Rightarrow> ('a :: len word \<times> byte_buffer) res" where
  "read_value b =
     seq (load (bb_buf b) (ByteBuffer_rbuffer b) (LENGTH('a) div 8)) (\<lambda>cs.
     seq (ByteBuffer_rlength b (word_of_nat (LENGTH('a) div 8))) (\<lambda>b.
     seq (written cs) (\<lambda>bs. Inr (from_le bs, b))))"

section \<open>The stream operators\<close>

text \<open>A \<open>float\<close> and a \<open>double\<close> are the 4 and 8 bytes of their representation.\<close>

definition put_bool :: "byte_buffer \<Rightarrow> bool \<Rightarrow> byte_buffer res" where
  "put_bool b v = append_value b (if v then 1 else 0 :: u8)"
definition put_u8 :: "byte_buffer \<Rightarrow> u8 \<Rightarrow> byte_buffer res" where "put_u8 = append_value"
definition put_u16 :: "byte_buffer \<Rightarrow> u16 \<Rightarrow> byte_buffer res" where "put_u16 = append_value"
definition put_u32 :: "byte_buffer \<Rightarrow> u32 \<Rightarrow> byte_buffer res" where "put_u32 = append_value"
definition put_u64 :: "byte_buffer \<Rightarrow> u64 \<Rightarrow> byte_buffer res" where "put_u64 = append_value"
definition put_s8 :: "byte_buffer \<Rightarrow> s8 \<Rightarrow> byte_buffer res" where "put_s8 = append_value"
definition put_s16 :: "byte_buffer \<Rightarrow> s16 \<Rightarrow> byte_buffer res" where "put_s16 = append_value"
definition put_s32 :: "byte_buffer \<Rightarrow> s32 \<Rightarrow> byte_buffer res" where "put_s32 = append_value"
definition put_s64 :: "byte_buffer \<Rightarrow> s64 \<Rightarrow> byte_buffer res" where "put_s64 = append_value"
definition put_float :: "byte_buffer \<Rightarrow> u32 \<Rightarrow> byte_buffer res" where "put_float = append_value"
definition put_double :: "byte_buffer \<Rightarrow> u64 \<Rightarrow> byte_buffer res" where "put_double = append_value"

text \<open>A \<open>std::string\<close> is appended whole, a C string up to its NUL, and a null pointer not at all.\<close>

definition put_string :: "byte_buffer \<Rightarrow> u8 list \<Rightarrow> byte_buffer res" where
  "put_string b v = ByteBuffer_append b v (word_of_nat (length v))"

definition put_const_string :: "byte_buffer \<Rightarrow> u8 list \<Rightarrow> byte_buffer res" where
  "put_const_string b v = ByteBuffer_append b v (word_of_nat (length v))"

definition put_cstr :: "byte_buffer \<Rightarrow> u8 list option \<Rightarrow> byte_buffer res" where
  "put_cstr b v = (case v of None \<Rightarrow> Inr b
     | Some s \<Rightarrow> ByteBuffer_append b s (word_of_nat (length (takeWhile (\<lambda>c. c \<noteq> 0) s))))"

definition put_const_cstr :: "byte_buffer \<Rightarrow> u8 list option \<Rightarrow> byte_buffer res" where
  "put_const_cstr b v = (case v of None \<Rightarrow> Inr b
     | Some s \<Rightarrow> ByteBuffer_append b s (word_of_nat (length (takeWhile (\<lambda>c. c \<noteq> 0) s))))"

text \<open>A \<open>bool\<close> whose byte is neither 0 nor 1 has no value.\<close>

definition get_bool :: "byte_buffer \<Rightarrow> (bool \<times> byte_buffer) res" where
  "get_bool b = seq (read_value b) (\<lambda>(v :: u8, b).
     if v = 0 then Inr (False, b) else if v = 1 then Inr (True, b) else Inl Undefined)"
definition get_u8 :: "byte_buffer \<Rightarrow> (u8 \<times> byte_buffer) res" where "get_u8 = read_value"
definition get_u16 :: "byte_buffer \<Rightarrow> (u16 \<times> byte_buffer) res" where "get_u16 = read_value"
definition get_u32 :: "byte_buffer \<Rightarrow> (u32 \<times> byte_buffer) res" where "get_u32 = read_value"
definition get_u64 :: "byte_buffer \<Rightarrow> (u64 \<times> byte_buffer) res" where "get_u64 = read_value"
definition get_s8 :: "byte_buffer \<Rightarrow> (s8 \<times> byte_buffer) res" where "get_s8 = read_value"
definition get_s16 :: "byte_buffer \<Rightarrow> (s16 \<times> byte_buffer) res" where "get_s16 = read_value"
definition get_s32 :: "byte_buffer \<Rightarrow> (s32 \<times> byte_buffer) res" where "get_s32 = read_value"
definition get_s64 :: "byte_buffer \<Rightarrow> (s64 \<times> byte_buffer) res" where "get_s64 = read_value"
definition get_float :: "byte_buffer \<Rightarrow> (u32 \<times> byte_buffer) res" where "get_float = read_value"
definition get_double :: "byte_buffer \<Rightarrow> (u64 \<times> byte_buffer) res" where "get_double = read_value"

section \<open>Protobuf messages\<close>

text \<open>
  \<open>byte_size m\<close> is \<open>ByteSize()\<close>, \<open>serialize m n\<close> the bytes \<open>SerializeToArray(p, n)\<close> writes at \<open>p\<close> and
  its answer, \<open>parse cs n m\<close> the answer of \<open>ParseFromArray(p, n)\<close> with \<open>cs\<close> the memory at \<open>p\<close>, and the
  message after it. The \<open>int\<close> size is widened to \<open>size_t\<close>, and \<open>size()\<close> narrowed to \<open>int\<close>.
\<close>

definition ByteBuffer_CopyFrom ::
  "('m \<Rightarrow> s32) \<Rightarrow> ('m \<Rightarrow> s32 \<Rightarrow> u8 list \<times> bool) \<Rightarrow> byte_buffer \<Rightarrow> 'm \<Rightarrow> (bool \<times> byte_buffer) res" where
  "ByteBuffer_CopyFrom byte_size serialize b msg =
     (let n = byte_size msg
      in case ByteBuffer_wbuffer b (scast n) of (b, p) \<Rightarrow>
         case serialize msg n of (bs, rc) \<Rightarrow>
         seq (store (bb_buf b) p bs) (\<lambda>m.
         let b = b\<lparr>bb_buf := m\<rparr>
         in if rc then seq (ByteBuffer_wlength b (scast n)) (\<lambda>b. Inr (rc, b)) else Inr (rc, b)))"

definition ByteBuffer_CopyTo ::
  "(cells \<Rightarrow> s32 \<Rightarrow> 'm \<Rightarrow> bool \<times> 'm) \<Rightarrow> byte_buffer \<Rightarrow> 'm \<Rightarrow> (bool \<times> 'm) res" where
  "ByteBuffer_CopyTo parse b msg =
     seq (ByteBuffer_size b) (\<lambda>n. Inr (parse (drop (ByteBuffer_rbuffer b) (bb_buf b)) (ucast n) msg))"

definition new_ByteBuffer_of ::
  "('m \<Rightarrow> s32) \<Rightarrow> ('m \<Rightarrow> s32 \<Rightarrow> u8 list \<times> bool) \<Rightarrow> 'm \<Rightarrow> byte_buffer res" where
  "new_ByteBuffer_of byte_size serialize msg =
     seq (ByteBuffer_CopyFrom byte_size serialize (new_ByteBuffer 65535) msg) (\<lambda>(_, b). Inr b)"

section \<open>The invariant\<close>

definition bb_content :: "byte_buffer \<Rightarrow> u8 list" where
  "bb_content b = map the (take (unat (bb_windex b) - unat (bb_rindex b)) (drop (unat (bb_rindex b)) (bb_buf b)))"

text \<open>
  The capacity is the size of the block, the indices are in order, the bytes between them have been
  written, and an empty buffer starts over at the beginning of its block.
\<close>

definition bb_ok :: "byte_buffer \<Rightarrow> bool" where
  "bb_ok b \<longleftrightarrow> unat (bb_capacity b) = length (bb_buf b) \<and> length (bb_buf b) < 2 ^ 63
     \<and> unat (bb_rindex b) \<le> unat (bb_windex b) \<and> unat (bb_windex b) \<le> length (bb_buf b)
     \<and> None \<notin> set (take (unat (bb_windex b) - unat (bb_rindex b)) (drop (unat (bb_rindex b)) (bb_buf b)))
     \<and> (bb_rindex b = bb_windex b \<longrightarrow> bb_rindex b = 0)"

definition bb_room :: "byte_buffer \<Rightarrow> nat" where
  "bb_room b = 2 ^ 63 - 1 - length (bb_buf b)"

lemma bb_content_length: "bb_ok b \<Longrightarrow> length (bb_content b) = unat (bb_windex b) - unat (bb_rindex b)"
  by (auto simp: bb_ok_def bb_content_def)

lemma room_small:
  assumes "max n 512 \<le> bb_room b"
  shows "n < 2 ^ LENGTH(64)"
proof -
  have "n \<le> bb_room b" using assms by simp
  also have "\<dots> < 2 ^ LENGTH(64)" by (simp add: bb_room_def)
  finally show ?thesis .
qed

lemma reserve_ok:
  assumes b: "bb_ok b" and room: "max n 512 \<le> bb_room b"
  defines "b' \<equiv> ByteBuffer_reserve b (word_of_nat n)"
  shows "bb_ok b'" "bb_content b' = bb_content b" "bb_windex b' = bb_windex b" "bb_rindex b' = bb_rindex b"
    "unat (bb_windex b) + n \<le> length (bb_buf b')" "bb_room b \<le> bb_room b' + max n 512"
proof -
  have n: "unat (word_of_nat n :: u64) = n"
    using room by (intro unat_of_nat_small room_small)
  have small: "unat (ByteBuffer_blank b) = length (bb_buf b) - unat (bb_windex b)"
    using b by (auto simp: ByteBuffer_blank_def bb_ok_def unat_minus_le word_le_nat_alt word_less_nat_alt)
  let ?k = "max n 512"
  let ?w = "(if word_of_nat n < BUFFER_CHUNK_SIZE then BUFFER_CHUNK_SIZE else word_of_nat n) + bb_capacity b"
  have k: "unat (if word_of_nat n < BUFFER_CHUNK_SIZE then BUFFER_CHUNK_SIZE else word_of_nat n) = ?k"
    using n by (auto simp: BUFFER_CHUNK_SIZE_def word_less_nat_alt)
  have w: "unat ?w = length (bb_buf b) + ?k"
    using room b k by (subst unat_plus_small) (auto simp: bb_room_def bb_ok_def)
  have grown: "realloc (bb_buf b) ?w = bb_buf b @ replicate ?k None"
    using w room b by (subst realloc_grow) (auto simp: bb_room_def bb_ok_def)
  have cond: "word_of_nat n < ByteBuffer_blank b \<longleftrightarrow> n < length (bb_buf b) - unat (bb_windex b)"
    using n small by (simp add: word_less_nat_alt)
  consider (keep) "n < length (bb_buf b) - unat (bb_windex b)" "b' = b"
    | (grow) "\<not> n < length (bb_buf b) - unat (bb_windex b)"
        "b' = b\<lparr>bb_buf := bb_buf b @ replicate ?k None, bb_capacity := ?w\<rparr>"
    unfolding b'_def ByteBuffer_reserve_def cond Let_def grown by (auto split: if_splits)
  then have "bb_ok b' \<and> bb_content b' = bb_content b \<and> bb_windex b' = bb_windex b \<and> bb_rindex b' = bb_rindex b
    \<and> unat (bb_windex b) + n \<le> length (bb_buf b') \<and> bb_room b \<le> bb_room b' + max n 512"
  proof cases
    case keep
    then show ?thesis using b by (auto simp: bb_ok_def)
  next
    case grow
    have "unat (bb_capacity b') = length (bb_buf b')" using w grow(2) by simp
    moreover have "length (bb_buf b') < 2 ^ 63" unfolding grow(2) using room b by (auto simp: bb_room_def bb_ok_def max_def split: if_splits)
    moreover have "take (unat (bb_windex b) - unat (bb_rindex b)) (drop (unat (bb_rindex b)) (bb_buf b'))
      = take (unat (bb_windex b) - unat (bb_rindex b)) (drop (unat (bb_rindex b)) (bb_buf b))"
      using b grow(2) by (auto simp: bb_ok_def)
    ultimately show ?thesis using b room grow(2)
      by (simp add: bb_ok_def bb_content_def bb_room_def add_mono del: max.bounded_iff)
  qed
  then show "bb_ok b'" "bb_content b' = bb_content b" "bb_windex b' = bb_windex b" "bb_rindex b' = bb_rindex b"
    "unat (bb_windex b) + n \<le> length (bb_buf b')" "bb_room b \<le> bb_room b' + max n 512"
    by blast+
qed

lemma set_take_drop_append:
  assumes "r \<le> w" "w + length s \<le> length m"
  shows "take (w + length s - r) (drop r (take w m @ map Some s @ drop (w + length s) m))
     = take (w - r) (drop r m) @ map Some s"
proof -
  have "drop r (take w m @ map Some s @ drop (w + length s) m) = (take (w - r) (drop r m) @ map Some s) @ drop (w + length s) m"
    using assms by (simp add: drop_take)
  moreover have "length (take (w - r) (drop r m) @ map Some s) = w + length s - r" using assms by simp
  ultimately show ?thesis by (metis append_eq_conv_conj)
qed

text \<open>Bytes written after the last one, and then counted by \<open>wlength\<close>, extend the contents.\<close>

lemma fill_ok:
  assumes b: "bb_ok b" and fits: "unat (bb_windex b) + length s \<le> length (bb_buf b)"
  defines "m \<equiv> take (unat (bb_windex b)) (bb_buf b) @ map Some s @ drop (unat (bb_windex b) + length s) (bb_buf b)"
  shows "\<exists>b'. ByteBuffer_wlength (b\<lparr>bb_buf := m\<rparr>) (word_of_nat (length s)) = Inr b' \<and> bb_ok b'
     \<and> bb_content b' = bb_content b @ s \<and> bb_room b' = bb_room b"
proof -
  let ?n = "length s"
  let ?c = "b\<lparr>bb_buf := m, bb_windex := bb_windex b + word_of_nat ?n\<rparr>"
  have len: "length m = length (bb_buf b)" using fits by (simp add: m_def)
  have small: "length (bb_buf b) < 2 ^ 63" using b by (simp add: bb_ok_def)
  then have "?n < 2 ^ LENGTH(64)" using fits by simp
  then have n: "unat (word_of_nat ?n :: u64) = ?n" by (rule unat_of_nat_small)
  have w: "unat (bb_windex b + word_of_nat ?n) = unat (bb_windex b) + ?n"
    using fits n small by (subst unat_plus_small) auto
  have ok: "unat (bb_rindex b) \<le> unat (bb_windex b)" using b by (simp add: bb_ok_def)
  have mid: "take (unat (bb_windex b) + ?n - unat (bb_rindex b)) (drop (unat (bb_rindex b)) m)
     = take (unat (bb_windex b) - unat (bb_rindex b)) (drop (unat (bb_rindex b)) (bb_buf b)) @ map Some s"
    unfolding m_def by (rule set_take_drop_append [OF ok fits])
  have "ByteBuffer_wlength (b\<lparr>bb_buf := m\<rparr>) (word_of_nat ?n) = Inr ?c"
    using b w fits by (simp add: ByteBuffer_wlength_def bb_ok_def word_le_nat_alt)
  moreover have "bb_content ?c = bb_content b @ s"
    using mid w by (simp add: bb_content_def comp_def)
  moreover have "bb_ok ?c"
  proof -
    have "bb_rindex b = bb_windex b + word_of_nat ?n \<longrightarrow> bb_rindex b = 0"
    proof
      assume "bb_rindex b = bb_windex b + word_of_nat ?n"
      then have "unat (bb_rindex b) = unat (bb_windex b)" using w ok by simp
      then show "bb_rindex b = 0" using b by (simp add: bb_ok_def word_unat_eq_iff)
    qed
    moreover have "None \<notin> set (take (unat (bb_windex b) + ?n - unat (bb_rindex b)) (drop (unat (bb_rindex b)) m))"
      unfolding mid using b by (auto simp: bb_ok_def)
    ultimately show ?thesis using b w len ok fits by (simp add: bb_ok_def)
  qed
  moreover have "bb_room ?c = bb_room b" using len by (simp add: bb_room_def)
  ultimately show ?thesis by auto
qed

lemma append_ok:
  assumes b: "bb_ok b" and room: "max (length s) 512 \<le> bb_room b"
  shows "\<exists>b'. ByteBuffer_append b s (word_of_nat (length s)) = Inr b' \<and> bb_ok b' \<and> bb_content b' = bb_content b @ s
     \<and> bb_room b \<le> bb_room b' + max (length s) 512"
proof -
  note r = reserve_ok [OF b room]
  have n: "unat (word_of_nat (length s) :: u64) = length s"
    using room by (intro unat_of_nat_small room_small)
  show ?thesis
    using fill_ok [of "ByteBuffer_reserve b (word_of_nat (length s))" s] r n
    by (auto simp: ByteBuffer_append_def ByteBuffer_wbuffer_def Let_def store_Inr)
qed

lemma rlength_ok:
  assumes b: "bb_ok b" and n: "unat len \<le> length (bb_content b)"
  shows "\<exists>b'. ByteBuffer_rlength b len = Inr b' \<and> bb_ok b' \<and> bb_content b' = drop (unat len) (bb_content b)
     \<and> bb_buf b' = bb_buf b"
proof -
  have r: "unat (bb_rindex b + len) = unat (bb_rindex b) + unat len"
    using b n by (subst unat_plus_small) (auto simp: bb_content_length bb_ok_def)
  have le: "unat (bb_rindex b) + unat len \<le> unat (bb_windex b)"
    using b n by (auto simp: bb_content_length bb_ok_def)
  let ?c = "b\<lparr>bb_rindex := bb_rindex b + len\<rparr>"
  have c: "bb_content ?c = drop (unat len) (bb_content b)"
    using le r by (simp add: bb_content_def drop_map drop_take add.commute)
  have written: "None \<notin> set (take (unat (bb_windex b) - (unat (bb_rindex b) + unat len)) (drop (unat (bb_rindex b) + unat len) (bb_buf b)))"
  proof -
    have "take (unat (bb_windex b) - (unat (bb_rindex b) + unat len)) (drop (unat (bb_rindex b) + unat len) (bb_buf b))
      = drop (unat len) (take (unat (bb_windex b) - unat (bb_rindex b)) (drop (unat (bb_rindex b)) (bb_buf b)))"
      by (simp add: drop_take add.commute)
    then show ?thesis using b by (auto simp: bb_ok_def dest: in_set_dropD)
  qed
  show ?thesis
  proof (cases "bb_rindex b + len = bb_windex b")
    case True
    then have "ByteBuffer_rlength b len = Inr (b\<lparr>bb_rindex := 0, bb_windex := 0\<rparr>)"
      by (simp add: ByteBuffer_rlength_def ByteBuffer_shrink_def ByteBuffer_size_def ByteBuffer_reset_def)
    moreover have "bb_ok (b\<lparr>bb_rindex := 0, bb_windex := 0\<rparr>)" using b by (simp add: bb_ok_def)
    moreover have "length (bb_content b) \<le> unat len"
      using True r by (simp add: bb_content_length [OF b])
    ultimately show ?thesis by (auto simp: bb_content_def)
  next
    case False
    then have "ByteBuffer_rlength b len = Inr ?c"
      using le r by (simp add: ByteBuffer_rlength_def ByteBuffer_shrink_def ByteBuffer_size_def word_le_nat_alt)
    moreover have "bb_ok ?c" using False b le r written by (simp add: bb_ok_def)
    ultimately show ?thesis using c by auto
  qed
qed

lemma content_cells:
  "bb_ok b \<Longrightarrow> n \<le> length (bb_content b) \<Longrightarrow>
     load (bb_buf b) (unat (bb_rindex b)) n = Inr (map Some (take n (bb_content b)))"
proof -
  assume b: "bb_ok b" and n: "n \<le> length (bb_content b)"
  have le: "unat (bb_rindex b) + n \<le> length (bb_buf b)"
    using b n by (auto simp: bb_content_length bb_ok_def)
  let ?cs = "take (unat (bb_windex b) - unat (bb_rindex b)) (drop (unat (bb_rindex b)) (bb_buf b))"
  have "None \<notin> set ?cs" using b by (simp add: bb_ok_def)
  then have "map Some (map the ?cs) = ?cs" by (rule map_Some_the)
  then have "take n (map Some (bb_content b)) = take n ?cs" by (simp add: bb_content_def)
  moreover have "take n ?cs = take n (drop (unat (bb_rindex b)) (bb_buf b))"
    using b n by (simp add: bb_content_length min_def)
  ultimately show ?thesis using le by (simp add: load_Inr take_map)
qed

lemma read_ok:
  assumes b: "bb_ok b" and n: "unat len \<le> length (bb_content b)"
  shows "\<exists>b'. ByteBuffer_read b len = Inr (map Some (take (unat len) (bb_content b)), b') \<and> bb_ok b'
     \<and> bb_content b' = drop (unat len) (bb_content b) \<and> bb_buf b' = bb_buf b"
  using rlength_ok [OF assms] content_cells [OF assms] by (auto simp: ByteBuffer_read_def ByteBuffer_rbuffer_def)

section \<open>The contract of a byte queue\<close>

text \<open>
  What a user of the class relies on: bytes are appended at one end while there is room, and taken
  from the other end when there are enough of them. Every operation costs at most the number of
  bytes appended, and never less than a chunk of 512.
\<close>

locale byte_queue =
  fixes content :: "'b \<Rightarrow> u8 list"
    and valid :: "'b \<Rightarrow> bool"
    and room :: "'b \<Rightarrow> nat"
    and add :: "'b \<Rightarrow> u8 list \<Rightarrow> 'b res"
    and take_out :: "'b \<Rightarrow> nat \<Rightarrow> (u8 list \<times> 'b) res"
  assumes add_ok: "valid b \<Longrightarrow> max (length s) 512 \<le> room b \<Longrightarrow>
      \<exists>b'. add b s = Inr b' \<and> valid b' \<and> content b' = content b @ s \<and> room b \<le> room b' + max (length s) 512"
    and take_out_ok: "valid b \<Longrightarrow> n \<le> length (content b) \<Longrightarrow>
      \<exists>b'. take_out b n = Inr (take n (content b), b') \<and> valid b' \<and> content b' = drop n (content b) \<and> room b' = room b"
begin

definition cost :: "u8 list list \<Rightarrow> nat" where
  "cost ss = sum_list (map (\<lambda>s. max (length s) 512) ss)"

fun add_all :: "'b \<Rightarrow> u8 list list \<Rightarrow> 'b res" where
  "add_all b [] = Inr b"
| "add_all b (s # ss) = seq (add b s) (\<lambda>b. add_all b ss)"

fun take_all :: "'b \<Rightarrow> nat list \<Rightarrow> (u8 list list \<times> 'b) res" where
  "take_all b [] = Inr ([], b)"
| "take_all b (n # ns) = seq (take_out b n) (\<lambda>(x, b). seq (take_all b ns) (\<lambda>(xs, b). Inr (x # xs, b)))"

lemma add_all_ok:
  "valid b \<Longrightarrow> cost ss \<le> room b \<Longrightarrow>
     \<exists>b'. add_all b ss = Inr b' \<and> valid b' \<and> content b' = content b @ concat ss \<and> room b \<le> room b' + cost ss"
proof (induction ss arbitrary: b)
  case (Cons s ss)
  obtain b1 where b1: "add b s = Inr b1" "valid b1" "content b1 = content b @ s" "room b \<le> room b1 + max (length s) 512"
    using add_ok [OF Cons.prems(1), of s] Cons.prems(2) by (auto simp: cost_def simp del: max.bounded_iff)
  have "cost ss \<le> room b1" using Cons.prems(2) b1(4) by (simp add: cost_def)
  then obtain b2 where "add_all b1 ss = Inr b2" "valid b2" "content b2 = content b1 @ concat ss" "room b1 \<le> room b2 + cost ss"
    using Cons.IH [OF b1(2)] by blast
  then show ?case using b1 by (auto simp: cost_def)
qed (auto simp: cost_def)

lemma take_all_ok:
  "valid b \<Longrightarrow> content b = concat ss @ rest \<Longrightarrow>
     \<exists>b'. take_all b (map length ss) = Inr (ss, b') \<and> valid b' \<and> content b' = rest \<and> room b' = room b"
proof (induction ss arbitrary: b)
  case (Cons s ss)
  obtain b1 where b1: "take_out b (length s) = Inr (s, b1)" "valid b1" "content b1 = concat ss @ rest" "room b1 = room b"
    using take_out_ok [OF Cons.prems(1), of "length s"] Cons.prems(2) by auto
  then show ?case using Cons.IH [OF b1(2,3)] by auto
qed simp

lemma fifo:
  assumes "valid b" "content b = []" "cost ss \<le> room b"
  shows "\<exists>b'. seq (add_all b ss) (\<lambda>b. take_all b (map length ss)) = Inr (ss, b') \<and> valid b' \<and> content b' = []"
proof -
  obtain b1 where "add_all b ss = Inr b1" "valid b1" "content b1 = concat ss @ []"
    using add_all_ok [OF assms(1,3)] assms(2) by auto
  then show ?thesis using take_all_ok [of b1 ss "[]"] by auto
qed

end

text \<open>The class keeps this contract.\<close>

definition bb_add :: "byte_buffer \<Rightarrow> u8 list \<Rightarrow> byte_buffer res" where
  "bb_add b s = ByteBuffer_append b s (word_of_nat (length s))"

definition bb_take :: "byte_buffer \<Rightarrow> nat \<Rightarrow> (u8 list \<times> byte_buffer) res" where
  "bb_take b n = seq (ByteBuffer_read b (word_of_nat n)) (\<lambda>(cs, b). seq (written cs) (\<lambda>bs. Inr (bs, b)))"

interpretation bytes: byte_queue bb_content bb_ok bb_room bb_add bb_take
proof
  fix b :: byte_buffer and s :: "u8 list"
  assume "bb_ok b" "max (length s) 512 \<le> bb_room b"
  then show "\<exists>b'. bb_add b s = Inr b' \<and> bb_ok b' \<and> bb_content b' = bb_content b @ s \<and> bb_room b \<le> bb_room b' + max (length s) 512"
    unfolding bb_add_def by (rule append_ok)
next
  fix b n
  assume b: "bb_ok b" and n: "n \<le> length (bb_content b)"
  have "n < 2 ^ LENGTH(64)"
    using n by (rule le_less_trans) (use b in \<open>auto simp: bb_content_length bb_ok_def\<close>)
  then have u: "unat (word_of_nat n :: u64) = n" by (rule unat_of_nat_small)
  then show "\<exists>b'. bb_take b n = Inr (take n (bb_content b), b') \<and> bb_ok b' \<and> bb_content b' = drop n (bb_content b) \<and> bb_room b' = bb_room b"
    using read_ok [OF b, of "word_of_nat n"] n by (auto simp: bb_take_def bb_room_def)
qed

lemma new_ByteBuffer_ok:
  assumes "unat n < 2 ^ 63"
  shows "bb_ok (new_ByteBuffer n)" "bb_content (new_ByteBuffer n) = []"
    "bb_room (new_ByteBuffer n) = 2 ^ 63 - 1 - max (unat n) 512"
proof -
  have "ByteBuffer_blank \<lparr>bb_buf = [], bb_capacity = 0, bb_rindex = 0, bb_windex = 0\<rparr> = 0"
    by (simp add: ByteBuffer_blank_def)
  then have new: "new_ByteBuffer n = (let k = (if n < BUFFER_CHUNK_SIZE then BUFFER_CHUNK_SIZE else n)
     in \<lparr>bb_buf = realloc [] k, bb_capacity = k, bb_rindex = 0, bb_windex = 0\<rparr>)"
    by (simp add: new_ByteBuffer_def ByteBuffer_reserve_def Let_def)
  have k: "unat (if n < BUFFER_CHUNK_SIZE then BUFFER_CHUNK_SIZE else n) = max (unat n) 512"
    by (simp add: BUFFER_CHUNK_SIZE_def word_less_nat_alt max_def)
  have small: "max (unat n) 512 < 2 ^ 63" using assms by simp
  show "bb_ok (new_ByteBuffer n)" "bb_content (new_ByteBuffer n) = []"
    "bb_room (new_ByteBuffer n) = 2 ^ 63 - 1 - max (unat n) 512"
    using small k by (simp_all add: new Let_def bb_ok_def bb_content_def bb_room_def length_realloc)
qed

lemma new_ByteBuffer_room:
  assumes "unat n < 2 ^ 62" "k < 2 ^ 62"
  shows "k \<le> bb_room (new_ByteBuffer n)"
proof -
  have small: "unat n < 2 ^ 63" using assms(1) by simp
  have "k + max (unat n) 512 \<le> 9223372036854775807" using assms by (simp add: max_def)
  then show ?thesis unfolding new_ByteBuffer_ok(3) [OF small] by simp
qed

section \<open>Any sequence of operations\<close>

lemma read_fails:
  assumes "bb_ok b" "length (bb_content b) < unat len"
  shows "\<exists>e. ByteBuffer_read b len = Inl e"
proof (cases "unat (bb_rindex b) + unat len \<le> length (bb_buf b)")
  case True
  then have "unat (bb_rindex b + len) = unat (bb_rindex b) + unat len"
    using assms(1) by (subst unat_plus_small) (auto simp: bb_ok_def)
  then show ?thesis using assms True
    by (auto simp: ByteBuffer_read_def ByteBuffer_rlength_def load_def ByteBuffer_rbuffer_def Let_def check_def
        word_le_nat_alt bb_content_length)
qed (simp add: ByteBuffer_read_def load_def ByteBuffer_rbuffer_def)

datatype buffer_op = Append "u8 list" | Read u64

fun run_buffer :: "byte_buffer \<Rightarrow> buffer_op list \<Rightarrow> (u8 list list \<times> byte_buffer) res" where
  "run_buffer b [] = Inr ([], b)"
| "run_buffer b (Append s # ops) = seq (ByteBuffer_append b s (word_of_nat (length s))) (\<lambda>b. run_buffer b ops)"
| "run_buffer b (Read n # ops) =
     seq (ByteBuffer_read b n) (\<lambda>(cs, b). seq (written cs) (\<lambda>bs.
     seq (run_buffer b ops) (\<lambda>(out, b). Inr (bs # out, b))))"

text \<open>The abstract queue: a list of bytes; a read of more than there is has no result.\<close>

fun run_queue :: "u8 list \<Rightarrow> buffer_op list \<Rightarrow> (u8 list list \<times> u8 list) option" where
  "run_queue q [] = Some ([], q)"
| "run_queue q (Append s # ops) = run_queue (q @ s) ops"
| "run_queue q (Read n # ops) =
     (if length q < unat n then None
      else map_option (\<lambda>(out, q'). (take (unat n) q # out, q')) (run_queue (drop (unat n) q) ops))"

fun op_cost :: "buffer_op \<Rightarrow> nat" where
  "op_cost (Append s) = max (length s) 512"
| "op_cost (Read n) = 0"

lemma run_buffer_queue:
  "bb_ok b \<Longrightarrow> sum_list (map op_cost ops) \<le> bb_room b \<Longrightarrow>
     (case run_queue (bb_content b) ops of
        None \<Rightarrow> \<exists>e. run_buffer b ops = Inl e
      | Some (out, q) \<Rightarrow> \<exists>b'. run_buffer b ops = Inr (out, b') \<and> bb_content b' = q \<and> bb_ok b')"
proof (induction ops arbitrary: b)
  case (Cons x ops)
  show ?case
  proof (cases x)
    case (Append s)
    have "max (length s) 512 \<le> bb_room b" using Cons.prems(2) Append by (simp del: max.bounded_iff)
    then obtain b1 where b1: "ByteBuffer_append b s (word_of_nat (length s)) = Inr b1" "bb_ok b1"
      "bb_content b1 = bb_content b @ s" "bb_room b \<le> bb_room b1 + max (length s) 512"
      using append_ok [OF Cons.prems(1)] by blast
    have "sum_list (map op_cost ops) \<le> bb_room b1" using Cons.prems(2) b1(4) Append by simp
    then show ?thesis using Cons.IH [OF b1(2)] b1 Append by (auto split: option.splits)
  next
    case (Read n)
    show ?thesis
    proof (cases "length (bb_content b) < unat n")
      case True
      then show ?thesis using read_fails [OF Cons.prems(1) True] Read by auto
    next
      case False
      then obtain b1 where b1: "ByteBuffer_read b n = Inr (map Some (take (unat n) (bb_content b)), b1)" "bb_ok b1"
        "bb_content b1 = drop (unat n) (bb_content b)" "bb_buf b1 = bb_buf b"
        using read_ok [OF Cons.prems(1), of n] by auto
      have "sum_list (map op_cost ops) \<le> bb_room b1" using Cons.prems(2) b1(4) Read by (simp add: bb_room_def)
      then show ?thesis using Cons.IH [OF b1(2)] b1 Read False by (auto split: option.splits)
    qed
  qed
qed simp

text \<open>
  C12. The class refines the abstract queue: for every sequence of appends and reads on a new buffer
  that needs less than \<open>2 ^ 63\<close> bytes, the bytes read are those the list of bytes gives, and the
  buffer ends with the contents of the list; a read of more bytes than there are never returns
  (an assertion fails or the read leaves the block), and nothing else ever fails.
\<close>

theorem bytebuffer_refines_queue:
  assumes "unat n < 2 ^ 62" "sum_list (map op_cost ops) < 2 ^ 62"
  shows "case run_queue [] ops of
        None \<Rightarrow> \<exists>e. run_buffer (new_ByteBuffer n) ops = Inl e
      | Some (out, q) \<Rightarrow> \<exists>b. run_buffer (new_ByteBuffer n) ops = Inr (out, b) \<and> bb_content b = q
          \<and> ByteBuffer_size b = Inr (word_of_nat (length q))"
proof -
  have small: "unat n < 2 ^ 63" using assms(1) by simp
  have "sum_list (map op_cost ops) \<le> bb_room (new_ByteBuffer n)"
    by (rule new_ByteBuffer_room [OF assms])
  note r = run_buffer_queue [OF new_ByteBuffer_ok(1) [OF small] this, unfolded new_ByteBuffer_ok(2) [OF small]]
  have "ByteBuffer_size b = Inr (word_of_nat (length (bb_content b)))" if "bb_ok b" for b
    using that bb_content_length [OF that]
    by (simp add: ByteBuffer_size_def bb_ok_def word_le_nat_alt of_nat_diff)
  then show ?thesis using r by (fastforce split: option.splits)
qed

theorem bytebuffer_refines_queue_witness:
  "case run_queue [] [Append [1, 2, 3], Read 2, Append [4], Read 1] of
        None \<Rightarrow> \<exists>e. run_buffer (new_ByteBuffer 16) [Append [1, 2, 3], Read 2, Append [4], Read 1] = Inl e
      | Some (out, q) \<Rightarrow> \<exists>b. run_buffer (new_ByteBuffer 16) [Append [1, 2, 3], Read 2, Append [4], Read 1] = Inr (out, b)
          \<and> bb_content b = q \<and> ByteBuffer_size b = Inr (word_of_nat (length q))"
  by (rule bytebuffer_refines_queue) simp_all

section \<open>Typed values\<close>

text \<open>A value given to one of the stream operators, and the operator that reads a value of its type.\<close>

datatype item =
    I_bool bool | I_u8 u8 | I_u16 u16 | I_u32 u32 | I_u64 u64
  | I_s8 s8 | I_s16 s16 | I_s32 s32 | I_s64 s64 | I_float u32 | I_double u64

fun put_item :: "byte_buffer \<Rightarrow> item \<Rightarrow> byte_buffer res" where
  "put_item b (I_bool v) = put_bool b v"
| "put_item b (I_u8 v) = put_u8 b v"
| "put_item b (I_u16 v) = put_u16 b v"
| "put_item b (I_u32 v) = put_u32 b v"
| "put_item b (I_u64 v) = put_u64 b v"
| "put_item b (I_s8 v) = put_s8 b v"
| "put_item b (I_s16 v) = put_s16 b v"
| "put_item b (I_s32 v) = put_s32 b v"
| "put_item b (I_s64 v) = put_s64 b v"
| "put_item b (I_float v) = put_float b v"
| "put_item b (I_double v) = put_double b v"

fun get_like :: "item \<Rightarrow> byte_buffer \<Rightarrow> (item \<times> byte_buffer) res" where
  "get_like (I_bool _) b = seq (get_bool b) (\<lambda>(v, b). Inr (I_bool v, b))"
| "get_like (I_u8 _) b = seq (get_u8 b) (\<lambda>(v, b). Inr (I_u8 v, b))"
| "get_like (I_u16 _) b = seq (get_u16 b) (\<lambda>(v, b). Inr (I_u16 v, b))"
| "get_like (I_u32 _) b = seq (get_u32 b) (\<lambda>(v, b). Inr (I_u32 v, b))"
| "get_like (I_u64 _) b = seq (get_u64 b) (\<lambda>(v, b). Inr (I_u64 v, b))"
| "get_like (I_s8 _) b = seq (get_s8 b) (\<lambda>(v, b). Inr (I_s8 v, b))"
| "get_like (I_s16 _) b = seq (get_s16 b) (\<lambda>(v, b). Inr (I_s16 v, b))"
| "get_like (I_s32 _) b = seq (get_s32 b) (\<lambda>(v, b). Inr (I_s32 v, b))"
| "get_like (I_s64 _) b = seq (get_s64 b) (\<lambda>(v, b). Inr (I_s64 v, b))"
| "get_like (I_float _) b = seq (get_float b) (\<lambda>(v, b). Inr (I_float v, b))"
| "get_like (I_double _) b = seq (get_double b) (\<lambda>(v, b). Inr (I_double v, b))"

fun item_bytes :: "item \<Rightarrow> u8 list" where
  "item_bytes (I_bool v) = [if v then 1 else 0]"
| "item_bytes (I_u8 v) = to_le v"
| "item_bytes (I_u16 v) = to_le v"
| "item_bytes (I_u32 v) = to_le v"
| "item_bytes (I_u64 v) = to_le v"
| "item_bytes (I_s8 v) = to_le v"
| "item_bytes (I_s16 v) = to_le v"
| "item_bytes (I_s32 v) = to_le v"
| "item_bytes (I_s64 v) = to_le v"
| "item_bytes (I_float v) = to_le v"
| "item_bytes (I_double v) = to_le v"

lemmas put_defs = put_bool_def put_u8_def put_u16_def put_u32_def put_u64_def put_s8_def put_s16_def
  put_s32_def put_s64_def put_float_def put_double_def

lemmas get_defs = get_bool_def get_u8_def get_u16_def get_u32_def get_u64_def get_s8_def get_s16_def
  get_s32_def get_s64_def get_float_def get_double_def

lemma put_item_add: "put_item b it = bb_add b (item_bytes it)"
  by (cases it) (simp_all add: put_defs append_value_def bb_add_def to_le_def)

lemma item_width: "length (item_bytes it) \<le> 8"
  by (cases it) simp_all

fun put_items :: "byte_buffer \<Rightarrow> item list \<Rightarrow> byte_buffer res" where
  "put_items b [] = Inr b"
| "put_items b (it # its) = seq (put_item b it) (\<lambda>b. put_items b its)"

fun get_items :: "item list \<Rightarrow> byte_buffer \<Rightarrow> (item list \<times> byte_buffer) res" where
  "get_items [] b = Inr ([], b)"
| "get_items (it # its) b = seq (get_like it b) (\<lambda>(v, b). seq (get_items its b) (\<lambda>(vs, b). Inr (v # vs, b)))"

lemma put_items_add_all: "put_items b its = bytes.add_all b (map item_bytes its)"
  by (induction its arbitrary: b) (simp_all add: put_item_add)

lemma read_value_ok:
  assumes "bb_ok b" "bb_content b = to_le (v :: 'a :: len word) @ rest" "8 dvd LENGTH('a)" "LENGTH('a) div 8 < 2 ^ 64"
  shows "\<exists>b'. read_value b = Inr (v, b') \<and> bb_ok b' \<and> bb_content b' = rest"
proof -
  let ?n = "LENGTH('a) div 8"
  have u: "unat (word_of_nat ?n :: u64) = ?n" using assms(4) by (intro unat_of_nat_small) simp
  have n: "?n \<le> length (bb_content b)" using assms(2) by simp
  obtain b' where "ByteBuffer_rlength b (word_of_nat ?n) = Inr b'" "bb_ok b'" "bb_content b' = rest"
    using rlength_ok [OF assms(1), of "word_of_nat ?n"] u n assms(2) by auto
  then show ?thesis
    using content_cells [OF assms(1) n] assms(2,3) by (simp add: read_value_def ByteBuffer_rbuffer_def)
qed

lemma get_like_ok:
  assumes "bb_ok b" "bb_content b = item_bytes it @ rest"
  shows "\<exists>b'. get_like it b = Inr (it, b') \<and> bb_ok b' \<and> bb_content b' = rest"
proof (cases it)
  case (I_bool v)
  have "bb_content b = to_le (if v then 1 else 0 :: u8) @ rest" using assms I_bool by (simp add: to_le_def)
  from read_value_ok [OF assms(1) this] obtain b' where
    "read_value b = Inr (if v then 1 else 0 :: u8, b')" "bb_ok b'" "bb_content b' = rest" by auto
  then show ?thesis using I_bool by (auto simp: get_bool_def)
qed (use read_value_ok [OF assms(1)] assms(2) in \<open>fastforce simp: get_defs\<close>)+

lemma get_items_ok:
  "bb_ok b \<Longrightarrow> bb_content b = concat (map item_bytes its) @ rest \<Longrightarrow>
     \<exists>b'. get_items its b = Inr (its, b') \<and> bb_ok b' \<and> bb_content b' = rest"
proof (induction its arbitrary: b)
  case (Cons it its)
  obtain b1 where b1: "get_like it b = Inr (it, b1)" "bb_ok b1" "bb_content b1 = concat (map item_bytes its) @ rest"
    using get_like_ok [OF Cons.prems(1), of it] Cons.prems(2) by auto
  then show ?case using Cons.IH [OF b1(2,3)] by auto
qed simp

lemma cost_items: "bytes.cost (map item_bytes its) = 512 * length its"
proof -
  have "max (length (item_bytes it)) 512 = 512" for it using item_width [of it] by simp
  then show ?thesis by (induction its) (simp_all add: bytes.cost_def)
qed

text \<open>
  C32. Typed values written with \<open>operator<<\<close> are read back by the \<open>operator>>\<close> of the same types, in
  order, and leave the buffer empty; 512 bytes of room for each value are enough.
\<close>

theorem bytebuffer_items_roundtrip:
  assumes "unat n < 2 ^ 62" "length its < 2 ^ 50"
  shows "\<exists>b. seq (put_items (new_ByteBuffer n) its) (get_items its) = Inr (its, b) \<and> bb_content b = []"
proof -
  have small: "unat n < 2 ^ 63" using assms(1) by simp
  have "bytes.cost (map item_bytes its) \<le> bb_room (new_ByteBuffer n)"
    by (rule new_ByteBuffer_room [OF assms(1)]) (use assms(2) in \<open>simp add: cost_items\<close>)
  then obtain b1 where "put_items (new_ByteBuffer n) its = Inr b1" "bb_ok b1"
    "bb_content b1 = concat (map item_bytes its) @ []"
    using bytes.add_all_ok [OF new_ByteBuffer_ok(1) [OF small]] new_ByteBuffer_ok(2) [OF small]
    by (auto simp: put_items_add_all)
  then show ?thesis using get_items_ok [of b1 its "[]"] by auto
qed

theorem bytebuffer_items_roundtrip_witness:
  "\<exists>b. seq (put_items (new_ByteBuffer 0) [I_u16 0x1234, I_bool True, I_s64 (- 1)]) (get_items [I_u16 0x1234, I_bool True, I_s64 (- 1)])
     = Inr ([I_u16 0x1234, I_bool True, I_s64 (- 1)], b) \<and> bb_content b = []"
  by (rule bytebuffer_items_roundtrip) simp_all

section \<open>Messages\<close>

lemma scast_small: "unat (w :: s32) < 2 ^ 31 \<Longrightarrow> (scast w :: u64) = word_of_nat (unat w)"
proof -
  assume "unat w < 2 ^ 31"
  then have "int (unat w) < int (2 ^ 31)" by (simp only: of_nat_less_iff)
  then have "uint w < 2 ^ 31" by simp
  moreover have "- (2 ^ 31) \<le> uint w" by (rule order_trans [OF _ unsigned_greater_eq]) simp
  ultimately have "sint w = uint w"
    by (simp add: sint_uint signed_take_bit_int_eq_self_iff)
  then show ?thesis unfolding scast_eq by simp
qed

lemma CopyFrom_ok:
  assumes b: "bb_ok b" and size: "unat (byte_size m) < 2 ^ 31" and room: "max (unat (byte_size m)) 512 \<le> bb_room b"
    and ser: "serialize m (byte_size m) = (bs, True)" "length bs = unat (byte_size m)"
  shows "\<exists>b'. ByteBuffer_CopyFrom byte_size serialize b m = Inr (True, b') \<and> bb_ok b' \<and> bb_content b' = bb_content b @ bs"
proof -
  have u: "unat (word_of_nat (length bs) :: u64) = length bs"
    using size ser(2) by (intro unat_of_nat_small) simp
  have "ByteBuffer_CopyFrom byte_size serialize b m
    = seq (ByteBuffer_append b bs (word_of_nat (length bs))) (\<lambda>b. Inr (True, b))"
    using ser(1) u
    by (simp add: ByteBuffer_CopyFrom_def ByteBuffer_append_def scast_small [OF size] ser(2) [symmetric] Let_def
        seq_assoc split: prod.split)
  then show ?thesis using append_ok [OF b, of bs] room ser(2) by auto
qed

text \<open>
  A message put into a new buffer by the constructor is parsed back from it, for every message
  library whose \<open>SerializeToArray\<close> fills the \<open>ByteSize()\<close> bytes it is given and whose
  \<open>ParseFromArray\<close> reads them back.
\<close>

theorem message_roundtrip:
  assumes "unat (byte_size m) < 2 ^ 31" "serialize m (byte_size m) = (bs, True)" "length bs = unat (byte_size m)"
    and "\<And>rest. parse (map Some bs @ rest) (byte_size m) d = (True, m)"
  shows "\<exists>b. new_ByteBuffer_of byte_size serialize m = Inr b \<and> ByteBuffer_CopyTo parse b d = Inr (True, m)"
proof -
  let ?b = "new_ByteBuffer 65535"
  have room: "max (unat (byte_size m)) 512 \<le> bb_room ?b"
    by (rule new_ByteBuffer_room) (use assms(1) in \<open>simp_all add: max_def\<close>)
  obtain b where b: "ByteBuffer_CopyFrom byte_size serialize ?b m = Inr (True, b)" "bb_ok b" "bb_content b = bs"
    using CopyFrom_ok [of ?b byte_size m serialize, OF _ assms(1) room assms(2,3)] new_ByteBuffer_ok(1,2) [of 65535] by auto
  have n: "ByteBuffer_size b = Inr (word_of_nat (length bs))"
    using bb_content_length [OF b(2)] b(2,3)
    by (simp add: ByteBuffer_size_def bb_ok_def word_le_nat_alt of_nat_diff)
  have "drop (unat (bb_rindex b)) (bb_buf b) = map Some bs @ drop (length bs) (drop (unat (bb_rindex b)) (bb_buf b))"
    using content_cells [OF b(2), of "length bs"] b(3)
    by (auto simp: load_def split: if_splits) (metis append_take_drop_id drop_drop add.commute)
  moreover have "ucast (word_of_nat (length bs) :: u64) = byte_size m"
    using assms(1,3) by (simp add: word_unat_eq_iff unsigned_ucast_eq unat_of_nat take_bit_nat_eq_self take_bit_word_eq_self)
  ultimately have "ByteBuffer_CopyTo parse b d = Inr (True, m)"
    using n assms(4) by (simp add: ByteBuffer_CopyTo_def ByteBuffer_rbuffer_def)
  then show ?thesis using b(1) by (simp add: new_ByteBuffer_of_def)
qed

theorem message_roundtrip_witness:
  "\<exists>b. new_ByteBuffer_of (\<lambda>m. word_of_nat (length m)) (\<lambda>m n. (m, True)) [7, 8] = Inr b
     \<and> ByteBuffer_CopyTo (\<lambda>cs n d. (True, map the (take (unat n) cs))) b [] = Inr (True, [7, 8 :: u8])"
  by (rule message_roundtrip [where bs = "[7, 8]"]) simp_all

end
