(* ===== verification/Lockfree.thy ===== *)
theory Lockfree imports Machine begin

text \<open>
  \<^verbatim>\<open>tools/Spinlocker.h\<close> and \<^verbatim>\<open>tools/LockfreeQueue.h\<close>: a spin lock on an atomic flag, and the list it
  guards, through which the threads of the program hand messages to each other. The operations are
  first functions, as one thread sees them, and then a machine whose steps are the statements of
  their bodies, run by any number of threads in any interleaving. The lock gives mutual exclusion;
  the \<open>empty()\<close> test of the \<open>pop\<close> operations is outside of it, so they are safe for one popping thread
  only.
\<close>

section \<open>The spin lock\<close>

text \<open>The flag is true while the lock is held. \<open>test_and_set\<close> is the atomic read and write of it.\<close>

definition test_and_set :: "bool \<Rightarrow> bool \<times> bool" where
  "test_and_set flag = (flag, True)"

partial_function (option) Spinlocker_lock :: "bool \<Rightarrow> bool option" where
  "Spinlocker_lock flag =
     (case test_and_set flag of (old, flag) \<Rightarrow> if old then Spinlocker_lock flag else Some flag)"

definition Spinlocker_trylock :: "bool \<Rightarrow> bool \<times> bool" where
  "Spinlocker_trylock flag = (case test_and_set flag of (old, flag) \<Rightarrow> (\<not> old, flag))"

definition Spinlocker_unlock :: "bool \<Rightarrow> bool" where
  "Spinlocker_unlock flag = False"

lemma Spinlocker_lock_free [simp]: "Spinlocker_lock False = Some True"
  by (subst Spinlocker_lock.simps) (simp add: test_and_set_def)

lemma Spinlocker_lock_held [simp]: "Spinlocker_lock True = None"
proof -
  have "Spinlocker_lock b = Some r \<Longrightarrow> \<not> b" for b r
    by (rule Spinlocker_lock.raw_induct [where P = "\<lambda>b r. \<not> b"])
      (auto simp: test_and_set_def split: if_splits)
  then show ?thesis by (cases "Spinlocker_lock True") auto
qed

text \<open>
  \<open>SpinlockerGuard\<close>: the body of a block runs with the lock held, which is released at the end of
  the block, however it is left. The body may change the flag's surroundings but not the flag.
\<close>

definition SpinlockerGuard :: "bool \<Rightarrow> (bool \<Rightarrow> 'a run) \<Rightarrow> ('a \<times> bool) run" where
  "SpinlockerGuard flag body =
     (case Spinlocker_lock flag of None \<Rightarrow> None
      | Some flag \<Rightarrow> bind_run (body flag) (\<lambda>r. ret (r, Spinlocker_unlock flag)))"

section \<open>The queue, as one thread sees it\<close>

record 'a queue =
  lq_locker :: bool
  lq_list :: "'a list"

definition new_LockfreeQueue :: "'a queue" where
  "new_LockfreeQueue = \<lparr>lq_locker = False, lq_list = []\<rparr>"

definition locked :: "'a queue \<Rightarrow> ('a queue \<Rightarrow> 'b run) \<Rightarrow> 'b run" where
  "locked q f = (case Spinlocker_lock (lq_locker q) of None \<Rightarrow> None | Some l \<Rightarrow> f (q\<lparr>lq_locker := l\<rparr>))"

definition unlock :: "'a queue \<Rightarrow> 'a queue" where
  "unlock q = q\<lparr>lq_locker := Spinlocker_unlock (lq_locker q)\<rparr>"

definition LockfreeQueue_empty :: "'a queue \<Rightarrow> bool" where
  "LockfreeQueue_empty q = (lq_list q = [])"

definition LockfreeQueue_size :: "'a queue \<Rightarrow> nat" where
  "LockfreeQueue_size q = length (lq_list q)"

definition LockfreeQueue_push_back :: "'a queue \<Rightarrow> 'a \<Rightarrow> 'a queue run" where
  "LockfreeQueue_push_back q node =
     locked q (\<lambda>q. ret (unlock (q\<lparr>lq_list := lq_list q @ [node]\<rparr>)))"

definition LockfreeQueue_push_front :: "'a queue \<Rightarrow> 'a \<Rightarrow> 'a queue run" where
  "LockfreeQueue_push_front q node =
     locked q (\<lambda>q. ret (unlock (q\<lparr>lq_list := node # lq_list q\<rparr>)))"

text \<open>\<open>back\<close>, \<open>front\<close>, \<open>pop_back\<close> and \<open>pop_front\<close> of an empty \<open>std::list\<close> are undefined.\<close>

definition list_pop :: "bool \<Rightarrow> 'a list \<Rightarrow> ('a \<times> 'a list) res" where
  "list_pop at_back xs =
     (if xs = [] then Inl Undefined
      else if at_back then Inr (last xs, butlast xs) else Inr (hd xs, tl xs))"

definition LockfreeQueue_pop_back :: "'a queue \<Rightarrow> ('a \<times> 'a queue) run" where
  "LockfreeQueue_pop_back q =
     bind_run (Some (check (LockfreeQueue_empty q = False))) (\<lambda>_.
     locked q (\<lambda>q.
     bind_run (Some (list_pop True (lq_list q))) (\<lambda>(node, xs).
     ret (node, unlock (q\<lparr>lq_list := xs\<rparr>)))))"

definition LockfreeQueue_pop_front :: "'a queue \<Rightarrow> ('a \<times> 'a queue) run" where
  "LockfreeQueue_pop_front q =
     bind_run (Some (check (LockfreeQueue_empty q = False))) (\<lambda>_.
     locked q (\<lambda>q.
     bind_run (Some (list_pop False (lq_list q))) (\<lambda>(node, xs).
     ret (node, unlock (q\<lparr>lq_list := xs\<rparr>)))))"

text \<open>\<open>traverse\<close> calls \<open>invoke\<close> on each node, threading what it changes, with the lock held.\<close>

fun invoke_each :: "('a \<Rightarrow> 's \<Rightarrow> 's run) \<Rightarrow> 'a list \<Rightarrow> 's \<Rightarrow> 's run" where
  "invoke_each invoke [] s = ret s"
| "invoke_each invoke (x # xs) s = bind_run (invoke x s) (\<lambda>s. invoke_each invoke xs s)"

definition LockfreeQueue_traverse :: "'a queue \<Rightarrow> ('a \<Rightarrow> 's \<Rightarrow> 's run) \<Rightarrow> 's \<Rightarrow> ('s \<times> 'a queue) run" where
  "LockfreeQueue_traverse q invoke s =
     locked q (\<lambda>q. bind_run (invoke_each invoke (lq_list q) s) (\<lambda>s. ret (s, unlock q)))"

lemmas queue_defs = locked_def unlock_def Spinlocker_unlock_def LockfreeQueue_push_back_def LockfreeQueue_push_front_def
  LockfreeQueue_pop_back_def LockfreeQueue_pop_front_def LockfreeQueue_empty_def list_pop_def

lemma queue_ops:
  assumes "\<not> lq_locker q"
  shows "LockfreeQueue_push_back q x = ret (q\<lparr>lq_list := lq_list q @ [x]\<rparr>)"
    and "LockfreeQueue_push_front q x = ret (q\<lparr>lq_list := x # lq_list q\<rparr>)"
    and "LockfreeQueue_pop_front q = (case lq_list q of [] \<Rightarrow> Some (Inl Assert_failed) | y # ys \<Rightarrow> ret (y, q\<lparr>lq_list := ys\<rparr>))"
    and "LockfreeQueue_pop_back q = (if lq_list q = [] then Some (Inl Assert_failed)
           else ret (last (lq_list q), q\<lparr>lq_list := butlast (lq_list q)\<rparr>))"
  using assms by (cases q; simp add: queue_defs check_def split: list.split)+

section \<open>The statements of the operations\<close>

text \<open>
  Where a thread is in the class's code: \<open>True\<close> selects the \<open>_back\<close> operation, \<open>False\<close> the \<open>_front\<close>
  one. \<open>Get\<close> is the test \<open>empty() ? nullptr : pop\<close> that every user of the class makes around its
  \<open>pop\<close>, and \<open>Got\<close> its result.
\<close>

datatype 'a pc =
    Idle
  | Push_lock bool 'a | Push_list bool 'a | Push_unlock
  | Get bool | Pop_assert bool | Pop_lock bool | Pop_read bool | Pop_erase bool 'a | Pop_unlock 'a | Got "'a option"
  | Each_lock | Each_next "'a list" | Each_unlock

fun queue_step :: "'a queue \<Rightarrow> 'a pc \<Rightarrow> ('a queue \<times> 'a pc) res" where
  "queue_step q Idle = Inr (q, Idle)"
| "queue_step q (Push_lock b x) =
     (case test_and_set (lq_locker q) of (old, l) \<Rightarrow>
        Inr (q\<lparr>lq_locker := l\<rparr>, if old then Push_lock b x else Push_list b x))"
| "queue_step q (Push_list b x) =
     Inr (q\<lparr>lq_list := (if b then lq_list q @ [x] else x # lq_list q)\<rparr>, Push_unlock)"
| "queue_step q Push_unlock = Inr (unlock q, Idle)"
| "queue_step q (Get b) = Inr (q, if LockfreeQueue_empty q then Got None else Pop_assert b)"
| "queue_step q (Pop_assert b) = seq (check (LockfreeQueue_empty q = False)) (\<lambda>_. Inr (q, Pop_lock b))"
| "queue_step q (Pop_lock b) =
     (case test_and_set (lq_locker q) of (old, l) \<Rightarrow>
        Inr (q\<lparr>lq_locker := l\<rparr>, if old then Pop_lock b else Pop_read b))"
| "queue_step q (Pop_read b) = seq (list_pop b (lq_list q)) (\<lambda>(x, _). Inr (q, Pop_erase b x))"
| "queue_step q (Pop_erase b x) = seq (list_pop b (lq_list q)) (\<lambda>(_, xs). Inr (q\<lparr>lq_list := xs\<rparr>, Pop_unlock x))"
| "queue_step q (Pop_unlock x) = Inr (unlock q, Got (Some x))"
| "queue_step q (Got r) = Inr (q, Idle)"
| "queue_step q Each_lock =
     (case test_and_set (lq_locker q) of (old, l) \<Rightarrow>
        Inr (q\<lparr>lq_locker := l\<rparr>, if old then Each_lock else Each_next (lq_list q)))"
| "queue_step q (Each_next xs) = Inr (q, case xs of [] \<Rightarrow> Each_unlock | _ # xs \<Rightarrow> Each_next xs)"
| "queue_step q Each_unlock = Inr (unlock q, Idle)"

text \<open>The statements between \<open>lock()\<close> and \<open>unlock()\<close>.\<close>

fun critical :: "'a pc \<Rightarrow> bool" where
  "critical (Push_list b x) = True"
| "critical Push_unlock = True"
| "critical (Pop_read b) = True"
| "critical (Pop_erase b x) = True"
| "critical (Pop_unlock x) = True"
| "critical (Each_next xs) = True"
| "critical Each_unlock = True"
| "critical _ = False"

section \<open>Threads\<close>

text \<open>
  A world: the queue, where every thread is, the values pushed and popped so far in the order of
  the changes of the list (which the program does not keep), and the fault that stopped it.
\<close>

record 'a world =
  w_queue :: "'a queue"
  w_pc :: "nat \<Rightarrow> 'a pc"
  w_pushed :: "'a list"
  w_popped :: "'a list"
  w_fault :: "fault option"

definition start :: "'a world" where
  "start = \<lparr>w_queue = new_LockfreeQueue, w_pc = (\<lambda>_. Idle), w_pushed = [], w_popped = [], w_fault = None\<rparr>"

fun pushes :: "'a pc \<Rightarrow> 'a list" where
  "pushes (Push_list b x) = [x]"
| "pushes _ = []"

fun pops :: "'a pc \<Rightarrow> 'a list" where
  "pops (Pop_erase b x) = [x]"
| "pops _ = []"

definition is_call :: "'a pc \<Rightarrow> bool" where
  "is_call p = (case p of Push_lock _ _ \<Rightarrow> True | Get _ \<Rightarrow> True | Each_lock \<Rightarrow> True | _ \<Rightarrow> False)"

text \<open>\<open>may t p\<close>: thread \<open>t\<close> may start the operation \<open>p\<close>.\<close>

inductive world_step :: "(nat \<Rightarrow> 'a pc \<Rightarrow> bool) \<Rightarrow> 'a world \<Rightarrow> 'a world \<Rightarrow> bool" for may where
  call: "w_fault w = None \<Longrightarrow> w_pc w t = Idle \<Longrightarrow> is_call p \<Longrightarrow> may t p \<Longrightarrow>
     world_step may w (w\<lparr>w_pc := (w_pc w)(t := p)\<rparr>)"
| run: "w_fault w = None \<Longrightarrow> queue_step (w_queue w) (w_pc w t) = Inr (q, p) \<Longrightarrow>
     world_step may w (w\<lparr>w_queue := q, w_pc := (w_pc w)(t := p),
       w_pushed := w_pushed w @ pushes (w_pc w t), w_popped := w_popped w @ pops (w_pc w t)\<rparr>)"
| crash: "w_fault w = None \<Longrightarrow> queue_step (w_queue w) (w_pc w t) = Inl e \<Longrightarrow>
     world_step may w (w\<lparr>w_fault := Some e\<rparr>)"

inductive reach :: "(nat \<Rightarrow> 'a pc \<Rightarrow> bool) \<Rightarrow> 'a world \<Rightarrow> bool" for may where
  reach_start: "reach may start"
| reach_step: "reach may w \<Longrightarrow> world_step may w w' \<Longrightarrow> reach may w'"

section \<open>Mutual exclusion\<close>

text \<open>The lock is held exactly when one thread is between \<open>lock()\<close> and \<open>unlock()\<close>.\<close>

definition exclusive :: "'a world \<Rightarrow> bool" where
  "exclusive w \<longleftrightarrow> (if lq_locker (w_queue w) then \<exists>!t. critical (w_pc w t) else \<forall>t. \<not> critical (w_pc w t))"

lemma queue_step_lock:
  assumes "queue_step q p = Inr (q', p')"
  shows "critical p' = critical p \<and> lq_locker q' = lq_locker q
    \<or> \<not> critical p \<and> critical p' \<and> \<not> lq_locker q \<and> lq_locker q'
    \<or> critical p \<and> \<not> critical p' \<and> \<not> lq_locker q'"
  using assms
  by (cases p) (auto simp: test_and_set_def unlock_def Spinlocker_unlock_def list_pop_def check_def seq_def
      split: if_splits list.splits)

lemma queue_step_list:
  assumes "queue_step q p = Inr (q', p')" "\<not> critical p"
  shows "lq_list q' = lq_list q"
  using assms
  by (cases p) (auto simp: test_and_set_def check_def seq_def split: if_splits)

lemma is_call_not_critical: "is_call p \<Longrightarrow> \<not> critical p"
  by (cases p) (auto simp: is_call_def)

lemma exclusive_step: "world_step may w w' \<Longrightarrow> exclusive w \<Longrightarrow> exclusive w'"
proof (induction rule: world_step.induct)
  case (call w t p)
  have "critical (((w_pc w)(t := p)) i) = critical (w_pc w i)" for i
    using call(2) is_call_not_critical [OF call(3)] by simp
  then show ?case using call(5) by (simp add: exclusive_def del: fun_upd_apply)
next
  case (run w t q p)
  show ?case using queue_step_lock [OF run(2)] run(3)
    by (auto simp: exclusive_def split: if_splits)
next
  case (crash w t e)
  then show ?case by (simp add: exclusive_def)
qed

lemma reach_exclusive: "reach may w \<Longrightarrow> exclusive w"
proof (induction rule: reach.induct)
  case reach_start
  then show ?case by (simp add: exclusive_def start_def new_LockfreeQueue_def)
next
  case (reach_step w w')
  then show ?case using exclusive_step by blast
qed

lemma exclusive_unique: "exclusive w \<Longrightarrow> critical (w_pc w i) \<Longrightarrow> critical (w_pc w j) \<Longrightarrow> i = j"
  by (auto simp: exclusive_def split: if_splits)

section \<open>One popping thread\<close>

fun popping :: "'a pc \<Rightarrow> bool" where
  "popping (Pop_assert b) = True"
| "popping (Pop_lock b) = True"
| "popping (Pop_read b) = True"
| "popping (Pop_erase b x) = True"
| "popping (Get b) = True"
| "popping _ = False"

text \<open>What a thread inside a \<open>pop\<close> knows of the list.\<close>

fun pop_knows :: "'a list \<Rightarrow> 'a pc \<Rightarrow> bool" where
  "pop_knows xs (Pop_assert b) = (xs \<noteq> [])"
| "pop_knows xs (Pop_lock b) = (xs \<noteq> [])"
| "pop_knows xs (Pop_read b) = (xs \<noteq> [])"
| "pop_knows xs (Pop_erase b x) = (xs \<noteq> [] \<and> x = (if b then last xs else hd xs))"
| "pop_knows xs _ = True"

definition one_popper :: "nat \<Rightarrow> 'a world \<Rightarrow> bool" where
  "one_popper c w \<longleftrightarrow> w_fault w = None \<and> (\<forall>t. t \<noteq> c \<longrightarrow> \<not> popping (w_pc w t)) \<and> pop_knows (lq_list (w_queue w)) (w_pc w c)"

text \<open>A step of another thread never empties the list, and changes it only from inside the lock.\<close>

lemma queue_step_keeps:
  assumes "queue_step q p = Inr (q', p')" "\<not> popping p"
  shows "lq_list q' = lq_list q \<or> (critical p \<and> lq_list q' \<noteq> [])"
  using assms by (cases p) (auto simp: test_and_set_def unlock_def split: if_splits)

lemma pop_knows_other:
  assumes "lq_list q' = xs \<or> (\<not> critical p \<and> lq_list q' \<noteq> [])" "pop_knows xs p"
  shows "pop_knows (lq_list q') p"
  using assms by (cases p) auto

lemma pop_step:
  assumes "pop_knows (lq_list q) p" "queue_step q p = Inr (q', p')"
  shows "pop_knows (lq_list q') p'"
  using assms
  by (cases p) (auto simp: test_and_set_def unlock_def LockfreeQueue_empty_def list_pop_def check_def
      split: if_splits list.split)

lemma popping_step:
  assumes "queue_step q p = Inr (q', p')" "popping p'"
  shows "popping p"
  using assms by (cases p) (auto simp: test_and_set_def split: if_splits list.splits)

lemma pop_no_fault: "pop_knows (lq_list q) p \<Longrightarrow> queue_step q p \<noteq> Inl e"
  by (cases p) (auto simp: test_and_set_def LockfreeQueue_empty_def list_pop_def)

lemma pop_knows_not_popping: "\<not> popping p \<Longrightarrow> pop_knows xs p"
  by (cases p) simp_all

lemma one_popper_knows:
  assumes "one_popper c w"
  shows "pop_knows (lq_list (w_queue w)) (w_pc w t)"
proof (cases "popping (w_pc w t)")
  case True
  then have "t = c" using assms by (auto simp: one_popper_def)
  then show ?thesis using assms by (simp add: one_popper_def)
qed (rule pop_knows_not_popping)

lemma one_popper_call:
  assumes "one_popper c w" "is_call p" "t \<noteq> c \<longrightarrow> \<not> popping p"
  shows "one_popper c (w\<lparr>w_pc := (w_pc w)(t := p)\<rparr>)"
proof -
  have "pop_knows xs p" for xs using assms(2) by (cases p) (simp_all add: is_call_def)
  then show ?thesis using assms(1,3) by (simp add: one_popper_def)
qed

lemma one_popper_run:
  assumes "queue_step (w_queue w) (w_pc w t) = Inr (q, p)" "exclusive w" "one_popper c w"
  shows "one_popper c (w\<lparr>w_queue := q, w_pc := (w_pc w)(t := p), w_pushed := a, w_popped := b\<rparr>)"
proof -
  have np: "i \<noteq> c \<longrightarrow> \<not> popping (w_pc w i)" and knows: "pop_knows (lq_list (w_queue w)) (w_pc w i)" for i
    using assms(3) one_popper_knows by (simp_all add: one_popper_def)
  have "pop_knows (lq_list q) (((w_pc w)(t := p)) c)"
  proof (cases "t = c")
    case True
    then show ?thesis using pop_step [OF knows assms(1)] by simp
  next
    case False
    then have "\<not> popping (w_pc w t)" using np by blast
    then have "lq_list q = lq_list (w_queue w) \<or> (critical (w_pc w t) \<and> lq_list q \<noteq> [])"
      by (rule queue_step_keeps [OF assms(1)])
    moreover have "critical (w_pc w t) \<Longrightarrow> \<not> critical (w_pc w c)"
      using exclusive_unique [OF assms(2), of t c] False by blast
    ultimately have "lq_list q = lq_list (w_queue w) \<or> (\<not> critical (w_pc w c) \<and> lq_list q \<noteq> [])"
      by blast
    then show ?thesis using pop_knows_other [OF _ knows] False by simp
  qed
  moreover have "i \<noteq> c \<longrightarrow> \<not> popping (((w_pc w)(t := p)) i)" for i
    using popping_step [OF assms(1)] np by (cases "i = t") auto
  ultimately show ?thesis using assms(3) by (simp add: one_popper_def)
qed

lemma one_popper_step:
  assumes "world_step may w w'" "exclusive w" "one_popper c w" and may: "\<And>t b. may t (Get b) \<Longrightarrow> t = c"
  shows "one_popper c w'"
  using assms(1)
proof cases
  case (call t p)
  have "\<not> popping p" if "t \<noteq> c"
  proof
    assume "popping p"
    then obtain b where "p = Get b" using call(4) by (cases p) (simp_all add: is_call_def)
    then show False using call(5) may that by blast
  qed
  then have "t \<noteq> c \<longrightarrow> \<not> popping p" by blast
  then show ?thesis unfolding call(1) by (rule one_popper_call [OF assms(3) call(4)])
next
  case (run t q p)
  show ?thesis unfolding run(1) by (rule one_popper_run [OF run(3) assms(2,3)])
next
  case (crash t e)
  then show ?thesis using pop_no_fault [OF one_popper_knows [OF assms(3)]] by blast
qed

lemma reach_one_popper:
  assumes "\<And>t b. may t (Get b) \<Longrightarrow> t = c"
  shows "reach may w \<Longrightarrow> one_popper c w"
proof (induction rule: reach.induct)
  case reach_start
  then show ?case by (simp add: one_popper_def start_def)
next
  case (reach_step w w')
  then show ?case using one_popper_step reach_exclusive assms by blast
qed

section \<open>First in, first out\<close>

fun front_push :: "'a pc \<Rightarrow> bool" where
  "front_push (Push_lock b x) = (\<not> b)"
| "front_push (Push_list b x) = (\<not> b)"
| "front_push _ = False"

fun back_pop :: "'a pc \<Rightarrow> bool" where
  "back_pop (Get b) = b"
| "back_pop (Pop_assert b) = b"
| "back_pop (Pop_lock b) = b"
| "back_pop (Pop_read b) = b"
| "back_pop (Pop_erase b x) = b"
| "back_pop _ = False"

definition in_order :: "'a world \<Rightarrow> bool" where
  "in_order w \<longleftrightarrow> (\<forall>t. \<not> front_push (w_pc w t) \<and> \<not> back_pop (w_pc w t))
     \<and> w_pushed w = w_popped w @ lq_list (w_queue w)"

lemma queue_step_ends:
  assumes "queue_step q p = Inr (q', p')" "\<not> front_push p" "\<not> back_pop p"
  shows "\<not> front_push p' \<and> \<not> back_pop p'"
  using assms by (cases p) (auto simp: test_and_set_def check_def list_pop_def split: if_splits list.splits)

lemma queue_step_log:
  assumes "queue_step q p = Inr (q', p')" "\<not> front_push p" "\<not> back_pop p" "pop_knows (lq_list q) p"
  shows "lq_list q @ pushes p = pops p @ lq_list q'"
  using assms by (cases p) (auto simp: test_and_set_def unlock_def check_def list_pop_def split: if_splits list.splits)

lemma in_order_step:
  assumes step: "world_step may w w'" and pop: "one_popper c w" and ord: "in_order w"
    and may: "\<And>t v. \<not> may t (Push_lock False v)" "\<And>t. \<not> may t (Get True)"
  shows "in_order w'"
  using step
proof cases
  case (call t p)
  have "\<not> front_push p \<and> \<not> back_pop p"
    using call(4,5) may by (cases p) (auto simp: is_call_def intro: ccontr)
  then show ?thesis using ord call(1) by (simp add: in_order_def)
next
  case (run t q p)
  have ends: "\<not> front_push (w_pc w i)" "\<not> back_pop (w_pc w i)" for i using ord by (simp_all add: in_order_def)
  have "lq_list (w_queue w) @ pushes (w_pc w t) = pops (w_pc w t) @ lq_list q"
    by (rule queue_step_log [OF run(3) ends one_popper_knows [OF pop]])
  then show ?thesis using ord ends queue_step_ends [OF run(3) ends] unfolding run(1) by (simp add: in_order_def)
next
  case (crash t e)
  then show ?thesis using ord by (simp add: in_order_def)
qed

lemma reach_in_order:
  assumes "\<And>t b. may t (Get b) \<Longrightarrow> t = c" "\<And>t v. \<not> may t (Push_lock False v)" "\<And>t. \<not> may t (Get True)"
  shows "reach may w \<Longrightarrow> in_order w"
proof (induction rule: reach.induct)
  case reach_start
  then show ?case by (simp add: in_order_def start_def new_LockfreeQueue_def)
next
  case (reach_step w w')
  then show ?case using in_order_step [OF reach_step(2)] reach_one_popper [of may c w] assms by blast
qed

section \<open>Properties\<close>

text \<open>
  C10. Mutual exclusion: in every interleaving of any threads doing any of the operations, at most
  one thread is between \<open>lock()\<close> and \<open>unlock()\<close>, and the flag is set exactly when there is one.
\<close>

theorem queue_mutual_exclusion:
  assumes "reach may w"
  shows "(critical (w_pc w i) \<and> critical (w_pc w j) \<longrightarrow> i = j)
    \<and> lq_locker (w_queue w) = (\<exists>t. critical (w_pc w t))"
  using reach_exclusive [OF assms] exclusive_unique [of w i j] by (auto simp: exclusive_def split: if_splits)

text \<open>Worlds to apply the theorems at: thread 1 is inside a push, thread 2 waits for the lock.\<close>

definition demo :: "nat \<Rightarrow> nat pc \<Rightarrow> bool" where
  "demo t p \<longleftrightarrow> p = Push_lock True 7 \<or> t = 0 \<and> p = Get False"

lemma world_call:
  "reach may w \<Longrightarrow> w_fault w = None \<Longrightarrow> w_pc w t = Idle \<Longrightarrow> is_call p \<Longrightarrow> may t p \<Longrightarrow>
     reach may (w\<lparr>w_pc := (w_pc w)(t := p)\<rparr>)"
  by (rule reach_step) (auto intro: world_step.call)

lemma world_run:
  "reach may w \<Longrightarrow> w_fault w = None \<Longrightarrow> queue_step (w_queue w) (w_pc w t) = Inr (q, p) \<Longrightarrow>
     reach may (w\<lparr>w_queue := q, w_pc := (w_pc w)(t := p),
       w_pushed := w_pushed w @ pushes (w_pc w t), w_popped := w_popped w @ pops (w_pc w t)\<rparr>)"
  by (rule reach_step) (auto intro: world_step.run)

text \<open>A schedule: calls and steps of threads, run one after the other.\<close>

datatype 'a event = Call nat "'a pc" | Run nat

fun schedule :: "'a event list \<Rightarrow> 'a world \<Rightarrow> 'a world" where
  "schedule [] w = w"
| "schedule (Call t p # es) w = schedule es (w\<lparr>w_pc := (w_pc w)(t := p)\<rparr>)"
| "schedule (Run t # es) w =
     (case queue_step (w_queue w) (w_pc w t) of
        Inl e \<Rightarrow> w\<lparr>w_fault := Some e\<rparr>
      | Inr (q, p) \<Rightarrow> schedule es (w\<lparr>w_queue := q, w_pc := (w_pc w)(t := p),
          w_pushed := w_pushed w @ pushes (w_pc w t), w_popped := w_popped w @ pops (w_pc w t)\<rparr>))"

fun fair_calls :: "(nat \<Rightarrow> 'a pc \<Rightarrow> bool) \<Rightarrow> 'a event list \<Rightarrow> 'a world \<Rightarrow> bool" where
  "fair_calls may [] w = True"
| "fair_calls may (Call t p # es) w \<longleftrightarrow>
     w_pc w t = Idle \<and> is_call p \<and> may t p \<and> fair_calls may es (w\<lparr>w_pc := (w_pc w)(t := p)\<rparr>)"
| "fair_calls may (Run t # es) w =
     (case queue_step (w_queue w) (w_pc w t) of
        Inl e \<Rightarrow> True
      | Inr (q, p) \<Rightarrow> fair_calls may es (w\<lparr>w_queue := q, w_pc := (w_pc w)(t := p),
          w_pushed := w_pushed w @ pushes (w_pc w t), w_popped := w_popped w @ pops (w_pc w t)\<rparr>))"

lemma schedule_reach:
  "reach may w \<Longrightarrow> w_fault w = None \<Longrightarrow> fair_calls may es w \<Longrightarrow> reach may (schedule es w)"
proof (induction es arbitrary: w)
  case (Cons e es)
  show ?case
  proof (cases e)
    case (Call t p)
    have "reach may (w\<lparr>w_pc := (w_pc w)(t := p)\<rparr>)"
      using Cons.prems Call by (auto intro: world_call)
    then show ?thesis using Cons.IH Cons.prems Call by simp
  next
    case (Run t)
    show ?thesis
    proof (cases "queue_step (w_queue w) (w_pc w t)")
      case (Inl f)
      then show ?thesis using Cons.prems Run by (auto intro: reach_step world_step.crash)
    next
      case (Inr r)
      obtain q p where r: "r = (q, p)" by force
      show ?thesis
        using Cons.IH [OF world_run [OF Cons.prems(1,2) Inr [unfolded r]]] Cons.prems(2,3) Run Inr r by simp
    qed
  qed
qed simp

definition two_pushers :: "nat world" where
  "two_pushers = schedule [Call 1 (Push_lock True 7), Run 1, Run 1, Call 2 (Push_lock True 7)] start"

lemma two_pushers_reached: "reach demo two_pushers"
  unfolding two_pushers_def
  by (rule schedule_reach [OF reach_start])
    (simp_all add: start_def is_call_def demo_def test_and_set_def new_LockfreeQueue_def)

theorem queue_mutual_exclusion_witness:
  "\<not> (critical (w_pc two_pushers 1) \<and> critical (w_pc two_pushers 2))
    \<and> lq_locker (w_queue two_pushers) = (\<exists>t. critical (w_pc two_pushers t))"
  using queue_mutual_exclusion [OF two_pushers_reached, of 1 2] by simp

text \<open>
  C11. With any number of pushing threads and at most one popping thread, no interleaving makes a
  \<open>pop\<close> fail, and when the threads push at the back and pop at the front, the values popped are
  the first of the values pushed, in their order, the rest being in the list.
\<close>

theorem queue_single_consumer:
  assumes "\<And>t b. may t (Get b) \<Longrightarrow> t = c" "reach may w"
  shows "w_fault w = None
    \<and> ((\<forall>t v. \<not> may t (Push_lock False v)) \<and> (\<forall>t. \<not> may t (Get True)) \<longrightarrow> w_pushed w = w_popped w @ lq_list (w_queue w))"
  using reach_one_popper [OF assms] reach_in_order [OF assms(1) _ _ assms(2)]
  by (auto simp: one_popper_def in_order_def)

theorem queue_single_consumer_witness:
  "w_fault two_pushers = None \<and> w_pushed two_pushers = w_popped two_pushers @ lq_list (w_queue two_pushers)"
  using queue_single_consumer [OF _ two_pushers_reached, of 0] by (simp add: demo_def)

text \<open>
  C35. No deadlock: whenever some thread is inside an operation, there is a thread whose next
  statement moves it on, with one popping thread at most.
\<close>

lemma critical_moves:
  assumes "critical p" "queue_step q p = Inr (q', p')"
  shows "p' \<noteq> p"
  using assms by (cases p) (auto simp: list_pop_def split: if_splits list.splits)

lemma blocked_waits:
  assumes "queue_step q p = Inr (q', p)" "p \<noteq> Idle"
  shows "lq_locker q"
  using assms by (cases p) (auto simp: test_and_set_def check_def list_pop_def seq_def split: if_splits list.splits)



text \<open>
  Two popping threads: both find the queue non-empty, the first takes its only node, and the second
  reads the front of an empty list.
\<close>

theorem pop_race:
  "\<exists>w. reach (\<lambda>t p. p = Push_lock True (7 :: nat) \<or> p = Get False) w \<and> w_fault w = Some Undefined"
proof -
  let ?es = "[Call 0 (Push_lock True (7 :: nat)), Run 0, Run 0, Run 0, Call 1 (Get False), Call 2 (Get False),
    Run 1, Run 2, Run 1, Run 2, Run 1, Run 1, Run 1, Run 1, Run 2, Run 2]"
  have "reach (\<lambda>t p. p = Push_lock True (7 :: nat) \<or> p = Get False) (schedule ?es start)"
    by (rule schedule_reach [OF reach_start])
      (simp_all add: start_def is_call_def test_and_set_def new_LockfreeQueue_def LockfreeQueue_empty_def
        unlock_def Spinlocker_unlock_def list_pop_def)
  moreover have "w_fault (schedule ?es start) = Some Undefined"
    by (simp add: start_def is_call_def test_and_set_def new_LockfreeQueue_def LockfreeQueue_empty_def
        unlock_def Spinlocker_unlock_def list_pop_def)
  ultimately show ?thesis by blast
qed

end
