(* ===== verification/Sockets.thy ===== *)
theory Sockets imports ByteBuf Lockfree "HOL-Library.Sublist" begin

text \<open>
  \<^verbatim>\<open>message/Servicemessage.h\<close>, \<^verbatim>\<open>message/Servicemessage.cpp\<close> and \<^verbatim>\<open>net/Socket.cpp\<close>: messages are
  cut out of the bytes a connection receives, and the bytes of outgoing messages are handed to the
  kernel, which may take only some of them. Messages live in a heap, so that one released twice or
  used after its release is a fault. The system calls are a parameter (\<open>kernel\<close>).
\<close>

section \<open>System calls\<close>

text \<open>The result of a call: what it returns, or -1 with an error number.\<close>

datatype 'a sys = Done 'a | Err int

definition EINTR :: int where "EINTR = 4"
definition EAGAIN :: int where "EAGAIN = 11"
definition EWOULDBLOCK :: int where "EWOULDBLOCK = 11"
definition EPIPE :: int where "EPIPE = 32"
definition ECONNABORTED :: int where "ECONNABORTED = 103"
definition ECONNRESET :: int where "ECONNRESET = 104"
definition ENOTCONN :: int where "ENOTCONN = 107"
definition ESHUTDOWN :: int where "ESHUTDOWN = 108"

definition interrupted :: "int \<Rightarrow> bool" where
  "interrupted errno = (errno = EINTR)"

definition wouldblock :: "int \<Rightarrow> bool" where
  "wouldblock errno = (errno = EAGAIN \<or> errno = EWOULDBLOCK)"

definition connectionlost :: "int \<Rightarrow> bool" where
  "connectionlost errno = (errno = ECONNRESET \<or> errno = ENOTCONN \<or> errno = ESHUTDOWN \<or> errno = ECONNABORTED \<or> errno = EPIPE)"

text \<open>
  \<open>sys_recv fd n\<close> gives the bytes received, at most \<open>n\<close>; \<open>sys_send fd bs\<close> how many of the bytes \<open>bs\<close>
  were taken. Both are called with \<open>MSG_DONTWAIT\<close>.
\<close>

record 'k kernel =
  sys_recv :: "int \<Rightarrow> nat \<Rightarrow> 'k \<Rightarrow> u8 list sys \<times> 'k"
  sys_send :: "int \<Rightarrow> u8 list \<Rightarrow> 'k \<Rightarrow> nat sys \<times> 'k"
  sys_close :: "int \<Rightarrow> 'k \<Rightarrow> 'k"

text \<open>The C library's macro: a call that a signal interrupted is made again.\<close>

partial_function (option) TEMP_FAILURE_RETRY :: "('k \<Rightarrow> 'a sys \<times> 'k) \<Rightarrow> 'k \<Rightarrow> ('a sys \<times> 'k) run" where
  "TEMP_FAILURE_RETRY call k =
     (case call k of (r, k) \<Rightarrow>
        (case r of Done x \<Rightarrow> ret (r, k)
         | Err e \<Rightarrow> if e = EINTR then TEMP_FAILURE_RETRY call k else ret (r, k)))"

definition SafeClose :: "'k kernel \<Rightarrow> int \<Rightarrow> 'k \<Rightarrow> int \<times> 'k" where
  "SafeClose K s k = (if 0 < s then (-1, sys_close K s k) else (s, k))"

section \<open>Messages\<close>

text \<open>\<open>Socketmessage\<close> is packed: \<open>len\<close>, \<open>entityid\<close>, \<open>msgid\<close>, \<open>flags\<close> and the payload, \<open>len\<close> bytes in all.\<close>

record service_message =
  sm_fd :: int
  sm_raw :: "u8 list"

definition sizeof_Socketmessage :: nat where "sizeof_Socketmessage = 16"

definition raw_len :: "u8 list \<Rightarrow> u32" where "raw_len raw = from_le (take 4 raw)"
definition raw_entityid :: "u8 list \<Rightarrow> u64" where "raw_entityid raw = from_le (take 8 (drop 4 raw))"
definition raw_msgid :: "u8 list \<Rightarrow> u16" where "raw_msgid raw = from_le (take 2 (drop 12 raw))"
definition raw_flags :: "u8 list \<Rightarrow> u16" where "raw_flags raw = from_le (take 2 (drop 14 raw))"
definition raw_payload :: "u8 list \<Rightarrow> u8 list" where "raw_payload raw = drop 16 raw"

text \<open>The heap of messages: the contents of the blocks in use, and an address not used yet.\<close>

record heap =
  h_mem :: "nat \<Rightarrow> service_message option"
  h_next :: nat

definition empty_heap :: heap where
  "empty_heap = \<lparr>h_mem = Map.empty, h_next = 0\<rparr>"

text \<open>A new block; its contents are those the caller writes before anything else happens.\<close>

definition allocate_message :: "heap \<Rightarrow> service_message \<Rightarrow> nat \<times> heap" where
  "allocate_message h contents =
     (h_next h, \<lparr>h_mem = (h_mem h)(h_next h \<mapsto> contents), h_next = Suc (h_next h)\<rparr>)"

definition release_message :: "heap \<Rightarrow> nat \<Rightarrow> heap res" where
  "release_message h p =
     (case h_mem h p of None \<Rightarrow> Inl Undefined | Some _ \<Rightarrow> Inr (h\<lparr>h_mem := (h_mem h)(p := None)\<rparr>))"

definition deref :: "heap \<Rightarrow> nat \<Rightarrow> service_message res" where
  "deref h p = (case h_mem h p of None \<Rightarrow> Inl Undefined | Some m \<Rightarrow> Inr m)"

text \<open>The \<open>rawmsg.len\<close> bytes from \<open>rawmsg\<close> on, which have to lie inside the block.\<close>

definition message_bytes :: "service_message \<Rightarrow> u8 list res" where
  "message_bytes m =
     (if 4 \<le> length (sm_raw m) \<and> unat (raw_len (sm_raw m)) \<le> length (sm_raw m)
      then Inr (take (unat (raw_len (sm_raw m))) (sm_raw m)) else Inl Undefined)"

section \<open>SocketInternal\<close>

definition SOCKET_SERVER :: int where "SOCKET_SERVER = 0"
definition SOCKET_CLIENT :: int where "SOCKET_CLIENT = 1"
definition SOCKET_CONNECTION :: int where "SOCKET_CONNECTION = 2"

record socket =
  so_fd :: int
  so_type :: int
  so_slocker :: bool
  so_rlist :: "nat queue"
  so_slist :: "nat queue"
  so_rbuffer :: byte_buffer
  so_wbuffer :: byte_buffer

definition new_SocketInternal :: "int \<Rightarrow> socket" where
  "new_SocketInternal s =
     \<lparr>so_fd = s, so_type = SOCKET_CONNECTION, so_slocker = False, so_rlist = new_LockfreeQueue,
      so_slist = new_LockfreeQueue, so_rbuffer = new_ByteBuffer 65535, so_wbuffer = new_ByteBuffer 65535\<rparr>"

definition socket_create :: "int \<Rightarrow> socket" where
  "socket_create s = new_SocketInternal s"

definition set_socket_type :: "socket \<Rightarrow> int \<Rightarrow> socket" where
  "set_socket_type so v = so\<lparr>so_type := v\<rparr>"

text \<open>The destructor's loops: every message of a queue is released.\<close>

partial_function (option) release_all :: "nat queue \<Rightarrow> heap \<Rightarrow> (nat queue \<times> heap) run" where
  "release_all q h =
     (if \<not> LockfreeQueue_empty q then
        bind_run (LockfreeQueue_pop_front q) (\<lambda>(message, q).
        bind_run (Some (release_message h message)) (\<lambda>h. release_all q h))
      else ret (q, h))"

definition delete_SocketInternal :: "'k kernel \<Rightarrow> socket \<Rightarrow> heap \<Rightarrow> 'k \<Rightarrow> (heap \<times> 'k) run" where
  "delete_SocketInternal K so h k =
     (case SafeClose K (so_fd so) k of (fd, k) \<Rightarrow>
      bind_run (release_all (so_rlist so) h) (\<lambda>(_, h).
      bind_run (release_all (so_slist so) h) (\<lambda>(_, h). ret (h, k))))"

text \<open>The address of the next message received, or the null pointer.\<close>

definition getMessage :: "socket \<Rightarrow> (nat option \<times> socket) run" where
  "getMessage so =
     (if LockfreeQueue_empty (so_rlist so) then ret (None, so)
      else bind_run (LockfreeQueue_pop_front (so_rlist so)) (\<lambda>(m, q). ret (Some m, so\<lparr>so_rlist := q\<rparr>)))"

subsection \<open>Receiving\<close>

text \<open>
  \<open>readBytes\<close> fills the memory \<open>m\<close> from the offset \<open>p\<close> on; \<open>bytes\<close> counts what it has read so far. A
  result below 0 is an error.
\<close>

partial_function (option) readBytes_loop ::
  "'k kernel \<Rightarrow> int \<Rightarrow> nat \<Rightarrow> u64 \<Rightarrow> u64 \<Rightarrow> cells \<Rightarrow> 'k \<Rightarrow> (int \<times> cells \<times> 'k) run" where
  "readBytes_loop K fd p len bytes m k =
     bind_run (TEMP_FAILURE_RETRY (sys_recv K fd (unat (len - bytes))) k) (\<lambda>(r, k).
     case r of
       Done bs \<Rightarrow>
         if bs = [] then ret (-1, m, k)
         else bind_run (Some (store m (p + unat bytes) bs)) (\<lambda>m.
              readBytes_loop K fd p len (bytes + word_of_nat (length bs)) m k)
     | Err e \<Rightarrow>
         if interrupted e then readBytes_loop K fd p len bytes m k
         else if wouldblock e then ret (sint bytes, m, k)
         else ret (-1, m, k))"

definition readBytes :: "'k kernel \<Rightarrow> int \<Rightarrow> nat \<Rightarrow> u64 \<Rightarrow> cells \<Rightarrow> 'k \<Rightarrow> (int \<times> cells \<times> 'k) run" where
  "readBytes K fd p len m k = readBytes_loop K fd p len 0 m k"

text \<open>The loop of \<open>receive\<close>: one message after the other is cut off the front of the buffer.\<close>

partial_function (option) receive_loop :: "socket \<Rightarrow> heap \<Rightarrow> (bool \<times> socket \<times> heap) run" where
  "receive_loop so h =
     (let buffer = so_rbuffer so
      in bind_run (Some (ByteBuffer_size buffer)) (\<lambda>n.
         if n < 4 then ret (True, so, h)
         else bind_run (Some (seq (load (bb_buf buffer) (ByteBuffer_rbuffer buffer) 4) written)) (\<lambda>bs.
         let len = from_le bs :: u32
         in if n < ucast len then ret (True, so, h)
            else if unat len < sizeof_Socketmessage then ret (False, so, h)
            else bind_run (Some (seq (load (bb_buf buffer) (ByteBuffer_rbuffer buffer) (unat len)) written)) (\<lambda>raw.
                 case allocate_message h \<lparr>sm_fd = so_fd so, sm_raw = raw\<rparr> of (newmsg, h) \<Rightarrow>
                 bind_run (LockfreeQueue_push_back (so_rlist so) newmsg) (\<lambda>q.
                 bind_run (Some (ByteBuffer_rlength buffer (ucast len))) (\<lambda>buffer.
                 receive_loop (so\<lparr>so_rlist := q, so_rbuffer := buffer\<rparr>) h))))))"

definition receive :: "'k kernel \<Rightarrow> socket \<Rightarrow> heap \<Rightarrow> 'k \<Rightarrow> (bool \<times> socket \<times> heap \<times> 'k) run" where
  "receive K so h k =
     (case ByteBuffer_wbuffer (so_rbuffer so) 960 of (b, p) \<Rightarrow>
      bind_run (readBytes K (so_fd so) p 960 (bb_buf b) k) (\<lambda>(bytes, m, k).
      let b = b\<lparr>bb_buf := m\<rparr>
      in if bytes < 0 then ret (False, so\<lparr>so_rbuffer := b\<rparr>, h, k)
         else bind_run (if 0 < bytes then Some (ByteBuffer_wlength b (word_of_int bytes)) else ret b) (\<lambda>b.
              bind_run (receive_loop (so\<lparr>so_rbuffer := b\<rparr>) h) (\<lambda>(ok, so, h). ret (ok, so, h, k)))))"

subsection \<open>Sending\<close>

partial_function (option) sendBytes_loop ::
  "'k kernel \<Rightarrow> int \<Rightarrow> u8 list \<Rightarrow> nat \<Rightarrow> 'k \<Rightarrow> (int \<times> 'k) run" where
  "sendBytes_loop K fd buffer bytes k =
     (if bytes < length buffer then
        bind_run (TEMP_FAILURE_RETRY (sys_send K fd (drop bytes buffer)) k) (\<lambda>(r, k).
        case r of
          Done n \<Rightarrow> if n = 0 then ret (-1, k) else sendBytes_loop K fd buffer (bytes + n) k
        | Err e \<Rightarrow>
            if interrupted e then sendBytes_loop K fd buffer bytes k
            else if wouldblock e then ret (int bytes, k)
            else ret (-1, k))
      else ret (int bytes, k))"

definition sendBytes :: "'k kernel \<Rightarrow> int \<Rightarrow> u8 list \<Rightarrow> 'k \<Rightarrow> (int \<times> 'k) run" where
  "sendBytes K fd buffer k = sendBytes_loop K fd buffer 0 k"

text \<open>The loop of \<open>send()\<close> over the list of messages, with nothing left in the write buffer.\<close>

partial_function (option) send_loop ::
  "'k kernel \<Rightarrow> socket \<Rightarrow> heap \<Rightarrow> 'k \<Rightarrow> (bool \<times> socket \<times> heap \<times> 'k) run" where
  "send_loop K so h k =
     (if LockfreeQueue_empty (so_slist so) then ret (True, so, h, k)
      else bind_run (LockfreeQueue_pop_front (so_slist so)) (\<lambda>(message, q).
           let so = so\<lparr>so_slist := q\<rparr>
           in bind_run (Some (seq (deref h message) message_bytes)) (\<lambda>bs.
              bind_run (sendBytes K (so_fd so) bs k) (\<lambda>(bytes, k).
              if bytes < 0 then
                bind_run (Some (release_message h message)) (\<lambda>h. ret (False, so, h, k))
              else
                bind_run (if nat bytes < length bs
                   then Some (ByteBuffer_append (so_wbuffer so) (drop (nat bytes) bs) (word_of_nat (length bs - nat bytes)))
                   else ret (so_wbuffer so)) (\<lambda>b.
                bind_run (Some (release_message h message)) (\<lambda>h.
                bind_run (Some (ByteBuffer_size b)) (\<lambda>n.
                let so = so\<lparr>so_wbuffer := b\<rparr>
                in if 0 < n then ret (True, so, h, k)
                   else send_loop K so h k)))))))"

definition flush_body :: "'k kernel \<Rightarrow> socket \<Rightarrow> heap \<Rightarrow> 'k \<Rightarrow> (bool \<times> socket \<times> heap \<times> 'k) run" where
  "flush_body K so h k =
     bind_run (Some (ByteBuffer_size (so_wbuffer so))) (\<lambda>n.
     bind_run
       (if 0 < n then
          bind_run (Some (seq (load (bb_buf (so_wbuffer so)) (ByteBuffer_rbuffer (so_wbuffer so)) (unat n)) written)) (\<lambda>bs.
          bind_run (sendBytes K (so_fd so) bs k) (\<lambda>(bytes, k).
          if bytes < 0 then ret (False, so, k)
          else if 0 < bytes then
            bind_run (Some (ByteBuffer_rlength (so_wbuffer so) (word_of_int bytes))) (\<lambda>b. ret (True, so\<lparr>so_wbuffer := b\<rparr>, k))
          else ret (True, so, k)))
        else ret (True, so, k)) (\<lambda>(ok, so, k).
     if \<not> ok then ret (False, so, h, k)
     else bind_run (Some (ByteBuffer_size (so_wbuffer so))) (\<lambda>n.
          if 0 < n then ret (True, so, h, k) else send_loop K so h k)))"

text \<open>\<open>send()\<close>: the whole body runs under \<open>_slocker\<close>.\<close>

definition flush :: "'k kernel \<Rightarrow> socket \<Rightarrow> heap \<Rightarrow> 'k \<Rightarrow> (bool \<times> socket \<times> heap \<times> 'k) run" where
  "flush K so h k =
     bind_run (SpinlockerGuard (so_slocker so) (\<lambda>l. flush_body K (so\<lparr>so_slocker := l\<rparr>) h k)) (\<lambda>((ok, so, h, k), l).
     ret (ok, so\<lparr>so_slocker := l\<rparr>, h, k))"

text \<open>\<open>send(message)\<close>.\<close>

definition send_message :: "'k kernel \<Rightarrow> socket \<Rightarrow> heap \<Rightarrow> 'k \<Rightarrow> nat \<Rightarrow> (bool \<times> socket \<times> heap \<times> 'k) run" where
  "send_message K so h k message =
     bind_run (LockfreeQueue_push_back (so_slist so) message) (\<lambda>q. flush K (so\<lparr>so_slist := q\<rparr>) h k)"

section \<open>Framing\<close>

text \<open>
  The specification: a stream of bytes is cut into messages by the length each begins with. The
  result is the messages, the bytes left over, and whether no illegal length was met.
\<close>

function frames :: "u8 list \<Rightarrow> u8 list list \<times> u8 list \<times> bool" where
  "frames bs =
     (if length bs < 4 \<or> length bs < unat (raw_len bs) then ([], bs, True)
      else if unat (raw_len bs) < sizeof_Socketmessage then ([], bs, False)
      else case frames (drop (unat (raw_len bs)) bs) of
             (fs, rest, ok) \<Rightarrow> (take (unat (raw_len bs)) bs # fs, rest, ok))"
  by pat_completeness auto
termination
  by (relation "measure length") (auto simp: sizeof_Socketmessage_def)

declare frames.simps [simp del]

definition wf_message :: "u8 list \<Rightarrow> bool" where
  "wf_message raw \<longleftrightarrow> length raw = unat (raw_len raw) \<and> sizeof_Socketmessage \<le> length raw"

lemma raw_len_append [simp]: "4 \<le> length a \<Longrightarrow> raw_len (a @ b) = raw_len a"
  by (simp add: raw_len_def)

text \<open>Bytes that arrive later continue where the earlier ones left off.\<close>

lemma frames_append:
  assumes "frames a = (fs, rest, True)" "frames (rest @ b) = (gs, rest', ok)"
  shows "frames (a @ b) = (fs @ gs, rest', ok)"
  using assms(1)
proof (induction a arbitrary: fs rule: frames.induct)
  case (1 a)
  show ?case
  proof (cases "length a < 4 \<or> length a < unat (raw_len a)")
    case True
    then show ?thesis using "1.prems" assms(2) by (simp add: frames.simps [of a])
  next
    case False
    let ?n = "unat (raw_len a)"
    obtain hs where hs: "sizeof_Socketmessage \<le> ?n" "frames (drop ?n a) = (hs, rest, True)" "fs = take ?n a # hs"
      using "1.prems" False by (auto simp: frames.simps [of a] split: if_splits prod.splits)
    have "frames (drop ?n a @ b) = (hs @ gs, rest', ok)"
      by (rule "1.IH" [OF False _ hs(2)]) (use hs(1) in simp)
    then show ?thesis using False hs by (subst frames.simps) simp
  qed
qed

lemma frames_concat: "list_all wf_message ms \<Longrightarrow> frames (concat ms) = (ms, [], True)"
proof (induction ms)
  case (Cons m ms)
  have m: "length m = unat (raw_len m)" "16 \<le> length m"
    using Cons.prems by (simp_all add: wf_message_def sizeof_Socketmessage_def)
  then have "raw_len (m @ concat ms) = raw_len m" by simp
  then show ?case using Cons m
    by (subst frames.simps) (simp add: sizeof_Socketmessage_def)
qed (simp add: frames.simps)

text \<open>What is left over holds no whole message.\<close>

lemma frames_rest: "frames bs = (fs, rest, True) \<Longrightarrow> frames rest = ([], rest, True)"
proof (induction bs arbitrary: fs rule: frames.induct)
  case (1 bs)
  show ?case
  proof (cases "length bs < 4 \<or> length bs < unat (raw_len bs)")
    case True
    then show ?thesis using "1.prems" by (simp add: frames.simps [of bs] frames.simps [of rest])
  next
    case False
    then obtain hs where hs: "\<not> unat (raw_len bs) < sizeof_Socketmessage" "frames (drop (unat (raw_len bs)) bs) = (hs, rest, True)"
      using "1.prems" by (auto simp: frames.simps [of bs] split: if_splits prod.splits)
    show ?thesis by (rule "1.IH" [OF False hs])
  qed
qed

section \<open>The receiving loop computes the frames\<close>

definition heap_ok :: "heap \<Rightarrow> bool" where
  "heap_ok h \<longleftrightarrow> (\<forall>p. h_next h \<le> p \<longrightarrow> h_mem h p = None)"

text \<open>The messages in a queue, through the heap.\<close>

definition messages_in :: "heap \<Rightarrow> nat queue \<Rightarrow> service_message option list" where
  "messages_in h q = map (h_mem h) (lq_list q)"

definition rsock_ok :: "socket \<Rightarrow> heap \<Rightarrow> bool" where
  "rsock_ok so h \<longleftrightarrow> bb_ok (so_rbuffer so) \<and> \<not> lq_locker (so_rlist so) \<and> heap_ok h
     \<and> (\<forall>p \<in> set (lq_list (so_rlist so)). p < h_next h)"

lemma size_content: "bb_ok b \<Longrightarrow> ByteBuffer_size b = Inr (word_of_nat (length (bb_content b)))"
  using bb_content_length [of b] by (simp add: ByteBuffer_size_def bb_ok_def word_le_nat_alt of_nat_diff)

lemma content_small: "bb_ok b \<Longrightarrow> length (bb_content b) < 2 ^ 63"
  using bb_content_length [of b] unfolding bb_ok_def by linarith

lemma unat_content: "bb_ok b \<Longrightarrow> unat (word_of_nat (length (bb_content b)) :: u64) = length (bb_content b)"
  using content_small [of b] by (intro unat_of_nat_small) simp

lemma peek_content: "bb_ok b \<Longrightarrow> n \<le> length (bb_content b) \<Longrightarrow>
    seq (load (bb_buf b) (ByteBuffer_rbuffer b) n) written = Inr (take n (bb_content b))"
  by (simp add: content_cells ByteBuffer_rbuffer_def)

lemma unat_ucast_up: "unat (ucast (w :: u32) :: u64) = unat w"
  by (simp add: unsigned_ucast_eq take_bit_nat_eq_self_iff less_trans [OF unat_u32_less])

lemma receive_loop_frames:
  assumes "rsock_ok so h" "frames (bb_content (so_rbuffer so)) = (fs, rest, ok)"
  shows "\<exists>q b h'. receive_loop so h = ret (ok, so\<lparr>so_rlist := q, so_rbuffer := b\<rparr>, h')
    \<and> rsock_ok (so\<lparr>so_rlist := q, so_rbuffer := b\<rparr>) h' \<and> bb_content b = rest \<and> bb_buf b = bb_buf (so_rbuffer so)
    \<and> messages_in h' q = messages_in h (so_rlist so) @ map (\<lambda>f. Some \<lparr>sm_fd = so_fd so, sm_raw = f\<rparr>) fs"
  using assms
proof (induction "length (bb_content (so_rbuffer so))" arbitrary: so h fs rule: less_induct)
  case less
  let ?b = "so_rbuffer so"
  let ?bs = "bb_content ?b"
  have b: "bb_ok ?b" using less.prems(1) by (simp add: rsock_ok_def)
  note size = size_content [OF b] and un = unat_content [OF b]
  let ?len = "raw_len ?bs"
  have n4: "(word_of_nat (length ?bs) :: u64) < 4 \<longleftrightarrow> length ?bs < 4" using un by (simp add: word_less_nat_alt)
  have nlen: "(word_of_nat (length ?bs) :: u64) < ucast ?len \<longleftrightarrow> length ?bs < unat ?len"
    using un by (simp add: word_less_nat_alt unat_ucast_up)
  show ?case
  proof (cases "length ?bs < 4 \<or> length ?bs < unat ?len")
    case True
    then have "receive_loop so h = ret (True, so, h)"
      using size peek_content [OF b, of 4] n4 nlen
      by (subst receive_loop.simps) (auto simp: Let_def raw_len_def ret_def)
    moreover have "fs = []" "rest = ?bs" "ok" using True less.prems(2) by (auto simp: frames.simps)
    ultimately show ?thesis using less.prems(1)
      by (intro exI [of _ "so_rlist so"] exI [of _ ?b] exI [of _ h]) simp
  next
    case False
    then have l4: "seq (load (bb_buf ?b) (ByteBuffer_rbuffer ?b) 4) written = Inr (take 4 ?bs)"
      by (intro peek_content [OF b]) simp
    show ?thesis
    proof (cases "unat ?len < sizeof_Socketmessage")
      case True
      then have "receive_loop so h = ret (False, so, h)"
        using size l4 n4 nlen False
        by (subst receive_loop.simps) (auto simp: Let_def raw_len_def ret_def)
      moreover have "fs = []" "rest = ?bs" "\<not> ok" using True False less.prems(2) by (auto simp: frames.simps)
      ultimately show ?thesis using less.prems(1)
        by (intro exI [of _ "so_rlist so"] exI [of _ ?b] exI [of _ h]) simp
    next
      case big: False
      let ?n = "unat ?len"
      obtain gs where gs: "frames (drop ?n ?bs) = (gs, rest, ok)" "fs = take ?n ?bs # gs"
        using False big less.prems(2) by (auto simp: frames.simps [of ?bs] split: prod.splits)
      have l: "seq (load (bb_buf ?b) (ByteBuffer_rbuffer ?b) ?n) written = Inr (take ?n ?bs)"
        using False by (intro peek_content [OF b]) simp
      obtain b1 where b1: "ByteBuffer_rlength ?b (ucast ?len) = Inr b1" "bb_ok b1"
        "bb_content b1 = drop ?n ?bs" "bb_buf b1 = bb_buf ?b"
        using rlength_ok [OF b, of "ucast ?len"] False by (auto simp: unat_ucast_up)
      let ?q = "(so_rlist so)\<lparr>lq_list := lq_list (so_rlist so) @ [h_next h]\<rparr>"
      let ?h = "\<lparr>h_mem = (h_mem h)(h_next h \<mapsto> \<lparr>sm_fd = so_fd so, sm_raw = take ?n ?bs\<rparr>), h_next = Suc (h_next h)\<rparr>"
      let ?so = "so\<lparr>so_rlist := ?q, so_rbuffer := b1\<rparr>"
      have push: "LockfreeQueue_push_back (so_rlist so) (h_next h) = ret ?q"
        using less.prems(1) by (simp add: queue_ops rsock_ok_def)
      have unfolded: "receive_loop so h = receive_loop ?so ?h"
        using size l4 n4 nlen False big l b1(1) push
        by (subst receive_loop.simps) (simp add: Let_def allocate_message_def raw_len_def)
      have ok: "rsock_ok ?so ?h" using less.prems(1) b1(2)
        by (auto simp: rsock_ok_def heap_ok_def)
      have short: "length (bb_content (so_rbuffer ?so)) < length ?bs"
        using False big b1(3) by (simp add: sizeof_Socketmessage_def, linarith)
      have gs': "frames (bb_content (so_rbuffer ?so)) = (gs, rest, ok)" using gs(1) b1(3) by simp
      from less.hyps [OF short ok gs'] obtain q b' h' where r: "receive_loop ?so ?h = ret (ok, ?so\<lparr>so_rlist := q, so_rbuffer := b'\<rparr>, h')"
        "rsock_ok (?so\<lparr>so_rlist := q, so_rbuffer := b'\<rparr>) h'" "bb_content b' = rest" "bb_buf b' = bb_buf b1"
        "messages_in h' q = messages_in ?h ?q @ map (\<lambda>f. Some \<lparr>sm_fd = so_fd so, sm_raw = f\<rparr>) gs"
        by auto
      have "messages_in ?h ?q = messages_in h (so_rlist so) @ [Some \<lparr>sm_fd = so_fd so, sm_raw = take ?n ?bs\<rparr>]"
        using less.prems(1) by (auto simp: messages_in_def rsock_ok_def)
      then show ?thesis using r unfolded gs(2) b1(4)
        by (intro exI [of _ q] exI [of _ b'] exI [of _ h']) simp
    qed
  qed
qed

section \<open>Reading until the kernel has no more\<close>

text \<open>
  \<open>drains K fd n k c k'\<close>: asked for at most \<open>n\<close> bytes again and again, the kernel gives the bytes \<open>c\<close> in
  one or more pieces, with interruptions anywhere, and then says that it would block.
\<close>

inductive drains :: "'k kernel \<Rightarrow> int \<Rightarrow> nat \<Rightarrow> 'k \<Rightarrow> u8 list \<Rightarrow> 'k \<Rightarrow> bool" for K fd where
  drains_stop: "sys_recv K fd n k = (Err e, k') \<Longrightarrow> wouldblock e \<Longrightarrow> drains K fd n k [] k'"
| drains_intr: "sys_recv K fd n k = (Err EINTR, k1) \<Longrightarrow> drains K fd n k1 c k' \<Longrightarrow> drains K fd n k c k'"
| drains_more: "sys_recv K fd n k = (Done bs, k1) \<Longrightarrow> bs \<noteq> [] \<Longrightarrow> length bs \<le> n \<Longrightarrow>
     drains K fd (n - length bs) k1 c k' \<Longrightarrow> drains K fd n k (bs @ c) k'"

lemmas retry_simps = TEMP_FAILURE_RETRY.simps

lemma drains_length: "drains K fd n k c k' \<Longrightarrow> length c \<le> n"
  by (induction rule: drains.induct) auto

lemma wouldblock_not_EINTR: "wouldblock e \<Longrightarrow> e \<noteq> EINTR"
  by (simp add: wouldblock_def EAGAIN_def EWOULDBLOCK_def EINTR_def)

lemma sint_small: "unat (w :: u64) < 2 ^ 63 \<Longrightarrow> sint w = int (unat w)"
proof -
  assume "unat w < 2 ^ 63"
  then have "int (unat w) < int (2 ^ 63)" by (simp only: of_nat_less_iff)
  then have "uint w < 2 ^ 63" by simp
  moreover have "- (2 ^ 63) \<le> uint w" by (rule order_trans [OF _ unsigned_greater_eq]) simp
  ultimately show ?thesis by (simp add: sint_uint signed_take_bit_int_eq_self_iff)
qed

lemma readBytes_loop_intr:
  "sys_recv K fd (unat (len - bytes)) k = (Err EINTR, k1) \<Longrightarrow>
     readBytes_loop K fd p len bytes m k = readBytes_loop K fd p len bytes m k1"
  by (subst (1 2) readBytes_loop.simps, subst retry_simps) simp

lemma readBytes_loop_drains:
  assumes "drains K fd n k c k'"
  shows "n = unat (len - bytes) \<Longrightarrow> bytes \<le> len \<Longrightarrow> unat len < 2 ^ 63 \<Longrightarrow> p + unat len \<le> length m \<Longrightarrow>
    readBytes_loop K fd p len bytes m k =
      ret (int (unat bytes + length c), take (p + unat bytes) m @ map Some c @ drop (p + unat bytes + length c) m, k')"
  using assms
proof (induction arbitrary: bytes m rule: drains.induct)
  case (drains_stop n k e k')
  have "unat bytes < 2 ^ 63" using drains_stop.prems(2,3) by (simp add: word_le_nat_alt)
  then show ?case using drains_stop.hyps drains_stop.prems(1) wouldblock_not_EINTR [OF drains_stop.hyps(2)]
    by (subst readBytes_loop.simps, subst retry_simps) (simp add: interrupted_def sint_small)
next
  case (drains_intr n k k1 c k')
  then show ?case by (simp add: readBytes_loop_intr)
next
  case (drains_more n k bs k1 c k')
  have le: "unat bytes \<le> unat len" and n: "n = unat len - unat bytes"
    using drains_more.prems(1,2) by (simp_all add: word_le_nat_alt unat_minus_le)
  have lb: "length bs \<le> unat len - unat bytes" using drains_more.hyps(3) n by simp
  have small: "length bs < 2 ^ 63" using lb drains_more.prems(3) by linarith
  have u: "unat (bytes + word_of_nat (length bs)) = unat bytes + length bs"
  proof -
    have w: "unat (word_of_nat (length bs) :: u64) = length bs"
      using small by (intro unat_of_nat_small) simp
    have "unat bytes + length bs < 2 ^ LENGTH(64)" using le lb drains_more.prems(3) by simp
    then show ?thesis using w by (subst unat_plus_small) simp_all
  qed
  have le2: "bytes + word_of_nat (length bs) \<le> len" using u le lb by (simp add: word_le_nat_alt)
  have n2: "n - length bs = unat (len - (bytes + word_of_nat (length bs)))"
    using unat_minus_le [OF le2] u n by simp
  let ?m = "take (p + unat bytes) m @ map Some bs @ drop (p + unat bytes + length bs) m"
  have fits: "p + unat bytes + length bs \<le> length m" using lb le drains_more.prems(4) by linarith
  have st: "store m (p + unat bytes) bs = Inr ?m" using fits by (rule store_Inr)
  have len: "length ?m = length m" using fits by simp
  have "readBytes_loop K fd p len bytes m k = readBytes_loop K fd p len (bytes + word_of_nat (length bs)) ?m k1"
    using drains_more.hyps(1,2) drains_more.prems(1) st
    by (subst readBytes_loop.simps, subst retry_simps) simp
  also have "\<dots> = ret (int (unat (bytes + word_of_nat (length bs)) + length c),
      take (p + unat (bytes + word_of_nat (length bs))) ?m @ map Some c
        @ drop (p + unat (bytes + word_of_nat (length bs)) + length c) ?m, k')"
    by (rule drains_more.IH [OF n2 le2 drains_more.prems(3)]) (use len drains_more.prems(4) in simp)
  also have "take (p + unat (bytes + word_of_nat (length bs))) ?m = take (p + unat bytes) m @ map Some bs"
    using u fits by simp
  also have "drop (p + unat (bytes + word_of_nat (length bs)) + length c) ?m = drop (p + unat bytes + length (bs @ c)) m"
    using u fits by (simp add: add.commute add.left_commute)
  finally show ?case using u by simp
qed

text \<open>A connection that has the whole buffer's worth of bytes ready: the next call asks for none.\<close>

lemma readBytes_full:
  assumes "sys_recv K fd 960 k = (Done c, k1)" "length c = 960" "sys_recv K fd 0 k1 = (Done [], k2)" "p + 960 \<le> length m"
  shows "\<exists>m'. readBytes K fd p 960 m k = ret (-1, m', k2)"
proof -
  have "c \<noteq> []" using assms(2) by auto
  then have 1: "readBytes_loop K fd p 960 0 m k = readBytes_loop K fd p 960 960 (take p m @ map Some c @ drop (p + 960) m) k1"
    using assms(1,2,4) by (subst readBytes_loop.simps, subst retry_simps) (simp add: store_Inr)
  have "readBytes_loop K fd p 960 960 m' k1 = ret (-1, m', k2)" for m'
    using assms(3) by (subst readBytes_loop.simps, subst retry_simps) simp
  then show ?thesis using 1 by (simp add: readBytes_def)
qed

lemma receive_frames:
  assumes so: "rsock_ok so h" and room: "960 \<le> bb_room (so_rbuffer so)"
    and d: "drains K (so_fd so) 960 k c k'" and f: "frames (bb_content (so_rbuffer so) @ c) = (fs, rest, ok)"
  shows "\<exists>q b h'. receive K so h k = ret (ok, so\<lparr>so_rlist := q, so_rbuffer := b\<rparr>, h', k')
    \<and> rsock_ok (so\<lparr>so_rlist := q, so_rbuffer := b\<rparr>) h' \<and> bb_content b = rest
    \<and> bb_room (so_rbuffer so) \<le> bb_room b + 960
    \<and> messages_in h' q = messages_in h (so_rlist so) @ map (\<lambda>f. Some \<lparr>sm_fd = so_fd so, sm_raw = f\<rparr>) fs"
proof -
  let ?b = "so_rbuffer so"
  have b: "bb_ok ?b" using so by (simp add: rsock_ok_def)
  have "max 960 512 \<le> bb_room ?b" using room by simp
  note r = reserve_ok [OF b this]
  let ?r = "ByteBuffer_reserve ?b 960"
  have r960: "ByteBuffer_reserve ?b (word_of_nat 960) = ?r" by simp
  note r = r [unfolded r960]
  have len: "length c \<le> 960" by (rule drains_length [OF d])
  let ?p = "unat (bb_windex ?r)"
  let ?m = "take ?p (bb_buf ?r) @ map Some c @ drop (?p + length c) (bb_buf ?r)"
  have read: "readBytes K (so_fd so) ?p 960 (bb_buf ?r) k = ret (int (length c), ?m, k')"
    unfolding readBytes_def using readBytes_loop_drains [OF d, of 960 0 ?p "bb_buf ?r"] r(3,5) by simp
  have fits: "?p + length c \<le> length (bb_buf ?r)" using r(3,5) len by simp
  obtain b1 where b1: "ByteBuffer_wlength (?r\<lparr>bb_buf := ?m\<rparr>) (word_of_nat (length c)) = Inr b1" "bb_ok b1"
    "bb_content b1 = bb_content ?b @ c" "bb_room b1 = bb_room ?r"
    using fill_ok [OF r(1) fits] r(2) by auto
  have same: "bind_run (if 0 < int (length c) then Some (ByteBuffer_wlength (?r\<lparr>bb_buf := ?m\<rparr>) (word_of_int (int (length c))))
      else ret (?r\<lparr>bb_buf := ?m\<rparr>)) g = g b1" for g :: "byte_buffer \<Rightarrow> (bool \<times> socket \<times> heap \<times> 'a) run"
  proof (cases "c = []")
    case True
    have "?r\<lparr>bb_buf := ?m\<rparr> = b1" using b1(1) True r(1,3)
      by (cases ?r) (auto simp: ByteBuffer_wlength_def bb_ok_def check_def split: if_splits)
    then show ?thesis using True by simp
  qed (use b1(1) in simp)
  let ?so = "so\<lparr>so_rbuffer := b1\<rparr>"
  have so1: "rsock_ok ?so h" using so b1(2) by (simp add: rsock_ok_def)
  have f1: "frames (bb_content (so_rbuffer ?so)) = (fs, rest, ok)" using f b1(3) by simp
  obtain q b2 h' where l: "receive_loop ?so h = ret (ok, ?so\<lparr>so_rlist := q, so_rbuffer := b2\<rparr>, h')"
    "rsock_ok (?so\<lparr>so_rlist := q, so_rbuffer := b2\<rparr>) h'" "bb_content b2 = rest" "bb_buf b2 = bb_buf b1"
    "messages_in h' q = messages_in h (so_rlist so) @ map (\<lambda>f. Some \<lparr>sm_fd = so_fd so, sm_raw = f\<rparr>) fs"
    using receive_loop_frames [OF so1 f1] by auto
  have "receive K so h k = ret (ok, so\<lparr>so_rlist := q, so_rbuffer := b2\<rparr>, h', k')"
    using read same l(1) by (simp add: receive_def ByteBuffer_wbuffer_def Let_def)
  moreover have "bb_room (so_rbuffer so) \<le> bb_room b2 + 960"
    using r(6) b1(4) l(4) by (simp add: bb_room_def)
  ultimately show ?thesis using l by auto
qed

section \<open>Whole streams\<close>

text \<open>\<open>receive\<close> called each time the kernel has something, while it succeeds.\<close>

fun receive_times :: "'k kernel \<Rightarrow> nat \<Rightarrow> socket \<Rightarrow> heap \<Rightarrow> 'k \<Rightarrow> (bool \<times> socket \<times> heap \<times> 'k) run" where
  "receive_times K 0 so h k = ret (True, so, h, k)"
| "receive_times K (Suc n) so h k =
     bind_run (receive K so h k) (\<lambda>(ok, so, h, k). if ok then receive_times K n so h k else ret (False, so, h, k))"

fun deliveries :: "'k kernel \<Rightarrow> int \<Rightarrow> 'k \<Rightarrow> u8 list list \<Rightarrow> 'k \<Rightarrow> bool" where
  "deliveries K fd k [] k' = (k' = k)"
| "deliveries K fd k (c # cs) k' = (\<exists>k1. drains K fd 960 k c k1 \<and> deliveries K fd k1 cs k')"

lemma frames_True_prefix:
  assumes "frames (a @ b) = (fs, rest, True)"
  shows "\<exists>gs r. frames a = (gs, r, True)"
  using assms
proof (induction a arbitrary: fs rule: frames.induct)
  case (1 a)
  show ?case
  proof (cases "length a < 4 \<or> length a < unat (raw_len a)")
    case True
    then show ?thesis by (auto simp: frames.simps [of a])
  next
    case False
    then have ab: "sizeof_Socketmessage \<le> unat (raw_len a)" "\<exists>hs. frames (drop (unat (raw_len a)) a @ b) = (hs, rest, True)"
      using "1.prems" by (auto simp: frames.simps [of "a @ b"] split: if_splits prod.splits)
    then obtain hs where "frames (drop (unat (raw_len a)) a @ b) = (hs, rest, True)" by blast
    from "1.IH" [OF False _ this] ab(1) obtain gs r where "frames (drop (unat (raw_len a)) a) = (gs, r, True)" by auto
    then show ?thesis using False ab(1) by (simp add: frames.simps [of a])
  qed
qed

lemma receive_times_frames:
  "rsock_ok so h \<Longrightarrow> 960 * length cs \<le> bb_room (so_rbuffer so) \<Longrightarrow> deliveries K (so_fd so) k cs k' \<Longrightarrow>
     frames (bb_content (so_rbuffer so)) = ([], bb_content (so_rbuffer so), True) \<Longrightarrow>
     frames (bb_content (so_rbuffer so) @ concat cs) = (fs, rest, True) \<Longrightarrow>
     \<exists>q b h'. receive_times K (length cs) so h k = ret (True, so\<lparr>so_rlist := q, so_rbuffer := b\<rparr>, h', k')
       \<and> bb_content b = rest \<and> bb_ok b
       \<and> messages_in h' q = messages_in h (so_rlist so) @ map (\<lambda>f. Some \<lparr>sm_fd = so_fd so, sm_raw = f\<rparr>) fs"
proof (induction cs arbitrary: so h k fs)
  case Nil
  then show ?case by (intro exI [of _ "so_rlist so"] exI [of _ "so_rbuffer so"] exI [of _ h]) (auto simp: rsock_ok_def)
next
  case (Cons c cs)
  let ?b = "so_rbuffer so"
  obtain k1 where k1: "drains K (so_fd so) 960 k c k1" "deliveries K (so_fd so) k1 cs k'" using Cons.prems(3) by auto
  obtain gs r where gs: "frames (bb_content ?b @ c) = (gs, r, True)"
    using frames_True_prefix [of "bb_content ?b @ c" "concat cs"] Cons.prems(5) by auto
  have room: "960 \<le> bb_room ?b" using Cons.prems(2) by simp
  obtain q b h1 where 1: "receive K so h k = ret (True, so\<lparr>so_rlist := q, so_rbuffer := b\<rparr>, h1, k1)"
    "rsock_ok (so\<lparr>so_rlist := q, so_rbuffer := b\<rparr>) h1" "bb_content b = r" "bb_room ?b \<le> bb_room b + 960"
    "messages_in h1 q = messages_in h (so_rlist so) @ map (\<lambda>f. Some \<lparr>sm_fd = so_fd so, sm_raw = f\<rparr>) gs"
    using receive_frames [OF Cons.prems(1) room k1(1) gs] by blast
  let ?so = "so\<lparr>so_rlist := q, so_rbuffer := b\<rparr>"
  obtain hs rest' ok' where hs: "frames (r @ concat cs) = (hs, rest', ok')" by (metis prod_cases3)
  have "frames ((bb_content ?b @ c) @ concat cs) = (gs @ hs, rest', ok')" by (rule frames_append [OF gs hs])
  then have eq: "fs = gs @ hs" "rest' = rest" "ok'" using Cons.prems(5) by auto
  have "960 * length cs \<le> bb_room (so_rbuffer ?so)" using Cons.prems(2) 1(4) by simp
  moreover have "deliveries K (so_fd ?so) k1 cs k'" using k1(2) by simp
  moreover have "frames (bb_content (so_rbuffer ?so)) = ([], bb_content (so_rbuffer ?so), True)"
    using frames_rest [OF gs] 1(3) by simp
  moreover have "frames (bb_content (so_rbuffer ?so) @ concat cs) = (hs, rest, True)" using hs eq 1(3) by simp
  ultimately obtain q' b' h' where "receive_times K (length cs) ?so h1 k1 = ret (True, ?so\<lparr>so_rlist := q', so_rbuffer := b'\<rparr>, h', k')"
    "bb_content b' = rest" "bb_ok b'" "messages_in h' q' = messages_in h1 q @ map (\<lambda>f. Some \<lparr>sm_fd = so_fd so, sm_raw = f\<rparr>) hs"
    using Cons.IH [OF 1(2), of k1 hs] by auto
  then show ?case using 1 eq by auto
qed


text \<open>A kernel that gives the pieces of a list, one for each call, and would block after each.\<close>

definition piecewise :: "u8 list option list kernel" where
  "piecewise = \<lparr>sys_recv = (\<lambda>fd n k. case k of [] \<Rightarrow> (Err EAGAIN, []) | None # k \<Rightarrow> (Err EAGAIN, k) | Some bs # k \<Rightarrow> (Done bs, k)),
     sys_send = (\<lambda>fd bs k. (Done (length bs), k)), sys_close = (\<lambda>fd k. k)\<rparr>"

lemma piecewise_drains:
  "bs \<noteq> [] \<Longrightarrow> length bs \<le> n \<Longrightarrow> drains piecewise fd n (Some bs # None # k) bs k"
  using drains_more [of piecewise fd n "Some bs # None # k" bs "None # k" "[]" k]
    drains_stop [of piecewise fd "n - length bs" "None # k" EAGAIN k]
  by (simp add: piecewise_def wouldblock_def)


text \<open>
  C36. A connection with 960 bytes or more waiting: the buffer of 960 bytes is filled, the next
  \<open>recv\<close> is asked for none and answers 0, as it does for an empty buffer, and \<open>receive\<close> takes this for
  a lost connection. Nothing of what was read is delivered.
\<close>

theorem receive_960_fails:
  assumes "sys_recv K fd 960 k = (Done c, k1)" "length c = 960" "sys_recv K fd 0 k1 = (Done [], k2)"
  shows "\<exists>so. receive K (new_SocketInternal fd) h k = ret (False, so, h, k2) \<and> lq_list (so_rlist so) = []"
proof -
  have room: "max 960 512 \<le> bb_room (new_ByteBuffer 65535)"
    by (rule new_ByteBuffer_room) simp_all
  have ok: "bb_ok (new_ByteBuffer 65535)" by (rule new_ByteBuffer_ok(1)) simp
  obtain m' where "readBytes K fd (unat (bb_windex (ByteBuffer_reserve (new_ByteBuffer 65535) 960))) 960
      (bb_buf (ByteBuffer_reserve (new_ByteBuffer 65535) 960)) k = ret (-1, m', k2)"
    using readBytes_full [OF assms] reserve_ok(3,5) [OF ok room] by fastforce
  then show ?thesis
    by (simp add: receive_def ByteBuffer_wbuffer_def new_SocketInternal_def new_LockfreeQueue_def Let_def)
qed

theorem receive_960_fails_witness:
  "\<exists>so. receive \<lparr>sys_recv = \<lambda>fd n k. (Done (replicate (min n k) 7), k - n),
        sys_send = \<lambda>fd bs k. (Done (length bs), k), sys_close = \<lambda>fd k. k\<rparr> (new_SocketInternal 5) empty_heap (1000 :: nat)
      = ret (False, so, empty_heap, 40) \<and> lq_list (so_rlist so) = []"
  by (rule receive_960_fails [where c = "replicate 960 7"]) simp_all

section \<open>Sending\<close>

text \<open>
  What \<open>send(2)\<close> documents: it takes a prefix of the bytes it is given, and what it took goes out in
  order (\<open>wire\<close>); an error takes none. Signals interrupt a thread only finitely often (\<open>patience\<close>).
\<close>

definition honest :: "'k kernel \<Rightarrow> int \<Rightarrow> ('k \<Rightarrow> u8 list) \<Rightarrow> ('k \<Rightarrow> nat) \<Rightarrow> bool" where
  "honest K fd wire patience \<longleftrightarrow> (\<forall>bs k. case sys_send K fd bs k of
       (Done n, k') \<Rightarrow> n \<le> length bs \<and> wire k' = wire k @ take n bs
     | (Err e, k') \<Rightarrow> wire k' = wire k \<and> (e = EINTR \<longrightarrow> patience k' < patience k))"

lemma retry_send:
  assumes "honest K fd wire patience"
  shows "\<exists>r k'. TEMP_FAILURE_RETRY (sys_send K fd bs) k = ret (r, k') \<and>
    (case r of Done n \<Rightarrow> n \<le> length bs \<and> wire k' = wire k @ take n bs | Err e \<Rightarrow> e \<noteq> EINTR \<and> wire k' = wire k)"
proof (induction "patience k" arbitrary: k rule: less_induct)
  case less
  obtain r k1 where rk: "sys_send K fd bs k = (r, k1)" by force
  have h: "case (r, k1) of (Done n, k') \<Rightarrow> n \<le> length bs \<and> wire k' = wire k @ take n bs
     | (Err e, k') \<Rightarrow> wire k' = wire k \<and> (e = EINTR \<longrightarrow> patience k' < patience k)"
    using assms [unfolded honest_def, THEN spec, THEN spec, of bs k] unfolding rk .
  show ?case
  proof (cases r)
    case (Done n)
    have "TEMP_FAILURE_RETRY (sys_send K fd bs) k = ret (r, k1)"
      using rk Done by (subst TEMP_FAILURE_RETRY.simps) simp
    then show ?thesis using h Done by simp
  next
    case (Err e)
    show ?thesis
    proof (cases "e = EINTR")
      case True
      then have k1: "patience k1 < patience k" "wire k1 = wire k" using h Err by auto
      have "TEMP_FAILURE_RETRY (sys_send K fd bs) k = TEMP_FAILURE_RETRY (sys_send K fd bs) k1"
        using rk Err True by (subst TEMP_FAILURE_RETRY.simps) simp
      then show ?thesis using less.hyps [OF k1(1), unfolded k1(2)] by simp
    next
      case False
      then have "TEMP_FAILURE_RETRY (sys_send K fd bs) k = ret (r, k1)"
        using rk Err by (subst TEMP_FAILURE_RETRY.simps) simp
      then show ?thesis using h Err False by simp
    qed
  qed
qed

lemma sendBytes_loop_ok:
  assumes "honest K fd wire patience"
  shows "n \<le> length buf \<Longrightarrow> \<exists>r j k'. sendBytes_loop K fd buf n k = ret (r, k') \<and> n + j \<le> length buf
    \<and> wire k' = wire k @ take j (drop n buf) \<and> (r = int (n + j) \<or> r = -1)"
proof (induction "length buf - n" arbitrary: n k rule: less_induct)
  case less
  show ?case
  proof (cases "n < length buf")
    case False
    then have "sendBytes_loop K fd buf n k = ret (int n, k)" by (subst sendBytes_loop.simps) simp
    then show ?thesis using less.prems by (intro exI [of _ "int n"] exI [of _ 0] exI [of _ k]) simp
  next
    case True
    obtain r k1 where r: "TEMP_FAILURE_RETRY (sys_send K fd (drop n buf)) k = ret (r, k1)"
      "case r of Done i \<Rightarrow> i \<le> length (drop n buf) \<and> wire k1 = wire k @ take i (drop n buf)
         | Err e \<Rightarrow> e \<noteq> EINTR \<and> wire k1 = wire k"
      using retry_send [OF assms, of "drop n buf" k] by blast
    show ?thesis
    proof (cases r)
      case (Err e)
      then have "sendBytes_loop K fd buf n k = ret (if wouldblock e then int n else -1, k1)"
        using True r by (subst sendBytes_loop.simps) (simp add: interrupted_def)
      then show ?thesis using Err r(2) less.prems
        by (intro exI [of _ "if wouldblock e then int n else -1"] exI [of _ 0] exI [of _ k1]) simp
    next
      case (Done i)
      have i: "i \<le> length buf - n" "wire k1 = wire k @ take i (drop n buf)" using r(2) Done by auto
      show ?thesis
      proof (cases "i = 0")
        case zero: True
        then have "sendBytes_loop K fd buf n k = ret (-1, k1)"
          using True r(1) Done by (subst sendBytes_loop.simps) simp
        then show ?thesis using i zero less.prems
          by (intro exI [of _ "-1"] exI [of _ 0] exI [of _ k1]) simp
      next
        case False
        then have u: "sendBytes_loop K fd buf n k = sendBytes_loop K fd buf (n + i) k1"
          using True r(1) Done by (subst sendBytes_loop.simps) simp
        have "length buf - (n + i) < length buf - n" "n + i \<le> length buf" using True False i(1) by auto
        from less.hyps [OF this, of k1] obtain r' j k' where j: "sendBytes_loop K fd buf (n + i) k1 = ret (r', k')"
          "n + i + j \<le> length buf" "wire k' = wire k1 @ take j (drop (n + i) buf)" "r' = int (n + i + j) \<or> r' = -1"
          by blast
        have "take i (drop n buf) @ take j (drop (n + i) buf) = take (i + j) (drop n buf)"
          by (simp add: take_add add.commute)
        then show ?thesis using u j i(2)
          by (intro exI [of _ r'] exI [of _ "i + j"] exI [of _ k']) (auto simp: add.assoc)
      qed
    qed
  qed
qed

definition sendable :: "service_message \<Rightarrow> bool" where
  "sendable m \<longleftrightarrow> 4 \<le> length (sm_raw m) \<and> length (sm_raw m) = unat (raw_len (sm_raw m))"

text \<open>The bytes of the messages at some addresses, and all the bytes a connection still has to send.\<close>

definition raw_bytes :: "heap \<Rightarrow> nat list \<Rightarrow> u8 list" where
  "raw_bytes h ps = concat (map (\<lambda>p. case h_mem h p of None \<Rightarrow> [] | Some m \<Rightarrow> sm_raw m) ps)"

definition pending :: "socket \<Rightarrow> heap \<Rightarrow> u8 list" where
  "pending so h = bb_content (so_wbuffer so) @ raw_bytes h (lq_list (so_slist so))"

definition ssock_ok :: "socket \<Rightarrow> heap \<Rightarrow> bool" where
  "ssock_ok so h \<longleftrightarrow> bb_ok (so_wbuffer so) \<and> \<not> lq_locker (so_slist so) \<and> distinct (lq_list (so_slist so))
     \<and> (\<forall>p \<in> set (lq_list (so_slist so)). \<exists>m. h_mem h p = Some m \<and> sendable m)"

text \<open>
  What a call of \<open>send\<close> did: the messages it took off the list are released and no other, and the
  bytes that went out continue the stream; none is lost unless the call failed.
\<close>

definition sent_ok :: "('k \<Rightarrow> u8 list) \<Rightarrow> socket \<Rightarrow> heap \<Rightarrow> 'k \<Rightarrow> bool \<Rightarrow> socket \<Rightarrow> heap \<Rightarrow> 'k \<Rightarrow> bool" where
  "sent_ok wire so h k ok so' h' k' \<longleftrightarrow> ssock_ok so' h' \<and>
     (\<exists>gone. lq_list (so_slist so) = gone @ lq_list (so_slist so') \<and> h_mem h' = h_mem h |` (- set gone)) \<and>
     prefix (wire k') (wire k @ pending so h) \<and>
     (ok \<longrightarrow> wire k' @ pending so' h' = wire k @ pending so h)"

lemma raw_bytes_release:
  "p \<notin> set ps \<Longrightarrow> raw_bytes (h\<lparr>h_mem := (h_mem h)(p := None)\<rparr>) ps = raw_bytes h ps"
  by (auto simp: raw_bytes_def intro!: arg_cong [of _ _ concat] map_cong)

lemma message_bytes_sendable: "sendable m \<Longrightarrow> message_bytes m = Inr (sm_raw m)"
  by (simp add: sendable_def message_bytes_def)

lemma sendable_length: "sendable m \<Longrightarrow> length (sm_raw m) < 2 ^ 32"
  using unat_u32_less by (simp add: sendable_def)

lemma send_loop_ok:
  assumes "honest K (so_fd so) wire patience"
  shows "ssock_ok so h \<Longrightarrow> bb_content (so_wbuffer so) = [] \<Longrightarrow> 2 ^ 33 \<le> bb_room (so_wbuffer so) \<Longrightarrow>
    \<exists>ok q b h' k'. send_loop K so h k = ret (ok, so\<lparr>so_slist := q, so_wbuffer := b\<rparr>, h', k')
      \<and> sent_ok wire so h k ok (so\<lparr>so_slist := q, so_wbuffer := b\<rparr>) h' k'"
  using assms
proof (induction "length (lq_list (so_slist so))" arbitrary: so h k)
  case 0
  then have "send_loop K so h k = ret (True, so, h, k)"
    by (subst send_loop.simps) (simp add: LockfreeQueue_empty_def)
  then show ?case using 0
    by (intro exI [of _ True] exI [of _ "so_slist so"] exI [of _ "so_wbuffer so"] exI [of _ h] exI [of _ k])
      (auto simp: sent_ok_def intro!: exI [of _ "[]"])
next
  case (Suc n)
  let ?b = "so_wbuffer so"
  obtain p ps where ps: "lq_list (so_slist so) = p # ps" using Suc.hyps(2) by (cases "lq_list (so_slist so)") auto
  let ?q = "(so_slist so)\<lparr>lq_list := ps\<rparr>" and ?h = "h\<lparr>h_mem := (h_mem h)(p := None)\<rparr>"
  have ok: "bb_ok ?b" "\<not> lq_locker (so_slist so)" "p \<notin> set ps" using Suc.prems(1) ps by (simp_all add: ssock_ok_def)
  obtain m where m: "h_mem h p = Some m" "sendable m" using Suc.prems(1) ps by (auto simp: ssock_ok_def)
  let ?raw = "sm_raw m"
  have ready: "ssock_ok (so\<lparr>so_slist := ?q, so_wbuffer := b\<rparr>) ?h" if "bb_ok b" for b
    using Suc.prems(1) ps that by (auto simp: ssock_ok_def)
  have rest: "raw_bytes h (p # ps) = ?raw @ raw_bytes h ps" "raw_bytes ?h ps = raw_bytes h ps"
    using m(1) raw_bytes_release [OF ok(3)] by (simp_all add: raw_bytes_def)
  have total: "pending so h = ?raw @ raw_bytes h ps"
    using Suc.prems(2) ps rest(1) by (simp add: pending_def)
  have freed: "h_mem ?h = h_mem h |` (- set [p])" by (auto simp: restrict_map_def)
  obtain r j k1 where r: "sendBytes K (so_fd so) ?raw k = ret (r, k1)" "j \<le> length ?raw"
    "wire k1 = wire k @ take j ?raw" "r = int j \<or> r = -1"
    using sendBytes_loop_ok [OF Suc.prems(4), of 0 ?raw k] by (auto simp: sendBytes_def)
  have pre: "prefix (wire k1) (wire k @ pending so h)"
    unfolding r(3) total by (simp add: prefix_def) (metis append.assoc append_take_drop_id)
  have pop: "LockfreeQueue_pop_front (so_slist so) = ret (p, ?q)" using ok(2) ps by (simp add: queue_ops)
  have rel: "release_message h p = Inr ?h" using m(1) by (simp add: release_message_def)
  have bytes: "seq (deref h p) message_bytes = Inr ?raw" using m message_bytes_sendable by (simp add: deref_def)
  show ?case
  proof (cases "r < 0")
    case True
    have "send_loop K so h k = ret (False, so\<lparr>so_slist := ?q, so_wbuffer := ?b\<rparr>, ?h, k1)"
      using True by (subst send_loop.simps) (simp add: LockfreeQueue_empty_def ps pop bytes r(1) rel)
    moreover have "sent_ok wire so h k False (so\<lparr>so_slist := ?q, so_wbuffer := ?b\<rparr>) ?h k1"
      unfolding sent_ok_def using ready [OF ok(1)] freed pre ps by (auto intro!: exI [of _ "[p]"])
    ultimately show ?thesis by blast
  next
    case False
    then have rj: "r = int j" using r(4) by auto
    show ?thesis
    proof (cases "j < length ?raw")
      case True
      let ?d = "drop j ?raw"
      have "length ?d < 2 ^ 32" using sendable_length [OF m(2)] by simp
      then have room: "max (length ?d) 512 \<le> bb_room ?b" using Suc.prems(3) by simp
      obtain b where b: "ByteBuffer_append ?b ?d (word_of_nat (length ?d)) = Inr b" "bb_ok b" "bb_content b = ?d"
        using append_ok [OF ok(1) room] Suc.prems(2) by auto
      have "(0 :: u64) < word_of_nat (length (bb_content b))"
        using unat_content [OF b(2)] b(3) True by (simp add: word_less_nat_alt)
      then have "send_loop K so h k = ret (True, so\<lparr>so_slist := ?q, so_wbuffer := b\<rparr>, ?h, k1)"
        using rj True b(1) size_content [OF b(2)]
        by (subst send_loop.simps) (simp add: LockfreeQueue_empty_def ps pop bytes r(1) rel Let_def)
      moreover have "sent_ok wire so h k True (so\<lparr>so_slist := ?q, so_wbuffer := b\<rparr>) ?h k1"
        unfolding sent_ok_def
      proof (intro conjI impI)
        show "wire k1 @ pending (so\<lparr>so_slist := ?q, so_wbuffer := b\<rparr>) ?h = wire k @ pending so h"
          unfolding r(3) total using b(3) rest(2) by (simp add: pending_def)
      qed (use ready [OF b(2)] freed pre ps in \<open>auto intro!: exI [of _ "[p]"]\<close>)
      ultimately show ?thesis by blast
    next
      case all: False
      then have j: "j = length ?raw" using r(2) by simp
      let ?so = "so\<lparr>so_slist := ?q\<rparr>"
      have w: "so\<lparr>so_slist := ?q, so_wbuffer := ?b\<rparr> = ?so" by (cases so) simp
      have u: "send_loop K so h k = send_loop K ?so ?h k1"
        using rj all size_content [OF ok(1)] Suc.prems(2) w
        by (subst send_loop.simps) (simp add: LockfreeQueue_empty_def ps pop bytes r(1) rel Let_def)
      obtain ok' q b h' k' where l: "send_loop K ?so ?h k1 = ret (ok', ?so\<lparr>so_slist := q, so_wbuffer := b\<rparr>, h', k')"
        "sent_ok wire ?so ?h k1 ok' (?so\<lparr>so_slist := q, so_wbuffer := b\<rparr>) h' k'"
        using Suc.hyps(1) [of ?so ?h k1] Suc.hyps(2) ps ready [OF ok(1)] Suc.prems(2-4) w by auto
      have p1: "wire k1 @ pending ?so ?h = wire k @ pending so h"
        unfolding r(3) total j using Suc.prems(2) rest(2) by (simp add: pending_def)
      obtain gone where gone: "ps = gone @ lq_list q" "h_mem h' = h_mem ?h |` (- set gone)"
        using l(2) by (auto simp: sent_ok_def)
      have "sent_ok wire so h k ok' (so\<lparr>so_slist := q, so_wbuffer := b\<rparr>) h' k'"
        using l(2) p1 ps gone unfolding sent_ok_def
        by (auto intro!: exI [of _ "p # gone"] simp: restrict_map_def)
      then show ?thesis using u l(1) by auto
    qed
  qed
qed

lemma flush_body_ok:
  assumes hon: "honest K (so_fd so) wire patience" and so: "ssock_ok so h" and room: "2 ^ 33 \<le> bb_room (so_wbuffer so)"
  shows "\<exists>ok q b h' k'. flush_body K so h k = ret (ok, so\<lparr>so_slist := q, so_wbuffer := b\<rparr>, h', k')
      \<and> sent_ok wire so h k ok (so\<lparr>so_slist := q, so_wbuffer := b\<rparr>) h' k'"
proof -
  let ?b = "so_wbuffer so" and ?c = "bb_content (so_wbuffer so)"
  have b: "bb_ok ?b" using so by (simp add: ssock_ok_def)
  have self: "so\<lparr>so_slist := so_slist so, so_wbuffer := ?b\<rparr> = so" by (cases so) simp
  have n: "0 < (word_of_nat (length ?c) :: u64) \<longleftrightarrow> ?c \<noteq> []" using unat_content [OF b] by (simp add: word_less_nat_alt)
  note n1 = n unat_content [OF b] size_content [OF b]
  show ?thesis
  proof (cases "?c = []")
    case True
    then have "flush_body K so h k = send_loop K so h k"
      using n1 by (simp add: flush_body_def)
    then show ?thesis using send_loop_ok [OF hon so True room] by simp
  next
    case False
    obtain r j k1 where r: "sendBytes K (so_fd so) ?c k = ret (r, k1)" "j \<le> length ?c"
      "wire k1 = wire k @ take j ?c" "r = int j \<or> r = -1"
      using sendBytes_loop_ok [OF hon, of 0 ?c k] by (auto simp: sendBytes_def)
    have pre: "prefix (wire k1) (wire k @ pending so h)"
      unfolding r(3) pending_def by (simp add: prefix_def) (metis append.assoc append_take_drop_id)
    have read: "seq (load (bb_buf ?b) (ByteBuffer_rbuffer ?b) (unat (word_of_nat (length ?c) :: u64))) written = Inr ?c"
      using peek_content [OF b, of "length ?c"] unat_content [OF b] by simp
    show ?thesis
    proof (cases "r < 0")
      case True
      then have "flush_body K so h k = ret (False, so, h, k1)"
        using n1 False read r(1) by (simp add: flush_body_def)
      moreover have "sent_ok wire so h k False so h k1"
        using so pre by (auto simp: sent_ok_def intro!: exI [of _ "[]"])
      ultimately show ?thesis
        by (intro exI [of _ False] exI [of _ "so_slist so"] exI [of _ ?b] exI [of _ h] exI [of _ k1]) (simp add: self)
    next
      case nonneg: False
      then have rj: "r = int j" using r(4) by auto
      have j64: "unat (word_of_int (int j) :: u64) = j"
        using r(2) content_small [OF b] by (simp add: unat_of_nat_small)
      obtain b1 where b1: "ByteBuffer_rlength ?b (word_of_int (int j)) = Inr b1" "bb_ok b1" "bb_content b1 = drop j ?c"
        "bb_buf b1 = bb_buf ?b"
        using rlength_ok [OF b, of "word_of_int (int j)"] j64 r(2) by auto
      obtain b2 where b2: "bb_ok b2" "bb_content b2 = drop j ?c" "bb_buf b2 = bb_buf ?b"
        "flush_body K so h k = (if bb_content b2 \<noteq> [] then ret (True, so\<lparr>so_wbuffer := b2\<rparr>, h, k1)
           else send_loop K (so\<lparr>so_wbuffer := b2\<rparr>) h k1)"
      proof (cases "j = 0")
        case True
        have "so\<lparr>so_wbuffer := ?b\<rparr> = so" by (cases so) simp
        then have "flush_body K so h k = (if ?c \<noteq> [] then ret (True, so\<lparr>so_wbuffer := ?b\<rparr>, h, k1)
           else send_loop K (so\<lparr>so_wbuffer := ?b\<rparr>) h k1)"
          using n1 False read r(1) rj True by (simp add: flush_body_def)
        then show ?thesis using that [of ?b] b True by simp
      next
        case pos: False
        have n2: "0 < (word_of_nat (length (bb_content b1)) :: u64) \<longleftrightarrow> bb_content b1 \<noteq> []"
          using unat_content [OF b1(2)] by (simp add: word_less_nat_alt)
        have "flush_body K so h k = (if bb_content b1 \<noteq> [] then ret (True, so\<lparr>so_wbuffer := b1\<rparr>, h, k1)
           else send_loop K (so\<lparr>so_wbuffer := b1\<rparr>) h k1)"
          using n1 False read r(1) rj pos b1(1) size_content [OF b1(2)] n2 by (simp add: flush_body_def)
        then show ?thesis using that [of b1] b1 by simp
      qed
      let ?so = "so\<lparr>so_wbuffer := b2\<rparr>"
      have so2: "ssock_ok ?so h" using so b2(1) by (simp add: ssock_ok_def)
      have p1: "wire k1 @ pending ?so h = wire k @ pending so h"
        unfolding r(3) using b2(2) by (simp add: pending_def)
      show ?thesis
      proof (cases "bb_content b2 = []")
        case False
        then have "flush_body K so h k = ret (True, so\<lparr>so_slist := so_slist so, so_wbuffer := b2\<rparr>, h, k1)"
          using b2(4) by (cases so) simp
        moreover have "sent_ok wire so h k True (so\<lparr>so_slist := so_slist so, so_wbuffer := b2\<rparr>) h k1"
          using so2 pre p1 by (cases so) (auto simp: sent_ok_def intro!: exI [of _ "[]"])
        ultimately show ?thesis by blast
      next
        case True
        have room2: "2 ^ 33 \<le> bb_room (so_wbuffer ?so)" using room b2(3) by (simp add: bb_room_def)
        obtain ok q b' h' k' where l: "send_loop K ?so h k1 = ret (ok, ?so\<lparr>so_slist := q, so_wbuffer := b'\<rparr>, h', k')"
          "sent_ok wire ?so h k1 ok (?so\<lparr>so_slist := q, so_wbuffer := b'\<rparr>) h' k'"
          using send_loop_ok [of K ?so wire patience h k1] hon so2 True room2 by auto
        have "sent_ok wire so h k ok (so\<lparr>so_slist := q, so_wbuffer := b'\<rparr>) h' k'"
          using l(2) p1 unfolding sent_ok_def by auto
        then show ?thesis using b2(4) True l(1) by auto
      qed
    qed
  qed
qed

text \<open>
  C5. Sending on a connection, for every behaviour of the kernel that \<open>send(2)\<close> documents: the call
  returns with the socket's lock free; the bytes that went out continue what was sent before by a
  prefix of what was pending, in order; unless the call fails, what went out and what is still
  pending are together exactly what was pending and the new message, however the kernel split them;
  and the messages released are those taken off the list, each once.
\<close>

theorem send_message_conserves:
  assumes "honest K (so_fd so) wire patience" "ssock_ok so h" "\<not> so_slocker so" "2 ^ 33 \<le> bb_room (so_wbuffer so)"
    and "h_mem h p = Some m" "sendable m" "p \<notin> set (lq_list (so_slist so))"
  shows "\<exists>ok so' h' k'. send_message K so h k p = ret (ok, so', h', k') \<and> \<not> so_slocker so' \<and> ssock_ok so' h'
    \<and> prefix (wire k') (wire k @ pending so h @ sm_raw m)
    \<and> (ok \<longrightarrow> wire k' @ pending so' h' = wire k @ pending so h @ sm_raw m)
    \<and> (\<exists>gone. lq_list (so_slist so) @ [p] = gone @ lq_list (so_slist so') \<and> h_mem h' = h_mem h |` (- set gone))"
proof -
  let ?q = "(so_slist so)\<lparr>lq_list := lq_list (so_slist so) @ [p]\<rparr>"
  let ?so = "so\<lparr>so_slist := ?q, so_slocker := True\<rparr>"
  have push: "LockfreeQueue_push_back (so_slist so) p = ret ?q" using assms(2) by (simp add: queue_ops ssock_ok_def)
  have so: "ssock_ok ?so h" using assms(2,5-7) by (auto simp: ssock_ok_def)
  have pend: "pending ?so h = pending so h @ sm_raw m" using assms(5) by (simp add: pending_def raw_bytes_def)
  obtain ok q b h' k' where f: "flush_body K ?so h k = ret (ok, ?so\<lparr>so_slist := q, so_wbuffer := b\<rparr>, h', k')"
    "sent_ok wire ?so h k ok (?so\<lparr>so_slist := q, so_wbuffer := b\<rparr>) h' k'"
    using flush_body_ok [of K ?so wire patience h k] assms(1,4) so by auto
  let ?r = "so\<lparr>so_slist := q, so_slocker := False, so_wbuffer := b\<rparr>"
  have upd: "so\<lparr>so_slist := ?q, so_slocker := True\<rparr>\<lparr>so_slist := q, so_wbuffer := b\<rparr>\<lparr>so_slocker := False\<rparr> = ?r"
    "so\<lparr>so_slist := ?q\<rparr>\<lparr>so_slocker := True\<rparr> = ?so"
    by (cases so; simp)+
  have "send_message K so h k p = ret (ok, ?r, h', k')"
    using push f(1) assms(3) upd by (simp add: send_message_def flush_def SpinlockerGuard_def Spinlocker_unlock_def)
  moreover have "ssock_ok ?r h'" using f(2) by (simp add: sent_ok_def ssock_ok_def)
  moreover have "pending ?r h' = pending (?so\<lparr>so_slist := q, so_wbuffer := b\<rparr>) h'" by (simp add: pending_def)
  ultimately show ?thesis using f(2) unfolding sent_ok_def pend by auto
qed

text \<open>A kernel that takes at most 10 bytes of a call and keeps them.\<close>

definition ten_bytes :: "u8 list kernel" where
  "ten_bytes = \<lparr>sys_recv = (\<lambda>fd n k. (Err EAGAIN, k)), sys_send = (\<lambda>fd bs k. if length k < 10 then (Done (min (length bs) 10), k @ take (min (length bs) 10) bs) else (Err EAGAIN, k)),
     sys_close = (\<lambda>fd k. k)\<rparr>"

definition demo_message :: service_message where
  "demo_message = \<lparr>sm_fd = 5, sm_raw = [16, 0, 0, 0, 1, 0, 0, 0, 0, 0, 0, 0, 2, 0, 0, 0]\<rparr>"

theorem send_message_conserves_witness:
  "\<exists>ok so' h' k'. send_message ten_bytes (new_SocketInternal 5) \<lparr>h_mem = [0 \<mapsto> demo_message], h_next = 1\<rparr> [] 0 = ret (ok, so', h', k')
    \<and> \<not> so_slocker so' \<and> ssock_ok so' h'
    \<and> prefix k' ([] @ pending (new_SocketInternal 5) \<lparr>h_mem = [0 \<mapsto> demo_message], h_next = 1\<rparr> @ sm_raw demo_message)
    \<and> (ok \<longrightarrow> k' @ pending so' h' = [] @ pending (new_SocketInternal 5) \<lparr>h_mem = [0 \<mapsto> demo_message], h_next = 1\<rparr> @ sm_raw demo_message)
    \<and> (\<exists>gone. lq_list (so_slist (new_SocketInternal 5)) @ [0] = gone @ lq_list (so_slist so')
          \<and> h_mem h' = h_mem \<lparr>h_mem = [0 \<mapsto> demo_message], h_next = 1\<rparr> |` (- set gone))"
proof (rule send_message_conserves [where wire = "\<lambda>k. k" and patience = "\<lambda>k. 0"])
  show "honest ten_bytes (so_fd (new_SocketInternal 5)) (\<lambda>k. k) (\<lambda>k. 0)"
    by (simp add: honest_def ten_bytes_def EAGAIN_def EINTR_def)
  show "ssock_ok (new_SocketInternal 5) \<lparr>h_mem = [0 \<mapsto> demo_message], h_next = 1\<rparr>"
    using new_ByteBuffer_ok [of 65535] by (simp add: ssock_ok_def new_SocketInternal_def new_LockfreeQueue_def)
  show "2 ^ 33 \<le> bb_room (so_wbuffer (new_SocketInternal 5))"
    unfolding new_SocketInternal_def socket.simps by (rule new_ByteBuffer_room) simp_all
qed (simp_all add: demo_message_def new_SocketInternal_def new_LockfreeQueue_def sendable_def raw_len_def)

section \<open>Closing\<close>

lemma release_all_ok:
  "\<not> lq_locker q \<Longrightarrow> distinct (lq_list q) \<Longrightarrow> \<forall>p \<in> set (lq_list q). h_mem h p \<noteq> None \<Longrightarrow>
     release_all q h = ret (q\<lparr>lq_list := []\<rparr>, h\<lparr>h_mem := h_mem h |` (- set (lq_list q))\<rparr>)"
proof (induction "lq_list q" arbitrary: q h)
  case Nil
  then show ?case by (subst release_all.simps) (cases q; cases h; simp add: LockfreeQueue_empty_def restrict_map_def)
next
  case (Cons p ps)
  let ?q = "q\<lparr>lq_list := ps\<rparr>" and ?h = "h\<lparr>h_mem := (h_mem h)(p := None)\<rparr>"
  note list = Cons.hyps(2) [symmetric]
  have "release_message h p = Inr ?h" using Cons.prems(3) list by (auto simp: release_message_def)
  then have "release_all q h = release_all ?q ?h"
    using Cons.prems(1) list by (subst release_all.simps) (simp add: LockfreeQueue_empty_def queue_ops)
  also have "\<dots> = ret (?q\<lparr>lq_list := []\<rparr>, ?h\<lparr>h_mem := h_mem ?h |` (- set (lq_list ?q))\<rparr>)"
    by (rule Cons.hyps(1)) (use Cons.prems list in auto)
  also have "h_mem ?h |` (- set (lq_list ?q)) = h_mem h |` (- set (lq_list q))"
    unfolding list by (auto simp: restrict_map_def)
  finally show ?case by simp
qed

lemma delete_socket_ok:
  assumes "\<not> lq_locker (so_rlist so)" "\<not> lq_locker (so_slist so)"
    and "distinct (lq_list (so_rlist so) @ lq_list (so_slist so))"
    and "\<forall>p \<in> set (lq_list (so_rlist so) @ lq_list (so_slist so)). h_mem h p \<noteq> None"
  shows "delete_SocketInternal K so h k
    = ret (h\<lparr>h_mem := h_mem h |` (- set (lq_list (so_rlist so) @ lq_list (so_slist so)))\<rparr>,
           if 0 < so_fd so then sys_close K (so_fd so) k else k)"
proof -
  let ?h = "h\<lparr>h_mem := h_mem h |` (- set (lq_list (so_rlist so)))\<rparr>"
  have 1: "release_all (so_rlist so) h = ret ((so_rlist so)\<lparr>lq_list := []\<rparr>, ?h)"
    by (rule release_all_ok) (use assms in auto)
  have 2: "release_all (so_slist so) ?h = ret ((so_slist so)\<lparr>lq_list := []\<rparr>, ?h\<lparr>h_mem := h_mem ?h |` (- set (lq_list (so_slist so)))\<rparr>)"
    by (rule release_all_ok) (use assms in \<open>auto simp: restrict_map_def\<close>)
  have 3: "h_mem ?h |` (- set (lq_list (so_slist so))) = h_mem h |` (- set (lq_list (so_rlist so) @ lq_list (so_slist so)))"
    by (auto simp: restrict_map_def)
  show ?thesis using 1 2 3 by (simp add: delete_SocketInternal_def SafeClose_def)
qed

text \<open>
  Deleting a connection returns, closes a descriptor above 0, and releases every message that
  was received and not taken, or queued and not sent, each once and no other.
\<close>

theorem delete_socket_releases:
  assumes "\<not> lq_locker (so_rlist so)" "\<not> lq_locker (so_slist so)"
    and "distinct (lq_list (so_rlist so) @ lq_list (so_slist so))"
    and "\<forall>p \<in> set (lq_list (so_rlist so) @ lq_list (so_slist so)). h_mem h p \<noteq> None"
  shows "delete_SocketInternal K so h k
    = ret (h\<lparr>h_mem := h_mem h |` (- set (lq_list (so_rlist so) @ lq_list (so_slist so)))\<rparr>,
           if 0 < so_fd so then sys_close K (so_fd so) k else k)"
  by (rule delete_socket_ok [OF assms])

theorem delete_socket_releases_witness:
  "delete_SocketInternal ten_bytes (new_SocketInternal 5\<lparr>so_slist := \<lparr>lq_locker = False, lq_list = [0]\<rparr>\<rparr>)
      \<lparr>h_mem = [0 \<mapsto> demo_message, 1 \<mapsto> demo_message], h_next = 2\<rparr> []
    = ret (\<lparr>h_mem = [0 \<mapsto> demo_message, 1 \<mapsto> demo_message], h_next = 2\<rparr>\<lparr>h_mem := [0 \<mapsto> demo_message, 1 \<mapsto> demo_message] |` (- {0})\<rparr>, [])"
  using delete_socket_releases [of "new_SocketInternal 5\<lparr>so_slist := \<lparr>lq_locker = False, lq_list = [0]\<rparr>\<rparr>"
      "\<lparr>h_mem = [0 \<mapsto> demo_message, 1 \<mapsto> demo_message], h_next = 2\<rparr>" ten_bytes "[]"]
  by (simp add: new_SocketInternal_def new_LockfreeQueue_def ten_bytes_def)

end
