(* ===== verification/Network.thy ===== *)
theory Network imports Sockets begin

text \<open>
  \<^verbatim>\<open>net/Helper.cpp\<close>, \<^verbatim>\<open>net/SocketServer.cpp\<close>, \<^verbatim>\<open>net/SocketClient.cpp\<close>, \<^verbatim>\<open>net/Poll.cpp\<close> and
  \<^verbatim>\<open>net/NetworkManager.cpp\<close>: listening and connecting sockets, the epoll loop, and the table from
  descriptors to socket objects. The system calls are a parameter, as in \<open>Sockets\<close>; so is
  \<open>pushMessage\<close> of the service manager, which may call back into the network manager. Objects are
  addresses in a store, so that using one after its deletion is a fault. Log output is left out.
\<close>

section \<open>More system calls\<close>

record sockaddr_in =
  sin_family :: int
  sin_addr :: u32
  sin_port :: u16

record 'k net_kernel = "'k kernel" +
  sys_socket :: "'k \<Rightarrow> int \<times> 'k"
  sys_setsockopt :: "int \<Rightarrow> int \<Rightarrow> int \<Rightarrow> int \<Rightarrow> 'k \<Rightarrow> int \<times> 'k"
  sys_getsockerror :: "int \<Rightarrow> 'k \<Rightarrow> int sys \<times> 'k"
  sys_fcntl :: "int \<Rightarrow> int \<Rightarrow> s32 \<Rightarrow> 'k \<Rightarrow> s32 \<times> 'k"
  sys_inet_aton :: "u8 list \<Rightarrow> u32 option"
  sys_bind :: "int \<Rightarrow> sockaddr_in \<Rightarrow> 'k \<Rightarrow> int \<times> 'k"
  sys_listen :: "int \<Rightarrow> int \<Rightarrow> 'k \<Rightarrow> int \<times> 'k"
  sys_accept :: "int \<Rightarrow> 'k \<Rightarrow> int sys \<times> 'k"
  sys_connect :: "int \<Rightarrow> sockaddr_in \<Rightarrow> 'k \<Rightarrow> unit sys \<times> 'k"
  sys_select :: "int \<Rightarrow> int \<Rightarrow> int \<Rightarrow> 'k \<Rightarrow> (int \<times> bool \<times> bool) \<times> 'k"
  sys_alarm :: "int \<Rightarrow> 'k \<Rightarrow> 'k"
  sys_sigaction :: "int \<Rightarrow> nat \<Rightarrow> 'k \<Rightarrow> nat \<times> 'k"
  sys_epoll_ctl :: "int \<Rightarrow> int \<Rightarrow> u32 \<Rightarrow> 'k \<Rightarrow> int \<times> 'k"
  sys_epoll_wait :: "int \<Rightarrow> int \<Rightarrow> 'k \<Rightarrow> (int \<times> u32) list sys \<times> 'k"

definition SOL_SOCKET :: int where "SOL_SOCKET = 1"
definition SO_REUSEADDR :: int where "SO_REUSEADDR = 2"
definition SO_REUSEPORT :: int where "SO_REUSEPORT = 15"
definition IPPROTO_TCP :: int where "IPPROTO_TCP = 6"
definition TCP_NODELAY :: int where "TCP_NODELAY = 1"
definition F_GETFL :: int where "F_GETFL = 3"
definition F_SETFL :: int where "F_SETFL = 4"
definition O_NONBLOCK :: s32 where "O_NONBLOCK = 0x800"
definition EINPROGRESS :: int where "EINPROGRESS = 115"
definition SIGALRM :: int where "SIGALRM = 14"

section \<open>Helper\<close>

definition reuseableAddress :: "('k, 'z) net_kernel_scheme \<Rightarrow> int \<Rightarrow> 'k \<Rightarrow> bool \<times> 'k" where
  "reuseableAddress K s k = (case sys_setsockopt K s SOL_SOCKET SO_REUSEADDR 1 k of (rc, k) \<Rightarrow> (rc = 0, k))"

definition reuseablePort :: "('k, 'z) net_kernel_scheme \<Rightarrow> int \<Rightarrow> 'k \<Rightarrow> bool \<times> 'k" where
  "reuseablePort K s k = (case sys_setsockopt K s SOL_SOCKET SO_REUSEPORT 1 k of (rc, k) \<Rightarrow> (rc = 0, k))"

definition blocking :: "('k, 'z) net_kernel_scheme \<Rightarrow> int \<Rightarrow> 'k \<Rightarrow> bool \<times> 'k" where
  "blocking K s k =
     (case sys_fcntl K s F_GETFL 0 k of (fl, k) \<Rightarrow>
      case sys_fcntl K s F_SETFL (fl AND NOT O_NONBLOCK) k of (rc, k) \<Rightarrow> (rc \<noteq> -1, k))"

definition nonblocking :: "('k, 'z) net_kernel_scheme \<Rightarrow> int \<Rightarrow> 'k \<Rightarrow> bool \<times> 'k" where
  "nonblocking K s k =
     (case sys_fcntl K s F_GETFL 0 k of (fl, k) \<Rightarrow>
      case sys_fcntl K s F_SETFL (fl OR O_NONBLOCK) k of (rc, k) \<Rightarrow> (rc \<noteq> -1, k))"

definition nodelay :: "('k, 'z) net_kernel_scheme \<Rightarrow> int \<Rightarrow> bool \<Rightarrow> 'k \<Rightarrow> bool \<times> 'k" where
  "nodelay K s enable k =
     (case sys_setsockopt K s IPPROTO_TCP TCP_NODELAY (if enable then 1 else 0) k of (rc, k) \<Rightarrow> (rc = 0, k))"

text \<open>The port in network order, from the low 16 bits of the \<open>int\<close>.\<close>

definition htons :: "u16 \<Rightarrow> u16" where
  "htons x = push_bit 8 x OR drop_bit 8 x"

text \<open>\<open>inet_aton\<close> leaves the cleared address alone when it cannot read the text.\<close>

definition socket_address :: "('k, 'z) net_kernel_scheme \<Rightarrow> u8 list \<Rightarrow> int \<Rightarrow> sockaddr_in" where
  "socket_address K address port =
     \<lparr>sin_family = 2, sin_addr = (case sys_inet_aton K address of None \<Rightarrow> 0 | Some a \<Rightarrow> a), sin_port = htons (word_of_int port)\<rparr>"

text \<open>Action 0 of \<open>sigaction\<close> is the empty handler; the action in force before is put back.\<close>

definition connectSignal :: "('k, 'z) net_kernel_scheme \<Rightarrow> int \<Rightarrow> u8 list \<Rightarrow> int \<Rightarrow> int \<Rightarrow> 'k \<Rightarrow> bool \<times> 'k" where
  "connectSignal K s address port seconds k =
     (case sys_sigaction K SIGALRM 0 k of (oldact, k) \<Rightarrow>
      let k = sys_alarm K seconds k;
          sockaddr = socket_address K address port
      in case blocking K s k of (_, k) \<Rightarrow>
         case sys_connect K s sockaddr k of (r, k) \<Rightarrow>
         let connectResult = (case r of Err errno \<Rightarrow> False | Done _ \<Rightarrow> True)
         in case nonblocking K s k of (_, k) \<Rightarrow>
            let k = sys_alarm K 0 k
            in case sys_sigaction K SIGALRM oldact k of (_, k) \<Rightarrow> (connectResult, k))"

text \<open>\<open>select\<close> answers its result and whether the descriptor is readable and writable.\<close>

definition connectSelect :: "('k, 'z) net_kernel_scheme \<Rightarrow> int \<Rightarrow> u8 list \<Rightarrow> int \<Rightarrow> int \<Rightarrow> 'k \<Rightarrow> bool \<times> 'k" where
  "connectSelect K s address port milliseconds k =
     (let sockaddr = socket_address K address port
      in case nonblocking K s k of (_, k) \<Rightarrow>
         case sys_connect K s sockaddr k of (r, k) \<Rightarrow>
         (case r of
            Done _ \<Rightarrow> (True, k)
          | Err errno \<Rightarrow>
              if errno \<noteq> EINPROGRESS then (False, k)
              else case sys_select K (s + 1) (milliseconds div 1000) (milliseconds mod 1000 * 1000) k of ((rc, rd, wr), k) \<Rightarrow>
                if rc < 0 then (False, k)
                else if rc = 0 then (True, k)
                else if wr \<or> rd then
                  (case sys_getsockerror K s k of (e, k) \<Rightarrow>
                     (case e of
                        Err _ \<Rightarrow> (False, k)
                      | Done error \<Rightarrow>
                          if error \<noteq> 0 then (False, k)
                          else case nonblocking K s k of (_, k) \<Rightarrow> (True, k)))
                else (True, k)))"

section \<open>SocketServer and SocketClient\<close>

text \<open>
  Both classes own a \<open>SocketInternal\<close> and hand every call of the \<open>Socket\<close> interface to it; an object is
  that socket with the class it is wrapped in.
\<close>

datatype sock_class = Plain_socket | Server_socket | Client_socket

definition new_SocketServer :: "('k, 'z) net_kernel_scheme \<Rightarrow> 'k \<Rightarrow> socket \<times> 'k" where
  "new_SocketServer K k =
     (case sys_socket K k of (fd, k) \<Rightarrow> (set_socket_type (socket_create fd) SOCKET_SERVER, k))"

definition new_SocketClient :: "('k, 'z) net_kernel_scheme \<Rightarrow> 'k \<Rightarrow> socket \<times> 'k" where
  "new_SocketClient K k =
     (case sys_socket K k of (fd, k) \<Rightarrow> (set_socket_type (socket_create fd) SOCKET_CLIENT, k))"

definition server_listen :: "('k, 'z) net_kernel_scheme \<Rightarrow> socket \<Rightarrow> u8 list \<Rightarrow> int \<Rightarrow> 'k \<Rightarrow> bool \<times> 'k" where
  "server_listen K so address port k =
     (if \<not> 0 \<le> so_fd so then (False, k)
      else case reuseableAddress K (so_fd so) k of (rc, k) \<Rightarrow>
        if \<not> rc then (False, k)
        else case nonblocking K (so_fd so) k of (rc, k) \<Rightarrow>
          if \<not> rc then (False, k)
          else case sys_bind K (so_fd so) (socket_address K address port) k of (val, k) \<Rightarrow>
            if val \<noteq> 0 then (False, k)
            else case sys_listen K (so_fd so) 4096 k of (val, k) \<Rightarrow> (val = 0, k))"

partial_function (option) server_accept :: "('k, 'z) net_kernel_scheme \<Rightarrow> socket \<Rightarrow> 'k \<Rightarrow> (int \<times> 'k) run" where
  "server_accept K so k =
     (case sys_accept K (so_fd so) k of (r, k) \<Rightarrow>
        (case r of
           Done newfd \<Rightarrow> ret (newfd, k)
         | Err e \<Rightarrow> if interrupted e then server_accept K so k
                   else if wouldblock e then ret (-1, k) else ret (-1, k)))"

definition CONNECT_TIMEOUT :: int where "CONNECT_TIMEOUT = 10"

definition client_connect :: "('k, 'z) net_kernel_scheme \<Rightarrow> socket \<Rightarrow> u8 list \<Rightarrow> int \<Rightarrow> 'k \<Rightarrow> bool \<times> 'k" where
  "client_connect K so address port k =
     (if \<not> 0 \<le> so_fd so then (False, k)
      else case connectSignal K (so_fd so) address port CONNECT_TIMEOUT k of (rc, k) \<Rightarrow>
        if rc then (case nonblocking K (so_fd so) k of (rc, k) \<Rightarrow> (rc, k)) else (rc, k))"

section \<open>Poll\<close>

definition EPOLLIN :: u32 where "EPOLLIN = 0x1"
definition EPOLLOUT :: u32 where "EPOLLOUT = 0x4"
definition EPOLLERR :: u32 where "EPOLLERR = 0x8"
definition EPOLLHUP :: u32 where "EPOLLHUP = 0x10"
definition EPOLLRDHUP :: u32 where "EPOLLRDHUP = 0x2000"
definition EPOLLET :: u32 where "EPOLLET = 0x80000000"
definition EPOLL_CTL_ADD :: int where "EPOLL_CTL_ADD = 1"
definition EPOLL_CTL_DEL :: int where "EPOLL_CTL_DEL = 2"
definition EPOLL_CTL_MOD :: int where "EPOLL_CTL_MOD = 3"
definition NM_POLL_EVENT :: int where "NM_POLL_EVENT = 128"

definition addSocket :: "('k, 'z) net_kernel_scheme \<Rightarrow> int \<Rightarrow> 'k \<Rightarrow> bool \<times> 'k" where
  "addSocket K s k =
     (case sys_epoll_ctl K EPOLL_CTL_ADD s (EPOLLET OR EPOLLIN OR EPOLLOUT OR EPOLLERR) k of (rc, k) \<Rightarrow> (rc = 0, k))"

definition removeSocket :: "('k, 'z) net_kernel_scheme \<Rightarrow> int \<Rightarrow> 'k \<Rightarrow> bool \<times> 'k" where
  "removeSocket K s k =
     (case sys_epoll_ctl K EPOLL_CTL_DEL s (EPOLLET OR EPOLLIN OR EPOLLOUT OR EPOLLERR) k of (rc, k) \<Rightarrow> (rc = 0, k))"

definition setSocketPollout :: "('k, 'z) net_kernel_scheme \<Rightarrow> int \<Rightarrow> bool \<Rightarrow> 'k \<Rightarrow> bool \<times> 'k" where
  "setSocketPollout K s v k =
     (case sys_epoll_ctl K EPOLL_CTL_MOD s
         (if v then EPOLLET OR EPOLLIN OR EPOLLOUT OR EPOLLERR else EPOLLET OR EPOLLIN OR EPOLLERR) k of (rc, k) \<Rightarrow> (rc = 0, k))"

definition Poll_stop :: "('k, 'z) net_kernel_scheme \<Rightarrow> 'k \<Rightarrow> 'k" where
  "Poll_stop K k = snd (addSocket K 1 k)"

text \<open>The calls \<open>Poll::run\<close> makes for one event, in order.\<close>

datatype poll_call = Call_read int | Call_write int | Call_error int

definition event_calls :: "int \<times> u32 \<Rightarrow> poll_call list" where
  "event_calls = (\<lambda>(fd, events).
     if events AND (EPOLLERR OR EPOLLHUP) \<noteq> 0 then [Call_error fd]
     else if events AND EPOLLRDHUP \<noteq> 0 then [Call_error fd]
     else (if events AND EPOLLIN \<noteq> 0 then [Call_read fd] else [])
        @ (if events AND EPOLLOUT \<noteq> 0 then [Call_write fd] else []))"

fun poll_calls :: "(int \<Rightarrow> 's \<Rightarrow> 's run) \<Rightarrow> (int \<Rightarrow> 's \<Rightarrow> 's run) \<Rightarrow> (int \<Rightarrow> 's \<Rightarrow> 's run) \<Rightarrow> poll_call list \<Rightarrow> 's \<Rightarrow> 's run" where
  "poll_calls readfunc writefunc errorfunc [] s = ret s"
| "poll_calls readfunc writefunc errorfunc (c # cs) s =
     bind_run (case c of Call_read fd \<Rightarrow> readfunc fd s | Call_write fd \<Rightarrow> writefunc fd s | Call_error fd \<Rightarrow> errorfunc fd s)
       (\<lambda>s. poll_calls readfunc writefunc errorfunc cs s)"

text \<open>\<open>wait\<close> is \<open>epoll_wait\<close> on the state the callbacks change, and \<open>halt\<close> reads \<open>sConfig.halt\<close> of it.\<close>

definition Poll_run ::
  "(int \<Rightarrow> 's \<Rightarrow> (int \<times> u32) list sys \<times> 's) \<Rightarrow> ('s \<Rightarrow> bool) \<Rightarrow> int
     \<Rightarrow> (int \<Rightarrow> 's \<Rightarrow> 's run) \<Rightarrow> (int \<Rightarrow> 's \<Rightarrow> 's run) \<Rightarrow> (int \<Rightarrow> 's \<Rightarrow> 's run) \<Rightarrow> 's \<Rightarrow> 's run" where
  "Poll_run wait halt milliseconds readfunc writefunc errorfunc s =
     (case wait milliseconds s of (r, s) \<Rightarrow>
        if halt s then ret s
        else (case r of
                Err e \<Rightarrow> ret s
              | Done events \<Rightarrow> poll_calls readfunc writefunc errorfunc (concat (map event_calls events)) s))"

section \<open>NetworkManager\<close>

definition MAX_SOCKET :: int where "MAX_SOCKET = 65536"

text \<open>
  The table \<open>_sockets\<close>, the objects it points to, the heap of messages, and the kernel with the rest of
  the process.
\<close>

record 'k net =
  nm_sockets :: "int \<Rightarrow> nat option"
  nm_objs :: "nat \<Rightarrow> (sock_class \<times> socket) option"
  nm_next :: nat
  nm_heap :: heap
  nm_kernel :: 'k

text \<open>An element of the array, which has \<open>MAX_SOCKET\<close> of them.\<close>

definition slot :: "'k net \<Rightarrow> int \<Rightarrow> nat option res" where
  "slot N s = (if 0 \<le> s \<and> s < MAX_SOCKET then Inr (nm_sockets N s) else Inl Undefined)"

definition object :: "'k net \<Rightarrow> nat \<Rightarrow> (sock_class \<times> socket) res" where
  "object N p = (case nm_objs N p of None \<Rightarrow> Inl Undefined | Some x \<Rightarrow> Inr x)"

definition new_object :: "sock_class \<Rightarrow> socket \<Rightarrow> 'k net \<Rightarrow> nat \<times> 'k net" where
  "new_object c so N = (nm_next N, N\<lparr>nm_objs := (nm_objs N)(nm_next N \<mapsto> (c, so)), nm_next := Suc (nm_next N)\<rparr>)"

definition delete_object :: "('k, 'z) net_kernel_scheme \<Rightarrow> nat \<Rightarrow> 'k net \<Rightarrow> 'k net run" where
  "delete_object K p N =
     bind_run (Some (object N p)) (\<lambda>(c, so).
     bind_run (delete_SocketInternal (kernel.truncate K) so (nm_heap N) (nm_kernel N)) (\<lambda>(h, k).
     ret (N\<lparr>nm_objs := (nm_objs N)(p := None), nm_heap := h, nm_kernel := k\<rparr>)))"

text \<open>\<open>sched\<close> is \<open>Runnable::schedule\<close> of the manager, which hands \<open>run\<close> to the pool.\<close>

definition NetworkManager_init :: "('k net \<Rightarrow> 'k net run) \<Rightarrow> 'k net \<Rightarrow> 'k net run" where
  "NetworkManager_init sched N = sched (N\<lparr>nm_sockets := (\<lambda>_. None)\<rparr>)"

definition closeSocket :: "('k, 'z) net_kernel_scheme \<Rightarrow> int \<Rightarrow> 'k net \<Rightarrow> 'k net run" where
  "closeSocket K s N =
     (case removeSocket K s (nm_kernel N) of (_, k) \<Rightarrow>
      let N = N\<lparr>nm_kernel := k\<rparr>
      in bind_run (Some (check (s < MAX_SOCKET))) (\<lambda>_.
         bind_run (Some (slot N s)) (\<lambda>sock.
         bind_run (case sock of None \<Rightarrow> ret N | Some p \<Rightarrow> delete_object K p N) (\<lambda>N.
         ret (N\<lparr>nm_sockets := (nm_sockets N)(s := None)\<rparr>)))))"

definition sendMessage :: "('k, 'z) net_kernel_scheme \<Rightarrow> nat \<Rightarrow> 'k net \<Rightarrow> (bool \<times> 'k net) run" where
  "sendMessage K message N =
     bind_run (Some (deref (nm_heap N) message)) (\<lambda>m.
     let s = sm_fd m
     in bind_run (Some (check (s < MAX_SOCKET))) (\<lambda>_.
        bind_run (Some (slot N s)) (\<lambda>sock.
        case sock of
          None \<Rightarrow> ret (False, N)
        | Some p \<Rightarrow>
            bind_run (Some (object N p)) (\<lambda>(c, so).
            bind_run (send_message (kernel.truncate K) so (nm_heap N) (nm_kernel N) message) (\<lambda>(ok, so, h, k).
            let N = N\<lparr>nm_objs := (nm_objs N)(p \<mapsto> (c, so)), nm_heap := h, nm_kernel := k\<rparr>
            in if \<not> ok then bind_run (closeSocket K s N) (\<lambda>N. ret (False, N)) else ret (True, N))))))"

text \<open>The last steps of \<open>newserver\<close> and \<open>newclient\<close>: a connected object enters the table.\<close>

definition register :: "('k, 'z) net_kernel_scheme \<Rightarrow> nat \<Rightarrow> int \<Rightarrow> 'k net \<Rightarrow> (int \<times> 'k net) run" where
  "register K p fd N =
     bind_run (Some (check (fd < MAX_SOCKET))) (\<lambda>_.
     bind_run (Some (slot N fd)) (\<lambda>old.
     bind_run (Some (check (old = None))) (\<lambda>_.
     let N = N\<lparr>nm_sockets := (nm_sockets N)(fd \<mapsto> p)\<rparr>
     in case addSocket K fd (nm_kernel N) of (_, k) \<Rightarrow> ret (fd, N\<lparr>nm_kernel := k\<rparr>))))"

definition newserver :: "('k, 'z) net_kernel_scheme \<Rightarrow> u8 list \<Rightarrow> int \<Rightarrow> 'k net \<Rightarrow> (int \<times> 'k net) run" where
  "newserver K address port N =
     (case new_SocketServer K (nm_kernel N) of (so, k) \<Rightarrow>
      case new_object Server_socket so (N\<lparr>nm_kernel := k\<rparr>) of (p, N) \<Rightarrow>
      case server_listen K so address port (nm_kernel N) of (retval, k) \<Rightarrow>
      let N = N\<lparr>nm_kernel := k\<rparr>
      in if \<not> retval then bind_run (delete_object K p N) (\<lambda>N. ret (-1, N))
         else register K p (so_fd so) N)"

definition newclient :: "('k, 'z) net_kernel_scheme \<Rightarrow> u8 list \<Rightarrow> int \<Rightarrow> 'k net \<Rightarrow> (int \<times> 'k net) run" where
  "newclient K address port N =
     (case new_SocketClient K (nm_kernel N) of (so, k) \<Rightarrow>
      case new_object Client_socket so (N\<lparr>nm_kernel := k\<rparr>) of (p, N) \<Rightarrow>
      case client_connect K so address port (nm_kernel N) of (retval, k) \<Rightarrow>
      let N = N\<lparr>nm_kernel := k\<rparr>
      in if \<not> retval then bind_run (delete_object K p N) (\<lambda>N. ret (-1, N))
         else register K p (so_fd so) N)"

text \<open>The loop over \<open>accept()\<close>. There is no check of the descriptor against \<open>MAX_SOCKET\<close>.\<close>

partial_function (option) accept_loop :: "('k, 'z) net_kernel_scheme \<Rightarrow> nat \<Rightarrow> 'k net \<Rightarrow> 'k net run" where
  "accept_loop K p N =
     bind_run (Some (object N p)) (\<lambda>(c, so).
     bind_run (server_accept K so (nm_kernel N)) (\<lambda>(newfd, k).
     let N = N\<lparr>nm_kernel := k\<rparr>
     in if newfd = -1 then ret N
        else case new_object Plain_socket (socket_create newfd) N of (q, N) \<Rightarrow>
          bind_run (Some (slot N newfd)) (\<lambda>old.
          bind_run (Some (check (old = None))) (\<lambda>_.
          let N = N\<lparr>nm_sockets := (nm_sockets N)(newfd \<mapsto> q)\<rparr>
          in case addSocket K newfd (nm_kernel N) of (_, k) \<Rightarrow> accept_loop K p (N\<lparr>nm_kernel := k\<rparr>)))))"

text \<open>The loop over \<open>getMessage()\<close>; the object is used again after each \<open>pushMessage\<close>.\<close>

partial_function (option) message_loop :: "(nat \<Rightarrow> 'k net \<Rightarrow> 'k net run) \<Rightarrow> nat \<Rightarrow> 'k net \<Rightarrow> 'k net run" where
  "message_loop push p N =
     bind_run (Some (object N p)) (\<lambda>(c, so).
     bind_run (getMessage so) (\<lambda>(m, so).
     let N = N\<lparr>nm_objs := (nm_objs N)(p \<mapsto> (c, so))\<rparr>
     in case m of None \<Rightarrow> ret N | Some msg \<Rightarrow> bind_run (push msg N) (\<lambda>N. message_loop push p N)))"

definition readSocket :: "('k, 'z) net_kernel_scheme \<Rightarrow> (nat \<Rightarrow> 'k net \<Rightarrow> 'k net run) \<Rightarrow> int \<Rightarrow> 'k net \<Rightarrow> 'k net run" where
  "readSocket K push s N =
     bind_run (Some (slot N s)) (\<lambda>sock.
     case sock of
       None \<Rightarrow> ret N
     | Some p \<Rightarrow>
         bind_run (Some (object N p)) (\<lambda>(c, so).
         if so_type so = SOCKET_SERVER then
           bind_run (Some (check (c = Server_socket))) (\<lambda>_. accept_loop K p N)
         else
           bind_run (receive (kernel.truncate K) so (nm_heap N) (nm_kernel N)) (\<lambda>(ok, so, h, k).
           let N = N\<lparr>nm_objs := (nm_objs N)(p \<mapsto> (c, so)), nm_heap := h, nm_kernel := k\<rparr>
           in if \<not> ok then closeSocket K s N else message_loop push p N)))"

definition writeSocket :: "('k, 'z) net_kernel_scheme \<Rightarrow> int \<Rightarrow> 'k net \<Rightarrow> 'k net run" where
  "writeSocket K s N =
     bind_run (Some (slot N s)) (\<lambda>sock.
     case sock of
       None \<Rightarrow> ret N
     | Some p \<Rightarrow>
         bind_run (Some (object N p)) (\<lambda>(c, so).
         bind_run (flush (kernel.truncate K) so (nm_heap N) (nm_kernel N)) (\<lambda>(ok, so, h, k).
         let N = N\<lparr>nm_objs := (nm_objs N)(p \<mapsto> (c, so)), nm_heap := h, nm_kernel := k\<rparr>
         in if \<not> ok then closeSocket K s N else ret N)))"

definition errorSocket :: "('k, 'z) net_kernel_scheme \<Rightarrow> int \<Rightarrow> 'k net \<Rightarrow> 'k net run" where
  "errorSocket K s N = closeSocket K s N"

text \<open>\<open>NetworkManager::run\<close>, with \<open>halt\<close> what \<open>sConfig.halt\<close> is at the time.\<close>

definition wait_on :: "('k, 'z) net_kernel_scheme \<Rightarrow> int \<Rightarrow> 'k net \<Rightarrow> (int \<times> u32) list sys \<times> 'k net" where
  "wait_on K ms N = (case sys_epoll_wait K NM_POLL_EVENT ms (nm_kernel N) of (r, k) \<Rightarrow> (r, N\<lparr>nm_kernel := k\<rparr>))"

partial_function (option) NetworkManager_run ::
  "('k, 'z) net_kernel_scheme \<Rightarrow> ('k net \<Rightarrow> bool) \<Rightarrow> (nat \<Rightarrow> 'k net \<Rightarrow> 'k net run) \<Rightarrow> 'k net \<Rightarrow> 'k net run" where
  "NetworkManager_run K halt push N =
     (if halt N then ret N
      else bind_run (Poll_run (wait_on K) halt (-1) (readSocket K push) (writeSocket K) (errorSocket K) N)
             (\<lambda>N. NetworkManager_run K halt push N))"

fun delete_all :: "('k, 'z) net_kernel_scheme \<Rightarrow> int list \<Rightarrow> 'k net \<Rightarrow> 'k net run" where
  "delete_all K [] N = ret N"
| "delete_all K (s # ss) N =
     bind_run (case nm_sockets N s of None \<Rightarrow> ret N | Some p \<Rightarrow> delete_object K p N) (\<lambda>N.
     delete_all K ss (N\<lparr>nm_sockets := (nm_sockets N)(s := None)\<rparr>))"

definition NetworkManager_stop :: "('k, 'z) net_kernel_scheme \<Rightarrow> 'k net \<Rightarrow> 'k net run" where
  "NetworkManager_stop K N =
     delete_all K [0..MAX_SOCKET - 1] (N\<lparr>nm_kernel := Poll_stop K (nm_kernel N)\<rparr>)"

section \<open>The invariant of the table\<close>

definition queued :: "socket \<Rightarrow> nat list" where
  "queued so = lq_list (so_rlist so) @ lq_list (so_slist so)"

text \<open>The locks of a socket at rest are free, and its queues hold messages in use, each once.\<close>

definition healthy :: "heap \<Rightarrow> socket \<Rightarrow> bool" where
  "healthy h so \<longleftrightarrow> \<not> lq_locker (so_rlist so) \<and> \<not> lq_locker (so_slist so) \<and> distinct (queued so)
     \<and> (\<forall>a \<in> set (queued so). h_mem h a \<noteq> None)"

text \<open>
  Every entry is the object with that descriptor, a server being of the server class; every object
  is in the table; and no message is queued at two sockets.
\<close>

definition net_ok :: "'k net \<Rightarrow> bool" where
  "net_ok N \<longleftrightarrow>
     (\<forall>s p. nm_sockets N s = Some p \<longrightarrow> 0 \<le> s \<and> s < MAX_SOCKET \<and>
        (\<exists>c so. nm_objs N p = Some (c, so) \<and> so_fd so = s \<and> (so_type so = SOCKET_SERVER \<longrightarrow> c = Server_socket)))
   \<and> (\<forall>p c so. nm_objs N p = Some (c, so) \<longrightarrow> nm_sockets N (so_fd so) = Some p \<and> healthy (nm_heap N) so \<and> p < nm_next N)
   \<and> (\<forall>p q c d so to. nm_objs N p = Some (c, so) \<and> nm_objs N q = Some (d, to) \<and> p \<noteq> q \<longrightarrow> set (queued so) \<inter> set (queued to) = {})"

lemma net_okD:
  assumes "net_ok N"
  shows "nm_sockets N s = Some p \<Longrightarrow> 0 \<le> s \<and> s < MAX_SOCKET"
    and "nm_sockets N s = Some p \<Longrightarrow> \<exists>c so. nm_objs N p = Some (c, so) \<and> so_fd so = s \<and> (so_type so = SOCKET_SERVER \<longrightarrow> c = Server_socket)"
    and "nm_objs N p = Some (c, so) \<Longrightarrow> nm_sockets N (so_fd so) = Some p"
    and "nm_objs N p = Some (c, so) \<Longrightarrow> healthy (nm_heap N) so"
    and "nm_objs N p = Some (c, so) \<Longrightarrow> p < nm_next N"
    and "nm_objs N p = Some (c, so) \<Longrightarrow> nm_objs N q = Some (d, to) \<Longrightarrow> p \<noteq> q \<Longrightarrow> set (queued so) \<inter> set (queued to) = {}"
  using assms unfolding net_ok_def by blast+

lemma healthy_restrict:
  "healthy h so \<Longrightarrow> set (queued so) \<inter> A = {} \<Longrightarrow> healthy (h\<lparr>h_mem := h_mem h |` (- A)\<rparr>) so"
  by (auto simp: healthy_def restrict_map_def)

lemma delete_object_ok:
  assumes "nm_objs N p = Some (c, so)" "healthy (nm_heap N) so"
  shows "\<exists>k. delete_object K p N = ret (N\<lparr>nm_objs := (nm_objs N)(p := None),
     nm_heap := (nm_heap N)\<lparr>h_mem := h_mem (nm_heap N) |` (- set (queued so))\<rparr>, nm_kernel := k\<rparr>)"
proof -
  let ?k = "if 0 < so_fd so then sys_close (kernel.truncate K) (so_fd so) (nm_kernel N) else nm_kernel N"
  have "delete_SocketInternal (kernel.truncate K) so (nm_heap N) (nm_kernel N)
    = ret ((nm_heap N)\<lparr>h_mem := h_mem (nm_heap N) |` (- set (queued so))\<rparr>, ?k)"
    by (rule delete_socket_ok [folded queued_def]) (use assms(2) in \<open>simp_all add: healthy_def\<close>)
  then show ?thesis using assms(1) by (intro exI [of _ ?k]) (simp add: delete_object_def object_def)
qed

lemma net_ok_delete:
  assumes N: "net_ok N" and s: "nm_sockets N s = Some p" and p: "nm_objs N p = Some (c, so)"
  shows "net_ok (N\<lparr>nm_objs := (nm_objs N)(p := None), nm_heap := (nm_heap N)\<lparr>h_mem := h_mem (nm_heap N) |` (- set (queued so))\<rparr>,
     nm_kernel := k, nm_sockets := (nm_sockets N)(s := None)\<rparr>)" (is "net_ok ?N")
proof -
  have only: "t = s" if "nm_sockets N t = Some p" for t
    using net_okD(2) [OF N that] net_okD(2) [OF N s] p by auto
  show ?thesis unfolding net_ok_def
  proof (intro conjI allI impI)
    fix t q assume t: "nm_sockets ?N t = Some q"
    then have tq: "nm_sockets N t = Some q" "t \<noteq> s" by (auto split: if_splits)
    then show "0 \<le> t" "t < MAX_SOCKET" using net_okD(1) [OF N] by blast+
    have "q \<noteq> p" using only tq by blast
    then show "\<exists>c so. nm_objs ?N q = Some (c, so) \<and> so_fd so = t \<and> (so_type so = SOCKET_SERVER \<longrightarrow> c = Server_socket)"
      using net_okD(2) [OF N tq(1)] by auto
  next
    fix q d to assume "nm_objs ?N q = Some (d, to)"
    then have q: "nm_objs N q = Some (d, to)" "q \<noteq> p" by (auto split: if_splits)
    have "so_fd to \<noteq> s" using net_okD(3) [OF N q(1)] s q(2) by auto
    then show "nm_sockets ?N (so_fd to) = Some q" using net_okD(3) [OF N q(1)] by simp
    show "healthy (nm_heap ?N) to"
      using healthy_restrict [OF net_okD(4) [OF N q(1)]] net_okD(6) [OF N q(1) p q(2)] by simp
    show "q < nm_next ?N" using net_okD(5) [OF N q(1)] by simp
  next
    fix q r c' d' so' to' assume "nm_objs ?N q = Some (c', so') \<and> nm_objs ?N r = Some (d', to') \<and> q \<noteq> r"
    then show "set (queued so') \<inter> set (queued to') = {}"
      using net_okD(6) [OF N, of q c' so' r d' to'] by (simp split: if_splits)
  qed
qed

text \<open>
  C26. Closing: on a table in order, \<open>closeSocket\<close> with a descriptor below \<open>MAX_SOCKET\<close> returns and
  leaves the table in order without that entry; the object, if there was one, is deleted and exactly
  the messages queued at it are released.
\<close>

theorem closeSocket_ok:
  assumes "net_ok N" "0 \<le> s" "s < MAX_SOCKET"
  shows "\<exists>N'. closeSocket K s N = ret N' \<and> net_ok N' \<and> nm_sockets N' = (nm_sockets N)(s := None)
    \<and> (case nm_sockets N s of
         None \<Rightarrow> nm_objs N' = nm_objs N \<and> nm_heap N' = nm_heap N
       | Some p \<Rightarrow> nm_objs N' = (nm_objs N)(p := None)
           \<and> (\<exists>c so. nm_objs N p = Some (c, so) \<and> h_mem (nm_heap N') = h_mem (nm_heap N) |` (- set (queued so))))"
proof (cases "nm_sockets N s")
  case None
  let ?N = "N\<lparr>nm_kernel := snd (removeSocket K s (nm_kernel N)), nm_sockets := (nm_sockets N)(s := None)\<rparr>"
  have "closeSocket K s N = ret ?N"
    using assms(2,3) None by (simp add: closeSocket_def slot_def split: prod.split)
  moreover have "net_ok ?N" using assms(1) None unfolding net_ok_def by (auto split: if_splits)
  ultimately show ?thesis using None by (intro exI [of _ ?N]) simp
next
  case (Some p)
  obtain c so where p: "nm_objs N p = Some (c, so)" using net_okD(2) [OF assms(1) Some] by blast
  obtain rc k0 where rk: "removeSocket K s (nm_kernel N) = (rc, k0)" by force
  let ?k = k0
  obtain k where d: "delete_object K p (N\<lparr>nm_kernel := ?k\<rparr>) = ret (N\<lparr>nm_kernel := ?k\<rparr>\<lparr>nm_objs := (nm_objs N)(p := None),
     nm_heap := (nm_heap N)\<lparr>h_mem := h_mem (nm_heap N) |` (- set (queued so))\<rparr>, nm_kernel := k\<rparr>)"
    using delete_object_ok [of "N\<lparr>nm_kernel := ?k\<rparr>" p c so K] p net_okD(4) [OF assms(1) p] by auto
  let ?N = "N\<lparr>nm_objs := (nm_objs N)(p := None), nm_heap := (nm_heap N)\<lparr>h_mem := h_mem (nm_heap N) |` (- set (queued so))\<rparr>,
     nm_kernel := k, nm_sockets := (nm_sockets N)(s := None)\<rparr>"
  have "closeSocket K s N = ret ?N"
    using assms(2,3) Some d by (simp add: closeSocket_def slot_def rk)
  then show ?thesis using net_ok_delete [OF assms(1) Some p, of k] Some p by (intro exI [of _ ?N]) simp
qed

text \<open>A kernel with nothing to say, for the examples: every call fails except those that must not.\<close>

definition quiet :: "int \<Rightarrow> unit net_kernel" where
  "quiet fd = \<lparr>sys_recv = (\<lambda>_ _ k. (Err EAGAIN, k)), sys_send = (\<lambda>_ bs k. (Done (length bs), k)), sys_close = (\<lambda>_ k. k),
     sys_socket = (\<lambda>k. (fd, k)), sys_setsockopt = (\<lambda>_ _ _ _ k. (0, k)), sys_getsockerror = (\<lambda>_ k. (Done 0, k)),
     sys_fcntl = (\<lambda>_ _ _ k. (0, k)), sys_inet_aton = (\<lambda>_. None), sys_bind = (\<lambda>_ _ k. (0, k)), sys_listen = (\<lambda>_ _ k. (0, k)),
     sys_accept = (\<lambda>_ k. (Done 70000, k)), sys_connect = (\<lambda>_ _ k. (Done (), k)), sys_select = (\<lambda>_ _ _ k. ((0, False, False), k)),
     sys_alarm = (\<lambda>_ k. k), sys_sigaction = (\<lambda>_ _ k. (0, k)), sys_epoll_ctl = (\<lambda>_ _ _ k. (0, k)),
     sys_epoll_wait = (\<lambda>_ _ k. (Done [], k))\<rparr>"

definition empty_net :: "unit net" where
  "empty_net = \<lparr>nm_sockets = (\<lambda>_. None), nm_objs = (\<lambda>_. None), nm_next = 0, nm_heap = empty_heap, nm_kernel = ()\<rparr>"

text \<open>A table with one connection, at which a message has been received.\<close>

definition one_socket :: socket where
  "one_socket = new_SocketInternal 5\<lparr>so_rlist := \<lparr>lq_locker = False, lq_list = [0]\<rparr>\<rparr>"

definition one_net :: "unit net" where
  "one_net = \<lparr>nm_sockets = (\<lambda>s. if s = 5 then Some 0 else None), nm_objs = [0 \<mapsto> (Plain_socket, one_socket)], nm_next = 1,
     nm_heap = \<lparr>h_mem = [0 \<mapsto> demo_message], h_next = 1\<rparr>, nm_kernel = ()\<rparr>"

lemma one_net_ok: "net_ok one_net"
  by (auto simp: net_ok_def one_net_def one_socket_def MAX_SOCKET_def new_SocketInternal_def healthy_def queued_def
      new_LockfreeQueue_def SOCKET_SERVER_def SOCKET_CONNECTION_def split: if_splits)

theorem closeSocket_ok_witness:
  "\<exists>N'. closeSocket (quiet 3) 5 one_net = ret N' \<and> net_ok N' \<and> nm_sockets N' = (nm_sockets one_net)(5 := None)
    \<and> (case nm_sockets one_net 5 of
         None \<Rightarrow> nm_objs N' = nm_objs one_net \<and> nm_heap N' = nm_heap one_net
       | Some p \<Rightarrow> nm_objs N' = (nm_objs one_net)(p := None)
           \<and> (\<exists>c so. nm_objs one_net p = Some (c, so) \<and> h_mem (nm_heap N') = h_mem (nm_heap one_net) |` (- set (queued so))))"
  by (rule closeSocket_ok [OF one_net_ok]) (simp_all add: MAX_SOCKET_def)

section \<open>New sockets\<close>

definition fresh_socket :: "int \<Rightarrow> int \<Rightarrow> socket" where
  "fresh_socket fd ty = set_socket_type (socket_create fd) ty"

lemma fresh_socket_simps [simp]:
  "so_fd (fresh_socket fd ty) = fd" "so_type (fresh_socket fd ty) = ty" "queued (fresh_socket fd ty) = []"
  "healthy h (fresh_socket fd ty)"
  by (simp_all add: fresh_socket_def set_socket_type_def socket_create_def new_SocketInternal_def queued_def
      new_LockfreeQueue_def healthy_def)

text \<open>Both \<open>newserver\<close> and \<open>newclient\<close>, after the call that connects the socket.\<close>

definition enter_table :: "('k, 'z) net_kernel_scheme \<Rightarrow> sock_class \<Rightarrow> socket \<Rightarrow> bool \<Rightarrow> 'k net \<Rightarrow> (int \<times> 'k net) run" where
  "enter_table K c so retval N =
     (case new_object c so N of (p, N) \<Rightarrow>
        if \<not> retval then bind_run (delete_object K p N) (\<lambda>N. ret (-1, N)) else register K p (so_fd so) N)"

lemma enter_table_ok:
  assumes N: "net_ok N" and fd: "retval \<longrightarrow> 0 \<le> fd \<and> fd < MAX_SOCKET \<and> nm_sockets N fd = None"
    and ty: "ty = SOCKET_SERVER \<longrightarrow> c = Server_socket"
  shows "\<exists>N'. enter_table K c (fresh_socket fd ty) retval N = ret (if retval then fd else -1, N') \<and> net_ok N'
    \<and> nm_sockets N' = (if retval then (nm_sockets N)(fd \<mapsto> nm_next N) else nm_sockets N)
    \<and> (retval \<longrightarrow> nm_objs N' (nm_next N) = Some (c, fresh_socket fd ty))"
proof (cases retval)
  case False
  let ?N = "N\<lparr>nm_objs := (nm_objs N)(nm_next N \<mapsto> (c, fresh_socket fd ty)), nm_next := Suc (nm_next N)\<rparr>"
  obtain k where d: "delete_object K (nm_next N) ?N = ret (?N\<lparr>nm_objs := (nm_objs ?N)(nm_next N := None),
     nm_heap := (nm_heap ?N)\<lparr>h_mem := h_mem (nm_heap ?N) |` (- set (queued (fresh_socket fd ty)))\<rparr>, nm_kernel := k\<rparr>)"
    using delete_object_ok [of ?N "nm_next N" c "fresh_socket fd ty" K] by auto
  have "nm_objs N (nm_next N) = None" using net_okD(5) [OF N, of "nm_next N"] by (cases "nm_objs N (nm_next N)") auto
  then have same: "(nm_objs N)(nm_next N := None) = nm_objs N" by auto
  let ?M = "N\<lparr>nm_next := Suc (nm_next N), nm_kernel := k\<rparr>"
  have h: "h\<lparr>h_mem := h_mem h |` UNIV\<rparr> = h" for h by (cases h) (simp add: restrict_map_def)
  have "?N\<lparr>nm_objs := (nm_objs ?N)(nm_next N := None),
     nm_heap := (nm_heap ?N)\<lparr>h_mem := h_mem (nm_heap ?N) |` (- set (queued (fresh_socket fd ty)))\<rparr>, nm_kernel := k\<rparr> = ?M"
    using same h by (cases N) simp
  then have "enter_table K c (fresh_socket fd ty) retval N = ret (-1, ?M)"
    unfolding enter_table_def new_object_def prod.case d using False by simp
  moreover have "net_ok ?M" using N unfolding net_ok_def by (auto simp: less_Suc_eq)
  ultimately show ?thesis using False by (intro exI [of _ ?M]) simp
next
  case True
  let ?so = "fresh_socket fd ty"
  obtain rc k where rk: "addSocket K fd (nm_kernel N) = (rc, k)" by force
  let ?N = "N\<lparr>nm_objs := (nm_objs N)(nm_next N \<mapsto> (c, ?so)), nm_next := Suc (nm_next N),
     nm_sockets := (nm_sockets N)(fd \<mapsto> nm_next N), nm_kernel := k\<rparr>"
  have fd': "0 \<le> fd" "fd < MAX_SOCKET" "nm_sockets N fd = None" using fd True by auto
  have "enter_table K c ?so retval N = ret (fd, ?N)"
    using True fd' rk by (simp add: enter_table_def new_object_def register_def slot_def)
  moreover have "net_ok ?N" unfolding net_ok_def
  proof (intro conjI allI impI)
    fix t q assume t: "nm_sockets ?N t = Some q"
    show "0 \<le> t" "t < MAX_SOCKET" using t fd' net_okD(1) [OF N, of t q] by (auto split: if_splits)
    show "\<exists>c so. nm_objs ?N q = Some (c, so) \<and> so_fd so = t \<and> (so_type so = SOCKET_SERVER \<longrightarrow> c = Server_socket)"
    proof (cases "t = fd")
      case True
      then show ?thesis using t ty by auto
    next
      case False
      then have t': "nm_sockets N t = Some q" using t by simp
      from net_okD(2) [OF N t'] obtain d to where d: "nm_objs N q = Some (d, to)" "so_fd to = t"
        "so_type to = SOCKET_SERVER \<longrightarrow> d = Server_socket" by blast
      have "q \<noteq> nm_next N" using net_okD(5) [OF N d(1)] by simp
      then show ?thesis using d by simp
    qed
  next
    fix q d to assume q: "nm_objs ?N q = Some (d, to)"
    show "nm_sockets ?N (so_fd to) = Some q" "healthy (nm_heap ?N) to" "q < nm_next ?N"
    proof -
      have "nm_sockets ?N (so_fd to) = Some q \<and> healthy (nm_heap ?N) to \<and> q < nm_next ?N"
      proof (cases "q = nm_next N")
        case True
        then show ?thesis using q by auto
      next
        case False
        then have q': "nm_objs N q = Some (d, to)" using q by simp
        have "so_fd to \<noteq> fd" using net_okD(3) [OF N q'] fd'(3) by auto
        then show ?thesis using net_okD(3-5) [OF N q'] by simp
      qed
      then show "nm_sockets ?N (so_fd to) = Some q" "healthy (nm_heap ?N) to" "q < nm_next ?N" by blast+
    qed
  next
    fix q r c' d' so' to'
    assume "nm_objs ?N q = Some (c', so') \<and> nm_objs ?N r = Some (d', to') \<and> q \<noteq> r"
    then show "set (queued so') \<inter> set (queued to') = {}"
      using net_okD(6) [OF N, of q c' so' r d' to'] by (auto split: if_splits)
  qed
  ultimately show ?thesis using True by (intro exI [of _ ?N]) simp
qed

lemma net_ok_kernel: "net_ok (N\<lparr>nm_kernel := k\<rparr>) = net_ok N"
  by (simp add: net_ok_def)

lemma newserver_enter:
  assumes "sys_socket K (nm_kernel N) = (fd, k)" "server_listen K (fresh_socket fd SOCKET_SERVER) address port k = (retval, k')"
  shows "newserver K address port N = enter_table K Server_socket (fresh_socket fd SOCKET_SERVER) retval (N\<lparr>nm_kernel := k'\<rparr>)"
  using assms
  by (cases N) (simp add: newserver_def new_SocketServer_def enter_table_def new_object_def Let_def fresh_socket_def)

lemma newclient_enter:
  assumes "sys_socket K (nm_kernel N) = (fd, k)" "client_connect K (fresh_socket fd SOCKET_CLIENT) address port k = (retval, k')"
  shows "newclient K address port N = enter_table K Client_socket (fresh_socket fd SOCKET_CLIENT) retval (N\<lparr>nm_kernel := k'\<rparr>)"
  using assms
  by (cases N) (simp add: newclient_def new_SocketClient_def enter_table_def new_object_def Let_def fresh_socket_def)

text \<open>A call that gave \<open>r\<close>: the table is in order and has the new object exactly when \<open>r\<close> is not -1.\<close>

definition entered :: "'k net \<Rightarrow> int \<Rightarrow> sock_class \<Rightarrow> int \<Rightarrow> int \<Rightarrow> 'k net \<Rightarrow> bool" where
  "entered N fd c ty r N' \<longleftrightarrow> net_ok N' \<and>
     (r = -1 \<and> nm_sockets N' = nm_sockets N
      \<or> r = fd \<and> nm_sockets N' = (nm_sockets N)(fd \<mapsto> nm_next N) \<and> nm_objs N' (nm_next N) = Some (c, fresh_socket fd ty))"

text \<open>
  C27. A new server or client: when the kernel gives a descriptor that is in range and not in the
  table, or -1, both functions return, the table stays in order, and it has the new descriptor
  exactly when the call succeeded; on failure the half-made object is deleted again.
\<close>

theorem new_endpoints_ok:
  assumes N: "net_ok N" and fd: "sys_socket K (nm_kernel N) = (fd, k)" "fd = -1 \<or> 0 \<le> fd \<and> fd < MAX_SOCKET \<and> nm_sockets N fd = None"
  shows "(\<exists>r N'. newserver K address port N = ret (r, N') \<and> entered N fd Server_socket SOCKET_SERVER r N')
    \<and> (\<exists>r N'. newclient K address port N = ret (r, N') \<and> entered N fd Client_socket SOCKET_CLIENT r N')"
proof
  obtain retval k' where l: "server_listen K (fresh_socket fd SOCKET_SERVER) address port k = (retval, k')" by force
  have "retval \<longrightarrow> fd \<noteq> -1" using l by (auto simp: server_listen_def)
  then have r: "retval \<longrightarrow> 0 \<le> fd \<and> fd < MAX_SOCKET \<and> nm_sockets (N\<lparr>nm_kernel := k'\<rparr>) fd = None" using fd(2) by auto
  show "\<exists>r N'. newserver K address port N = ret (r, N') \<and> entered N fd Server_socket SOCKET_SERVER r N'"
    using enter_table_ok [OF _ r, of SOCKET_SERVER Server_socket K] N
    unfolding newserver_enter [OF fd(1) l] entered_def net_ok_kernel by (cases retval) auto
next
  obtain retval k' where l: "client_connect K (fresh_socket fd SOCKET_CLIENT) address port k = (retval, k')" by force
  have "retval \<longrightarrow> fd \<noteq> -1" using l by (auto simp: client_connect_def)
  then have r: "retval \<longrightarrow> 0 \<le> fd \<and> fd < MAX_SOCKET \<and> nm_sockets (N\<lparr>nm_kernel := k'\<rparr>) fd = None" using fd(2) by auto
  have ty: "SOCKET_CLIENT = SOCKET_SERVER \<longrightarrow> Client_socket = Server_socket" by (simp add: SOCKET_CLIENT_def SOCKET_SERVER_def)
  show "\<exists>r N'. newclient K address port N = ret (r, N') \<and> entered N fd Client_socket SOCKET_CLIENT r N'"
    using enter_table_ok [OF _ r ty, of K] N
    unfolding newclient_enter [OF fd(1) l] entered_def net_ok_kernel by (cases retval) auto
qed

theorem new_endpoints_ok_witness:
  "(\<exists>r N'. newserver (quiet 3) [] 80 one_net = ret (r, N') \<and> entered one_net 3 Server_socket SOCKET_SERVER r N')
    \<and> (\<exists>r N'. newclient (quiet 3) [] 80 one_net = ret (r, N') \<and> entered one_net 3 Client_socket SOCKET_CLIENT r N')"
  by (rule new_endpoints_ok [OF one_net_ok, of _ _ "()"]) (simp_all add: quiet_def MAX_SOCKET_def one_net_def)

section \<open>Where the table is not protected\<close>

text \<open>
  A server socket that accepts a descriptor outside the table: there is no check, and the
  access is outside the array. (\<open>newserver\<close> and \<open>newclient\<close> assert the bound.)
\<close>

theorem accept_outside_table:
  assumes "nm_objs N p = Some (c, so)" "sys_accept K (so_fd so) (nm_kernel N) = (Done fd, k)" "MAX_SOCKET \<le> fd"
  shows "accept_loop K p N = Some (Inl Undefined)"
  using assms
  by (subst accept_loop.simps)
    (simp add: object_def server_accept.simps new_object_def slot_def MAX_SOCKET_def)

theorem accept_outside_table_witness:
  "accept_loop (quiet 3) 0 (empty_net\<lparr>nm_objs := [0 \<mapsto> (Server_socket, fresh_socket 3 SOCKET_SERVER)]\<rparr>) = Some (Inl Undefined)"
  by (rule accept_outside_table [where fd = 70000 and k = "()"]) (simp_all add: quiet_def MAX_SOCKET_def empty_net_def)

text \<open>
  C37. A message whose handling closes the connection it came from: the loop of \<open>readSocket\<close> then asks
  the deleted object for its next message.
\<close>

theorem close_while_reading:
  assumes "net_ok N" "nm_sockets N s = Some p" "nm_objs N p = Some (c, so)" "lq_list (so_rlist so) = m # ms"
  shows "message_loop (\<lambda>msg. closeSocket K s) p N = Some (Inl Undefined)"
proof -
  let ?so = "so\<lparr>so_rlist := (so_rlist so)\<lparr>lq_list := ms\<rparr>\<rparr>"
  let ?N = "N\<lparr>nm_objs := (nm_objs N)(p \<mapsto> (c, ?so))\<rparr>"
  have h: "healthy (nm_heap N) so" by (rule net_okD(4) [OF assms(1,3)])
  have get: "getMessage so = ret (Some m, ?so)"
    using h assms(4) by (simp add: getMessage_def LockfreeQueue_empty_def healthy_def queue_ops)
  have "healthy (nm_heap ?N) ?so" using h assms(4) by (auto simp: healthy_def queued_def)
  obtain rc k0 where rk: "removeSocket K s (nm_kernel N) = (rc, k0)" by force
  obtain k where d: "delete_object K p (?N\<lparr>nm_kernel := k0\<rparr>) = ret (?N\<lparr>nm_kernel := k0\<rparr>\<lparr>nm_objs := (nm_objs ?N)(p := None),
     nm_heap := (nm_heap ?N)\<lparr>h_mem := h_mem (nm_heap ?N) |` (- set (queued ?so))\<rparr>, nm_kernel := k\<rparr>)"
    using delete_object_ok [of "?N\<lparr>nm_kernel := k0\<rparr>" p c ?so K] \<open>healthy (nm_heap ?N) ?so\<close> by auto
  obtain N' where N': "closeSocket K s ?N = ret N'" "nm_objs N' p = None"
    using net_okD(1) [OF assms(1,2)] assms(2) d rk by (simp add: closeSocket_def slot_def)
  have "message_loop (\<lambda>msg. closeSocket K s) p N' = Some (Inl Undefined)"
    using N'(2) by (subst message_loop.simps) (simp add: object_def)
  then show ?thesis using assms(3) get N'(1) by (subst message_loop.simps) (simp add: object_def)
qed

theorem close_while_reading_witness:
  "message_loop (\<lambda>msg. closeSocket (quiet 3) 5) 0 one_net = Some (Inl Undefined)"
  by (rule close_while_reading [OF one_net_ok, where c = Plain_socket and so = one_socket and m = 0 and ms = "[]"])
    (simp_all add: one_net_def one_socket_def)

text \<open>\<open>connectSelect\<close> answers true when \<open>select\<close> times out, although it logs the timeout as a failure.\<close>

lemma connectSelect_timeout:
  assumes "\<And>k. snd (sys_connect K s (socket_address K address port) k) = k"
    and "\<And>k. fst (sys_connect K s (socket_address K address port) k) = Err EINPROGRESS"
    and "\<And>t u k. fst (sys_select K (s + 1) t u k) = (0, False, False)"
  shows "fst (connectSelect K s address port milliseconds k)"
  using assms by (auto simp: connectSelect_def Let_def split_def split: sys.splits)

end
