(* ===== verification/Tables.thy ===== *)
theory Tables imports Lockfree "HOL-Library.Multiset" begin

text \<open>
  \<^verbatim>\<open>tools/LockfreeMap.h\<close>, \<^verbatim>\<open>tools/Entry.h\<close> and \<^verbatim>\<open>tools/Manager.h\<close>: the tables that find objects by their
  number. Both wrap a \<open>std::unordered_map\<close>, whose order of iteration the standard leaves open: the
  contents are a list in that order, and \<open>arrange\<close>, a parameter, is the new order after an insertion.
  The contract both keep is the locale \<open>id_table\<close>.
\<close>

section \<open>std::unordered_map\<close>

type_synonym ('k, 'v) umap = "('k \<times> 'v) list"

definition umap_insert :: "(('k, 'v) umap \<Rightarrow> ('k, 'v) umap) \<Rightarrow> 'k \<Rightarrow> 'v \<Rightarrow> ('k, 'v) umap \<Rightarrow> bool \<times> ('k, 'v) umap" where
  "umap_insert arrange k v m =
     (case map_of m k of None \<Rightarrow> (True, arrange ((k, v) # m)) | Some _ \<Rightarrow> (False, m))"

definition umap_erase :: "'k \<Rightarrow> ('k, 'v) umap \<Rightarrow> ('k, 'v) umap" where
  "umap_erase k m = filter (\<lambda>e. fst e \<noteq> k) m"

definition umap_ok :: "('k, 'v) umap \<Rightarrow> bool" where
  "umap_ok m = distinct (map fst m)"

definition arranges :: "(('k, 'v) umap \<Rightarrow> ('k, 'v) umap) \<Rightarrow> bool" where
  "arranges arrange \<longleftrightarrow> (\<forall>m. mset (arrange m) = mset m)"

lemma arranges_map_of:
  assumes "arranges arrange" "umap_ok m"
  shows "umap_ok (arrange m)" "map_of (arrange m) = map_of m" "length (arrange m) = length m"
proof -
  have eq: "mset (arrange m) = mset m" using assms(1) by (simp add: arranges_def)
  then have "mset (map fst (arrange m)) = mset (map fst m)" by simp
  then show ok: "umap_ok (arrange m)"
    using assms(2) unfolding umap_ok_def by (metis mset_eq_imp_distinct_iff)
  show "map_of (arrange m) = map_of m"
    using ok assms(2) mset_eq_setD [OF eq] map_of_inject_set unfolding umap_ok_def by metis
  show "length (arrange m) = length m" using eq by (metis size_mset)
qed

lemma umap_erase_map_of: "map_of (umap_erase k m) = (map_of m)(k := None)"
  by (induction m) (auto simp: umap_erase_def)

lemma umap_erase_ok: "umap_ok m \<Longrightarrow> umap_ok (umap_erase k m)"
  unfolding umap_ok_def umap_erase_def by (rule distinct_map_filter)

section \<open>LockfreeMap\<close>

record ('k, 'v) lfmap =
  lm_locker :: bool
  lm_map :: "('k, 'v) umap"

definition new_LockfreeMap :: "('k, 'v) lfmap" where
  "new_LockfreeMap = \<lparr>lm_locker = False, lm_map = []\<rparr>"

text \<open>\<open>lock()\<close>, the body over the map, \<open>unlock()\<close>; the body gives the result and the new map.\<close>

definition guarded :: "('k, 'v) lfmap \<Rightarrow> (('k, 'v) umap \<Rightarrow> ('r \<times> ('k, 'v) umap) run) \<Rightarrow> ('r \<times> ('k, 'v) lfmap) run" where
  "guarded m body =
     (case Spinlocker_lock (lm_locker m) of None \<Rightarrow> None
      | Some l \<Rightarrow> bind_run (body (lm_map m)) (\<lambda>(r, entries).
          ret (r, \<lparr>lm_locker = Spinlocker_unlock l, lm_map = entries\<rparr>)))"

definition LockfreeMap_insert ::
  "(('k, 'v) umap \<Rightarrow> ('k, 'v) umap) \<Rightarrow> ('k, 'v) lfmap \<Rightarrow> 'k \<Rightarrow> 'v \<Rightarrow> (bool \<times> ('k, 'v) lfmap) run" where
  "LockfreeMap_insert arrange m key val = guarded m (\<lambda>es. ret (umap_insert arrange key val es))"

definition LockfreeMap_eraseKey :: "('k, 'v) lfmap \<Rightarrow> 'k \<Rightarrow> (bool \<times> ('k, 'v) lfmap) run" where
  "LockfreeMap_eraseKey m key = guarded m (\<lambda>es.
     case map_of es key of None \<Rightarrow> ret (False, es) | Some _ \<Rightarrow> ret (True, umap_erase key es))"

definition LockfreeMap_containKey :: "('k, 'v) lfmap \<Rightarrow> 'k \<Rightarrow> (bool \<times> ('k, 'v) lfmap) run" where
  "LockfreeMap_containKey m key = guarded m (\<lambda>es. ret (map_of es key \<noteq> None, es))"

text \<open>\<open>dflt\<close> is the value-initialised \<open>VALUE\<close>, the null pointer in every use of the class.\<close>

definition LockfreeMap_find :: "'v \<Rightarrow> ('k, 'v) lfmap \<Rightarrow> 'k \<Rightarrow> ('v \<times> ('k, 'v) lfmap) run" where
  "LockfreeMap_find dflt m key = guarded m (\<lambda>es.
     ret (case map_of es key of None \<Rightarrow> dflt | Some v \<Rightarrow> v, es))"

definition LockfreeMap_pop_front :: "'v \<Rightarrow> ('k, 'v) lfmap \<Rightarrow> ('v \<times> ('k, 'v) lfmap) run" where
  "LockfreeMap_pop_front dflt m = guarded m (\<lambda>es.
     ret (case es of [] \<Rightarrow> (dflt, es) | (k, v) # rest \<Rightarrow> (v, rest)))"

definition LockfreeMap_size :: "('k, 'v) lfmap \<Rightarrow> (nat \<times> ('k, 'v) lfmap) run" where
  "LockfreeMap_size m = guarded m (\<lambda>es. ret (length es, es))"

definition LockfreeMap_empty :: "('k, 'v) lfmap \<Rightarrow> (bool \<times> ('k, 'v) lfmap) run" where
  "LockfreeMap_empty m = guarded m (\<lambda>es. ret (es = [], es))"

definition LockfreeMap_traverse ::
  "('k, 'v) lfmap \<Rightarrow> ('k \<Rightarrow> 'v \<Rightarrow> 's \<Rightarrow> 's run) \<Rightarrow> 's \<Rightarrow> ('s \<times> ('k, 'v) lfmap) run" where
  "LockfreeMap_traverse m invoke s = guarded m (\<lambda>es.
     bind_run (invoke_each (\<lambda>(k, v). invoke k v) es s) (\<lambda>s. ret (s, es)))"

lemma guarded_free [simp]:
  "\<not> lm_locker m \<Longrightarrow> guarded m body = bind_run (body (lm_map m)) (\<lambda>(r, es). ret (r, \<lparr>lm_locker = False, lm_map = es\<rparr>))"
  by (simp add: guarded_def Spinlocker_unlock_def)

section \<open>Entries and their manager\<close>

text \<open>
  An \<open>Entry\<close> is an object with a number that never changes; the manager keeps pointers and reads the
  number of an object through them. \<open>id_of\<close> is that number, for every address of an object.
\<close>

record ('i, 'd) entry =
  entry_id :: 'i
  entry_data :: 'd

type_synonym ('i, 'p) manager = "('i, 'p) umap"

definition Manager_add :: "(('i, 'p) umap \<Rightarrow> ('i, 'p) umap) \<Rightarrow> ('p \<Rightarrow> 'i) \<Rightarrow> ('i, 'p) manager \<Rightarrow> 'p \<Rightarrow> bool \<times> ('i, 'p) manager" where
  "Manager_add arrange id_of m p = umap_insert arrange (id_of p) p m"

definition Manager_remove :: "('p \<Rightarrow> 'i) \<Rightarrow> ('i, 'p) manager \<Rightarrow> 'p \<Rightarrow> ('i, 'p) manager" where
  "Manager_remove id_of m p =
     (case map_of m (id_of p) of None \<Rightarrow> m | Some _ \<Rightarrow> umap_erase (id_of p) m)"

definition Manager_size :: "('i, 'p) manager \<Rightarrow> nat" where "Manager_size m = length m"

definition Manager_empty :: "('i, 'p) manager \<Rightarrow> bool" where "Manager_empty m = (m = [])"

definition Manager_clear :: "('i, 'p) manager \<Rightarrow> ('i, 'p) manager" where "Manager_clear m = []"

definition Manager_find :: "('i, 'p) manager \<Rightarrow> 'i \<Rightarrow> 'p option" where
  "Manager_find m i = (case map_of m i of None \<Rightarrow> None | Some p \<Rightarrow> Some p)"

fun Manager_traverse :: "('p \<Rightarrow> 's \<Rightarrow> bool \<times> 's) \<Rightarrow> ('i, 'p) manager \<Rightarrow> 's \<Rightarrow> bool \<times> 's" where
  "Manager_traverse invoke [] s = (True, s)"
| "Manager_traverse invoke ((i, p) # m) s =
     (case invoke p s of (ok, s) \<Rightarrow> if \<not> ok then (False, s) else Manager_traverse invoke m s)"

text \<open>\<open>pop_front\<close> of an empty manager goes through \<open>end()\<close>.\<close>

definition Manager_pop_front :: "('i, 'p) manager \<Rightarrow> ('p \<times> ('i, 'p) manager) res" where
  "Manager_pop_front m = (case m of [] \<Rightarrow> Inl Undefined | (i, p) # rest \<Rightarrow> Inr (p, rest))"

section \<open>The contract of a table\<close>

locale id_table =
  fixes look :: "'m \<Rightarrow> 'k \<Rightarrow> 'v option"
    and valid :: "'m \<Rightarrow> bool"
    and add :: "'m \<Rightarrow> 'k \<Rightarrow> 'v \<Rightarrow> bool \<times> 'm"
    and del :: "'m \<Rightarrow> 'k \<Rightarrow> 'm"
    and admissible :: "'k \<Rightarrow> 'v \<Rightarrow> bool"
  assumes add_look: "valid m \<Longrightarrow> admissible k v \<Longrightarrow>
      fst (add m k v) = (look m k = None) \<and> valid (snd (add m k v))
      \<and> look (snd (add m k v)) = (if look m k = None then (look m)(k \<mapsto> v) else look m)"
    and del_look: "valid m \<Longrightarrow> valid (del m k) \<and> look (del m k) = (look m)(k := None)"
begin

fun add_all :: "'m \<Rightarrow> ('k \<times> 'v) list \<Rightarrow> 'm" where
  "add_all m [] = m"
| "add_all m ((k, v) # es) = add_all (snd (add m k v)) es"

text \<open>The first value added under a number stays.\<close>

lemma add_all_look:
  "valid m \<Longrightarrow> \<forall>(k, v) \<in> set es. admissible k v \<Longrightarrow>
     valid (add_all m es) \<and> look (add_all m es) = map_of es ++ look m"
proof (induction es arbitrary: m)
  case (Cons e es)
  obtain k v where e: "e = (k, v)" by force
  have "valid (snd (add m k v))"
    and "look (snd (add m k v)) = (if look m k = None then (look m)(k \<mapsto> v) else look m)"
    using add_look Cons.prems e by auto
  then show ?case using Cons.IH Cons.prems(2) e
    by (auto simp: map_add_def fun_eq_iff split: option.splits)
qed simp

lemma add_del: "valid m \<Longrightarrow> admissible k v \<Longrightarrow> look m k = None \<Longrightarrow> look (del (snd (add m k v)) k) = look m"
  using add_look [of m k v] del_look [of "snd (add m k v)" k] by auto

end

lemma umap_insert_spec:
  assumes "arranges arrange" "umap_ok m"
  shows "fst (umap_insert arrange k v m) = (map_of m k = None) \<and> umap_ok (snd (umap_insert arrange k v m))
    \<and> map_of (snd (umap_insert arrange k v m)) = (if map_of m k = None then (map_of m)(k \<mapsto> v) else map_of m)"
proof (cases "map_of m k")
  case None
  then have "umap_ok ((k, v) # m)" using assms(2) by (auto simp: umap_ok_def map_of_eq_None_iff)
  from arranges_map_of [OF assms(1) this] show ?thesis using None by (simp add: umap_insert_def)
next
  case (Some u)
  then show ?thesis using assms(2) by (simp add: umap_insert_def)
qed

text \<open>The map behind its lock, with the lock free before and after every operation.\<close>

definition lfmap_ok :: "('k, 'v) lfmap \<Rightarrow> bool" where
  "lfmap_ok m \<longleftrightarrow> \<not> lm_locker m \<and> umap_ok (lm_map m)"

definition returned :: "'a run \<Rightarrow> 'a" where
  "returned r = (case r of Some (Inr x) \<Rightarrow> x)"

lemma returned_ret [simp]: "returned (ret x) = x"
  by (simp add: returned_def ret_def)

lemma lfmap_insert_ret: "\<not> lm_locker m \<Longrightarrow> LockfreeMap_insert arrange m k v
    = ret (fst (umap_insert arrange k v (lm_map m)), \<lparr>lm_locker = False, lm_map = snd (umap_insert arrange k v (lm_map m))\<rparr>)"
  by (simp add: LockfreeMap_insert_def split: prod.split)

lemma lfmap_eraseKey_ret: "\<not> lm_locker m \<Longrightarrow> LockfreeMap_eraseKey m k
    = ret (map_of (lm_map m) k \<noteq> None, \<lparr>lm_locker = False, lm_map = umap_erase k (lm_map m)\<rparr>)"
proof (cases "map_of (lm_map m) k")
  case None
  then have "umap_erase k (lm_map m) = lm_map m"
    by (auto simp: umap_erase_def map_of_eq_None_iff intro!: filter_True)
  then show "\<not> lm_locker m \<Longrightarrow> LockfreeMap_eraseKey m k
    = ret (map_of (lm_map m) k \<noteq> None, \<lparr>lm_locker = False, lm_map = umap_erase k (lm_map m)\<rparr>)"
    using None by (simp add: LockfreeMap_eraseKey_def)
qed (simp add: LockfreeMap_eraseKey_def)

lemma lfmap_table:
  assumes "arranges arrange"
  shows "id_table (\<lambda>m. map_of (lm_map m)) lfmap_ok (\<lambda>m k v. returned (LockfreeMap_insert arrange m k v))
     (\<lambda>m k. snd (returned (LockfreeMap_eraseKey m k))) (\<lambda>_ _. True)"
  using umap_insert_spec [OF assms]
  by unfold_locales (auto simp: lfmap_ok_def lfmap_insert_ret lfmap_eraseKey_ret umap_erase_map_of umap_erase_ok)

lemma manager_table:
  assumes "arranges arrange"
  shows "id_table map_of umap_ok (\<lambda>m i p. Manager_add arrange id_of m p)
     (\<lambda>m i. case map_of m i of None \<Rightarrow> m | Some p \<Rightarrow> umap_erase i m) (\<lambda>i p. id_of p = i)"
proof unfold_locales
  fix m :: "('a, 'b) umap" and i p
  assume "umap_ok m" "id_of p = i"
  then show "fst (Manager_add arrange id_of m p) = (map_of m i = None) \<and> umap_ok (snd (Manager_add arrange id_of m p))
    \<and> map_of (snd (Manager_add arrange id_of m p)) = (if map_of m i = None then (map_of m)(i \<mapsto> p) else map_of m)"
    using umap_insert_spec [OF assms, of m i p] by (auto simp: Manager_add_def)
next
  fix m :: "('a, 'b) umap" and i
  assume "umap_ok m"
  then show "umap_ok (case map_of m i of None \<Rightarrow> m | Some p \<Rightarrow> umap_erase i m)
    \<and> map_of (case map_of m i of None \<Rightarrow> m | Some p \<Rightarrow> umap_erase i m) = (map_of m)(i := None)"
    by (auto simp: umap_erase_map_of umap_erase_ok fun_eq_iff split: option.split)
qed

text \<open>Insertion at the front is an order an implementation may use.\<close>

lemma arranges_front: "arranges (\<lambda>m. m)"
  by (simp add: arranges_def)

interpretation lfm: id_table "\<lambda>m. map_of (lm_map m)" lfmap_ok "\<lambda>m k v. returned (LockfreeMap_insert (\<lambda>m. m) m k v)"
    "\<lambda>m k. snd (returned (LockfreeMap_eraseKey m k))" "\<lambda>_ _. True"
  by (rule lfmap_table [OF arranges_front])

section \<open>Any sequence of operations on a LockfreeMap\<close>

datatype ('k, 'v) map_op = Insert 'k 'v | EraseKey 'k | ContainKey 'k | Find 'k | Size | Empty

datatype 'v answer = A_bool bool | A_value 'v | A_size nat

fun run_lfmap :: "(('k, 'v) umap \<Rightarrow> ('k, 'v) umap) \<Rightarrow> 'v \<Rightarrow> ('k, 'v) map_op list \<Rightarrow> ('k, 'v) lfmap \<Rightarrow> ('v answer list \<times> ('k, 'v) lfmap) run" where
  "run_lfmap arrange dflt [] m = ret ([], m)"
| "run_lfmap arrange dflt (x # ops) m =
     bind_run (case x of
         Insert k v \<Rightarrow> bind_run (LockfreeMap_insert arrange m k v) (\<lambda>(r, m). ret (A_bool r, m))
       | EraseKey k \<Rightarrow> bind_run (LockfreeMap_eraseKey m k) (\<lambda>(r, m). ret (A_bool r, m))
       | ContainKey k \<Rightarrow> bind_run (LockfreeMap_containKey m k) (\<lambda>(r, m). ret (A_bool r, m))
       | Find k \<Rightarrow> bind_run (LockfreeMap_find dflt m k) (\<lambda>(r, m). ret (A_value r, m))
       | Size \<Rightarrow> bind_run (LockfreeMap_size m) (\<lambda>(r, m). ret (A_size r, m))
       | Empty \<Rightarrow> bind_run (LockfreeMap_empty m) (\<lambda>(r, m). ret (A_bool r, m)))
     (\<lambda>(a, m). bind_run (run_lfmap arrange dflt ops m) (\<lambda>(as, m). ret (a # as, m)))"

text \<open>The same operations on a finite partial function.\<close>

fun map_op_spec :: "'v \<Rightarrow> ('k, 'v) map_op \<Rightarrow> ('k \<rightharpoonup> 'v) \<Rightarrow> 'v answer \<times> ('k \<rightharpoonup> 'v)" where
  "map_op_spec dflt (Insert k v) f = (A_bool (f k = None), if f k = None then f(k \<mapsto> v) else f)"
| "map_op_spec dflt (EraseKey k) f = (A_bool (f k \<noteq> None), f(k := None))"
| "map_op_spec dflt (ContainKey k) f = (A_bool (f k \<noteq> None), f)"
| "map_op_spec dflt (Find k) f = (A_value (case f k of None \<Rightarrow> dflt | Some v \<Rightarrow> v), f)"
| "map_op_spec dflt Size f = (A_size (card (dom f)), f)"
| "map_op_spec dflt Empty f = (A_bool (dom f = {}), f)"

fun map_ops_spec :: "'v \<Rightarrow> ('k, 'v) map_op list \<Rightarrow> ('k \<rightharpoonup> 'v) \<Rightarrow> 'v answer list \<times> ('k \<rightharpoonup> 'v)" where
  "map_ops_spec dflt [] f = ([], f)"
| "map_ops_spec dflt (x # ops) f =
     (case map_op_spec dflt x f of (a, f) \<Rightarrow> case map_ops_spec dflt ops f of (as, f) \<Rightarrow> (a # as, f))"

lemma lfmap_ok_new: "lfmap_ok new_LockfreeMap"
  by (simp add: lfmap_ok_def new_LockfreeMap_def umap_ok_def)

lemma umap_card: "umap_ok m \<Longrightarrow> card (fst ` set m) = length m"
  using distinct_card [of "map fst m"] by (simp add: umap_ok_def)

text \<open>
  C28. For every order the library may keep the entries in, and every sequence of operations on a
  new \<open>LockfreeMap\<close>, the answers and the final contents are those of a partial function, and every
  operation returns, with the lock released.
\<close>

theorem lockfree_map_refines:
  assumes "arranges arrange"
  shows "\<exists>m. run_lfmap arrange dflt ops new_LockfreeMap = ret (fst (map_ops_spec dflt ops Map.empty), m)
    \<and> map_of (lm_map m) = snd (map_ops_spec dflt ops Map.empty) \<and> \<not> lm_locker m"
proof -
  have step: "lfmap_ok m \<Longrightarrow> \<exists>m'. run_lfmap arrange dflt ops m = ret (fst (map_ops_spec dflt ops (map_of (lm_map m))), m')
      \<and> map_of (lm_map m') = snd (map_ops_spec dflt ops (map_of (lm_map m))) \<and> lfmap_ok m'" for m
  proof (induction ops arbitrary: m)
    case (Cons x ops)
    obtain a f where af: "map_op_spec dflt x (map_of (lm_map m)) = (a, f)" by force
    have "\<exists>m'. run_lfmap arrange dflt [x] m = ret ([a], m') \<and> map_of (lm_map m') = f \<and> lfmap_ok m'"
      using Cons.prems af umap_insert_spec [OF assms, of "lm_map m"]
      by (cases x)
        (auto simp: lfmap_ok_def lfmap_insert_ret lfmap_eraseKey_ret umap_erase_map_of umap_erase_ok umap_card
          LockfreeMap_containKey_def LockfreeMap_find_def LockfreeMap_size_def LockfreeMap_empty_def dom_map_of_conv_image_fst)
    then obtain m1 where m1: "run_lfmap arrange dflt [x] m = ret ([a], m1)" "map_of (lm_map m1) = f" "lfmap_ok m1" by blast
    have "run_lfmap arrange dflt (x # ops) m
      = bind_run (run_lfmap arrange dflt [x] m) (\<lambda>(as, m). bind_run (run_lfmap arrange dflt ops m) (\<lambda>(bs, m). ret (as @ bs, m)))"
      by (simp add: bind_run_assoc split_def)
    then show ?case using Cons.IH [OF m1(3)] m1 af by (auto split: prod.splits)
  qed simp
  from step [OF lfmap_ok_new] show ?thesis by (auto simp: new_LockfreeMap_def lfmap_ok_def)
qed

theorem lockfree_map_refines_witness:
  "\<exists>m. run_lfmap rev (0 :: nat) [Insert (3 :: nat) 4, Insert 3 5, Find 3, EraseKey 3, Empty] new_LockfreeMap
      = ret (fst (map_ops_spec (0 :: nat) [Insert (3 :: nat) 4, Insert 3 5, Find 3, EraseKey 3, Empty] Map.empty), m)
    \<and> map_of (lm_map m) = snd (map_ops_spec (0 :: nat) [Insert (3 :: nat) 4, Insert 3 5, Find 3, EraseKey 3, Empty] Map.empty)
    \<and> \<not> lm_locker m"
  by (rule lockfree_map_refines) (simp add: arranges_def)

section \<open>The manager\<close>

interpretation mgr: id_table map_of umap_ok "\<lambda>m i p. Manager_add (\<lambda>m. m) snd m p"
    "\<lambda>m i. case map_of m i of None \<Rightarrow> m | Some p \<Rightarrow> umap_erase i m" "\<lambda>i p. snd p = i"
  by (rule manager_table [OF arranges_front])

lemma Manager_find_map_of: "Manager_find m = map_of m"
  by (auto simp: Manager_find_def split: option.split)

lemma manager_foldl:
  "foldl (\<lambda>m p. snd (Manager_add arrange id_of m p)) m ps
     = id_table.add_all (\<lambda>m i p. Manager_add arrange id_of m p) m (map (\<lambda>p. (id_of p, p)) ps)"
  if "arranges arrange"
  by (induction ps arbitrary: m) (simp_all add: id_table.add_all.simps [OF manager_table [OF that]])

lemma find_map_of: "find (\<lambda>p. id_of p = i) ps = map_of (map (\<lambda>p. (id_of p, p)) ps) i"
  by (induction ps) auto

text \<open>
  After any objects have been added, the manager finds under a number the first object added
  with it; removing an object removes the one found under its number, and no other.
\<close>

theorem manager_finds_first:
  fixes id_of :: "'p \<Rightarrow> 'i"
  assumes "arranges arrange"
  defines "m ps \<equiv> foldl (\<lambda>m p. snd (Manager_add arrange id_of m p)) [] ps"
  shows "Manager_find (m ps) i = find (\<lambda>p. id_of p = i) ps
    \<and> Manager_find (Manager_remove id_of (m ps) p) i = (if i = id_of p then None else find (\<lambda>p. id_of p = i) ps)"
proof -
  note t = manager_table [OF assms(1), of id_of]
  have "umap_ok (m ps) \<and> map_of (m ps) = map_of (map (\<lambda>p. (id_of p, p)) ps) ++ map_of []"
    unfolding m_def manager_foldl [OF assms(1)]
    by (rule id_table.add_all_look [OF t]) (auto simp: umap_ok_def)
  then have m: "map_of (m ps) j = find (\<lambda>p. id_of p = j) ps" for j by (simp add: find_map_of)
  moreover have "map_of (Manager_remove id_of (m ps) p) = (map_of (m ps))(id_of p := None)"
    by (auto simp: Manager_remove_def umap_erase_map_of fun_eq_iff split: option.split)
  ultimately show ?thesis by (simp add: Manager_find_map_of)
qed

theorem manager_finds_first_witness:
  "Manager_find (foldl (\<lambda>m p. snd (Manager_add rev fst m p)) [] [(1, 10), (2, 20), (1, 30)]) 1
      = find (\<lambda>p. fst p = 1) [(1, 10), (2, 20), (1 :: nat, 30 :: nat)]
    \<and> Manager_find (Manager_remove fst (foldl (\<lambda>m p. snd (Manager_add rev fst m p)) [] [(1, 10), (2, 20), (1, 30)])
          (2 :: nat, 99 :: nat)) 1
      = (if 1 = fst (2 :: nat, 99 :: nat) then None else find (\<lambda>p. fst p = 1) [(1, 10), (2, 20), (1 :: nat, 30 :: nat)])"
  by (rule manager_finds_first) (simp add: arranges_def)

end
