(* ===== verification/Scheduler.thy ===== *)
theory Scheduler imports Lockfree begin

text \<open>
  \<^verbatim>\<open>tools/Runnable.h\<close>, \<^verbatim>\<open>tools/ThreadPool.h\<close>, \<^verbatim>\<open>tools/ThreadPool.cpp\<close> and the run loop of
  \<^verbatim>\<open>service/Service.cpp\<close>, as threads: how a service with messages gets to a worker of the pool and how
  the worker empties its queue. The operations of the queue are single steps here, which \<open>Lockfree\<close>
  justifies for one popping thread. With one scheduling thread a service is run by one worker at a
  time and handles its messages in order; the test and the setting of \<open>_isrunning\<close> are two steps, so
  with two scheduling threads it is not.
\<close>

section \<open>The thread pool\<close>

record 't pool =
  tp_stop :: bool
  tp_tasks :: "'t list"

definition new_ThreadPool :: "'t pool" where
  "new_ThreadPool = \<lparr>tp_stop = False, tp_tasks = []\<rparr>"

text \<open>\<open>init\<close>: how many workers are started; \<open>cpus\<close> is \<open>hardware_concurrency()\<close>.\<close>

definition pool_threads :: "int \<Rightarrow> int \<Rightarrow> int" where
  "pool_threads cpus n = (if n \<le> 0 then if cpus < 2 then 2 else cpus else n)"

text \<open>\<open>add\<close>: \<open>None\<close> is the exception thrown after a stop.\<close>

definition ThreadPool_add :: "'t \<Rightarrow> 't pool \<Rightarrow> 't pool option" where
  "ThreadPool_add t p = (if tp_stop p then None else Some (p\<lparr>tp_tasks := tp_tasks p @ [t]\<rparr>))"

definition ThreadPool_stop :: "'t pool \<Rightarrow> 't pool" where
  "ThreadPool_stop p = p\<lparr>tp_stop := True\<rparr>"

text \<open>
  One turn of a worker's loop up to the task: the worker ends when the pool is stopped, waits on the
  condition variable while there is nothing to do, and otherwise takes the first task.
\<close>

datatype 't turn = Worker_ends | Worker_waits | Worker_runs 't

definition worker_turn :: "'t pool \<Rightarrow> 't turn \<times> 't pool" where
  "worker_turn p =
     (if tp_stop p then (Worker_ends, p)
      else case tp_tasks p of
             [] \<Rightarrow> (Worker_waits, p)
           | t # ts \<Rightarrow> (Worker_runs t, p\<lparr>tp_tasks := ts\<rparr>))"

section \<open>One service, its schedulers and the workers\<close>

text \<open>
  A scheduling thread in \<open>ServiceManager::schedule(service)\<close>: \<open>need_schedule()\<close>, then
  \<open>Runnable::schedule()\<close>, which reads \<open>_isrunning\<close>, sets it, and adds the task.
\<close>

datatype sched_pc = S_idle | S_need | S_check | S_set | S_add

text \<open>
  A worker running the task: \<open>run()\<close> tests \<open>isstop()\<close>, then \<open>getMessage()\<close> tests \<open>empty()\<close> and pops, then
  the message is handled and released; at the end \<open>_isrunning\<close> is cleared.
\<close>

datatype 'm work_pc = W_idle | W_loop | W_get | W_pop | W_handle 'm | W_done

record 'm system =
  y_queue :: "'m list"
  y_isstop :: bool
  y_isrunning :: bool
  y_deleted :: bool
  y_pool :: "unit pool"
  y_sched :: "nat \<Rightarrow> sched_pc"
  y_work :: "nat \<Rightarrow> 'm work_pc"
  y_pushed :: "'m list"
  y_handled :: "'m list"
  y_fault :: "fault option"

definition system_start :: "'m system" where
  "system_start = \<lparr>y_queue = [], y_isstop = False, y_isrunning = False, y_deleted = False, y_pool = new_ThreadPool,
     y_sched = (\<lambda>_. S_idle), y_work = (\<lambda>_. W_idle), y_pushed = [], y_handled = [], y_fault = None\<rparr>"

definition need_schedule :: "'m system \<Rightarrow> bool" where
  "need_schedule y \<longleftrightarrow> \<not> y_isstop y \<and> y_queue y \<noteq> []"

text \<open>A statement of a scheduling thread. An exception of \<open>add\<close> leaves \<open>_isrunning\<close> set.\<close>

fun sched_step :: "sched_pc \<Rightarrow> 'm system \<Rightarrow> 'm system \<times> sched_pc" where
  "sched_step S_idle y = (y, S_idle)"
| "sched_step S_need y = (y, if need_schedule y then S_check else S_idle)"
| "sched_step S_check y = (y, if y_isrunning y then S_idle else S_set)"
| "sched_step S_set y = (y\<lparr>y_isrunning := True\<rparr>, S_add)"
| "sched_step S_add y = (case ThreadPool_add () (y_pool y) of None \<Rightarrow> (y, S_idle) | Some p \<Rightarrow> (y\<lparr>y_pool := p\<rparr>, S_idle))"

text \<open>A statement of a worker.\<close>

fun work_step :: "'m work_pc \<Rightarrow> 'm system \<Rightarrow> ('m system \<times> 'm work_pc) res" where
  "work_step W_idle y =
     (case worker_turn (y_pool y) of
        (Worker_runs t, p) \<Rightarrow> Inr (y\<lparr>y_pool := p\<rparr>, W_loop)
      | (_, p) \<Rightarrow> Inr (y, W_idle))"
| "work_step W_loop y = Inr (y, if y_isstop y then W_done else W_get)"
| "work_step W_get y = Inr (y, if y_queue y = [] then W_done else W_pop)"
| "work_step W_pop y =
     (case y_queue y of [] \<Rightarrow> Inl Undefined | m # ms \<Rightarrow> Inr (y\<lparr>y_queue := ms\<rparr>, W_handle m))"
| "work_step (W_handle m) y = Inr (y\<lparr>y_handled := y_handled y @ [m]\<rparr>, W_loop)"
| "work_step W_done y = Inr (y\<lparr>y_isrunning := False\<rparr>, W_idle)"

text \<open>
  Steps of the whole: a message is pushed by any thread; a thread of the set \<open>who\<close> starts scheduling
  the service; a scheduling thread or a worker moves on, a worker that uses the deleted service being
  a fault; \<open>exitservice\<close> stops the service, if \<open>stops\<close> allows it, and the main thread deletes a stopped one.
\<close>

inductive sys_step :: "nat set \<Rightarrow> bool \<Rightarrow> 'm system \<Rightarrow> 'm system \<Rightarrow> bool" for who stops where
  push: "y_fault y = None \<Longrightarrow> \<not> y_deleted y \<Longrightarrow>
     sys_step who stops y (y\<lparr>y_queue := y_queue y @ [m], y_pushed := y_pushed y @ [m]\<rparr>)"
| begin_schedule: "y_fault y = None \<Longrightarrow> \<not> y_deleted y \<Longrightarrow> t \<in> who \<Longrightarrow> y_sched y t = S_idle \<Longrightarrow>
     sys_step who stops y (y\<lparr>y_sched := (y_sched y)(t := S_need)\<rparr>)"
| sched: "y_fault y = None \<Longrightarrow> sched_step (y_sched y t) y = (y', pc) \<Longrightarrow>
     sys_step who stops y (y'\<lparr>y_sched := (y_sched y)(t := pc)\<rparr>)"
| work: "y_fault y = None \<Longrightarrow> y_work y i = W_idle \<or> \<not> y_deleted y \<Longrightarrow> work_step (y_work y i) y = Inr (y', pc) \<Longrightarrow>
     sys_step who stops y (y'\<lparr>y_work := (y_work y)(i := pc)\<rparr>)"
| work_fault: "y_fault y = None \<Longrightarrow> work_step (y_work y i) y = Inl e \<Longrightarrow>
     sys_step who stops y (y\<lparr>y_fault := Some e\<rparr>)"
| use_deleted: "y_fault y = None \<Longrightarrow> y_work y i \<noteq> W_idle \<Longrightarrow> y_deleted y \<Longrightarrow>
     sys_step who stops y (y\<lparr>y_fault := Some Undefined\<rparr>)"
| exitservice: "y_fault y = None \<Longrightarrow> stops \<Longrightarrow> sys_step who stops y (y\<lparr>y_isstop := True\<rparr>)"
| delete: "y_fault y = None \<Longrightarrow> y_isstop y \<Longrightarrow> sys_step who stops y (y\<lparr>y_deleted := True\<rparr>)"

inductive sys_reach :: "nat set \<Rightarrow> bool \<Rightarrow> 'm system \<Rightarrow> bool" for who stops where
  sys_reach_start: "sys_reach who stops system_start"
| sys_reach_step: "sys_reach who stops y \<Longrightarrow> sys_step who stops y y' \<Longrightarrow> sys_reach who stops y'"

section \<open>One scheduling thread\<close>

definition all_idle :: "'m system \<Rightarrow> bool" where
  "all_idle y \<longleftrightarrow> (\<forall>i. y_work y i = W_idle)"

definition one_works :: "'m system \<Rightarrow> bool" where
  "one_works y \<longleftrightarrow> (\<exists>i. y_work y i \<noteq> W_idle \<and> (\<forall>j. j \<noteq> i \<longrightarrow> y_work y j = W_idle))"

text \<open>
  The token: \<open>_isrunning\<close> is set exactly while the service is about to be added to the pool, or is in
  the pool once, or is run by one worker.
\<close>

definition token :: "nat \<Rightarrow> 'm system \<Rightarrow> bool" where
  "token c y \<longleftrightarrow>
     (if \<not> y_isrunning y then y_sched y c \<noteq> S_add \<and> tp_tasks (y_pool y) = [] \<and> all_idle y
      else y_sched y c \<noteq> S_set \<and>
        (if y_sched y c = S_add then tp_tasks (y_pool y) = [] \<and> all_idle y
         else tp_tasks (y_pool y) = [()] \<and> all_idle y \<or> tp_tasks (y_pool y) = [] \<and> one_works y))"

definition in_hand :: "'m work_pc \<Rightarrow> 'm list" where
  "in_hand pc = (case pc of W_handle m \<Rightarrow> [m] | _ \<Rightarrow> [])"

text \<open>Everything pushed has been handled, is being handled, or is still queued, in this order.\<close>

definition orderly :: "'m system \<Rightarrow> bool" where
  "orderly y \<longleftrightarrow> (\<exists>i. (\<forall>j. j \<noteq> i \<longrightarrow> y_work y j = W_idle) \<and> y_pushed y = y_handled y @ in_hand (y_work y i) @ y_queue y
     \<and> (y_work y i = W_pop \<longrightarrow> y_queue y \<noteq> []))"

definition sched_inv :: "nat \<Rightarrow> 'm system \<Rightarrow> bool" where
  "sched_inv c y \<longleftrightarrow> y_fault y = None \<and> \<not> y_isstop y \<and> \<not> y_deleted y \<and> \<not> tp_stop (y_pool y)
     \<and> (\<forall>t. t \<noteq> c \<longrightarrow> y_sched y t = S_idle) \<and> token c y \<and> orderly y"

lemma sched_invD:
  assumes "sched_inv c y"
  shows "y_fault y = None" "\<not> y_isstop y" "\<not> y_deleted y" "\<not> tp_stop (y_pool y)" "t \<noteq> c \<Longrightarrow> y_sched y t = S_idle"
    "token c y" "orderly y"
  using assms by (simp_all add: sched_inv_def)

lemma inv_push: "sched_inv c y \<Longrightarrow> sched_inv c (y\<lparr>y_queue := y_queue y @ [m], y_pushed := y_pushed y @ [m]\<rparr>)"
  unfolding sched_inv_def orderly_def token_def all_idle_def one_works_def by auto

lemma inv_begin: "sched_inv c y \<Longrightarrow> y_sched y c = S_idle \<Longrightarrow> sched_inv c (y\<lparr>y_sched := (y_sched y)(c := S_need)\<rparr>)"
  unfolding sched_inv_def orderly_def token_def all_idle_def one_works_def by (simp split: if_splits)

lemma inv_sched:
  assumes inv: "sched_inv c y" and step: "sched_step (y_sched y t) y = (y', pc)"
  shows "sched_inv c (y'\<lparr>y_sched := (y_sched y)(t := pc)\<rparr>)"
proof (cases "t = c")
  case False
  then have "y_sched y t = S_idle" by (rule sched_invD(5) [OF inv])
  then have "y'\<lparr>y_sched := (y_sched y)(t := pc)\<rparr> = y" using step by (cases y) (auto simp: fun_upd_idem)
  then show ?thesis using inv by simp
next
  case True
  show ?thesis
  proof (cases "y_sched y c")
    case S_check
    then show ?thesis using inv step True
      unfolding sched_inv_def orderly_def token_def all_idle_def one_works_def by (auto split: if_splits)
  next
    case S_set
    then have "\<not> y_isrunning y" using sched_invD(6) [OF inv] by (auto simp: token_def)
    then show ?thesis using inv step True S_set
      unfolding sched_inv_def orderly_def token_def all_idle_def one_works_def by (auto split: if_splits)
  next
    case S_add
    then have "y_isrunning y" using sched_invD(6) [OF inv] by (auto simp: token_def split: if_splits)
    then show ?thesis using inv step True S_add
      unfolding sched_inv_def orderly_def token_def all_idle_def one_works_def
      by (auto simp: ThreadPool_add_def)
  qed (use inv step True in \<open>unfold sched_inv_def orderly_def token_def all_idle_def one_works_def, auto split: if_splits\<close>)
qed

lemma orderly_only:
  assumes "orderly y" "y_work y i \<noteq> W_idle"
  shows "(\<forall>j. j \<noteq> i \<longrightarrow> y_work y j = W_idle) \<and> y_pushed y = y_handled y @ in_hand (y_work y i) @ y_queue y
    \<and> (y_work y i = W_pop \<longrightarrow> y_queue y \<noteq> [])"
proof -
  obtain k where k: "\<forall>j. j \<noteq> k \<longrightarrow> y_work y j = W_idle" "y_pushed y = y_handled y @ in_hand (y_work y k) @ y_queue y"
    "y_work y k = W_pop \<longrightarrow> y_queue y \<noteq> []" using assms(1) unfolding orderly_def by blast
  have "i = k" using spec [OF k(1), of i] assms(2) by blast
  then show ?thesis using k by blast
qed

text \<open>A worker that is running: the token is with it.\<close>

lemma token_working:
  assumes "token c y" "y_work y i \<noteq> W_idle"
  shows "y_isrunning y" "y_sched y c \<noteq> S_set" "y_sched y c \<noteq> S_add" "tp_tasks (y_pool y) = []"
  using assms unfolding token_def all_idle_def by (auto split: if_splits)

lemma inv_working:
  assumes inv: "sched_inv c y" and act: "y_work y i \<noteq> W_idle" and pc: "pc \<noteq> W_idle"
    and y': "y_isstop y' = y_isstop y" "y_isrunning y' = y_isrunning y" "y_deleted y' = y_deleted y" "y_pool y' = y_pool y"
      "y_sched y' = y_sched y" "y_work y' = y_work y" "y_fault y' = y_fault y"
    and ord: "y_pushed y' = y_handled y' @ in_hand pc @ y_queue y'" "pc = W_pop \<longrightarrow> y_queue y' \<noteq> []"
  shows "sched_inv c (y'\<lparr>y_work := (y_work y)(i := pc)\<rparr>)"
proof -
  have others: "\<forall>j. j \<noteq> i \<longrightarrow> y_work y j = W_idle" using orderly_only [OF sched_invD(7) [OF inv] act] by blast
  note t = token_working [OF sched_invD(6) [OF inv] act]
  have "one_works (y'\<lparr>y_work := (y_work y)(i := pc)\<rparr>)" unfolding one_works_def using others pc by auto
  then have "token c (y'\<lparr>y_work := (y_work y)(i := pc)\<rparr>)" using t y' by (simp add: token_def one_works_def)
  moreover have "orderly (y'\<lparr>y_work := (y_work y)(i := pc)\<rparr>)"
    unfolding orderly_def using others ord by (intro exI [of _ i]) simp
  ultimately show ?thesis using inv y' unfolding sched_inv_def by simp
qed

lemma inv_work:
  assumes inv: "sched_inv c y" and step: "work_step (y_work y i) y = Inr (y', pc)"
  shows "sched_inv c (y'\<lparr>y_work := (y_work y)(i := pc)\<rparr>)"
proof (cases "y_work y i = W_idle")
  case True
  show ?thesis
  proof (cases "tp_tasks (y_pool y)")
    case Nil
    then have "y'\<lparr>y_work := (y_work y)(i := pc)\<rparr> = y"
      using step True by (cases y) (auto simp: worker_turn_def fun_upd_idem split: if_splits)
    then show ?thesis using inv by simp
  next
    case (Cons u ts)
    have t: "y_isrunning y" "y_sched y c \<noteq> S_set" "y_sched y c \<noteq> S_add" "tp_tasks (y_pool y) = [()]" "all_idle y"
      using sched_invD(6) [OF inv] Cons unfolding token_def by (auto split: if_splits)
    then have y': "y' = y\<lparr>y_pool := (y_pool y)\<lparr>tp_tasks := []\<rparr>\<rparr>" "pc = W_loop"
      using step True sched_invD(4) [OF inv] by (auto simp: worker_turn_def)
    have "one_works (y'\<lparr>y_work := (y_work y)(i := pc)\<rparr>)"
      using t(5) y' unfolding one_works_def all_idle_def by auto
    then have "token c (y'\<lparr>y_work := (y_work y)(i := pc)\<rparr>)"
      using t y' unfolding token_def by simp
    moreover have "orderly (y'\<lparr>y_work := (y_work y)(i := pc)\<rparr>)"
      using sched_invD(7) [OF inv] t(5) y' unfolding orderly_def all_idle_def by (auto simp: in_hand_def)
    ultimately show ?thesis using inv y' unfolding sched_inv_def by simp
  qed
next
  case False
  note ord = orderly_only [OF sched_invD(7) [OF inv] False]
  note t = token_working [OF sched_invD(6) [OF inv] False]
  show ?thesis
  proof (cases "y_work y i")
    case W_done
    have others: "\<forall>j. j \<noteq> i \<longrightarrow> y_work y j = W_idle" using ord by blast
    have y': "y' = y\<lparr>y_isrunning := False\<rparr>" "pc = W_idle" using step W_done by auto
    have "all_idle (y'\<lparr>y_work := (y_work y)(i := pc)\<rparr>)" using others y' by (simp add: all_idle_def)
    then have "token c (y'\<lparr>y_work := (y_work y)(i := pc)\<rparr>)" using t y' unfolding token_def by simp
    moreover have "orderly (y'\<lparr>y_work := (y_work y)(i := pc)\<rparr>)"
      using ord W_done y' unfolding orderly_def by (auto simp: in_hand_def)
    ultimately show ?thesis using inv y' unfolding sched_inv_def by simp
  next
    case W_pop
    then obtain m ms where q: "y_queue y = m # ms" using ord by (cases "y_queue y") auto
    then have y': "y' = y\<lparr>y_queue := ms\<rparr>" "pc = W_handle m" using step W_pop by auto
    show ?thesis by (rule inv_working [OF inv False]) (use ord W_pop q y' in \<open>auto simp: in_hand_def\<close>)
  next
    case W_loop
    then have y': "y' = y" "pc = W_get" using step sched_invD(2) [OF inv] by auto
    show ?thesis by (rule inv_working [OF inv False]) (use ord W_loop y' in \<open>auto simp: in_hand_def\<close>)
  next
    case W_get
    then have y': "y' = y" "pc = (if y_queue y = [] then W_done else W_pop)" using step by auto
    show ?thesis by (rule inv_working [OF inv False]) (use ord W_get y' in \<open>auto simp: in_hand_def\<close>)
  next
    case (W_handle m)
    then have y': "y' = y\<lparr>y_handled := y_handled y @ [m]\<rparr>" "pc = W_loop" using step by auto
    show ?thesis by (rule inv_working [OF inv False]) (use ord W_handle y' in \<open>auto simp: in_hand_def\<close>)
  qed (use False in simp)
qed

lemma inv_step:
  assumes "sys_step {c} False y y'" "sched_inv c y"
  shows "sched_inv c y'"
  using assms(1)
proof cases
  case (push m)
  show ?thesis unfolding push(1) by (rule inv_push [OF assms(2)])
next
  case (begin_schedule t)
  then show ?thesis using inv_begin [OF assms(2)] by simp
next
  case (sched t y1 pc)
  have "y_sched y1 = y_sched y"
    using sched(3) by (cases "y_sched y t") (auto simp: ThreadPool_add_def split: if_splits)
  then show ?thesis using inv_sched [OF assms(2) sched(3)] unfolding sched(1) by simp
next
  case (work i y1 pc)
  have "y_work y1 = y_work y"
    using work(4) by (cases "y_work y i") (auto simp: worker_turn_def split: if_splits list.splits)
  then show ?thesis using inv_work [OF assms(2) work(4)] unfolding work(1) by simp
next
  case (work_fault i e)
  have "y_work y i = W_pop" "y_queue y = []"
    using work_fault(3) by (cases "y_work y i"; auto simp: worker_turn_def split: if_splits list.splits)+
  moreover have "y_work y i = W_pop \<longrightarrow> y_queue y \<noteq> []"
    using orderly_only [OF sched_invD(7) [OF assms(2)], of i] \<open>y_work y i = W_pop\<close> by simp
  ultimately show ?thesis by blast
qed (use sched_invD [OF assms(2)] in simp_all)

lemma reach_inv: "sys_reach {c} False y \<Longrightarrow> sched_inv c y"
proof (induction rule: sys_reach.induct)
  case sys_reach_start
  then show ?case
    by (simp add: sched_inv_def system_start_def token_def orderly_def new_ThreadPool_def all_idle_def in_hand_def)
next
  case (sys_reach_step y y')
  then show ?case using inv_step by blast
qed

section \<open>Schedules\<close>

text \<open>A step chosen by name, \<open>None\<close> when it is not possible.\<close>

datatype 'm act = A_push 'm | A_begin nat | A_sched nat | A_work nat | A_exit | A_delete

fun do_act :: "nat set \<Rightarrow> bool \<Rightarrow> 'm act \<Rightarrow> 'm system \<Rightarrow> 'm system option" where
  "do_act who stops (A_push m) y =
     (if y_fault y = None \<and> \<not> y_deleted y then Some (y\<lparr>y_queue := y_queue y @ [m], y_pushed := y_pushed y @ [m]\<rparr>) else None)"
| "do_act who stops (A_begin t) y =
     (if y_fault y = None \<and> \<not> y_deleted y \<and> t \<in> who \<and> y_sched y t = S_idle then Some (y\<lparr>y_sched := (y_sched y)(t := S_need)\<rparr>) else None)"
| "do_act who stops (A_sched t) y =
     (if y_fault y = None then case sched_step (y_sched y t) y of (y', pc) \<Rightarrow> Some (y'\<lparr>y_sched := (y_sched y)(t := pc)\<rparr>) else None)"
| "do_act who stops (A_work i) y =
     (if y_fault y \<noteq> None then None
      else if y_work y i \<noteq> W_idle \<and> y_deleted y then Some (y\<lparr>y_fault := Some Undefined\<rparr>)
      else case work_step (y_work y i) y of
             Inl e \<Rightarrow> Some (y\<lparr>y_fault := Some e\<rparr>)
           | Inr (y', pc) \<Rightarrow> Some (y'\<lparr>y_work := (y_work y)(i := pc)\<rparr>))"
| "do_act who stops A_exit y = (if y_fault y = None \<and> stops then Some (y\<lparr>y_isstop := True\<rparr>) else None)"
| "do_act who stops A_delete y = (if y_fault y = None \<and> y_isstop y then Some (y\<lparr>y_deleted := True\<rparr>) else None)"

fun acts :: "nat set \<Rightarrow> bool \<Rightarrow> 'm act list \<Rightarrow> 'm system \<Rightarrow> 'm system option" where
  "acts who stops [] y = Some y"
| "acts who stops (a # as) y = Option.bind (do_act who stops a y) (acts who stops as)"

lemma act_step: "do_act who stops a y = Some y' \<Longrightarrow> sys_step who stops y y'"
  by (cases a)
    (auto intro: sys_step.intros split: if_splits prod.splits sum.splits)

lemma acts_reach: "sys_reach who stops y \<Longrightarrow> acts who stops as y = Some y' \<Longrightarrow> sys_reach who stops y'"
proof (induction as arbitrary: y)
  case (Cons a as)
  obtain y1 where y1: "do_act who stops a y = Some y1" "acts who stops as y1 = Some y'"
    using Cons.prems(2) by (cases "do_act who stops a y") auto
  show ?case by (rule Cons.IH [OF sys_reach_step [OF Cons.prems(1) act_step [OF y1(1)]] y1(2)])
qed simp

lemma acts_append: "acts who stops (as @ bs) y = Option.bind (acts who stops as y) (acts who stops bs)"
proof (induction as arbitrary: y)
  case (Cons a as)
  then show ?case by (cases "do_act who stops a y") simp_all
qed simp

section \<open>Properties\<close>

text \<open>
  C6. With one scheduling thread and services that are not stopped, in every interleaving: nothing
  faults, at most one worker runs the service, and it handles the messages in the order they were
  pushed, each once.
\<close>

theorem service_runs_in_order:
  assumes "sys_reach {c} False y"
  shows "y_fault y = None \<and> (y_work y i \<noteq> W_idle \<and> y_work y j \<noteq> W_idle \<longrightarrow> i = j)
    \<and> (\<exists>hand. y_pushed y = y_handled y @ hand @ y_queue y \<and> length hand \<le> 1)"
proof -
  note inv = reach_inv [OF assms]
  obtain k where k: "\<forall>j. j \<noteq> k \<longrightarrow> y_work y j = W_idle" "y_pushed y = y_handled y @ in_hand (y_work y k) @ y_queue y"
    using sched_invD(7) [OF inv] unfolding orderly_def by blast
  have "length (in_hand (y_work y k)) \<le> 1" by (simp add: in_hand_def split: work_pc.split)
  then show ?thesis using k sched_invD(1) [OF inv] by metis
qed

definition busy :: "nat system" where
  "busy = the (acts {0} False [A_push 1, A_push 2, A_begin 0, A_sched 0, A_sched 0, A_sched 0, A_sched 0, A_work 3, A_work 3, A_work 3, A_work 3] system_start)"

lemmas act_defs = system_start_def need_schedule_def ThreadPool_add_def new_ThreadPool_def worker_turn_def

lemma busy_reached: "sys_reach {0} False busy"
proof -
  let ?as = "[A_push 1, A_push 2, A_begin 0, A_sched 0, A_sched 0, A_sched 0, A_sched 0, A_work 3, A_work 3, A_work 3, A_work 3]"
  obtain y :: "nat system" where y: "acts {0} False ?as system_start = Some y" by (simp add: act_defs)
  show ?thesis unfolding busy_def y option.sel by (rule acts_reach [OF sys_reach_start y])
qed

theorem service_runs_in_order_witness:
  "y_fault busy = None \<and> \<not> (y_work busy 3 \<noteq> W_idle \<and> y_work busy 4 \<noteq> W_idle)
    \<and> (\<exists>hand. y_pushed busy = y_handled busy @ hand @ y_queue busy \<and> length hand \<le> 1)"
  using service_runs_in_order [OF busy_reached, of 3 4] by simp

text \<open>
  A message can be left behind: the worker finds the queue empty, the message is pushed, the
  scheduling thread sees \<open>_isrunning\<close> still set, and the worker clears it. Nothing will run the
  service until it is scheduled again, which the main loop does every millisecond.
\<close>

theorem wakeup_lost:
  "\<exists>y :: nat system. sys_reach {0} False y \<and> y_queue y \<noteq> [] \<and> \<not> y_isrunning y \<and> all_idle y
     \<and> tp_tasks (y_pool y) = [] \<and> (\<forall>t. y_sched y t = S_idle)"
proof -
  let ?as = "[A_push 1, A_begin 0, A_sched 0, A_sched 0, A_sched 0, A_sched 0, A_work 0, A_work 0, A_work 0, A_work 0, A_work 0,
    A_work 0, A_work 0, A_push 2, A_begin 0, A_sched 0, A_sched 0, A_work 0]"
  obtain y :: "nat system" where y: "acts {0} False ?as system_start = Some y" by (simp add: act_defs)
  have "sys_reach {0} False y" by (rule acts_reach [OF sys_reach_start y])
  moreover have "y_queue y \<noteq> [] \<and> \<not> y_isrunning y \<and> all_idle y \<and> tp_tasks (y_pool y) = [] \<and> (\<forall>t. y_sched y t = S_idle)"
    using y by (auto simp: act_defs all_idle_def)
  ultimately show ?thesis by blast
qed

text \<open>
  C39. Two scheduling threads, as in the program, where the network thread schedules a service for
  each message and the main thread schedules all services: both can pass the test of \<open>_isrunning\<close>
  before either sets it; then two workers run the service and the second pops an empty queue.
\<close>

theorem two_schedulers_fault:
  "\<exists>y :: nat system. sys_reach {0, 1} False y \<and> y_fault y = Some Undefined"
proof -
  let ?as = "[A_push 1, A_begin 0, A_begin 1, A_sched 0, A_sched 1, A_sched 0, A_sched 1, A_sched 0, A_sched 1, A_sched 0, A_sched 1,
    A_work 0, A_work 1, A_work 0, A_work 1, A_work 0, A_work 1, A_work 0, A_work 1]"
  obtain y :: "nat system" where y: "acts {0, 1} False ?as system_start = Some y" by (simp add: act_defs)
  have "sys_reach {0, 1} False y" by (rule acts_reach [OF sys_reach_start y])
  moreover have "y_fault y = Some Undefined" using y by (auto simp: act_defs)
  ultimately show ?thesis by blast
qed

text \<open>
  C40. A service stopped while a worker runs it is deleted by the main thread, and the worker goes on
  to use it.
\<close>

theorem stopped_service_used:
  "\<exists>y :: nat system. sys_reach {0} True y \<and> y_deleted y \<and> y_fault y = Some Undefined"
proof -
  let ?as = "[A_push 1, A_begin 0, A_sched 0, A_sched 0, A_sched 0, A_sched 0, A_work 0, A_exit, A_delete, A_work 0]"
  obtain y :: "nat system" where y: "acts {0} True ?as system_start = Some y" by (simp add: act_defs)
  have "sys_reach {0} True y" by (rule acts_reach [OF sys_reach_start y])
  moreover have "y_deleted y \<and> y_fault y = Some Undefined" using y by (auto simp: act_defs)
  ultimately show ?thesis by blast
qed

section \<open>No message is stuck\<close>

definition no_push :: "'m act \<Rightarrow> bool" where
  "no_push a = (case a of A_push _ \<Rightarrow> False | _ \<Rightarrow> True)"

text \<open>The program can go on from \<open>y\<close> to \<open>y'\<close> without another push.\<close>

definition leads :: "nat \<Rightarrow> 'm system \<Rightarrow> 'm system \<Rightarrow> bool" where
  "leads c y y' \<longleftrightarrow> (\<exists>as. list_all no_push as \<and> acts {c} False as y = Some y')"

lemma leads_refl: "leads c y y"
  unfolding leads_def by (rule exI [of _ "[]"]) simp

lemma leads_trans: "leads c x y \<Longrightarrow> leads c y z \<Longrightarrow> leads c x z"
  unfolding leads_def
proof (elim exE conjE)
  fix as bs
  assume "list_all no_push as" "acts {c} False as x = Some y" "list_all no_push bs" "acts {c} False bs y = Some z"
  then show "\<exists>as. list_all no_push as \<and> acts {c} False as x = Some z"
    by (intro exI [of _ "as @ bs"]) (simp add: acts_append)
qed

lemma leads_step: "do_act {c} False a y = Some y' \<Longrightarrow> no_push a \<Longrightarrow> leads c y y'"
  unfolding leads_def by (rule exI [of _ "[a]"]) simp

lemma leads_work:
  assumes "sched_inv c y" "work_step (y_work y i) y = Inr (y', pc)"
  shows "leads c y (y'\<lparr>y_work := (y_work y)(i := pc)\<rparr>)" "sched_inv c (y'\<lparr>y_work := (y_work y)(i := pc)\<rparr>)"
proof -
  show "leads c y (y'\<lparr>y_work := (y_work y)(i := pc)\<rparr>)"
    by (rule leads_step [of _ "A_work i"]) (use assms(2) sched_invD(1,3) [OF assms(1)] in \<open>simp_all add: no_push_def\<close>)
  show "sched_inv c (y'\<lparr>y_work := (y_work y)(i := pc)\<rparr>)" by (rule inv_work [OF assms])
qed

lemma leads_sched:
  assumes "sched_inv c y" "sched_step (y_sched y c) y = (y', pc)"
  shows "leads c y (y'\<lparr>y_sched := (y_sched y)(c := pc)\<rparr>)" "sched_inv c (y'\<lparr>y_sched := (y_sched y)(c := pc)\<rparr>)"
proof -
  show "leads c y (y'\<lparr>y_sched := (y_sched y)(c := pc)\<rparr>)"
    by (rule leads_step [of _ "A_sched c"]) (use assms(2) sched_invD(1,3) [OF assms(1)] in \<open>simp_all add: no_push_def\<close>)
  show "sched_inv c (y'\<lparr>y_sched := (y_sched y)(c := pc)\<rparr>)" by (rule inv_sched [OF assms])
qed

definition all_handled :: "nat \<Rightarrow> 'm system \<Rightarrow> bool" where
  "all_handled c y \<longleftrightarrow> (\<exists>y'. leads c y y' \<and> y_queue y' = [] \<and> y_handled y' = y_pushed y' \<and> y_pushed y' = y_pushed y)"

lemma all_handled_step: "leads c y y1 \<Longrightarrow> y_pushed y1 = y_pushed y \<Longrightarrow> all_handled c y1 \<Longrightarrow> all_handled c y"
  unfolding all_handled_def using leads_trans by metis

lemma handled_now:
  assumes "sched_inv c y" "y_queue y = []" "y_work y i \<noteq> W_idle \<Longrightarrow> in_hand (y_work y i) = []" "\<And>j. j \<noteq> i \<Longrightarrow> y_work y j = W_idle"
  shows "all_handled c y"
proof -
  obtain k where k: "\<forall>j. j \<noteq> k \<longrightarrow> y_work y j = W_idle" "y_pushed y = y_handled y @ in_hand (y_work y k) @ y_queue y"
    using sched_invD(7) [OF assms(1)] unfolding orderly_def by blast
  have "in_hand (y_work y k) = []" using assms(3,4) by (cases "k = i"; cases "y_work y i = W_idle") (auto simp: in_hand_def)
  then have "y_handled y = y_pushed y" using k(2) assms(2) by simp
  then show ?thesis unfolding all_handled_def using leads_refl assms(2) by blast
qed

lemma handled_W_loop:
  "sched_inv c y \<Longrightarrow> y_work y i = W_loop \<Longrightarrow> all_handled c y"
proof (induction "length (y_queue y)" arbitrary: y)
  case 0
  show ?case
    by (rule handled_now [OF 0(2), of i])
      (use 0 orderly_only [OF sched_invD(7) [OF 0(2)], of i] in \<open>auto simp: in_hand_def\<close>)
next
  case (Suc n)
  obtain m ms where q: "y_queue y = m # ms" using Suc.hyps(2) by (cases "y_queue y") auto
  note inv = Suc.prems(1)
  let ?y1 = "y\<lparr>y_work := (y_work y)(i := W_get)\<rparr>"
  have 1: "leads c y ?y1" "sched_inv c ?y1"
    using leads_work [OF inv, of i y W_get] Suc.prems(2) sched_invD(2) [OF inv] by simp_all
  let ?y2 = "?y1\<lparr>y_work := (y_work ?y1)(i := W_pop)\<rparr>"
  have 2: "leads c ?y1 ?y2" "sched_inv c ?y2" using leads_work [OF 1(2), of i ?y1 W_pop] q by simp_all
  let ?y3 = "?y2\<lparr>y_queue := ms\<rparr>\<lparr>y_work := (y_work ?y2)(i := W_handle m)\<rparr>"
  have 3: "leads c ?y2 ?y3" "sched_inv c ?y3"
    using leads_work [OF 2(2), of i "?y2\<lparr>y_queue := ms\<rparr>" "W_handle m"] q by simp_all
  let ?y4 = "?y3\<lparr>y_handled := y_handled ?y3 @ [m]\<rparr>\<lparr>y_work := (y_work ?y3)(i := W_loop)\<rparr>"
  have 4: "leads c ?y3 ?y4" "sched_inv c ?y4"
    using leads_work [OF 3(2), of i "?y3\<lparr>y_handled := y_handled ?y3 @ [m]\<rparr>" W_loop] by simp_all
  have "all_handled c ?y4" by (rule Suc.hyps(1) [OF _ 4(2)]) (use Suc.hyps(2) q in simp_all)
  then show ?case using leads_trans [OF 1(1) leads_trans [OF 2(1) leads_trans [OF 3(1) 4(1)]]]
    by (elim all_handled_step [rotated 2]) simp_all
qed

lemma handled_task:
  assumes inv: "sched_inv c y" and tasks: "tp_tasks (y_pool y) = [()]" and idle: "y_work y 0 = W_idle"
  shows "all_handled c y"
proof -
  let ?y1 = "y\<lparr>y_pool := (y_pool y)\<lparr>tp_tasks := []\<rparr>\<rparr>\<lparr>y_work := (y_work y)(0 := W_loop)\<rparr>"
  have 1: "leads c y ?y1" "sched_inv c ?y1"
    using leads_work [OF inv, of 0 "y\<lparr>y_pool := (y_pool y)\<lparr>tp_tasks := []\<rparr>\<rparr>" W_loop] idle tasks sched_invD(4) [OF inv]
    by (simp_all add: worker_turn_def)
  have "all_handled c ?y1" by (rule handled_W_loop [OF 1(2), of 0]) simp
  then show ?thesis using 1(1) by (elim all_handled_step [rotated 2]) simp_all
qed

lemma handled_add:
  assumes inv: "sched_inv c y" and pc: "y_sched y c = S_add"
  shows "all_handled c y"
proof -
  have t: "tp_tasks (y_pool y) = []" "all_idle y" using sched_invD(6) [OF inv] pc by (auto simp: token_def split: if_splits)
  let ?y1 = "y\<lparr>y_pool := (y_pool y)\<lparr>tp_tasks := [()]\<rparr>\<rparr>\<lparr>y_sched := (y_sched y)(c := S_idle)\<rparr>"
  have 1: "leads c y ?y1" "sched_inv c ?y1"
    using leads_sched [OF inv, of "y\<lparr>y_pool := (y_pool y)\<lparr>tp_tasks := [()]\<rparr>\<rparr>" S_idle] pc t sched_invD(4) [OF inv]
    by (simp_all add: ThreadPool_add_def)
  have "all_handled c ?y1" by (rule handled_task [OF 1(2)]) (use t(2) in \<open>simp_all add: all_idle_def\<close>)
  then show ?thesis using 1(1) by (elim all_handled_step [rotated 2]) simp_all
qed

lemma handled_set:
  assumes inv: "sched_inv c y" and pc: "y_sched y c = S_set"
  shows "all_handled c y"
proof -
  let ?y1 = "y\<lparr>y_isrunning := True\<rparr>\<lparr>y_sched := (y_sched y)(c := S_add)\<rparr>"
  have 1: "leads c y ?y1" "sched_inv c ?y1" using leads_sched [OF inv, of "y\<lparr>y_isrunning := True\<rparr>" S_add] pc by simp_all
  have "all_handled c ?y1" by (rule handled_add [OF 1(2)]) simp
  then show ?thesis using 1(1) by (elim all_handled_step [rotated 2]) simp_all
qed

lemma handled_check:
  assumes inv: "sched_inv c y" and pc: "y_sched y c = S_check" and run: "\<not> y_isrunning y"
  shows "all_handled c y"
proof -
  let ?y1 = "y\<lparr>y_sched := (y_sched y)(c := S_set)\<rparr>"
  have 1: "leads c y ?y1" "sched_inv c ?y1" using leads_sched [OF inv, of y S_set] pc run by simp_all
  have "all_handled c ?y1" by (rule handled_set [OF 1(2)]) simp
  then show ?thesis using 1(1) by (elim all_handled_step [rotated 2]) simp_all
qed

lemma handled_need:
  assumes inv: "sched_inv c y" and pc: "y_sched y c = S_need" and run: "\<not> y_isrunning y" and q: "y_queue y \<noteq> []"
  shows "all_handled c y"
proof -
  let ?y1 = "y\<lparr>y_sched := (y_sched y)(c := S_check)\<rparr>"
  have 1: "leads c y ?y1" "sched_inv c ?y1"
    using leads_sched [OF inv, of y S_check] pc q sched_invD(2) [OF inv] by (simp_all add: need_schedule_def)
  have "all_handled c ?y1" by (rule handled_check [OF 1(2)]) (use run in simp_all)
  then show ?thesis using 1(1) by (elim all_handled_step [rotated 2]) simp_all
qed

lemma handled_not_running:
  assumes inv: "sched_inv c y" and run: "\<not> y_isrunning y"
  shows "all_handled c y"
proof (cases "y_queue y = []")
  case True
  have "all_idle y" using sched_invD(6) [OF inv] run by (auto simp: token_def)
  then show ?thesis using handled_now [OF inv True, of 0] by (simp add: all_idle_def)
next
  case q: False
  show ?thesis
  proof (cases "y_sched y c")
    case S_idle
    let ?y1 = "y\<lparr>y_sched := (y_sched y)(c := S_need)\<rparr>"
    have "leads c y ?y1"
      by (rule leads_step [of _ "A_begin c"]) (use S_idle sched_invD(1,3) [OF inv] in \<open>simp_all add: no_push_def\<close>)
    moreover have "all_handled c ?y1" by (rule handled_need [OF inv_begin [OF inv S_idle]]) (use run q in simp_all)
    ultimately show ?thesis by (elim all_handled_step) simp_all
  qed (use handled_need [OF inv] handled_check [OF inv] handled_set [OF inv] handled_add [OF inv] run q in simp_all)
qed

lemma handled_active:
  assumes inv: "sched_inv c y" and act: "y_work y i \<noteq> W_idle"
  shows "all_handled c y"
proof -
  have others: "\<And>j. j \<noteq> i \<Longrightarrow> y_work y j = W_idle" using orderly_only [OF sched_invD(7) [OF inv] act] by blast
  have handle: "all_handled c y" if inv: "sched_inv c y" and m: "y_work y i = W_handle m" for y :: "'a system" and m
  proof -
    let ?y1 = "y\<lparr>y_handled := y_handled y @ [m]\<rparr>\<lparr>y_work := (y_work y)(i := W_loop)\<rparr>"
    have 1: "leads c y ?y1" "sched_inv c ?y1"
      using leads_work [OF inv, of i "y\<lparr>y_handled := y_handled y @ [m]\<rparr>" W_loop] m by simp_all
    have "all_handled c ?y1" by (rule handled_W_loop [OF 1(2), of i]) simp
    then show ?thesis using 1(1) by (elim all_handled_step [rotated 2]) simp_all
  qed
  show ?thesis
  proof (cases "y_queue y = [] \<and> in_hand (y_work y i) = []")
    case True
    then show ?thesis using handled_now [OF inv, of i] others by blast
  next
    case False
    show ?thesis
    proof (cases "y_work y i")
      case W_idle
      then show ?thesis using act by blast
    next
      case W_loop
      then show ?thesis by (rule handled_W_loop [OF inv])
    next
      case W_get
      then obtain m ms where q: "y_queue y = m # ms" using False by (cases "y_queue y") (auto simp: in_hand_def)
      let ?y1 = "y\<lparr>y_work := (y_work y)(i := W_pop)\<rparr>"
      have 1: "leads c y ?y1" "sched_inv c ?y1" using leads_work [OF inv, of i y W_pop] W_get q by simp_all
      let ?y2 = "?y1\<lparr>y_queue := ms\<rparr>\<lparr>y_work := (y_work ?y1)(i := W_handle m)\<rparr>"
      have 2: "leads c ?y1 ?y2" "sched_inv c ?y2" using leads_work [OF 1(2), of i "?y1\<lparr>y_queue := ms\<rparr>" "W_handle m"] q by simp_all
      have "all_handled c ?y2" by (rule handle [OF 2(2)]) simp
      then show ?thesis using leads_trans [OF 1(1) 2(1)] by (elim all_handled_step [rotated 2]) simp_all
    next
      case W_pop
      then obtain m ms where q: "y_queue y = m # ms" using False by (cases "y_queue y") (auto simp: in_hand_def)
      let ?y2 = "y\<lparr>y_queue := ms\<rparr>\<lparr>y_work := (y_work y)(i := W_handle m)\<rparr>"
      have 2: "leads c y ?y2" "sched_inv c ?y2" using leads_work [OF inv, of i "y\<lparr>y_queue := ms\<rparr>" "W_handle m"] W_pop q by simp_all
      have "all_handled c ?y2" by (rule handle [OF 2(2)]) simp
      then show ?thesis using 2(1) by (elim all_handled_step [rotated 2]) simp_all
    next
      case (W_handle m)
      then show ?thesis by (rule handle [OF inv])
    next
      case W_done
      let ?y1 = "y\<lparr>y_isrunning := False\<rparr>\<lparr>y_work := (y_work y)(i := W_idle)\<rparr>"
      have 1: "leads c y ?y1" "sched_inv c ?y1"
        using leads_work [OF inv, of i "y\<lparr>y_isrunning := False\<rparr>" W_idle] W_done by simp_all
      have "all_handled c ?y1" by (rule handled_not_running [OF 1(2)]) simp
      then show ?thesis using 1(1) by (elim all_handled_step [rotated 2]) simp_all
    qed
  qed
qed



end
