(* ===== verification/Services.thy ===== *)
theory Services imports Sockets Tables Scheduler begin

text \<open>
  \<^verbatim>\<open>service/Service.h\<close>, \<^verbatim>\<open>service/Service.cpp\<close> and \<^verbatim>\<open>service/ServiceManager.cpp\<close>: the table of services,
  each with its own Lua state, message parser and queues, and the way of a message from the network
  to the queue of the service the first service's script chooses. Lua, the message parser and the
  configuration are a parameter (\<open>scripting\<close>) that may change the whole host, since scripts call
  back into the program. Log output is left out.
\<close>

section \<open>State\<close>

datatype timer_type = Timer_once | Timer_forever

record timer_struct =
  ti_last_check :: u64
  ti_milliseconds :: u32
  ti_ref :: int
  ti_type :: timer_type

record service =
  sv_id :: u32
  sv_isrunning :: bool
  sv_isstop :: bool
  sv_entryfile :: "u8 list"
  sv_L :: "nat option"
  sv_parser :: "nat option"
  sv_msgQueue :: "nat queue"
  sv_timerQueue :: "timer_struct queue"

text \<open>
  The host: the manager's two numbers and its table of pointers, the service objects, the heap of
  messages, the pool's tasks, which are services to run, and everything else.
\<close>

record 'w host =
  ho_autoid :: int
  ho_initid :: int
  ho_services :: "(u32, nat option) lfmap"
  ho_objs :: "nat \<Rightarrow> service option"
  ho_next :: nat
  ho_heap :: heap
  ho_pool :: "nat pool"
  ho_rest :: 'w

text \<open>
  What the code calls in Lua, the message parser, the configuration and the clock. \<open>lua_getglobal\<close>
  pushes a global and says whether it is a function; \<open>lua_call_dispatch\<close> gives the value of
  \<open>dispatch(entityid, msgid)\<close> if the call succeeds and the value is an integer (\<open>Some (Some i)\<close>), is
  something else (\<open>Some None\<close>), or \<open>None\<close> when the call fails.
\<close>

record 'w scripting =
  conf_protocol :: "'w host \<Rightarrow> u8 list option"
  parser_create :: "'w host \<Rightarrow> nat \<times> 'w host"
  parser_load :: "nat \<Rightarrow> u8 list \<Rightarrow> 'w host \<Rightarrow> bool \<times> 'w host"
  parser_delete :: "nat \<Rightarrow> 'w host \<Rightarrow> 'w host"
  parser_decode :: "nat \<Rightarrow> nat option \<Rightarrow> u16 \<Rightarrow> u8 list \<Rightarrow> 'w host \<Rightarrow> bool \<times> 'w host"
  lua_newstate :: "'w host \<Rightarrow> nat \<times> 'w host"
  lua_setowner :: "nat \<Rightarrow> u32 \<Rightarrow> 'w host \<Rightarrow> 'w host"
  lua_execfile :: "nat \<Rightarrow> u8 list \<Rightarrow> 'w host \<Rightarrow> bool \<times> 'w host"
  lua_close :: "nat option \<Rightarrow> 'w host \<Rightarrow> 'w host"
  lua_getglobal :: "nat option \<Rightarrow> string \<Rightarrow> 'w host \<Rightarrow> bool \<times> 'w host"
  lua_pushinteger :: "nat option \<Rightarrow> int \<Rightarrow> 'w host \<Rightarrow> 'w host"
  lua_pcall :: "nat option \<Rightarrow> nat \<Rightarrow> 'w host \<Rightarrow> bool \<times> 'w host"
  lua_call_dispatch :: "nat option \<Rightarrow> u64 \<Rightarrow> u32 \<Rightarrow> 'w host \<Rightarrow> int option option \<times> 'w host"
  lua_cleanup :: "nat option \<Rightarrow> 'w host \<Rightarrow> 'w host"
  clock_milliseconds :: "'w host \<Rightarrow> u64"

definition ILLEGAL_SERVICE :: u32 where "ILLEGAL_SERVICE = - 1"

definition the_service :: "'w host \<Rightarrow> nat \<Rightarrow> service res" where
  "the_service H p = (case ho_objs H p of None \<Rightarrow> Inl Undefined | Some sv \<Rightarrow> Inr sv)"

definition set_service :: "nat \<Rightarrow> service \<Rightarrow> 'w host \<Rightarrow> 'w host" where
  "set_service p sv H = H\<lparr>ho_objs := (ho_objs H)(p \<mapsto> sv)\<rparr>"

section \<open>Service\<close>

definition new_Service :: "u32 \<Rightarrow> service" where
  "new_Service sid = \<lparr>sv_id = sid, sv_isrunning = False, sv_isstop = False, sv_entryfile = [], sv_L = None, sv_parser = None,
     sv_msgQueue = new_LockfreeQueue, sv_timerQueue = new_LockfreeQueue\<rparr>"

definition Service_init :: "'w scripting \<Rightarrow> nat \<Rightarrow> u8 list \<Rightarrow> 'w host \<Rightarrow> (bool \<times> 'w host) run" where
  "Service_init S p entryfile H =
     bind_run (Some (the_service H p)) (\<lambda>sv.
     let H = (case sv_parser sv of None \<Rightarrow> H | Some q \<Rightarrow> parser_delete S q H);
         H = set_service p (sv\<lparr>sv_parser := None\<rparr>) H
     in case conf_protocol S H of
          None \<Rightarrow> ret (False, H)
        | Some proto_dir \<Rightarrow>
            (case parser_create S H of (q, H) \<Rightarrow>
             bind_run (Some (the_service H p)) (\<lambda>sv.
             let H = set_service p (sv\<lparr>sv_parser := Some q\<rparr>) H
             in case parser_load S q proto_dir H of (ok, H) \<Rightarrow>
                if \<not> ok then ret (False, H)
                else case lua_newstate S H of (L, H) \<Rightarrow>
                  bind_run (Some (the_service H p)) (\<lambda>sv.
                  let H = set_service p (sv\<lparr>sv_L := Some L\<rparr>) H;
                      H = lua_setowner S L (sv_id sv) H
                  in bind_run (Some (the_service H p)) (\<lambda>sv.
                     let H = set_service p (sv\<lparr>sv_entryfile := entryfile\<rparr>) H
                     in case lua_execfile S L entryfile H of (ok, H) \<Rightarrow> ret (ok, H))))))"

definition Service_stop :: "'w scripting \<Rightarrow> nat \<Rightarrow> 'w host \<Rightarrow> 'w host run" where
  "Service_stop S p H =
     bind_run (Some (the_service H p)) (\<lambda>sv.
     if sv_isstop sv then ret H
     else
       let H = set_service p (sv\<lparr>sv_isstop := True, sv_parser := None\<rparr>) H;
           H = (case sv_parser sv of None \<Rightarrow> H | Some q \<Rightarrow> parser_delete S q H)
       in ret (lua_close S (sv_L sv) H))"

definition Service_pushMessage :: "nat \<Rightarrow> nat \<Rightarrow> 'w host \<Rightarrow> 'w host run" where
  "Service_pushMessage p msg H =
     bind_run (Some (the_service H p)) (\<lambda>sv.
     bind_run (LockfreeQueue_push_back (sv_msgQueue sv) msg) (\<lambda>q.
     ret (set_service p (sv\<lparr>sv_msgQueue := q\<rparr>) H)))"

definition Service_need_schedule :: "service \<Rightarrow> bool" where
  "Service_need_schedule sv \<longleftrightarrow> \<not> sv_isstop sv \<and> LockfreeQueue_empty (sv_msgQueue sv) = False"

definition Service_getMessage :: "nat \<Rightarrow> 'w host \<Rightarrow> (nat option \<times> 'w host) run" where
  "Service_getMessage p H =
     bind_run (Some (the_service H p)) (\<lambda>sv.
     if LockfreeQueue_empty (sv_msgQueue sv) then ret (None, H)
     else bind_run (LockfreeQueue_pop_front (sv_msgQueue sv)) (\<lambda>(m, q).
          ret (Some m, set_service p (sv\<lparr>sv_msgQueue := q\<rparr>) H)))"

text \<open>\<open>msgParser(fd, entityid, msgid, o)\<close>: the message, decoded to a Lua value, goes to the script.\<close>

definition Service_msgParser :: "'w scripting \<Rightarrow> nat \<Rightarrow> nat \<Rightarrow> 'w host \<Rightarrow> (bool \<times> 'w host) run" where
  "Service_msgParser S p msg H =
     bind_run (Some (the_service H p)) (\<lambda>sv.
     let L = sv_L sv
     in case lua_getglobal S L ''msgParser'' H of (isfunction, H) \<Rightarrow>
        if \<not> isfunction then ret (False, H)
        else
          bind_run (Some (deref (ho_heap H) msg)) (\<lambda>m.
          let H = lua_pushinteger S L (sm_fd m) H;
              H = lua_pushinteger S L (sint (raw_entityid (sm_raw m))) H;
              H = lua_pushinteger S L (uint (raw_msgid (sm_raw m))) H
          in bind_run (Some (the_service H p)) (\<lambda>sv.
             bind_run (case sv_parser sv of None \<Rightarrow> Some (Inl Undefined) | Some q \<Rightarrow> ret q) (\<lambda>q.
             case parser_decode S q L (raw_msgid (sm_raw m)) (raw_payload (sm_raw m)) H of (rc, H) \<Rightarrow>
             case (if rc then lua_pcall S L 4 H else (rc, H)) of (rc, H) \<Rightarrow>
             ret (rc, lua_cleanup S L H)))))"

definition Service_dispatch :: "'w scripting \<Rightarrow> nat \<Rightarrow> u64 \<Rightarrow> u32 \<Rightarrow> 'w host \<Rightarrow> (u32 \<times> 'w host) run" where
  "Service_dispatch S p entityid msgid H =
     bind_run (Some (the_service H p)) (\<lambda>sv.
     let L = sv_L sv
     in case lua_getglobal S L ''dispatch'' H of (isfunction, H) \<Rightarrow>
        if \<not> isfunction then ret (ILLEGAL_SERVICE, H)
        else case lua_call_dispatch S L entityid msgid H of (r, H) \<Rightarrow>
          (case r of
             None \<Rightarrow> ret (ILLEGAL_SERVICE, H)
           | Some v \<Rightarrow>
               let H = lua_cleanup S L H
               in ret (case v of None \<Rightarrow> ILLEGAL_SERVICE | Some i \<Rightarrow> word_of_int i, H)))"

text \<open>The run loop: messages are handled and released while there are any and the service goes on.\<close>

partial_function (option) Service_run :: "'w scripting \<Rightarrow> nat \<Rightarrow> 'w host \<Rightarrow> 'w host run" where
  "Service_run S p H =
     bind_run (Some (the_service H p)) (\<lambda>sv.
     if sv_isstop sv then ret H
     else bind_run (Service_getMessage p H) (\<lambda>(m, H).
       case m of
         None \<Rightarrow> ret H
       | Some msg \<Rightarrow>
           bind_run (Service_msgParser S p msg H) (\<lambda>(rc, H).
           bind_run (Some (release_message (ho_heap H) msg)) (\<lambda>h.
           Service_run S p (H\<lparr>ho_heap := h\<rparr>)))))"

definition Service_regtimer :: "'w scripting \<Rightarrow> nat \<Rightarrow> u32 \<Rightarrow> int \<Rightarrow> 'w host \<Rightarrow> 'w host run" where
  "Service_regtimer S p milliseconds r H =
     (if \<not> 0 < milliseconds then ret H
      else
        bind_run (Some (the_service H p)) (\<lambda>sv.
        bind_run (LockfreeQueue_push_back (sv_timerQueue sv)
            \<lparr>ti_last_check = clock_milliseconds S H, ti_milliseconds = milliseconds, ti_ref = r, ti_type = Timer_forever\<rparr>) (\<lambda>q.
        ret (set_service p (sv\<lparr>sv_timerQueue := q\<rparr>) H))))"

text \<open>\<open>Runnable::schedule\<close>. The exception of a stopped pool is not caught anywhere.\<close>

definition Runnable_schedule :: "nat \<Rightarrow> 'w host \<Rightarrow> 'w host run" where
  "Runnable_schedule p H =
     bind_run (Some (the_service H p)) (\<lambda>sv.
     if sv_isrunning sv then ret H
     else case ThreadPool_add p (ho_pool H) of
            None \<Rightarrow> Some (Inl Assert_failed)
          | Some pool \<Rightarrow> ret ((set_service p (sv\<lparr>sv_isrunning := True\<rparr>) H)\<lparr>ho_pool := pool\<rparr>))"

text \<open>The task: \<open>run()\<close>, and then \<open>_isrunning\<close> is cleared.\<close>

definition Runnable_task :: "'w scripting \<Rightarrow> nat \<Rightarrow> 'w host \<Rightarrow> 'w host run" where
  "Runnable_task S p H =
     bind_run (Service_run S p H) (\<lambda>H.
     bind_run (Some (the_service H p)) (\<lambda>sv. ret (set_service p (sv\<lparr>sv_isrunning := False\<rparr>) H)))"

section \<open>ServiceManager\<close>

definition getService :: "u32 \<Rightarrow> 'w host \<Rightarrow> (nat option \<times> 'w host) run" where
  "getService sid H =
     bind_run (LockfreeMap_find None (ho_services H) sid) (\<lambda>(p, m). ret (p, H\<lparr>ho_services := m\<rparr>))"

definition delete_service :: "nat \<Rightarrow> 'w host \<Rightarrow> 'w host" where
  "delete_service p H = H\<lparr>ho_objs := (ho_objs H)(p := None)\<rparr>"

definition schedule_service :: "nat \<Rightarrow> 'w host \<Rightarrow> 'w host run" where
  "schedule_service p H =
     bind_run (Some (the_service H p)) (\<lambda>sv.
     if Service_need_schedule sv then Runnable_schedule p H else ret H)"

text \<open>\<open>_autoid++\<close> of an \<open>int\<close>, whose overflow is undefined; the result is the number as \<open>u32\<close>.\<close>

definition next_sid :: "'w host \<Rightarrow> (u32 \<times> 'w host) res" where
  "next_sid H =
     (if ho_autoid H < 2 ^ 31 - 1 then Inr (word_of_int (ho_autoid H), H\<lparr>ho_autoid := ho_autoid H + 1\<rparr>)
      else Inl Undefined)"

definition newservice ::
  "((u32, nat option) umap \<Rightarrow> (u32, nat option) umap) \<Rightarrow> 'w scripting \<Rightarrow> u8 list \<Rightarrow> 'w host \<Rightarrow> (nat option \<times> 'w host) run" where
  "newservice arrange S entryfile H =
     bind_run (Some (next_sid H)) (\<lambda>(sid, H).
     bind_run (getService sid H) (\<lambda>(old, H).
     bind_run (Some (check (old = None))) (\<lambda>_.
     let p = ho_next H;
         H = H\<lparr>ho_objs := (ho_objs H)(p \<mapsto> new_Service sid), ho_next := Suc p\<rparr>
     in bind_run (LockfreeMap_insert arrange (ho_services H) sid (Some p)) (\<lambda>(_, m).
        bind_run (Service_init S p entryfile (H\<lparr>ho_services := m\<rparr>)) (\<lambda>(result, H).
        if \<not> result then
          bind_run (LockfreeMap_eraseKey (ho_services H) sid) (\<lambda>(_, m).
          ret (None, delete_service p (H\<lparr>ho_services := m\<rparr>)))
        else ret (Some p, H))))))"

definition ServiceManager_init ::
  "((u32, nat option) umap \<Rightarrow> (u32, nat option) umap) \<Rightarrow> 'w scripting \<Rightarrow> u8 list \<Rightarrow> 'w host \<Rightarrow> (bool \<times> 'w host) run" where
  "ServiceManager_init arrange S entryfile H =
     bind_run (newservice arrange S entryfile H) (\<lambda>(service, H).
     case service of
       None \<Rightarrow> ret (False, H)
     | Some p \<Rightarrow> bind_run (Some (the_service H p)) (\<lambda>sv. ret (True, H\<lparr>ho_initid := sint (sv_id sv)\<rparr>)))"

partial_function (option) ServiceManager_stop :: "'w host \<Rightarrow> 'w host run" where
  "ServiceManager_stop H =
     bind_run (LockfreeMap_empty (ho_services H)) (\<lambda>(e, m).
     let H = H\<lparr>ho_services := m\<rparr>
     in if e then ret H
        else bind_run (LockfreeMap_pop_front None (ho_services H)) (\<lambda>(p, m).
             let H = H\<lparr>ho_services := m\<rparr>
             in ServiceManager_stop (case p of None \<Rightarrow> H | Some p \<Rightarrow> delete_service p H)))"

text \<open>The label \<open>exit_failure\<close> of \<open>pushMessage\<close>.\<close>

definition exit_failure :: "nat \<Rightarrow> 'w host \<Rightarrow> (bool \<times> 'w host) run" where
  "exit_failure msg H =
     bind_run (Some (release_message (ho_heap H) msg)) (\<lambda>h. ret (False, H\<lparr>ho_heap := h\<rparr>))"

definition ServiceManager_pushMessage :: "'w scripting \<Rightarrow> nat \<Rightarrow> 'w host \<Rightarrow> (bool \<times> 'w host) run" where
  "ServiceManager_pushMessage S msg H =
     bind_run (getService (word_of_int (ho_initid H)) H) (\<lambda>(initservice, H).
     case initservice of
       None \<Rightarrow> exit_failure msg H
     | Some p \<Rightarrow>
         bind_run (Some (deref (ho_heap H) msg)) (\<lambda>m.
         bind_run (Service_dispatch S p (raw_entityid (sm_raw m)) (ucast (raw_msgid (sm_raw m))) H) (\<lambda>(sid, H).
         if sid = ILLEGAL_SERVICE then exit_failure msg H
         else
           bind_run (getService sid H) (\<lambda>(service, H).
           case service of
             None \<Rightarrow> exit_failure msg H
           | Some q \<Rightarrow>
               bind_run (Service_pushMessage q msg H) (\<lambda>H.
               bind_run (schedule_service q H) (\<lambda>H. ret (True, H)))))))"

definition exitservice :: "'w scripting \<Rightarrow> u32 \<Rightarrow> 'w host \<Rightarrow> (bool \<times> 'w host) run" where
  "exitservice S sid H =
     bind_run (getService sid H) (\<lambda>(service, H).
     case service of
       None \<Rightarrow> ret (False, H)
     | Some p \<Rightarrow> bind_run (Service_stop S p H) (\<lambda>H. ret (True, H)))"

text \<open>\<open>schedule()\<close>: stopped services are taken out of the table and deleted, the others scheduled.\<close>

definition sort_services :: "'w host \<Rightarrow> (u32 \<times> nat option) list \<Rightarrow> ((nat list \<times> nat list)) res" where
  "sort_services H es = foldl (\<lambda>r (sid, p). seq r (\<lambda>(sche, shut).
       case p of None \<Rightarrow> Inl Undefined
       | Some p \<Rightarrow> seq (the_service H p) (\<lambda>sv. Inr (if sv_isstop sv then (sche, shut @ [p]) else (sche @ [p], shut)))))
     (Inr ([], [])) es"

fun shut_services :: "nat list \<Rightarrow> 'w host \<Rightarrow> 'w host run" where
  "shut_services [] H = ret H"
| "shut_services (p # ps) H =
     bind_run (Some (the_service H p)) (\<lambda>sv.
     bind_run (LockfreeMap_eraseKey (ho_services H) (sv_id sv)) (\<lambda>(_, m).
     shut_services ps (delete_service p (H\<lparr>ho_services := m\<rparr>))))"

fun schedule_services :: "nat list \<Rightarrow> 'w host \<Rightarrow> 'w host run" where
  "schedule_services [] H = ret H"
| "schedule_services (p # ps) H = bind_run (schedule_service p H) (\<lambda>H. schedule_services ps H)"

definition ServiceManager_schedule :: "'w host \<Rightarrow> 'w host run" where
  "ServiceManager_schedule H =
     (case Spinlocker_lock (lm_locker (ho_services H)) of
        None \<Rightarrow> None
      | Some l \<Rightarrow>
          bind_run (Some (sort_services H (lm_map (ho_services H)))) (\<lambda>(schelist, shutlist).
          let H = H\<lparr>ho_services := (ho_services H)\<lparr>lm_locker := Spinlocker_unlock l\<rparr>\<rparr>
          in bind_run (shut_services shutlist H) (\<lambda>H. schedule_services schelist H)))"

section \<open>The invariant of the host\<close>

text \<open>
  The table is free, holds under each number the service with that number, and only numbers below
  the next one; the queues are free, and the pool has not been stopped.
\<close>

definition host_ok :: "'w host \<Rightarrow> bool" where
  "host_ok H \<longleftrightarrow> lfmap_ok (ho_services H) \<and> 0 \<le> ho_autoid H \<and> ho_autoid H < 2 ^ 31 \<and> \<not> tp_stop (ho_pool H)
     \<and> (\<forall>sid v. map_of (lm_map (ho_services H)) sid = Some v \<longrightarrow>
          uint sid < ho_autoid H \<and> (\<exists>p sv. v = Some p \<and> ho_objs H p = Some sv \<and> sv_id sv = sid))
     \<and> (\<forall>p sv. ho_objs H p = Some sv \<longrightarrow> p < ho_next H \<and> \<not> lq_locker (sv_msgQueue sv))"

lemma host_okD:
  assumes "host_ok H"
  shows "\<not> lm_locker (ho_services H)" "umap_ok (lm_map (ho_services H))" "0 \<le> ho_autoid H" "ho_autoid H < 2 ^ 31" "\<not> tp_stop (ho_pool H)"
    and "map_of (lm_map (ho_services H)) sid = Some v \<Longrightarrow> uint sid < ho_autoid H"
    and "map_of (lm_map (ho_services H)) sid = Some v \<Longrightarrow> \<exists>p sv. v = Some p \<and> ho_objs H p = Some sv \<and> sv_id sv = sid"
    and "ho_objs H p = Some sv \<Longrightarrow> p < ho_next H" "ho_objs H p = Some sv \<Longrightarrow> \<not> lq_locker (sv_msgQueue sv)"
  using assms unfolding host_ok_def lfmap_ok_def by blast+

lemma host_okI:
  assumes "\<not> lm_locker (ho_services H)" "umap_ok (lm_map (ho_services H))" "0 \<le> ho_autoid H" "ho_autoid H < 2 ^ 31" "\<not> tp_stop (ho_pool H)"
    and "\<And>sid v. map_of (lm_map (ho_services H)) sid = Some v \<Longrightarrow>
      uint sid < ho_autoid H \<and> (\<exists>p sv. v = Some p \<and> ho_objs H p = Some sv \<and> sv_id sv = sid)"
    and "\<And>p sv. ho_objs H p = Some sv \<Longrightarrow> p < ho_next H \<and> \<not> lq_locker (sv_msgQueue sv)"
  shows "host_ok H"
  unfolding host_ok_def lfmap_ok_def using assms by blast

lemma getService_ret:
  assumes "\<not> lm_locker (ho_services H)"
  shows "getService sid H = ret (case map_of (lm_map (ho_services H)) sid of None \<Rightarrow> None | Some v \<Rightarrow> v, H)"
proof -
  have "\<lparr>lm_locker = False, lm_map = lm_map (ho_services H)\<rparr> = ho_services H" using assms by (cases "ho_services H") simp
  then have "H\<lparr>ho_services := \<lparr>lm_locker = False, lm_map = lm_map (ho_services H)\<rparr>\<rparr> = H" by (cases H) simp
  then show ?thesis using assms by (simp add: getService_def LockfreeMap_find_def split: option.split)
qed

text \<open>Scripts that leave the host alone and change only the rest of the world.\<close>

definition only_rest :: "('w host \<Rightarrow> 'w host) \<Rightarrow> bool" where
  "only_rest f \<longleftrightarrow> (\<forall>H. \<exists>w. f H = H\<lparr>ho_rest := w\<rparr>)"

definition quiet_scripts :: "'w scripting \<Rightarrow> bool" where
  "quiet_scripts S \<longleftrightarrow> only_rest (snd \<circ> parser_create S) \<and> (\<forall>q d. only_rest (snd \<circ> parser_load S q d))
     \<and> (\<forall>q. only_rest (parser_delete S q)) \<and> (\<forall>q L i d. only_rest (snd \<circ> parser_decode S q L i d))
     \<and> only_rest (snd \<circ> lua_newstate S) \<and> (\<forall>L i. only_rest (lua_setowner S L i)) \<and> (\<forall>L f. only_rest (snd \<circ> lua_execfile S L f))
     \<and> (\<forall>L. only_rest (lua_close S L)) \<and> (\<forall>L g. only_rest (snd \<circ> lua_getglobal S L g)) \<and> (\<forall>L i. only_rest (lua_pushinteger S L i))
     \<and> (\<forall>L n. only_rest (snd \<circ> lua_pcall S L n)) \<and> (\<forall>L e m. only_rest (snd \<circ> lua_call_dispatch S L e m)) \<and> (\<forall>L. only_rest (lua_cleanup S L))"

lemma only_restE: "only_rest f \<Longrightarrow> (\<And>w. f H = H\<lparr>ho_rest := w\<rparr> \<Longrightarrow> thesis) \<Longrightarrow> thesis"
  unfolding only_rest_def by blast

lemma only_rest_sndE: "only_rest (snd \<circ> f) \<Longrightarrow> (\<And>r w. f H = (r, H\<lparr>ho_rest := w\<rparr>) \<Longrightarrow> thesis) \<Longrightarrow> thesis"
  unfolding only_rest_def by (metis comp_apply prod.collapse)

lemma quiet_scriptsD:
  assumes "quiet_scripts S"
  shows "only_rest (snd \<circ> parser_create S)" "only_rest (snd \<circ> parser_load S q d)" "only_rest (parser_delete S q)"
    "only_rest (snd \<circ> parser_decode S q L i b)" "only_rest (snd \<circ> lua_newstate S)" "only_rest (lua_setowner S n sid)"
    "only_rest (snd \<circ> lua_execfile S n d)" "only_rest (lua_close S L)" "only_rest (snd \<circ> lua_getglobal S L g)"
    "only_rest (lua_pushinteger S L j)" "only_rest (snd \<circ> lua_pcall S L n)" "only_rest (snd \<circ> lua_call_dispatch S L e m)"
    "only_rest (lua_cleanup S L)"
  using assms unfolding quiet_scripts_def by simp_all

lemma the_service_rest [simp]: "the_service (H\<lparr>ho_rest := w\<rparr>) p = the_service H p"
  by (simp add: the_service_def)

lemma host_ok_rest [simp]: "host_ok (H\<lparr>ho_rest := w\<rparr>) = host_ok H"
  by (simp add: host_ok_def)

section \<open>Dispatching a message\<close>

lemma dispatch_ret:
  assumes S: "quiet_scripts S" and p: "ho_objs H p = Some sv"
  shows "\<exists>sid w. Service_dispatch S p e m H = ret (sid, H\<lparr>ho_rest := w\<rparr>)"
proof -
  obtain isf w1 where 1: "lua_getglobal S (sv_L sv) ''dispatch'' H = (isf, H\<lparr>ho_rest := w1\<rparr>)"
    by (rule only_rest_sndE [OF quiet_scriptsD(9) [OF S]])
  obtain r w2 where 2: "lua_call_dispatch S (sv_L sv) e m (H\<lparr>ho_rest := w1\<rparr>) = (r, H\<lparr>ho_rest := w2\<rparr>)"
    by (rule only_rest_sndE [OF quiet_scriptsD(12) [OF S], of "sv_L sv" e m "H\<lparr>ho_rest := w1\<rparr>"]) simp
  obtain w3 where 3: "lua_cleanup S (sv_L sv) (H\<lparr>ho_rest := w2\<rparr>) = H\<lparr>ho_rest := w3\<rparr>"
    by (rule only_restE [OF quiet_scriptsD(13) [OF S], of "sv_L sv" "H\<lparr>ho_rest := w2\<rparr>"]) simp
  have "Service_dispatch S p e m H
    = (if \<not> isf then ret (ILLEGAL_SERVICE, H\<lparr>ho_rest := w1\<rparr>)
       else case r of None \<Rightarrow> ret (ILLEGAL_SERVICE, H\<lparr>ho_rest := w2\<rparr>)
         | Some v \<Rightarrow> ret (case v of None \<Rightarrow> ILLEGAL_SERVICE | Some i \<Rightarrow> word_of_int i, H\<lparr>ho_rest := w3\<rparr>))"
    unfolding Service_dispatch_def the_service_def p option.case bind_run_simps Let_def 1 prod.case 2 3 by (rule refl)
  moreover have "\<exists>sid w. (if b then ret (i, H\<lparr>ho_rest := w1\<rparr>) else case c of None \<Rightarrow> ret (i, H\<lparr>ho_rest := w2\<rparr>)
      | Some v \<Rightarrow> ret (f v, H\<lparr>ho_rest := w3\<rparr>)) = ret (sid, H\<lparr>ho_rest := w\<rparr>)" for b c i and f :: "int option \<Rightarrow> u32"
  proof (cases b)
    case True
    then show ?thesis by (intro exI [of _ i] exI [of _ w1]) simp
  next
    case False
    then show ?thesis
    proof (cases c)
      case None
      then show ?thesis using False by (intro exI [of _ i] exI [of _ w2]) simp
    next
      case (Some v)
      then show ?thesis using False by (intro exI [of _ "f v"] exI [of _ w3]) simp
    qed
  qed
  ultimately show ?thesis by metis
qed

lemma host_ok_service:
  assumes "host_ok H" "ho_objs H p = Some sv" "sv_id sv' = sv_id sv" "\<not> lq_locker (sv_msgQueue sv')"
  shows "host_ok (set_service p sv' H)"
proof -
  have "\<exists>q tv. v = Some q \<and> ((ho_objs H)(p \<mapsto> sv')) q = Some tv \<and> sv_id tv = sid"
    if "map_of (lm_map (ho_services H)) sid = Some v" for sid v
    using host_okD(7) [OF assms(1) that] assms(2,3) by fastforce
  moreover have "p < ho_next H" by (rule host_okD(8) [OF assms(1,2)])
  ultimately show ?thesis using assms(1,4) unfolding host_ok_def set_service_def by simp
qed

lemma host_ok_pool: "host_ok H \<Longrightarrow> \<not> tp_stop pool \<Longrightarrow> host_ok (H\<lparr>ho_pool := pool\<rparr>)"
  by (simp add: host_ok_def)

text \<open>Scheduling a service changes nothing but its flag and the pool.\<close>

lemma schedule_service_ok:
  assumes H: "host_ok H" and p: "ho_objs H p = Some sv"
  shows "\<exists>pool. schedule_service p H = ret (set_service p (sv\<lparr>sv_isrunning := (sv_isrunning sv \<or> Service_need_schedule sv)\<rparr>) (H\<lparr>ho_pool := pool\<rparr>))
    \<and> \<not> tp_stop pool \<and> tp_tasks pool = tp_tasks (ho_pool H) @ (if Service_need_schedule sv \<and> \<not> sv_isrunning sv then [p] else [])"
proof (cases "Service_need_schedule sv \<and> \<not> sv_isrunning sv")
  case True
  have st: "\<not> tp_stop (ho_pool H)" by (rule host_okD(5) [OF H])
  show ?thesis
    by (rule exI [of _ "(ho_pool H)\<lparr>tp_tasks := tp_tasks (ho_pool H) @ [p]\<rparr>"])
      (use True p st in \<open>simp add: schedule_service_def the_service_def Runnable_schedule_def ThreadPool_add_def set_service_def\<close>)
next
  case False
  have same: "set_service p (sv\<lparr>sv_isrunning := (sv_isrunning sv \<or> Service_need_schedule sv)\<rparr>) (H\<lparr>ho_pool := ho_pool H\<rparr>) = H"
    using False p by (cases H; cases sv) (auto simp: set_service_def)
  show ?thesis
    by (rule exI [of _ "ho_pool H"])
      (use False p same host_okD(5) [OF H] in \<open>auto simp: schedule_service_def the_service_def Runnable_schedule_def\<close>)
qed


text \<open>A host with one service, which the scripts choose for every message.\<close>

definition idle_scripts :: "unit scripting" where
  "idle_scripts = \<lparr>conf_protocol = (\<lambda>H. Some []), parser_create = (\<lambda>H. (0, H)), parser_load = (\<lambda>q d H. (True, H)),
     parser_delete = (\<lambda>q H. H), parser_decode = (\<lambda>q L i d H. (True, H)), lua_newstate = (\<lambda>H. (0, H)), lua_setowner = (\<lambda>L i H. H),
     lua_execfile = (\<lambda>L f H. (f \<noteq> [], H)), lua_close = (\<lambda>L H. H), lua_getglobal = (\<lambda>L g H. (True, H)), lua_pushinteger = (\<lambda>L i H. H),
     lua_pcall = (\<lambda>L n H. (True, H)), lua_call_dispatch = (\<lambda>L e m H. (Some (Some 0), H)), lua_cleanup = (\<lambda>L H. H),
     clock_milliseconds = (\<lambda>H. 0)\<rparr>"

lemma idle_scripts_quiet: "quiet_scripts idle_scripts"
proof -
  have id: "only_rest (\<lambda>H. H)" unfolding only_rest_def
  proof
    fix H :: "'a host"
    show "\<exists>w. H = H\<lparr>ho_rest := w\<rparr>" by (rule exI [of _ "ho_rest H"]) simp
  qed
  show ?thesis by (simp add: quiet_scripts_def idle_scripts_def comp_def id)
qed

definition demo_host :: "unit host" where
  "demo_host = \<lparr>ho_autoid = 1, ho_initid = 0, ho_services = \<lparr>lm_locker = False, lm_map = [(0, Some 0)]\<rparr>,
     ho_objs = [0 \<mapsto> (new_Service 0)\<lparr>sv_L := Some 0, sv_parser := Some 0\<rparr>], ho_next = 1,
     ho_heap = \<lparr>h_mem = [0 \<mapsto> demo_message], h_next = 1\<rparr>, ho_pool = new_ThreadPool, ho_rest = ()\<rparr>"

lemma demo_host_ok: "host_ok demo_host"
  by (auto simp: host_ok_def demo_host_def lfmap_ok_def umap_ok_def new_ThreadPool_def new_Service_def new_LockfreeQueue_def
      split: if_splits)


section \<open>Creating a service\<close>

lemma set_service_rest [simp]: "(set_service p sv H)\<lparr>ho_rest := w\<rparr> = set_service p sv (H\<lparr>ho_rest := w\<rparr>)"
  by (cases H) (simp add: set_service_def)

lemma set_service_twice [simp]: "set_service p a (set_service p b H) = set_service p a H"
  by (simp add: set_service_def)

lemma the_set_service [simp]: "the_service (set_service p sv H) p = Inr sv"
  by (simp add: set_service_def the_service_def)

lemma set_service_fields [simp]:
  "ho_heap (set_service p sv H) = ho_heap H" "ho_services (set_service p sv H) = ho_services H"
  "ho_pool (set_service p sv H) = ho_pool H"
  by (simp_all add: set_service_def)

text \<open>Scripts that leave the host alone leave it as \<open>set_service p sv H\<close> with another rest.\<close>

lemma quiet_call:
  assumes "only_rest f"
  shows "\<exists>w'. f (set_service p sv (H\<lparr>ho_rest := w\<rparr>)) = set_service p sv (H\<lparr>ho_rest := w'\<rparr>)"
proof -
  obtain w' where "f (set_service p sv (H\<lparr>ho_rest := w\<rparr>)) = (set_service p sv (H\<lparr>ho_rest := w\<rparr>))\<lparr>ho_rest := w'\<rparr>"
    by (rule only_restE [OF assms])
  then show ?thesis by auto
qed

lemma quiet_call_snd:
  assumes "only_rest (snd \<circ> f)"
  shows "\<exists>r w'. f (set_service p sv (H\<lparr>ho_rest := w\<rparr>)) = (r, set_service p sv (H\<lparr>ho_rest := w'\<rparr>))"
  using quiet_call [OF assms, of p sv w H] by (metis comp_apply prod.collapse)

lemma Service_init_ret:
  assumes S: "quiet_scripts S" and p: "ho_objs H p = Some sv"
  shows "\<exists>ok w L q f. Service_init S p entryfile H
    = ret (ok, set_service p (sv\<lparr>sv_L := L, sv_parser := q, sv_entryfile := f\<rparr>) (H\<lparr>ho_rest := w\<rparr>))"
proof -
  have sv: "sv = sv\<lparr>sv_L := sv_L sv, sv_parser := sv_parser sv, sv_entryfile := sv_entryfile sv\<rparr>" by simp
  let ?D = "case sv_parser sv of None \<Rightarrow> H | Some q \<Rightarrow> parser_delete S q H"
  obtain w0 where w0: "?D = H\<lparr>ho_rest := w0\<rparr>"
  proof (cases "sv_parser sv")
    case None
    then show ?thesis using that [of "ho_rest H"] by simp
  next
    case (Some q)
    show ?thesis using that Some by (auto intro: only_restE [OF quiet_scriptsD(3) [OF S], of q H])
  qed
  let ?at = "\<lambda>s w. set_service p s (H\<lparr>ho_rest := w\<rparr>)"
  let ?s0 = "sv\<lparr>sv_parser := None\<rparr>"
  note start = Service_init_def the_service_def p option.case bind_run_simps Let_def w0
  show ?thesis
  proof (cases "conf_protocol S (?at ?s0 w0)")
    case None
    then have "Service_init S p entryfile H = ret (False, ?at (sv\<lparr>sv_L := sv_L sv, sv_parser := None, sv_entryfile := sv_entryfile sv\<rparr>) w0)"
      unfolding start by simp
    then show ?thesis by blast
  next
    case (Some dir)
    obtain q w1 where 1: "parser_create S (?at ?s0 w0) = (q, ?at ?s0 w1)"
      using quiet_call_snd [OF quiet_scriptsD(1) [OF S]] by blast
    let ?s1 = "sv\<lparr>sv_parser := Some q\<rparr>"
    obtain ok w2 where 2: "parser_load S q dir (?at ?s1 w1) = (ok, ?at ?s1 w2)"
      using quiet_call_snd [OF quiet_scriptsD(2) [OF S]] by blast
    obtain L w3 where 3: "lua_newstate S (?at ?s1 w2) = (L, ?at ?s1 w3)"
      using quiet_call_snd [OF quiet_scriptsD(5) [OF S]] by blast
    let ?s2 = "sv\<lparr>sv_parser := Some q, sv_L := Some L\<rparr>"
    obtain w4 where 4: "lua_setowner S L (sv_id sv) (?at ?s2 w3) = ?at ?s2 w4"
      using quiet_call [OF quiet_scriptsD(6) [OF S]] by blast
    let ?s3 = "sv\<lparr>sv_parser := Some q, sv_L := Some L, sv_entryfile := entryfile\<rparr>"
    obtain ok5 w5 where 5: "lua_execfile S L entryfile (?at ?s3 w4) = (ok5, ?at ?s3 w5)"
      using quiet_call_snd [OF quiet_scriptsD(7) [OF S]] by blast
    have "Service_init S p entryfile H = (if \<not> ok then ret (False, ?at ?s1 w2) else ret (ok5, ?at ?s3 w5))"
      using Some 1 2 3 4 5 by (simp add: Service_init_def the_service_def [of H] p w0 Let_def)
    moreover have "?at ?s1 w2 = ?at (sv\<lparr>sv_L := sv_L sv, sv_parser := Some q, sv_entryfile := sv_entryfile sv\<rparr>) w2" by simp
    moreover have "?s3 = sv\<lparr>sv_L := Some L, sv_parser := Some q, sv_entryfile := entryfile\<rparr>" by simp
    ultimately show ?thesis by (metis (no_types))
  qed
qed



section \<open>Running a service\<close>

lemma msgParser_ret:
  assumes S: "quiet_scripts S" and p: "ho_objs H p = Some sv" and m: "h_mem (ho_heap H) msg = Some m" and q: "sv_parser sv \<noteq> None"
  shows "\<exists>rc w. Service_msgParser S p msg H = ret (rc, H\<lparr>ho_rest := w\<rparr>)"
proof -
  let ?L = "sv_L sv" and ?at = "\<lambda>w. H\<lparr>ho_rest := w\<rparr>"
  obtain q where q: "sv_parser sv = Some q" using q by blast
  obtain isf w1 where 1: "lua_getglobal S ?L ''msgParser'' H = (isf, ?at w1)"
    by (rule only_rest_sndE [OF quiet_scriptsD(9) [OF S]])
  have push: "\<exists>w'. lua_pushinteger S ?L i (?at w) = ?at w'" for i w
    using only_restE [OF quiet_scriptsD(10) [OF S], of ?L i "?at w"] by auto
  have pcall: "\<exists>r w'. lua_pcall S ?L 4 (?at w) = (r, ?at w')" for w
    by (rule only_rest_sndE [OF quiet_scriptsD(11) [OF S], of ?L 4 "?at w"]) auto
  obtain w2 where 2: "lua_pushinteger S ?L (sm_fd m) (?at w1) = ?at w2" using push by blast
  obtain w3 where 3: "lua_pushinteger S ?L (sint (raw_entityid (sm_raw m))) (?at w2) = ?at w3" using push by blast
  obtain w4 where 4: "lua_pushinteger S ?L (uint (raw_msgid (sm_raw m))) (?at w3) = ?at w4" using push by blast
  obtain rc w5 where 5: "parser_decode S q ?L (raw_msgid (sm_raw m)) (raw_payload (sm_raw m)) (?at w4) = (rc, ?at w5)"
    using only_rest_sndE [OF quiet_scriptsD(4) [OF S], of q ?L "raw_msgid (sm_raw m)" "raw_payload (sm_raw m)" "?at w4"] by auto
  obtain rc6 w6 where 6: "(if rc then lua_pcall S ?L 4 (?at w5) else (rc, ?at w5)) = (rc6, ?at w6)"
    using pcall [of w5] by (cases rc) auto
  obtain w7 where 7: "lua_cleanup S ?L (?at w6) = ?at w7"
    using only_restE [OF quiet_scriptsD(13) [OF S], of ?L "?at w6"] by auto
  have "Service_msgParser S p msg H = (if isf then ret (rc6, ?at w7) else ret (False, ?at w1))"
    using p q m 1 2 3 4 5 6 7 by (simp add: Service_msgParser_def the_service_def deref_def)
  then show ?thesis by (cases isf) auto
qed



section \<open>One round of the main loop\<close>

text \<open>The pointers of the services in the table that are stopped, or are not.\<close>

definition stop_of :: "bool \<Rightarrow> 'w host \<Rightarrow> u32 \<times> nat option \<Rightarrow> nat list" where
  "stop_of b H e = (case snd e of None \<Rightarrow> []
     | Some p \<Rightarrow> (case ho_objs H p of Some sv \<Rightarrow> if sv_isstop sv = b then [p] else [] | None \<Rightarrow> []))"

definition with_stop :: "bool \<Rightarrow> 'w host \<Rightarrow> nat list" where
  "with_stop b H = concat (map (stop_of b H) (lm_map (ho_services H)))"

lemma stop_of_set: "p \<in> set (stop_of b H e) \<longleftrightarrow> snd e = Some p \<and> (\<exists>sv. ho_objs H p = Some sv \<and> sv_isstop sv = b)"
  by (cases "snd e"; cases "ho_objs H p") (auto simp: stop_of_def split: option.splits)

lemma sort_services_ret:
  assumes "\<forall>e \<in> set es. \<exists>p sv. snd e = Some p \<and> ho_objs H p = Some sv"
  shows "foldl (\<lambda>r (sid, p). seq r (\<lambda>(sche, shut).
       case p of None \<Rightarrow> Inl Undefined
       | Some p \<Rightarrow> seq (the_service H p) (\<lambda>sv. Inr (if sv_isstop sv then (sche, shut @ [p]) else (sche @ [p], shut)))))
     (Inr (a, b)) es = Inr (a @ concat (map (stop_of False H) es), b @ concat (map (stop_of True H) es))"
  using assms
proof (induction es arbitrary: a b)
  case (Cons e es)
  then obtain p sv where p: "snd e = Some p" "ho_objs H p = Some sv" by auto
  obtain sid where e: "e = (sid, Some p)" using p(1) by (cases e) simp
  have IH: "foldl (\<lambda>r (sid, p). seq r (\<lambda>(sche, shut).
       case p of None \<Rightarrow> Inl Undefined
       | Some p \<Rightarrow> seq (the_service H p) (\<lambda>sv. Inr (if sv_isstop sv then (sche, shut @ [p]) else (sche @ [p], shut)))))
     (Inr (a, b)) es = Inr (a @ concat (map (stop_of False H) es), b @ concat (map (stop_of True H) es))" for a b
    by (rule Cons.IH) (use Cons.prems in simp)
  show ?case
    by (cases "sv_isstop sv") (use p(2) in \<open>simp_all add: e IH stop_of_def [of _ _ "(sid, Some p)"] the_service_def\<close>)
qed simp

lemma shut_services_ret:
  assumes "\<not> lm_locker (ho_services H)" "distinct ps" "set ps \<subseteq> dom (ho_objs H)"
  shows "shut_services ps H = ret (H\<lparr>ho_objs := ho_objs H |` (- set ps), ho_services := \<lparr>lm_locker = False,
      lm_map = filter (\<lambda>e. \<forall>p \<in> set ps. fst e \<noteq> sv_id (the (ho_objs H p))) (lm_map (ho_services H))\<rparr>\<rparr>)"
  using assms
proof (induction ps arbitrary: H)
  case Nil
  have "\<lparr>lm_locker = False, lm_map = lm_map (ho_services H)\<rparr> = ho_services H" using Nil.prems(1) by (cases "ho_services H") simp
  then show ?case by (cases H) (simp add: restrict_map_def)
next
  case (Cons p ps)
  then obtain sv where sv: "ho_objs H p = Some sv" by auto
  let ?H = "delete_service p (H\<lparr>ho_services := \<lparr>lm_locker = False, lm_map = umap_erase (sv_id sv) (lm_map (ho_services H))\<rparr>\<rparr>)"
  have 1: "shut_services (p # ps) H = shut_services ps ?H"
    using Cons.prems(1) sv by (simp add: the_service_def lfmap_eraseKey_ret)
  have "ho_objs ?H = (ho_objs H)(p := None)" by (simp add: delete_service_def)
  then have 2: "set ps \<subseteq> dom (ho_objs ?H)" using Cons.prems(2,3) by auto
  have 3: "shut_services ps ?H = ret (?H\<lparr>ho_objs := ho_objs ?H |` (- set ps), ho_services := \<lparr>lm_locker = False,
      lm_map = filter (\<lambda>e. \<forall>p \<in> set ps. fst e \<noteq> sv_id (the (ho_objs ?H p))) (lm_map (ho_services ?H))\<rparr>\<rparr>)"
    by (rule Cons.IH [OF _ _ 2]) (use Cons.prems(2) in \<open>simp_all add: delete_service_def\<close>)
  have "(\<forall>q \<in> set ps. fst e \<noteq> sv_id (the (ho_objs ?H q))) = (\<forall>q \<in> set ps. fst e \<noteq> sv_id (the (ho_objs H q)))" for e :: "u32 \<times> nat option"
    using Cons.prems(2) by (auto simp: delete_service_def)
  then have 4: "filter (\<lambda>e. \<forall>p \<in> set ps. fst e \<noteq> sv_id (the (ho_objs ?H p))) (lm_map (ho_services ?H))
    = filter (\<lambda>e. \<forall>q \<in> set (p # ps). fst e \<noteq> sv_id (the (ho_objs H q))) (lm_map (ho_services H))"
    using sv by (simp add: delete_service_def umap_erase_def conj_commute)
  have 5: "ho_objs ?H |` (- set ps) = ho_objs H |` (- set (p # ps))"
    by (auto simp: delete_service_def restrict_map_def fun_eq_iff)
  show ?case unfolding 1 3 4 5 by (cases H) (simp add: delete_service_def)
qed

definition waked :: "service \<Rightarrow> service" where
  "waked sv = sv\<lparr>sv_isrunning := (sv_isrunning sv \<or> Service_need_schedule sv)\<rparr>"

lemma schedule_services_ret:
  assumes "host_ok H" "distinct ps" "set ps \<subseteq> dom (ho_objs H)"
  shows "\<exists>pool. schedule_services ps H = ret (H\<lparr>ho_objs := (\<lambda>p. if p \<in> set ps then map_option waked (ho_objs H p) else ho_objs H p),
      ho_pool := pool\<rparr>) \<and> \<not> tp_stop pool
    \<and> tp_tasks pool = tp_tasks (ho_pool H) @ filter (\<lambda>p. Service_need_schedule (the (ho_objs H p)) \<and> \<not> sv_isrunning (the (ho_objs H p))) ps"
  using assms
proof (induction ps arbitrary: H)
  case Nil
  then show ?case using host_okD(5) [OF Nil.prems(1)] by (intro exI [of _ "ho_pool H"]) (cases H, simp)
next
  case (Cons p ps)
  then obtain sv where sv: "ho_objs H p = Some sv" by auto
  obtain pool where 1: "schedule_service p H = ret (set_service p (waked sv) (H\<lparr>ho_pool := pool\<rparr>))" "\<not> tp_stop pool"
    and t: "tp_tasks pool = tp_tasks (ho_pool H) @ (if Service_need_schedule sv \<and> \<not> sv_isrunning sv then [p] else [])"
    using schedule_service_ok [OF Cons.prems(1) sv] unfolding waked_def by blast
  let ?H = "set_service p (waked sv) (H\<lparr>ho_pool := pool\<rparr>)"
  have ok: "host_ok ?H"
    by (rule host_ok_service [OF host_ok_pool [OF Cons.prems(1) 1(2)], of _ sv])
      (use sv host_okD(9) [OF Cons.prems(1) sv] in \<open>simp_all add: waked_def set_service_def\<close>)
  obtain pool' where 2: "schedule_services ps ?H = ret (?H\<lparr>ho_objs := (\<lambda>p. if p \<in> set ps then map_option waked (ho_objs ?H p) else ho_objs ?H p),
      ho_pool := pool'\<rparr>)" "\<not> tp_stop pool'"
    and t': "tp_tasks pool' = tp_tasks (ho_pool ?H) @ filter (\<lambda>p. Service_need_schedule (the (ho_objs ?H p)) \<and> \<not> sv_isrunning (the (ho_objs ?H p))) ps"
    using Cons.IH [OF ok] Cons.prems(2,3) by (fastforce simp: set_service_def)
  have f: "filter (\<lambda>p. Service_need_schedule (the (ho_objs ?H p)) \<and> \<not> sv_isrunning (the (ho_objs ?H p))) ps
    = filter (\<lambda>p. Service_need_schedule (the (ho_objs H p)) \<and> \<not> sv_isrunning (the (ho_objs H p))) ps"
    by (rule filter_cong) (use Cons.prems(2) in \<open>auto simp: set_service_def\<close>)
  have o: "(\<lambda>q. if q \<in> set ps then map_option waked (ho_objs ?H q) else ho_objs ?H q)
    = (\<lambda>q. if q \<in> set (p # ps) then map_option waked (ho_objs H q) else ho_objs H q)"
    using Cons.prems(2) sv by (auto simp: fun_eq_iff set_service_def)
  have "schedule_services (p # ps) H = ret (H\<lparr>ho_objs := (\<lambda>q. if q \<in> set (p # ps) then map_option waked (ho_objs H q) else ho_objs H q), ho_pool := pool'\<rparr>)"
    using 1(1) 2(1) unfolding o by (cases H) (simp add: set_service_def)
  moreover have "tp_tasks pool' = tp_tasks (ho_pool H) @ filter (\<lambda>p. Service_need_schedule (the (ho_objs H p)) \<and> \<not> sv_isrunning (the (ho_objs H p))) (p # ps)"
    using t t' f sv by simp
  ultimately show ?case using 2(2) by blast
qed

lemma host_ok_entry:
  assumes "host_ok H" "e \<in> set (lm_map (ho_services H))"
  obtains p sv where "snd e = Some p" "ho_objs H p = Some sv" "sv_id sv = fst e"
proof -
  have "map_of (lm_map (ho_services H)) (fst e) = Some (snd e)"
    using host_okD(2) [OF assms(1)] assms(2) by (simp add: umap_ok_def)
  from host_okD(7) [OF assms(1) this] show ?thesis using that by blast
qed

lemma with_stop_set:
  assumes "host_ok H"
  shows "p \<in> set (with_stop b H) \<longleftrightarrow> (\<exists>sid sv. map_of (lm_map (ho_services H)) sid = Some (Some p) \<and> ho_objs H p = Some sv \<and> sv_isstop sv = b)"
proof -
  have m: "map_of (lm_map (ho_services H)) sid = Some v \<longleftrightarrow> (sid, v) \<in> set (lm_map (ho_services H))" for sid v
    using host_okD(2) [OF assms] by (simp add: umap_ok_def)
  have "p \<in> set (with_stop b H) \<longleftrightarrow> (\<exists>e \<in> set (lm_map (ho_services H)). p \<in> set (stop_of b H e))" by (simp add: with_stop_def)
  also have "\<dots> \<longleftrightarrow> (\<exists>sid. (sid, Some p) \<in> set (lm_map (ho_services H)) \<and> (\<exists>sv. ho_objs H p = Some sv \<and> sv_isstop sv = b))"
    unfolding stop_of_set by (metis fst_conv prod.collapse snd_conv)
  finally show ?thesis unfolding m by blast
qed

text \<open>An object knows its number, so that it is in the table once.\<close>

lemma stops_distinct:
  assumes "\<forall>e \<in> set es. \<exists>p sv. snd e = Some p \<and> ho_objs H p = Some sv \<and> sv_id sv = fst e" "distinct (map fst es)"
  shows "distinct (concat (map (stop_of b H) es))"
  using assms
proof (induction es)
  case (Cons e es)
  then obtain p sv where p: "snd e = Some p" "ho_objs H p = Some sv" "sv_id sv = fst e" by auto
  have "p \<notin> set (stop_of b H f)" if "f \<in> set es" for f
  proof
    assume "p \<in> set (stop_of b H f)"
    then have "snd f = Some p" by (simp add: stop_of_set)
    with Cons.prems(1) that p have "fst f = fst e" by fastforce
    with Cons.prems(2) that show False by (metis distinct.simps(2) image_eqI list.set_map list.simps(9))
  qed
  moreover have "stop_of b H e \<in> {[], [p]}" using p by (simp add: stop_of_def)
  ultimately show ?case using Cons by auto
qed simp

lemma with_stop_distinct:
  assumes "host_ok H"
  shows "distinct (with_stop b H)"
  unfolding with_stop_def
proof (rule stops_distinct)
  show "\<forall>e \<in> set (lm_map (ho_services H)). \<exists>p sv. snd e = Some p \<and> ho_objs H p = Some sv \<and> sv_id sv = fst e"
    using host_ok_entry [OF assms] by metis
  show "distinct (map fst (lm_map (ho_services H)))" using host_okD(2) [OF assms] by (simp add: umap_ok_def)
qed

lemma map_of_filter_key: "map_of (filter (\<lambda>e. P (fst e)) es) k = (if P k then map_of es k else None)"
  by (induction es) auto

lemma host_ok_shut:
  assumes H: "host_ok H" and ps: "\<And>p. p \<in> set ps \<Longrightarrow> p \<in> dom (ho_objs H)"
  defines "H' \<equiv> H\<lparr>ho_objs := ho_objs H |` (- set ps), ho_services := \<lparr>lm_locker = False,
      lm_map = filter (\<lambda>e. \<forall>p \<in> set ps. fst e \<noteq> sv_id (the (ho_objs H p))) (lm_map (ho_services H))\<rparr>\<rparr>"
  shows "host_ok H'"
proof (rule host_okI)
  show "umap_ok (lm_map (ho_services H'))" using host_okD(2) [OF H] by (simp add: H'_def umap_ok_def distinct_map_filter)
  show "uint sid < ho_autoid H' \<and> (\<exists>p sv. v = Some p \<and> ho_objs H' p = Some sv \<and> sv_id sv = sid)"
    if "map_of (lm_map (ho_services H')) sid = Some v" for sid v
  proof -
    from that have k: "map_of (lm_map (ho_services H)) sid = Some v" "\<forall>p \<in> set ps. sid \<noteq> sv_id (the (ho_objs H p))"
      using map_of_filter_key [of "\<lambda>sid. \<forall>p \<in> set ps. sid \<noteq> sv_id (the (ho_objs H p))" "lm_map (ho_services H)" sid]
      by (simp_all add: H'_def split: if_splits)
    from host_okD(7) [OF H k(1)] obtain p sv where p: "v = Some p" "ho_objs H p = Some sv" "sv_id sv = sid" by blast
    with k(2) have "p \<notin> set ps" by fastforce
    then show ?thesis using p host_okD(6) [OF H k(1)] by (simp add: H'_def)
  qed
  show "p < ho_next H' \<and> \<not> lq_locker (sv_msgQueue sv)" if "ho_objs H' p = Some sv" for p sv
    using that host_okD(8,9) [OF H, of p sv] by (simp add: H'_def restrict_map_def split: if_splits)
qed (use host_okD(3,4,5) [OF H] in \<open>simp_all add: H'_def\<close>)

lemma host_ok_waked:
  assumes H: "host_ok H" and "\<not> tp_stop pool"
  shows "host_ok (H\<lparr>ho_objs := (\<lambda>p. if p \<in> A then map_option waked (ho_objs H p) else ho_objs H p), ho_pool := pool\<rparr>)" (is "host_ok ?H")
proof (rule host_okI)
  show "uint sid < ho_autoid ?H \<and> (\<exists>p sv. v = Some p \<and> ho_objs ?H p = Some sv \<and> sv_id sv = sid)"
    if "map_of (lm_map (ho_services ?H)) sid = Some v" for sid v
  proof -
    from that have k: "map_of (lm_map (ho_services H)) sid = Some v" by simp
    from host_okD(7) [OF H k] obtain p sv where "v = Some p" "ho_objs H p = Some sv" "sv_id sv = sid" by blast
    then show ?thesis using host_okD(6) [OF H k] by (simp add: waked_def)
  qed
  show "p < ho_next ?H \<and> \<not> lq_locker (sv_msgQueue sv)" if "ho_objs ?H p = Some sv" for p sv
    using that host_okD(8,9) [OF H, of p] by (auto simp: waked_def split: if_splits)
qed (use host_okD(1-5) [OF H] assms(2) in simp_all)

text \<open>
  C9. One round of the main loop: \<open>schedule()\<close> of a host in good order returns. Afterwards the table
  holds exactly the services that are not stopped, the stopped ones are gone, every service with a
  message waiting is running, and the pool has got exactly the services that were not running yet.
\<close>

theorem ServiceManager_schedule_ok:
  assumes H: "host_ok H"
  shows "\<exists>H'. ServiceManager_schedule H = ret H' \<and> host_ok H'
    \<and> (\<forall>sid v. map_of (lm_map (ho_services H')) sid = Some v
        \<longleftrightarrow> map_of (lm_map (ho_services H)) sid = Some v \<and> (\<exists>p sv. v = Some p \<and> ho_objs H p = Some sv \<and> \<not> sv_isstop sv))
    \<and> (\<forall>sid p sv. map_of (lm_map (ho_services H)) sid = Some (Some p) \<longrightarrow> ho_objs H p = Some sv \<longrightarrow>
        ho_objs H' p = (if sv_isstop sv then None else Some (sv\<lparr>sv_isrunning := (sv_isrunning sv \<or> Service_need_schedule sv)\<rparr>)))
    \<and> tp_tasks (ho_pool H') = tp_tasks (ho_pool H)
        @ filter (\<lambda>p. Service_need_schedule (the (ho_objs H p)) \<and> \<not> sv_isrunning (the (ho_objs H p))) (with_stop False H)"
proof -
  let ?T = "lm_map (ho_services H)" and ?S = "with_stop True H" and ?G = "with_stop False H"
  have stops: "set ?S \<subseteq> dom (ho_objs H)" by (auto simp: with_stop_set [OF H])
  have goes: "ho_objs H p \<noteq> None \<and> \<not> sv_isstop (the (ho_objs H p)) \<and> p \<notin> set ?S" if "p \<in> set ?G" for p
    using that by (auto simp: with_stop_set [OF H])
  have sort: "sort_services H ?T = Inr (?G, ?S)"
    unfolding sort_services_def with_stop_def using sort_services_ret [of ?T H "[]" "[]"] host_ok_entry [OF H] by (metis append_Nil)
  have "ho_services H\<lparr>lm_locker := False\<rparr> = ho_services H" using host_okD(1) [OF H] by (cases "ho_services H") simp
  then have same: "H\<lparr>ho_services := ho_services H\<lparr>lm_locker := False\<rparr>\<rparr> = H" by (cases H) simp
  define H2 where "H2 = H\<lparr>ho_objs := ho_objs H |` (- set ?S), ho_services := \<lparr>lm_locker = False,
      lm_map = filter (\<lambda>e. \<forall>p \<in> set ?S. fst e \<noteq> sv_id (the (ho_objs H p))) ?T\<rparr>\<rparr>"
  have shut: "shut_services ?S H = ret H2"
    unfolding H2_def by (rule shut_services_ret [OF host_okD(1) [OF H] with_stop_distinct [OF H] stops])
  have ok2: "host_ok H2" unfolding H2_def by (rule host_ok_shut [OF H]) (use stops in blast)
  have o2: "ho_objs H2 p = (if p \<in> set ?S then None else ho_objs H p)" for p by (simp add: H2_def restrict_map_def)
  have "set ?G \<subseteq> dom (ho_objs H2)" using goes by (fastforce simp: o2)
  from schedule_services_ret [OF ok2 with_stop_distinct [OF H] this] obtain pool where
    go: "schedule_services ?G H2 = ret (H2\<lparr>ho_objs := (\<lambda>p. if p \<in> set ?G then map_option waked (ho_objs H2 p) else ho_objs H2 p), ho_pool := pool\<rparr>)"
    and pool: "\<not> tp_stop pool" "tp_tasks pool = tp_tasks (ho_pool H2)
      @ filter (\<lambda>p. Service_need_schedule (the (ho_objs H2 p)) \<and> \<not> sv_isrunning (the (ho_objs H2 p))) ?G" by blast
  let ?H3 = "H2\<lparr>ho_objs := (\<lambda>p. if p \<in> set ?G then map_option waked (ho_objs H2 p) else ho_objs H2 p), ho_pool := pool\<rparr>"
  have f: "filter (\<lambda>p. Service_need_schedule (the (ho_objs H2 p)) \<and> \<not> sv_isrunning (the (ho_objs H2 p))) ?G
    = filter (\<lambda>p. Service_need_schedule (the (ho_objs H p)) \<and> \<not> sv_isrunning (the (ho_objs H p))) ?G"
    by (rule filter_cong) (use goes in \<open>simp_all add: o2\<close>)
  note key = map_of_filter_key [of "\<lambda>sid. \<forall>p \<in> set ?S. sid \<noteq> sv_id (the (ho_objs H p))" ?T]
  have "ServiceManager_schedule H = ret ?H3"
    using sort shut go host_okD(1) [OF H] by (simp add: ServiceManager_schedule_def Spinlocker_unlock_def same)
  moreover have "host_ok ?H3" by (rule host_ok_waked [OF ok2 pool(1)])
  moreover have "map_of (lm_map (ho_services ?H3)) sid = Some v
      \<longleftrightarrow> map_of ?T sid = Some v \<and> (\<exists>p sv. v = Some p \<and> ho_objs H p = Some sv \<and> \<not> sv_isstop sv)" for sid v
  proof (cases "map_of ?T sid = Some v")
    case True
    from host_okD(7) [OF H True] obtain p sv where p: "v = Some p" "ho_objs H p = Some sv" "sv_id sv = sid" by blast
    have "(\<exists>q \<in> set ?S. sid = sv_id (the (ho_objs H q))) \<longleftrightarrow> sv_isstop sv"
    proof
      assume "\<exists>q \<in> set ?S. sid = sv_id (the (ho_objs H q))"
      then obtain q sid' tv where q: "map_of ?T sid' = Some (Some q)" "ho_objs H q = Some tv" "sv_isstop tv" "sid = sv_id tv"
        by (auto simp: with_stop_set [OF H])
      with host_okD(7) [OF H q(1)] have "sid' = sid" by auto
      then show "sv_isstop sv" using q True p by simp
    next
      assume "sv_isstop sv"
      then have "p \<in> set ?S" using True p by (auto simp: with_stop_set [OF H])
      then show "\<exists>q \<in> set ?S. sid = sv_id (the (ho_objs H q))" using p by force
    qed
    then show ?thesis using True p key [of sid] by (auto simp: H2_def)
  qed (use key in \<open>simp add: H2_def\<close>)
  moreover have "ho_objs ?H3 p = (if sv_isstop sv then None else Some (sv\<lparr>sv_isrunning := (sv_isrunning sv \<or> Service_need_schedule sv)\<rparr>))"
    if "map_of ?T sid = Some (Some p)" "ho_objs H p = Some sv" for sid p sv
  proof -
    have "p \<in> set (with_stop b H) \<longleftrightarrow> sv_isstop sv = b" for b using that by (auto simp: with_stop_set [OF H])
    then show ?thesis using that(2) by (simp add: o2 waked_def)
  qed
  moreover have "tp_tasks (ho_pool ?H3) = tp_tasks (ho_pool H)
      @ filter (\<lambda>p. Service_need_schedule (the (ho_objs H p)) \<and> \<not> sv_isrunning (the (ho_objs H p))) ?G"
    using pool(2) f by (simp add: H2_def)
  ultimately show ?thesis by (intro exI [of _ ?H3] conjI allI impI)
qed

theorem ServiceManager_schedule_ok_witness:
  "\<exists>H'. ServiceManager_schedule (set_service 0 ((new_Service 0)\<lparr>sv_isstop := True\<rparr>) demo_host) = ret H'
    \<and> map_of (lm_map (ho_services H')) 0 = None \<and> ho_objs H' 0 = None"
proof -
  let ?sv = "(new_Service 0)\<lparr>sv_isstop := True\<rparr>"
  define K where "K = set_service 0 ?sv demo_host"
  have ok: "host_ok K" unfolding K_def
    by (rule host_ok_service [OF demo_host_ok, of 0 "(new_Service 0)\<lparr>sv_L := Some 0, sv_parser := Some 0\<rparr>"])
      (simp_all add: demo_host_def new_Service_def new_LockfreeQueue_def)
  have m: "map_of (lm_map (ho_services K)) 0 = Some (Some 0)" "ho_objs K 0 = Some ?sv" "sv_isstop ?sv"
    by (simp_all add: K_def set_service_def demo_host_def)
  obtain H' where H': "ServiceManager_schedule K = ret H'"
    and t: "\<forall>sid v. map_of (lm_map (ho_services H')) sid = Some v
        \<longleftrightarrow> map_of (lm_map (ho_services K)) sid = Some v \<and> (\<exists>p sv. v = Some p \<and> ho_objs K p = Some sv \<and> \<not> sv_isstop sv)"
    and o: "\<forall>sid p sv. map_of (lm_map (ho_services K)) sid = Some (Some p) \<longrightarrow> ho_objs K p = Some sv \<longrightarrow>
        ho_objs H' p = (if sv_isstop sv then None else Some (sv\<lparr>sv_isrunning := (sv_isrunning sv \<or> Service_need_schedule sv)\<rparr>))"
    using ServiceManager_schedule_ok [OF ok] by (elim exE conjE) (rule that)
  have "ho_objs H' 0 = None" using o [rule_format, OF m(1,2)] m(3) by simp
  moreover have "map_of (lm_map (ho_services H')) 0 = None"
  proof (cases "map_of (lm_map (ho_services H')) 0")
    case (Some v)
    with t m(1) have "v = Some 0" "\<exists>p sv. v = Some p \<and> ho_objs K p = Some sv \<and> \<not> sv_isstop sv" by (metis option.inject)+
    then show ?thesis using m(2,3) by simp
  qed
  ultimately show ?thesis using H' unfolding K_def by (intro exI [of _ H'] conjI)
qed

end
