(* ===== verification/LuaDecode.thy ===== *)
theory LuaDecode imports JsonCorrect begin

text \<open>
  The decoding half of \<^verbatim>\<open>lua/luaT_json_parser.cpp\<close>: the callback that builds Lua tables out of
  the events of the JSON parser. The Lua library is a parameter (\<open>lua\<close>), one field per function the
  code calls; what the reference manual says of these functions is the predicate \<open>lua_laws\<close>.
\<close>

section \<open>The Lua library\<close>

text \<open>
  Values as the manual describes them. All numbers are of the type \<open>'d\<close> of \<open>lua_Number\<close>;
  \<open>number_of_int\<close> is the number made from a \<open>lua_Integer\<close>, and \<open>strtod\<close> is the C function.
\<close>

datatype 'd lval =
    L_nil | L_boolean bool | L_number 'd | L_string "u8 list" | L_table nat | L_function u64

record ('l, 'd) lua =
  number_of_int :: "int \<Rightarrow> 'd"
  strtod :: "u8 list \<Rightarrow> 'd"
  lua_gettop :: "'l \<Rightarrow> int"
  lua_settop :: "int \<Rightarrow> 'l \<Rightarrow> 'l"
  lua_pushnil :: "'l \<Rightarrow> 'l"
  lua_pushboolean :: "bool \<Rightarrow> 'l \<Rightarrow> 'l"
  lua_pushinteger :: "int \<Rightarrow> 'l \<Rightarrow> 'l"
  lua_pushnumber :: "'d \<Rightarrow> 'l \<Rightarrow> 'l"
  lua_pushlstring :: "u8 list \<Rightarrow> 'l \<Rightarrow> 'l"
  lua_pushcfunction :: "u64 \<Rightarrow> 'l \<Rightarrow> 'l"
  lua_newtable :: "'l \<Rightarrow> 'l"
  lua_settable :: "int \<Rightarrow> 'l \<Rightarrow> 'l"

section \<open>The context of the callback\<close>

datatype json_paser_state = JPS_NONE | JPS_IN_ARRAY | JPS_IN_TABLE

text \<open>
  The index of an array is an \<open>int\<close>; a text shorter than \<open>2 ^ 31\<close> bytes cannot overflow it, nor the
  level. Both stacks are \<open>std::stack<char>\<close>, which is enough for a state but not for an index.
\<close>

record 'l luaT_ctx =
  cx_L :: 'l
  cx_key_lvl :: int
  cx_cur_state :: json_paser_state
  cx_state_stack :: "json_paser_state list"
  cx_array_idx :: int
  cx_array_stack :: "8 word list"

definition luaT_json_parser_ctx_create :: "'l \<Rightarrow> 'l luaT_ctx" where
  "luaT_json_parser_ctx_create L = \<lparr>cx_L = L, cx_key_lvl = 0, cx_cur_state = JPS_NONE, cx_state_stack = [],
     cx_array_idx = 1, cx_array_stack = []\<rparr>"

text \<open>\<open>strtoull\<close> with base 16, on a string without its NUL.\<close>

definition isxdigit :: "u8 \<Rightarrow> bool" where
  "isxdigit c \<longleftrightarrow> isdigit c \<or> 0x41 \<le> c \<and> c \<le> 0x46 \<or> 0x61 \<le> c \<and> c \<le> 0x66"

definition xdigit_value :: "u8 \<Rightarrow> nat" where
  "xdigit_value c = (if isdigit c then unat (c - 0x30) else if 0x61 \<le> c then unat (c - 0x61) + 10 else unat (c - 0x41) + 10)"

definition strtoull16 :: "u8 list \<Rightarrow> u64" where
  "strtoull16 s =
     (let s = dropWhile isspace s;
          neg = (s \<noteq> [] \<and> hd s = 0x2D);
          s = (if s \<noteq> [] \<and> (hd s = 0x2D \<or> hd s = 0x2B) then tl s else s);
          s = (case s of a # b # c # r \<Rightarrow> if a = 0x30 \<and> (b = 0x78 \<or> b = 0x58) \<and> isxdigit c then c # r else s | _ \<Rightarrow> s);
          n = foldl (\<lambda>v d. 16 * v + xdigit_value d) 0 (takeWhile isxdigit s)
      in if 2 ^ 64 \<le> n then - 1 else if neg then - word_of_nat n else word_of_nat n)"

definition function_name :: "u8 list" where
  "function_name = [0x66, 0x75, 0x6E, 0x63, 0x74, 0x69, 0x6F, 0x6E]"

text \<open>
  A string that starts with \<open>function\<close> is the address of a C function, after the first colon of the
  C string; every other string is a string.
\<close>

definition json_parser_special_type :: "('l, 'd) lua \<Rightarrow> u8 list \<Rightarrow> 'l \<Rightarrow> 'l" where
  "json_parser_special_type lua value L =
     (let is_function = (8 \<le> length value \<and> take 8 value = function_name);
          p = dropWhile (\<lambda>c. c \<noteq> 0x3A) (takeWhile (\<lambda>c. c \<noteq> 0) value);
          address = strtoull16 (tl p)
      in if is_function \<and> p \<noteq> [] \<and> address \<noteq> 0 \<and> address \<noteq> - 1
         then lua_settable lua (- 3) (lua_pushcfunction lua address L)
         else lua_settable lua (- 3) (lua_pushlstring lua value L))"

text \<open>
  What the cases of the scalars share: the value goes under the key at the top, or under the next
  index, and is an error elsewhere. \<open>store\<close> pushes the value and sets it.
\<close>

definition store_scalar :: "('l, 'd) lua \<Rightarrow> ('l \<Rightarrow> 'l) \<Rightarrow> 'l luaT_ctx \<Rightarrow> bool \<times> 'l luaT_ctx" where
  "store_scalar lua store c =
     (if cx_cur_state c = JPS_IN_TABLE then
        if 0 < cx_key_lvl c then (True, c\<lparr>cx_L := store (cx_L c), cx_key_lvl := cx_key_lvl c - 1\<rparr>)
        else (False, c)
      else if cx_cur_state c = JPS_IN_ARRAY then
        (True, c\<lparr>cx_L := store (lua_pushinteger lua (cx_array_idx c) (cx_L c)), cx_array_idx := cx_array_idx c + 1\<rparr>)
      else (False, c))"

text \<open>The beginning of both kinds of container, up to the state.\<close>

definition begin_table :: "('l, 'd) lua \<Rightarrow> 'l luaT_ctx \<Rightarrow> 'l luaT_ctx" where
  "begin_table lua c =
     (let c = (if cx_cur_state c = JPS_IN_ARRAY
               then c\<lparr>cx_L := lua_pushinteger lua (cx_array_idx c) (cx_L c), cx_array_idx := cx_array_idx c + 1\<rparr> else c);
          c = c\<lparr>cx_L := lua_newtable lua (cx_L c)\<rparr>
      in c\<lparr>cx_state_stack := cx_cur_state c # cx_state_stack c\<rparr>)"

text \<open>The end of both kinds, after the state has been taken back.\<close>

definition end_table :: "('l, 'd) lua \<Rightarrow> 'l luaT_ctx \<Rightarrow> bool \<times> 'l luaT_ctx" where
  "end_table lua c =
     (if cx_cur_state c = JPS_IN_TABLE then
        if 0 < cx_key_lvl c then (True, c\<lparr>cx_L := lua_settable lua (- 3) (cx_L c), cx_key_lvl := cx_key_lvl c - 1\<rparr>)
        else (False, c)
      else if cx_cur_state c = JPS_IN_ARRAY then (True, c\<lparr>cx_L := lua_settable lua (- 3) (cx_L c)\<rparr>)
      else (True, c))"

text \<open>\<open>top()\<close> and \<open>pop()\<close> of an empty stack are undefined.\<close>

definition pop_state :: "'l luaT_ctx \<Rightarrow> 'l luaT_ctx res" where
  "pop_state c = (case cx_state_stack c of [] \<Rightarrow> Inl Undefined
     | s # ss \<Rightarrow> Inr (c\<lparr>cx_cur_state := s, cx_state_stack := ss\<rparr>))"

definition pop_index :: "'l luaT_ctx \<Rightarrow> 'l luaT_ctx res" where
  "pop_index c = (case cx_array_stack c of [] \<Rightarrow> Inl Undefined
     | i # is \<Rightarrow> Inr (c\<lparr>cx_array_idx := sint i, cx_array_stack := is\<rparr>))"

definition json_parser_cb :: "('l, 'd) lua \<Rightarrow> 'l luaT_ctx jcallback" where
  "json_parser_cb lua type value c =
     (case type of
        JSON_T_ARRAY_BEGIN \<Rightarrow>
          let c = (begin_table lua c)\<lparr>cx_cur_state := JPS_IN_ARRAY\<rparr>
          in Inr (True, c\<lparr>cx_array_stack := word_of_int (cx_array_idx c) # cx_array_stack c, cx_array_idx := 1\<rparr>)
      | JSON_T_ARRAY_END \<Rightarrow> seq (pop_state c) (\<lambda>c. seq (pop_index c) (\<lambda>c. Inr (end_table lua c)))
      | JSON_T_OBJECT_BEGIN \<Rightarrow> Inr (True, (begin_table lua c)\<lparr>cx_cur_state := JPS_IN_TABLE\<rparr>)
      | JSON_T_OBJECT_END \<Rightarrow> seq (pop_state c) (\<lambda>c. Inr (end_table lua c))
      | JSON_T_INTEGER \<Rightarrow>
          (case value of Some (JV_integer i) \<Rightarrow> Inr (store_scalar lua (\<lambda>L. lua_settable lua (- 3) (lua_pushinteger lua i L)) c)
           | _ \<Rightarrow> Inl Undefined)
      | JSON_T_FLOAT \<Rightarrow>
          (case value of Some (JV_strtod s) \<Rightarrow> Inr (store_scalar lua (\<lambda>L. lua_settable lua (- 3) (lua_pushnumber lua (strtod lua s) L)) c)
           | _ \<Rightarrow> Inl Undefined)
      | JSON_T_NULL \<Rightarrow> Inr (store_scalar lua (\<lambda>L. lua_settable lua (- 3) (lua_pushnil lua L)) c)
      | JSON_T_TRUE \<Rightarrow> Inr (store_scalar lua (\<lambda>L. lua_settable lua (- 3) (lua_pushboolean lua True L)) c)
      | JSON_T_FALSE \<Rightarrow> Inr (store_scalar lua (\<lambda>L. lua_settable lua (- 3) (lua_pushboolean lua False L)) c)
      | JSON_T_STRING \<Rightarrow>
          (case value of Some (JV_str s) \<Rightarrow> Inr (store_scalar lua (json_parser_special_type lua s) c) | _ \<Rightarrow> Inl Undefined)
      | JSON_T_KEY \<Rightarrow>
          (case value of Some (JV_str s) \<Rightarrow>
             Inr (True, c\<lparr>cx_L := lua_pushlstring lua s (cx_L c), cx_key_lvl := cx_key_lvl c + 1\<rparr>)
           | _ \<Rightarrow> Inl Undefined)
      | JSON_T_NONE \<Rightarrow> Inr (True, c))"

text \<open>The loop over the text, which ends at the first byte that is not positive as a \<open>char\<close>.\<close>

fun decode_chars :: "'c jparser \<Rightarrow> u8 list \<Rightarrow> (bool \<times> 'c jparser) res" where
  "decode_chars jc [] = Inr (True, jc)"
| "decode_chars jc (b # bs) =
     (if sint b \<le> 0 then Inr (True, jc)
      else if_ok (JSON_parser_char jc (sint b)) (\<lambda>jc. decode_chars jc bs))"

definition luaT_json_parser_decode :: "('l, 'd) lua \<Rightarrow> u8 \<Rightarrow> u8 list \<Rightarrow> 'l \<Rightarrow> (bool \<times> 'l) res" where
  "luaT_json_parser_decode lua point jsonstr L =
     (let oldtop = lua_gettop lua L;
          ctx = luaT_json_parser_ctx_create L;
          config = (init_JSON_config ctx)\<lparr>cfg_depth := - 1, cfg_callback := Some (json_parser_cb lua),
            cfg_callback_ctx := ctx, cfg_allow_comments := 0, cfg_handle_floats_manually := 0\<rparr>
      in seq (new_JSON_parser point ctx (Some config)) (\<lambda>jc.
         seq (decode_chars jc jsonstr) (\<lambda>(ok, jc).
         if \<not> ok then Inr (False, lua_settop lua oldtop (cx_L (jc_ctx jc)))
         else seq (JSON_parser_done jc) (\<lambda>(ok, jc).
           if \<not> ok then Inr (False, lua_settop lua oldtop (cx_L (jc_ctx jc)))
           else Inr (True, cx_L (jc_ctx jc))))))"

end
