(* ===== verification/LuaTables.thy ===== *)
theory LuaTables imports LuaDecode begin

text \<open>
  Correctness of the JSON decoder: a text of the grammar becomes the Lua table that represents it.
  The Lua state is seen through a view (\<open>lua_view\<close>) that satisfies what the reference manual says of
  the functions the decoder calls (\<open>lua_laws\<close>): the stack, the contents of the tables, the tables
  that exist, and the slots a C function may still push.
\<close>

section \<open>What the manual says of the Lua functions\<close>

record ('l, 'd) lua_view =
  vw_stack :: "'l \<Rightarrow> 'd lval list"
  vw_table :: "'l \<Rightarrow> nat \<Rightarrow> 'd lval \<Rightarrow> 'd lval"
  vw_live :: "'l \<Rightarrow> nat set"
  vw_room :: "'l \<Rightarrow> nat"

definition lua_pushes :: "('l, 'd) lua_view \<Rightarrow> 'd lval \<Rightarrow> ('l \<Rightarrow> 'l) \<Rightarrow> bool" where
  "lua_pushes V x f \<longleftrightarrow> (\<forall>L. 0 < vw_room V L \<longrightarrow> vw_stack V (f L) = x # vw_stack V L \<and> vw_table V (f L) = vw_table V L
     \<and> vw_live V (f L) = vw_live V L \<and> Suc (vw_room V (f L)) = vw_room V L)"

text \<open>Keys that are neither nil nor a NaN.\<close>

definition plain_key :: "('l, 'd) lua \<Rightarrow> 'd lval \<Rightarrow> bool" where
  "plain_key lua k \<longleftrightarrow> (\<exists>s. k = L_string s) \<or> (\<exists>i. k = L_number (number_of_int lua i))"

definition lua_laws :: "('l, 'd) lua \<Rightarrow> ('l, 'd) lua_view \<Rightarrow> bool" where
  "lua_laws lua V \<longleftrightarrow>
     lua_pushes V L_nil (lua_pushnil lua) \<and> (\<forall>b. lua_pushes V (L_boolean b) (lua_pushboolean lua b))
   \<and> (\<forall>i. lua_pushes V (L_number (number_of_int lua i)) (lua_pushinteger lua i))
   \<and> (\<forall>d. lua_pushes V (L_number d) (lua_pushnumber lua d)) \<and> (\<forall>s. lua_pushes V (L_string s) (lua_pushlstring lua s))
   \<and> (\<forall>L. 0 < vw_room V L \<longrightarrow> (\<exists>t. t \<notin> vw_live V L \<and> vw_stack V (lua_newtable lua L) = L_table t # vw_stack V L
        \<and> vw_table V (lua_newtable lua L) = (vw_table V L)(t := (\<lambda>_. L_nil))
        \<and> vw_live V (lua_newtable lua L) = insert t (vw_live V L) \<and> Suc (vw_room V (lua_newtable lua L)) = vw_room V L))
   \<and> (\<forall>L v k t s. vw_stack V L = v # k # L_table t # s \<longrightarrow> t \<in> vw_live V L \<longrightarrow> plain_key lua k \<longrightarrow>
        vw_stack V (lua_settable lua (- 3) L) = L_table t # s
        \<and> vw_table V (lua_settable lua (- 3) L) = (vw_table V L)(t := (vw_table V L t)(k := v))
        \<and> vw_live V (lua_settable lua (- 3) L) = vw_live V L \<and> vw_room V (lua_settable lua (- 3) L) = vw_room V L + 2)
   \<and> inj_on (number_of_int lua) {1..2 ^ 53}"

lemma lua_lawsD:
  assumes "lua_laws lua V"
  shows "lua_pushes V L_nil (lua_pushnil lua)" "lua_pushes V (L_boolean b) (lua_pushboolean lua b)"
    "lua_pushes V (L_number (number_of_int lua i)) (lua_pushinteger lua i)" "lua_pushes V (L_number d) (lua_pushnumber lua d)"
    "lua_pushes V (L_string s) (lua_pushlstring lua s)"
    and "0 < vw_room V L \<Longrightarrow> \<exists>t. t \<notin> vw_live V L \<and> vw_stack V (lua_newtable lua L) = L_table t # vw_stack V L
        \<and> vw_table V (lua_newtable lua L) = (vw_table V L)(t := (\<lambda>_. L_nil))
        \<and> vw_live V (lua_newtable lua L) = insert t (vw_live V L) \<and> Suc (vw_room V (lua_newtable lua L)) = vw_room V L"
    and "vw_stack V L = v # k # L_table t # r \<Longrightarrow> t \<in> vw_live V L \<Longrightarrow> plain_key lua k \<Longrightarrow>
        vw_stack V (lua_settable lua (- 3) L) = L_table t # r
        \<and> vw_table V (lua_settable lua (- 3) L) = (vw_table V L)(t := (vw_table V L t)(k := v))
        \<and> vw_live V (lua_settable lua (- 3) L) = vw_live V L \<and> vw_room V (lua_settable lua (- 3) L) = vw_room V L + 2"
    and "inj_on (number_of_int lua) {1..2 ^ 53}"
  using assms unfolding lua_laws_def by blast+

lemma lua_pushesD:
  assumes "lua_pushes V x f" "0 < vw_room V L"
  shows "vw_stack V (f L) = x # vw_stack V L" "vw_table V (f L) = vw_table V L" "vw_live V (f L) = vw_live V L"
    "Suc (vw_room V (f L)) = vw_room V L"
  using assms unfolding lua_pushes_def by blast+

section \<open>The Lua value of a JSON tree\<close>

text \<open>
  \<open>holds lua pt tb N v t\<close>: with the contents \<open>tb\<close>, the value \<open>v\<close> represents \<open>t\<close>, all its tables being in \<open>N\<close>.
  A member that comes again replaces the earlier one.
\<close>

definition array_table :: "('l, 'd) lua \<Rightarrow> 'd lval list \<Rightarrow> ('d lval \<Rightarrow> 'd lval) \<Rightarrow> bool" where
  "array_table lua vs f \<longleftrightarrow> (\<forall>i < length vs. f (L_number (number_of_int lua (int i + 1))) = vs ! i)
     \<and> (\<forall>k. (\<forall>i < length vs. k \<noteq> L_number (number_of_int lua (int i + 1))) \<longrightarrow> f k = L_nil)"

definition object_table :: "(u8 list \<times> 'd lval) list \<Rightarrow> 'd lval \<Rightarrow> 'd lval" where
  "object_table ms k = (case k of L_string s \<Rightarrow> (case map_of (rev ms) s of None \<Rightarrow> L_nil | Some v \<Rightarrow> v) | _ \<Rightarrow> L_nil)"

fun holds :: "('l, 'd) lua \<Rightarrow> u8 \<Rightarrow> (nat \<Rightarrow> 'd lval \<Rightarrow> 'd lval) \<Rightarrow> nat set \<Rightarrow> 'd lval \<Rightarrow> jtree \<Rightarrow> int list \<Rightarrow> bool"
  and holds_elems :: "('l, 'd) lua \<Rightarrow> u8 \<Rightarrow> (nat \<Rightarrow> 'd lval \<Rightarrow> 'd lval) \<Rightarrow> nat set \<Rightarrow> 'd lval list \<Rightarrow> elems \<Rightarrow> bool"
  and holds_members :: "('l, 'd) lua \<Rightarrow> u8 \<Rightarrow> (nat \<Rightarrow> 'd lval \<Rightarrow> 'd lval) \<Rightarrow> nat set \<Rightarrow> (u8 list \<times> 'd lval) list \<Rightarrow> members \<Rightarrow> bool" where
  "holds lua pt tb N v T_null ws = (v = L_nil)"
| "holds lua pt tb N v T_true ws = (v = L_boolean True)"
| "holds lua pt tb N v T_false ws = (v = L_boolean False)"
| "holds lua pt tb N v (T_int neg n) ws = (v = L_number (number_of_int lua (clamp long_min long_max (signed_value (neg, n)))))"
| "holds lua pt tb N v (T_float neg n f e) ws = (v = L_number (strtod lua (takeWhile (\<lambda>c. c \<noteq> 0) (float_text pt neg n f e @ map word_of_int ws))))"
| "holds lua pt tb N v (T_str cs) ws = (v = L_string (str_bytes cs))"
| "holds lua pt tb N v (T_arr0 ws0) ws = (\<exists>a. v = L_table a \<and> a \<in> N \<and> array_table lua [] (tb a))"
| "holds lua pt tb N v (T_arr es) ws = (\<exists>a vs. v = L_table a \<and> a \<in> N \<and> array_table lua vs (tb a) \<and> holds_elems lua pt tb N vs es)"
| "holds lua pt tb N v (T_obj0 ws0) ws = (\<exists>a. v = L_table a \<and> a \<in> N \<and> tb a = object_table [])"
| "holds lua pt tb N v (T_obj ms) ws = (\<exists>a kvs. v = L_table a \<and> a \<in> N \<and> tb a = object_table kvs \<and> holds_members lua pt tb N kvs ms)"
| "holds_elems lua pt tb N vs (Last ws1 t ws2) = (\<exists>v. vs = [v] \<and> holds lua pt tb N v t ws2)"
| "holds_elems lua pt tb N vs (More ws1 t ws2 es) =
     (\<exists>v us. vs = v # us \<and> holds lua pt tb N v t ws2 \<and> holds_elems lua pt tb N us es)"
| "holds_members lua pt tb N kvs (Last_m ws1 k ws2 ws3 t ws4) = (\<exists>v. kvs = [(str_bytes k, v)] \<and> holds lua pt tb N v t ws4)"
| "holds_members lua pt tb N kvs (More_m ws1 k ws2 ws3 t ws4 ms) =
     (\<exists>v us. kvs = (str_bytes k, v) # us \<and> holds lua pt tb N v t ws4 \<and> holds_members lua pt tb N us ms)"

lemma holds_mono:
  "holds lua pt tb N v t ws \<Longrightarrow> N \<subseteq> N' \<Longrightarrow> (\<And>x. x \<in> N \<Longrightarrow> tb' x = tb x) \<Longrightarrow> holds lua pt tb' N' v t ws"
  "holds_elems lua pt tb N vs es \<Longrightarrow> N \<subseteq> N' \<Longrightarrow> (\<And>x. x \<in> N \<Longrightarrow> tb' x = tb x) \<Longrightarrow> holds_elems lua pt tb' N' vs es"
  "holds_members lua pt tb N kvs ms \<Longrightarrow> N \<subseteq> N' \<Longrightarrow> (\<And>x. x \<in> N \<Longrightarrow> tb' x = tb x) \<Longrightarrow> holds_members lua pt tb' N' kvs ms"
proof (induction lua pt tb N v t ws and lua pt tb N vs es and lua pt tb N kvs ms
    rule: holds_holds_elems_holds_members.induct)
qed (simp_all, (metis subsetD)+)

section \<open>Trees the decoder can take\<close>

fun has_array :: "jtree \<Rightarrow> bool" and has_array_elems :: "elems \<Rightarrow> bool" and has_array_members :: "members \<Rightarrow> bool" where
  "has_array (T_arr0 ws) = True"
| "has_array (T_arr es) = True"
| "has_array (T_obj ms) = has_array_members ms"
| "has_array t = False"
| "has_array_elems (Last ws1 t ws2) = has_array t"
| "has_array_elems (More ws1 t ws2 es) = (has_array t \<or> has_array_elems es)"
| "has_array_members (Last_m ws1 k ws2 ws3 t ws4) = has_array t"
| "has_array_members (More_m ws1 k ws2 ws3 t ws4 ms) = (has_array t \<or> has_array_members ms)"

fun elem_count :: "elems \<Rightarrow> nat" where
  "elem_count (Last ws1 t ws2) = 1"
| "elem_count (More ws1 t ws2 es) = Suc (elem_count es)"

text \<open>
  Strings do not begin with \<open>function\<close>, and an array with another array inside has at most 126
  elements, since its index is kept in a \<open>char\<close> meanwhile.
\<close>

fun decodable :: "jtree \<Rightarrow> bool" and decodable_elems :: "elems \<Rightarrow> bool" and decodable_members :: "members \<Rightarrow> bool" where
  "decodable (T_str cs) = (take 8 (str_bytes cs) \<noteq> function_name)"
| "decodable (T_arr es) = (elem_count es \<le> (if has_array_elems es then 126 else 2 ^ 53) \<and> decodable_elems es)"
| "decodable (T_obj ms) = decodable_members ms"
| "decodable t = True"
| "decodable_elems (Last ws1 t ws2) = decodable t"
| "decodable_elems (More ws1 t ws2 es) = (decodable t \<and> decodable_elems es)"
| "decodable_members (Last_m ws1 k ws2 ws3 t ws4) = decodable t"
| "decodable_members (More_m ws1 k ws2 ws3 t ws4 ms) = (decodable t \<and> decodable_members ms)"

section \<open>One value\<close>

text \<open>
  The callback is about to get a value that will go into table \<open>a\<close> under \<open>k\<close>, with \<open>s\<close> below the
  table on the stack and \<open>n\<close> slots left once the key is there; and what it has done afterwards.
\<close>

definition in_array :: "'l luaT_ctx \<Rightarrow> bool" where
  "in_array c \<longleftrightarrow> cx_cur_state c = JPS_IN_ARRAY"

definition slot_ready :: "('l, 'd) lua \<Rightarrow> ('l, 'd) lua_view \<Rightarrow> 'l luaT_ctx \<Rightarrow> nat \<Rightarrow> 'd lval list \<Rightarrow> 'd lval \<Rightarrow> nat \<Rightarrow> bool" where
  "slot_ready lua V c a s k n \<longleftrightarrow> a \<in> vw_live V (cx_L c) \<and> 0 \<le> cx_key_lvl c \<and>
     (if in_array c
      then vw_stack V (cx_L c) = L_table a # s \<and> k = L_number (number_of_int lua (cx_array_idx c)) \<and> n < vw_room V (cx_L c)
      else cx_cur_state c = JPS_IN_TABLE \<and> 0 < cx_key_lvl c \<and> vw_stack V (cx_L c) = k # L_table a # s \<and> (\<exists>x. k = L_string x)
        \<and> n \<le> vw_room V (cx_L c))"

definition stored :: "('l, 'd) lua_view \<Rightarrow> 'l luaT_ctx \<Rightarrow> 'l luaT_ctx \<Rightarrow> nat \<Rightarrow> 'd lval list \<Rightarrow> 'd lval \<Rightarrow> 'd lval \<Rightarrow> bool" where
  "stored V c c' a s k v \<longleftrightarrow>
     cx_cur_state c' = cx_cur_state c \<and> cx_state_stack c' = cx_state_stack c \<and> cx_array_stack c' = cx_array_stack c
   \<and> cx_array_idx c' = cx_array_idx c + (if in_array c then 1 else 0) \<and> cx_key_lvl c' = cx_key_lvl c - (if in_array c then 0 else 1)
   \<and> vw_stack V (cx_L c') = L_table a # s \<and> vw_room V (cx_L c') = vw_room V (cx_L c) + (if in_array c then 0 else 1)
   \<and> vw_live V (cx_L c) \<subseteq> vw_live V (cx_L c')
   \<and> vw_table V (cx_L c') a = (vw_table V (cx_L c) a)(k := v)
   \<and> (\<forall>x \<in> vw_live V (cx_L c). x \<noteq> a \<longrightarrow> vw_table V (cx_L c') x = vw_table V (cx_L c) x)"

text \<open>The stack once the key is pushed.\<close>

definition keyed :: "('l, 'd) lua \<Rightarrow> 'l luaT_ctx \<Rightarrow> 'l" where
  "keyed lua c = (if in_array c then lua_pushinteger lua (cx_array_idx c) (cx_L c) else cx_L c)"

lemma slot_readyD:
  assumes "lua_laws lua V" "slot_ready lua V c a s k n"
  shows "a \<in> vw_live V (cx_L c)" "vw_stack V (keyed lua c) = k # L_table a # s" "vw_table V (keyed lua c) = vw_table V (cx_L c)"
    "vw_live V (keyed lua c) = vw_live V (cx_L c)" "vw_room V (keyed lua c) + (if in_array c then 1 else 0) = vw_room V (cx_L c)"
    "n \<le> vw_room V (keyed lua c)" "plain_key lua k" "\<not> in_array c \<Longrightarrow> cx_cur_state c = JPS_IN_TABLE \<and> 0 < cx_key_lvl c"
proof -
  have r: "in_array c \<Longrightarrow> 0 < vw_room V (cx_L c)" using assms(2) unfolding slot_ready_def by auto
  note p = lua_pushesD [OF lua_lawsD(3) [OF assms(1)]]
  show "a \<in> vw_live V (cx_L c)" "vw_stack V (keyed lua c) = k # L_table a # s" "vw_table V (keyed lua c) = vw_table V (cx_L c)"
    "vw_live V (keyed lua c) = vw_live V (cx_L c)" "\<not> in_array c \<Longrightarrow> cx_cur_state c = JPS_IN_TABLE \<and> 0 < cx_key_lvl c"
    using assms(2) p [of "cx_L c"] r unfolding slot_ready_def keyed_def by (auto split: if_splits)
  have "in_array c \<Longrightarrow> Suc (vw_room V (keyed lua c)) = vw_room V (cx_L c)" using p(4) [OF r] by (simp add: keyed_def)
  then show "vw_room V (keyed lua c) + (if in_array c then 1 else 0) = vw_room V (cx_L c)" "n \<le> vw_room V (keyed lua c)"
    using assms(2) by (cases "in_array c"; simp add: slot_ready_def keyed_def; linarith)+
  show "plain_key lua k" using assms(2) unfolding slot_ready_def plain_key_def by (auto split: if_splits)
qed

lemma store_scalar_ok:
  assumes laws: "lua_laws lua V" and r: "slot_ready lua V c a s k n" "1 \<le> n" and p: "lua_pushes V v f"
  shows "\<exists>c'. store_scalar lua (\<lambda>L. lua_settable lua (- 3) (f L)) c = (True, c') \<and> stored V c c' a s k v
    \<and> vw_live V (cx_L c') = vw_live V (cx_L c)"
proof -
  note K = slot_readyD [OF laws r(1)]
  have "0 < vw_room V (keyed lua c)" using K(6) r(2) by simp
  note P = lua_pushesD [OF p this]
  have S: "vw_stack V (lua_settable lua (- 3) (f (keyed lua c))) = L_table a # s
    \<and> vw_table V (lua_settable lua (- 3) (f (keyed lua c))) = (vw_table V (f (keyed lua c)))(a := (vw_table V (f (keyed lua c)) a)(k := v))
    \<and> vw_live V (lua_settable lua (- 3) (f (keyed lua c))) = vw_live V (f (keyed lua c))
    \<and> vw_room V (lua_settable lua (- 3) (f (keyed lua c))) = vw_room V (f (keyed lua c)) + 2"
    by (rule lua_lawsD(7) [OF laws]) (use P K in simp_all)
  let ?c = "if in_array c then c\<lparr>cx_L := lua_settable lua (- 3) (f (keyed lua c)), cx_array_idx := cx_array_idx c + 1\<rparr>
    else c\<lparr>cx_L := lua_settable lua (- 3) (f (keyed lua c)), cx_key_lvl := cx_key_lvl c - 1\<rparr>"
  have "store_scalar lua (\<lambda>L. lua_settable lua (- 3) (f L)) c = (True, ?c)"
    using K(8) by (auto simp: store_scalar_def keyed_def in_array_def)
  moreover have "stored V c ?c a s k v" using S P K(3-5) by (auto simp: stored_def in_array_def split: if_splits)
  moreover have "vw_live V (cx_L ?c) = vw_live V (cx_L c)" using S P K(4) by simp
  ultimately show ?thesis by blast
qed

lemma scalar_done:
  assumes "lua_laws lua V" "slot_ready lua V c a s k n" "1 \<le> n" "lua_pushes V v f"
    and "json_parser_cb lua ty val c = Inr (store_scalar lua (\<lambda>L. lua_settable lua (- 3) (f L)) c)"
  shows "\<exists>c' v'. deliver (Some (json_parser_cb lua)) [(ty, val)] c = Inr (True, c') \<and> stored V c c' a s k v' \<and> v' = v"
  using store_scalar_ok [OF assms(1-4)] assms(5) by (auto simp: if_ok_def)

text \<open>A container: what lies between its two events starts with an empty table on top.\<close>

definition opened :: "('l, 'd) lua_view \<Rightarrow> 'l \<Rightarrow> 'l \<Rightarrow> 'd lval list \<Rightarrow> nat \<Rightarrow> bool" where
  "opened V L L' s b \<longleftrightarrow> b \<notin> vw_live V L \<and> vw_stack V L' = L_table b # s \<and> vw_live V L' = insert b (vw_live V L)
     \<and> vw_table V L' = (vw_table V L)(b := (\<lambda>_. L_nil)) \<and> Suc (vw_room V L') = vw_room V L"

lemma newtable_opened:
  assumes "lua_laws lua V" "0 < vw_room V L"
  shows "\<exists>b. opened V L (lua_newtable lua L) (vw_stack V L) b"
  using lua_lawsD(6) [OF assms(1), of L] assms(2) unfolding opened_def by blast

text \<open>
  The end of a container brings back what its beginning saved, and stores the table. \<open>c1\<close> is the
  context at its first inner event and \<open>c2\<close> the one at its last event.
\<close>

lemma close_ok:
  assumes laws: "lua_laws lua V" and r: "slot_ready lua V c a s k n" "1 \<le> n"
    and o: "opened V (keyed lua c) L1 (vw_stack V (keyed lua c)) b"
    and st: "vw_stack V L2 = L_table b # vw_stack V (keyed lua c)" "vw_room V L2 = vw_room V L1"
    and lv: "vw_live V L1 \<subseteq> vw_live V L2" "\<forall>x \<in> vw_live V L1. x \<noteq> b \<longrightarrow> vw_table V L2 x = vw_table V L1 x"
    and c2: "cx_cur_state c2 = cx_cur_state c" "cx_state_stack c2 = cx_state_stack c" "cx_array_stack c2 = cx_array_stack c"
      "cx_array_idx c2 = cx_array_idx c + (if in_array c then 1 else 0)" "cx_key_lvl c2 = cx_key_lvl c" "cx_L c2 = L2"
  shows "\<exists>c'. end_table lua c2 = (True, c') \<and> stored V c c' a s k (L_table b)
    \<and> vw_live V (cx_L c') = vw_live V L2 \<and> (\<forall>x. x \<noteq> a \<longrightarrow> vw_table V (cx_L c') x = vw_table V L2 x)
    \<and> a \<in> vw_live V (cx_L c) \<and> b \<notin> vw_live V (cx_L c) \<and> vw_live V L1 = insert b (vw_live V (cx_L c))"
proof -
  note K = slot_readyD [OF laws r(1)]
  have ab: "a \<noteq> b" "b \<notin> vw_live V (cx_L c)" "vw_live V L1 = insert b (vw_live V (cx_L c))"
    using o K(1,4) by (auto simp: opened_def)
  have S: "vw_stack V (lua_settable lua (- 3) L2) = L_table a # s
    \<and> vw_table V (lua_settable lua (- 3) L2) = (vw_table V L2)(a := (vw_table V L2 a)(k := L_table b))
    \<and> vw_live V (lua_settable lua (- 3) L2) = vw_live V L2
    \<and> vw_room V (lua_settable lua (- 3) L2) = vw_room V L2 + 2"
    by (rule lua_lawsD(7) [OF laws]) (use st K lv ab in auto)
  have unchanged: "vw_table V L2 x = vw_table V (cx_L c) x" if "x \<in> vw_live V (cx_L c)" for x
    using that lv(2) ab o K(3) by (auto simp: opened_def)
  have room: "vw_room V L2 + 2 = vw_room V (cx_L c) + (if in_array c then 0 else 1)"
    using o K(5) st(2) by (simp add: opened_def split: if_splits)
  let ?c = "if in_array c then c2\<lparr>cx_L := lua_settable lua (- 3) L2\<rparr>
    else c2\<lparr>cx_L := lua_settable lua (- 3) L2, cx_key_lvl := cx_key_lvl c - 1\<rparr>"
  have "end_table lua c2 = (True, ?c)"
    using K(8) c2 by (auto simp: end_table_def in_array_def)
  moreover have "stored V c ?c a s k (L_table b)"
    using S room unchanged K(1) lv(1) ab c2 by (auto simp: stored_def in_array_def split: if_splits)
  moreover have "vw_live V (cx_L ?c) = vw_live V L2" "\<forall>x. x \<noteq> a \<longrightarrow> vw_table V (cx_L ?c) x = vw_table V L2 x" using S by auto
  ultimately show ?thesis using K(1) ab by blast
qed

section \<open>Whole trees\<close>

fun array_from :: "('l, 'd) lua \<Rightarrow> ('d lval \<Rightarrow> 'd lval) \<Rightarrow> int \<Rightarrow> 'd lval list \<Rightarrow> 'd lval \<Rightarrow> 'd lval" where
  "array_from lua f i [] = f"
| "array_from lua f i (v # vs) = array_from lua (f(L_number (number_of_int lua i) := v)) (i + 1) vs"

definition object_from :: "('d lval \<Rightarrow> 'd lval) \<Rightarrow> (u8 list \<times> 'd lval) list \<Rightarrow> 'd lval \<Rightarrow> 'd lval" where
  "object_from f kvs = foldl (\<lambda>f (k, v). f(L_string k := v)) f kvs"

text \<open>Several values have gone into the table on top.\<close>

definition filled :: "('l, 'd) lua_view \<Rightarrow> 'l luaT_ctx \<Rightarrow> 'l luaT_ctx \<Rightarrow> nat \<Rightarrow> 'd lval list \<Rightarrow> ('d lval \<Rightarrow> 'd lval) \<Rightarrow> nat \<Rightarrow> bool" where
  "filled V c c' a s g n \<longleftrightarrow>
     cx_cur_state c' = cx_cur_state c \<and> cx_state_stack c' = cx_state_stack c \<and> cx_array_stack c' = cx_array_stack c
   \<and> cx_array_idx c' = cx_array_idx c + int n \<and> cx_key_lvl c' = cx_key_lvl c
   \<and> vw_stack V (cx_L c') = L_table a # s \<and> vw_room V (cx_L c') = vw_room V (cx_L c)
   \<and> vw_live V (cx_L c) \<subseteq> vw_live V (cx_L c') \<and> vw_table V (cx_L c') a = g
   \<and> (\<forall>x \<in> vw_live V (cx_L c). x \<noteq> a \<longrightarrow> vw_table V (cx_L c') x = vw_table V (cx_L c) x)"

text \<open>An index that comes back unchanged from a \<open>char\<close>.\<close>

definition small_index :: "int \<Rightarrow> bool" where
  "small_index i \<longleftrightarrow> - 128 \<le> i \<and> i \<le> 127"

abbreviation new_tables :: "('l, 'd) lua_view \<Rightarrow> 'l luaT_ctx \<Rightarrow> 'l luaT_ctx \<Rightarrow> nat set" where
  "new_tables V c c' \<equiv> vw_live V (cx_L c') - vw_live V (cx_L c)"

definition tree_stores :: "('l, 'd) lua \<Rightarrow> ('l, 'd) lua_view \<Rightarrow> u8 \<Rightarrow> jtree \<Rightarrow> bool" where
  "tree_stores lua V pt t \<longleftrightarrow> (\<forall>c a s k ws. decodable t \<longrightarrow> slot_ready lua V c a s k (2 * nesting t + 1)
     \<longrightarrow> (has_array t \<longrightarrow> small_index (cx_array_idx c + (if in_array c then 1 else 0)))
     \<longrightarrow> (\<exists>c' v. deliver (Some (json_parser_cb lua)) (events False pt t ws) c = Inr (True, c') \<and> stored V c c' a s k v
            \<and> holds lua pt (vw_table V (cx_L c')) (new_tables V c c') v t ws))"

definition elems_fill :: "('l, 'd) lua \<Rightarrow> ('l, 'd) lua_view \<Rightarrow> u8 \<Rightarrow> elems \<Rightarrow> bool" where
  "elems_fill lua V pt es \<longleftrightarrow> (\<forall>c a s. decodable_elems es \<longrightarrow> in_array c \<longrightarrow> 0 \<le> cx_key_lvl c \<longrightarrow> vw_stack V (cx_L c) = L_table a # s
     \<longrightarrow> a \<in> vw_live V (cx_L c) \<longrightarrow> 2 * nesting_elems es + 2 \<le> vw_room V (cx_L c)
     \<longrightarrow> (has_array_elems es \<longrightarrow> - 128 \<le> cx_array_idx c \<and> cx_array_idx c + int (elem_count es) \<le> 127)
     \<longrightarrow> (\<exists>c' vs. deliver (Some (json_parser_cb lua)) (events_elems False pt es) c = Inr (True, c') \<and> length vs = elem_count es
            \<and> filled V c c' a s (array_from lua (vw_table V (cx_L c) a) (cx_array_idx c) vs) (elem_count es)
            \<and> holds_elems lua pt (vw_table V (cx_L c')) (new_tables V c c') vs es))"

definition members_fill :: "('l, 'd) lua \<Rightarrow> ('l, 'd) lua_view \<Rightarrow> u8 \<Rightarrow> members \<Rightarrow> bool" where
  "members_fill lua V pt ms \<longleftrightarrow> (\<forall>c a s. decodable_members ms \<longrightarrow> cx_cur_state c = JPS_IN_TABLE \<longrightarrow> 0 \<le> cx_key_lvl c
     \<longrightarrow> vw_stack V (cx_L c) = L_table a # s \<longrightarrow> a \<in> vw_live V (cx_L c) \<longrightarrow> 2 * nesting_members ms + 2 \<le> vw_room V (cx_L c)
     \<longrightarrow> (has_array_members ms \<longrightarrow> small_index (cx_array_idx c))
     \<longrightarrow> (\<exists>c' kvs. deliver (Some (json_parser_cb lua)) (events_members False pt ms) c = Inr (True, c')
            \<and> filled V c c' a s (object_from (vw_table V (cx_L c) a) kvs) 0
            \<and> holds_members lua pt (vw_table V (cx_L c')) (new_tables V c c') kvs ms))"

lemma scalars_store:
  assumes laws: "lua_laws lua V"
  shows "tree_stores lua V pt T_null" "tree_stores lua V pt T_true" "tree_stores lua V pt T_false"
    "tree_stores lua V pt (T_int neg n)" "tree_stores lua V pt (T_float neg n f e)" "tree_stores lua V pt (T_str cs)"
proof -
  note P = lua_lawsD(1-5) [OF laws]
  show "tree_stores lua V pt T_null" "tree_stores lua V pt T_true" "tree_stores lua V pt T_false"
    "tree_stores lua V pt (T_int neg n)" "tree_stores lua V pt (T_float neg n f e)"
    unfolding tree_stores_def
    by (intro allI impI; drule scalar_done [OF laws]; (rule P | force simp: json_parser_cb_def arg_value_def | simp))+
  show "tree_stores lua V pt (T_str cs)" unfolding tree_stores_def
  proof (intro allI impI)
    fix c a s k ws
    assume d: "decodable (T_str cs)" and r: "slot_ready lua V c a s k (2 * nesting (T_str cs) + 1)"
    have cb: "json_parser_cb lua JSON_T_STRING (Some (JV_str (str_bytes cs))) c
      = Inr (store_scalar lua (\<lambda>L. lua_settable lua (- 3) (lua_pushlstring lua (str_bytes cs) L)) c)"
    proof -
      have "json_parser_special_type lua (str_bytes cs) = (\<lambda>L. lua_settable lua (- 3) (lua_pushlstring lua (str_bytes cs) L))"
        using d by (simp add: json_parser_special_type_def fun_eq_iff)
      then show ?thesis by (simp add: json_parser_cb_def)
    qed
    show "\<exists>c' v. deliver (Some (json_parser_cb lua)) (events False pt (T_str cs) ws) c = Inr (True, c') \<and> stored V c c' a s k v
        \<and> holds lua pt (vw_table V (cx_L c')) (new_tables V c c') v (T_str cs) ws"
      using scalar_done [OF laws r _ P(5) cb] by auto
  qed
qed

text \<open>Values one after the other.\<close>

lemma filled_live: "filled V c c' a s g n \<Longrightarrow> vw_live V (cx_L c) \<subseteq> vw_live V (cx_L c')"
  by (simp add: filled_def)

lemma stored_then_filled:
  assumes "stored V c d a s k v" "filled V d e a s g n" "in_array c" "a \<in> vw_live V (cx_L c)"
  shows "filled V c e a s g (Suc n)"
  using assms unfolding stored_def filled_def in_array_def by auto

lemma elems_Last:
  fixes V :: "('l, 'd) lua_view"
  assumes "tree_stores lua V pt t"
  shows "elems_fill lua V pt (Last ws1 t ws2)"
  unfolding elems_fill_def
proof (intro allI impI)
  fix c :: "'l luaT_ctx" and a s
  assume d: "decodable_elems (Last ws1 t ws2)" and c: "in_array c" "vw_stack V (cx_L c) = L_table a # s" "a \<in> vw_live V (cx_L c)"
    and lvl: "0 \<le> cx_key_lvl c"
    and room: "2 * nesting_elems (Last ws1 t ws2) + 2 \<le> vw_room V (cx_L c)"
    and i: "has_array_elems (Last ws1 t ws2) \<longrightarrow> - 128 \<le> cx_array_idx c \<and> cx_array_idx c + int (elem_count (Last ws1 t ws2)) \<le> 127"
  have r: "slot_ready lua V c a s (L_number (number_of_int lua (cx_array_idx c))) (2 * nesting t + 1)"
    using c lvl room by (simp add: slot_ready_def)
  have "has_array t \<longrightarrow> small_index (cx_array_idx c + (if in_array c then 1 else 0))" using i c(1) by (auto simp: small_index_def)
  with assms d r obtain c' v where v: "deliver (Some (json_parser_cb lua)) (events False pt t ws2) c = Inr (True, c')"
    "stored V c c' a s (L_number (number_of_int lua (cx_array_idx c))) v"
    "holds lua pt (vw_table V (cx_L c')) (new_tables V c c') v t ws2"
    unfolding tree_stores_def by fastforce
  have "filled V c c' a s (array_from lua (vw_table V (cx_L c) a) (cx_array_idx c) [v]) 1"
    using v(2) c(1) by (simp add: stored_def filled_def)
  then show "\<exists>c' vs. deliver (Some (json_parser_cb lua)) (events_elems False pt (Last ws1 t ws2)) c = Inr (True, c')
      \<and> length vs = elem_count (Last ws1 t ws2)
      \<and> filled V c c' a s (array_from lua (vw_table V (cx_L c) a) (cx_array_idx c) vs) (elem_count (Last ws1 t ws2))
      \<and> holds_elems lua pt (vw_table V (cx_L c')) (new_tables V c c') vs (Last ws1 t ws2)"
    using v(1,3) by (intro exI [of _ c'] exI [of _ "[v]"]) simp
qed

lemma elems_More:
  fixes V :: "('l, 'd) lua_view"
  assumes t: "tree_stores lua V pt t" and es: "elems_fill lua V pt es"
  shows "elems_fill lua V pt (More ws1 t ws2 es)"
  unfolding elems_fill_def
proof (intro allI impI)
  fix c :: "'l luaT_ctx" and a s
  let ?k = "L_number (number_of_int lua (cx_array_idx c))"
  assume d: "decodable_elems (More ws1 t ws2 es)" and c: "in_array c" "vw_stack V (cx_L c) = L_table a # s" "a \<in> vw_live V (cx_L c)"
    and lvl: "0 \<le> cx_key_lvl c"
    and room: "2 * nesting_elems (More ws1 t ws2 es) + 2 \<le> vw_room V (cx_L c)"
    and i: "has_array_elems (More ws1 t ws2 es) \<longrightarrow> - 128 \<le> cx_array_idx c
      \<and> cx_array_idx c + int (elem_count (More ws1 t ws2 es)) \<le> 127"
  have r: "slot_ready lua V c a s ?k (2 * nesting t + 1)" using c lvl room by (simp add: slot_ready_def)
  have "has_array t \<longrightarrow> small_index (cx_array_idx c + (if in_array c then 1 else 0))" using i c(1) by (auto simp: small_index_def)
  with t d r obtain c1 v where v: "deliver (Some (json_parser_cb lua)) (events False pt t ws2) c = Inr (True, c1)"
    "stored V c c1 a s ?k v" "holds lua pt (vw_table V (cx_L c1)) (new_tables V c c1) v t ws2"
    unfolding tree_stores_def by fastforce
  note S = v(2) [unfolded stored_def]
  have c1: "in_array c1" "vw_stack V (cx_L c1) = L_table a # s" "a \<in> vw_live V (cx_L c1)" "vw_room V (cx_L c1) = vw_room V (cx_L c)"
    "cx_array_idx c1 = cx_array_idx c + 1" "vw_table V (cx_L c1) a = (vw_table V (cx_L c) a)(?k := v)" "0 \<le> cx_key_lvl c1"
    using S c lvl unfolding in_array_def by auto
  have "2 * nesting_elems es + 2 \<le> vw_room V (cx_L c1)" using room c1(4) by simp
  moreover have "has_array_elems es \<longrightarrow> - 128 \<le> cx_array_idx c1 \<and> cx_array_idx c1 + int (elem_count es) \<le> 127" using i c1(5) by auto
  ultimately obtain c2 vs where w: "deliver (Some (json_parser_cb lua)) (events_elems False pt es) c1 = Inr (True, c2)"
    "length vs = elem_count es" "filled V c1 c2 a s (array_from lua (vw_table V (cx_L c1) a) (cx_array_idx c1) vs) (elem_count es)"
    "holds_elems lua pt (vw_table V (cx_L c2)) (new_tables V c1 c2) vs es"
    using es d c1(1-3,7) unfolding elems_fill_def decodable_elems.simps by blast
  note F = w(3) [unfolded filled_def]
  have live: "vw_live V (cx_L c) \<subseteq> vw_live V (cx_L c1)" "vw_live V (cx_L c1) \<subseteq> vw_live V (cx_L c2)" using S F by blast+
  have "holds lua pt (vw_table V (cx_L c2)) (new_tables V c c2) v t ws2"
    by (rule holds_mono(1) [OF v(3)]) (use live F c(3) in auto)
  moreover have "holds_elems lua pt (vw_table V (cx_L c2)) (new_tables V c c2) vs es"
    by (rule holds_mono(2) [OF w(4)]) (use live in auto)
  moreover have "filled V c c2 a s (array_from lua (vw_table V (cx_L c) a) (cx_array_idx c) (v # vs)) (Suc (elem_count es))"
    using stored_then_filled [OF v(2) w(3) c(1,3)] c1(5,6) by simp
  ultimately show "\<exists>c' vs. deliver (Some (json_parser_cb lua)) (events_elems False pt (More ws1 t ws2 es)) c = Inr (True, c')
      \<and> length vs = elem_count (More ws1 t ws2 es)
      \<and> filled V c c' a s (array_from lua (vw_table V (cx_L c) a) (cx_array_idx c) vs) (elem_count (More ws1 t ws2 es))
      \<and> holds_elems lua pt (vw_table V (cx_L c')) (new_tables V c c') vs (More ws1 t ws2 es)"
    using v(1) w(1,2) by (intro exI [of _ c2] exI [of _ "v # vs"]) (simp add: deliver_append if_ok_def)
qed

lemma filled_trans:
  "filled V c d a s g 0 \<Longrightarrow> filled V d e a s h n \<Longrightarrow> a \<in> vw_live V (cx_L c) \<Longrightarrow> filled V c e a s h n"
  unfolding filled_def by auto

lemma member_ok:
  fixes V :: "('l, 'd) lua_view" and c :: "'l luaT_ctx"
  assumes laws: "lua_laws lua V" and t: "tree_stores lua V pt t" "decodable t"
    and c: "cx_cur_state c = JPS_IN_TABLE" "0 \<le> cx_key_lvl c" "vw_stack V (cx_L c) = L_table a # s" "a \<in> vw_live V (cx_L c)"
    and room: "2 * nesting t + 2 \<le> vw_room V (cx_L c)" and i: "has_array t \<longrightarrow> small_index (cx_array_idx c)"
  shows "\<exists>c' v. deliver (Some (json_parser_cb lua)) ((JSON_T_KEY, Some (JV_str k)) # events False pt t ws) c = Inr (True, c')
    \<and> filled V c c' a s ((vw_table V (cx_L c) a)(L_string k := v)) 0 \<and> holds lua pt (vw_table V (cx_L c')) (new_tables V c c') v t ws"
proof -
  have "0 < vw_room V (cx_L c)" using room by simp
  note P = lua_pushesD [OF lua_lawsD(5) [OF laws, of k] this]
  let ?c = "c\<lparr>cx_L := lua_pushlstring lua k (cx_L c), cx_key_lvl := cx_key_lvl c + 1\<rparr>"
  have arr: "\<not> in_array c" "\<not> in_array ?c" using c(1) by (simp_all add: in_array_def)
  have "slot_ready lua V ?c a s (L_string k) (2 * nesting t + 1)"
    using P c room arr(2) by (simp add: slot_ready_def)
  moreover have "has_array t \<longrightarrow> small_index (cx_array_idx ?c + (if in_array ?c then 1 else 0))" using i arr(2) by simp
  ultimately obtain c' v where v: "deliver (Some (json_parser_cb lua)) (events False pt t ws) ?c = Inr (True, c')"
    "stored V ?c c' a s (L_string k) v" "holds lua pt (vw_table V (cx_L c')) (new_tables V ?c c') v t ws"
    using t unfolding tree_stores_def by fastforce
  have "filled V c c' a s ((vw_table V (cx_L c) a)(L_string k := v)) 0"
    using v(2) P arr(2) by (auto simp: stored_def filled_def)
  moreover have "new_tables V ?c c' = new_tables V c c'" using P by simp
  ultimately show ?thesis using v(1,3) by (intro exI [of _ c'] exI [of _ v]) (simp add: json_parser_cb_def if_ok_def)
qed

lemma members_Last:
  fixes V :: "('l, 'd) lua_view"
  assumes "lua_laws lua V" "tree_stores lua V pt t"
  shows "members_fill lua V pt (Last_m ws1 k ws2 ws3 t ws4)"
  unfolding members_fill_def
proof (intro allI impI)
  fix c :: "'l luaT_ctx" and a s
  assume "decodable_members (Last_m ws1 k ws2 ws3 t ws4)" "cx_cur_state c = JPS_IN_TABLE" "0 \<le> cx_key_lvl c"
    "vw_stack V (cx_L c) = L_table a # s" "a \<in> vw_live V (cx_L c)"
    "2 * nesting_members (Last_m ws1 k ws2 ws3 t ws4) + 2 \<le> vw_room V (cx_L c)"
    "has_array_members (Last_m ws1 k ws2 ws3 t ws4) \<longrightarrow> small_index (cx_array_idx c)"
  then obtain c' v where "deliver (Some (json_parser_cb lua)) ((JSON_T_KEY, Some (JV_str (str_bytes k))) # events False pt t ws4) c = Inr (True, c')"
    "filled V c c' a s ((vw_table V (cx_L c) a)(L_string (str_bytes k) := v)) 0"
    "holds lua pt (vw_table V (cx_L c')) (new_tables V c c') v t ws4"
    using member_ok [OF assms, of c a s "str_bytes k" ws4] by auto
  then show "\<exists>c' kvs. deliver (Some (json_parser_cb lua)) (events_members False pt (Last_m ws1 k ws2 ws3 t ws4)) c = Inr (True, c')
      \<and> filled V c c' a s (object_from (vw_table V (cx_L c) a) kvs) 0
      \<and> holds_members lua pt (vw_table V (cx_L c')) (new_tables V c c') kvs (Last_m ws1 k ws2 ws3 t ws4)"
    by (intro exI [of _ c'] exI [of _ "[(str_bytes k, v)]"]) (simp add: object_from_def)
qed

lemma members_More:
  fixes V :: "('l, 'd) lua_view"
  assumes laws: "lua_laws lua V" and t: "tree_stores lua V pt t" and ms: "members_fill lua V pt ms"
  shows "members_fill lua V pt (More_m ws1 k ws2 ws3 t ws4 ms)"
  unfolding members_fill_def
proof (intro allI impI)
  fix c :: "'l luaT_ctx" and a s
  assume d: "decodable_members (More_m ws1 k ws2 ws3 t ws4 ms)" and c: "cx_cur_state c = JPS_IN_TABLE" "0 \<le> cx_key_lvl c"
    "vw_stack V (cx_L c) = L_table a # s" "a \<in> vw_live V (cx_L c)"
    and room: "2 * nesting_members (More_m ws1 k ws2 ws3 t ws4 ms) + 2 \<le> vw_room V (cx_L c)"
    and i: "has_array_members (More_m ws1 k ws2 ws3 t ws4 ms) \<longrightarrow> small_index (cx_array_idx c)"
  have pre: "decodable t" "decodable_members ms" "2 * nesting t + 2 \<le> vw_room V (cx_L c)"
    "2 * nesting_members ms + 2 \<le> vw_room V (cx_L c)"
    "has_array t \<longrightarrow> small_index (cx_array_idx c)" "has_array_members ms \<longrightarrow> small_index (cx_array_idx c)"
    using d room i by simp_all
  obtain c1 v where v: "deliver (Some (json_parser_cb lua)) ((JSON_T_KEY, Some (JV_str (str_bytes k))) # events False pt t ws4) c = Inr (True, c1)"
    "filled V c c1 a s ((vw_table V (cx_L c) a)(L_string (str_bytes k) := v)) 0"
    "holds lua pt (vw_table V (cx_L c1)) (new_tables V c c1) v t ws4"
    using member_ok [OF laws t pre(1) c pre(3,5), of "str_bytes k" ws4] by auto
  note S = v(2) [unfolded filled_def]
  have c1: "cx_cur_state c1 = JPS_IN_TABLE" "0 \<le> cx_key_lvl c1" "vw_stack V (cx_L c1) = L_table a # s" "a \<in> vw_live V (cx_L c1)"
    "vw_room V (cx_L c1) = vw_room V (cx_L c)" "cx_array_idx c1 = cx_array_idx c"
    "vw_table V (cx_L c1) a = (vw_table V (cx_L c) a)(L_string (str_bytes k) := v)" using S c by auto
  obtain c2 us where w: "deliver (Some (json_parser_cb lua)) (events_members False pt ms) c1 = Inr (True, c2)"
    "filled V c1 c2 a s (object_from (vw_table V (cx_L c1) a) us) 0"
    "holds_members lua pt (vw_table V (cx_L c2)) (new_tables V c1 c2) us ms"
    using ms [unfolded members_fill_def, rule_format, OF pre(2) c1(1-4)] pre(4,6) c1(5,6) by auto
  note F = w(2) [unfolded filled_def]
  have live: "vw_live V (cx_L c) \<subseteq> vw_live V (cx_L c1)" "vw_live V (cx_L c1) \<subseteq> vw_live V (cx_L c2)" using S F by blast+
  have "holds lua pt (vw_table V (cx_L c2)) (new_tables V c c2) v t ws4"
    by (rule holds_mono(1) [OF v(3)]) (use live F c(4) in auto)
  moreover have "holds_members lua pt (vw_table V (cx_L c2)) (new_tables V c c2) us ms"
    by (rule holds_mono(3) [OF w(3)]) (use live in auto)
  moreover have "filled V c c2 a s (object_from (vw_table V (cx_L c) a) ((str_bytes k, v) # us)) 0"
    using filled_trans [OF v(2) w(2) c(4)] c1(7) by (simp add: object_from_def)
  ultimately show "\<exists>c' kvs. deliver (Some (json_parser_cb lua)) (events_members False pt (More_m ws1 k ws2 ws3 t ws4 ms)) c = Inr (True, c')
      \<and> filled V c c' a s (object_from (vw_table V (cx_L c) a) kvs) 0
      \<and> holds_members lua pt (vw_table V (cx_L c')) (new_tables V c c') kvs (More_m ws1 k ws2 ws3 t ws4 ms)"
    using v(1) w(1) by (intro exI [of _ c2] exI [of _ "(str_bytes k, v) # us"])
      (simp add: deliver_append [of _ "(JSON_T_KEY, Some (JV_str (str_bytes k))) # events False pt t ws4", simplified] if_ok_def)
qed

text \<open>Containers.\<close>

lemma begin_table_eq:
  "begin_table lua c = c\<lparr>cx_L := lua_newtable lua (keyed lua c), cx_array_idx := cx_array_idx c + (if in_array c then 1 else 0),
     cx_state_stack := cx_cur_state c # cx_state_stack c\<rparr>"
  by (cases c) (simp add: begin_table_def keyed_def in_array_def Let_def)

lemma array_from_other:
  assumes "\<And>j. j < length vs \<Longrightarrow> k \<noteq> L_number (number_of_int lua (i + int j))"
  shows "array_from lua f i vs k = f k"
  using assms
proof (induction vs arbitrary: f i)
  case (Cons v vs)
  have "k \<noteq> L_number (number_of_int lua i)" using Cons.prems [of 0] by simp
  moreover have "k \<noteq> L_number (number_of_int lua (i + 1 + int j))" if "j < length vs" for j
    using Cons.prems [of "Suc j"] that by (simp add: algebra_simps)
  ultimately show ?case using Cons.IH by simp
qed simp

lemma array_from_nth:
  assumes "inj_on (number_of_int lua) {1..N}" "1 \<le> i" "i + int (length vs) - 1 \<le> N" "j < length vs"
  shows "array_from lua f i vs (L_number (number_of_int lua (i + int j))) = vs ! j"
  using assms(2-)
proof (induction vs arbitrary: f i j)
  case (Cons v vs)
  show ?case
  proof (cases j)
    case 0
    have "L_number (number_of_int lua i) \<noteq> L_number (number_of_int lua (i + 1 + int m))" if "m < length vs" for m
      using inj_onD [OF assms(1), of i "i + 1 + int m"] Cons.prems that by auto
    then have "array_from lua (f(L_number (number_of_int lua i) := v)) (i + 1) vs (L_number (number_of_int lua i)) = v"
      by (subst array_from_other) auto
    then show ?thesis using 0 by simp
  next
    case (Suc m)
    then show ?thesis using Cons.IH [of "i + 1" m] Cons.prems by (simp add: algebra_simps)
  qed
qed simp

lemma array_table_from:
  assumes "inj_on (number_of_int lua) {1..2 ^ 53}" "length vs \<le> 2 ^ 53"
  shows "array_table lua vs (array_from lua (\<lambda>_. L_nil) 1 vs)"
proof -
  have len: "1 + int (length vs) - 1 \<le> 2 ^ 53" using assms(2) by simp
  have "array_from lua (\<lambda>_. L_nil) 1 vs (L_number (number_of_int lua (1 + int j))) = vs ! j" if "j < length vs" for j
    by (rule array_from_nth [OF assms(1) _ len that]) simp
  moreover have "array_from lua (\<lambda>_. L_nil) 1 vs k = L_nil" if "\<forall>i < length vs. k \<noteq> L_number (number_of_int lua (1 + int i))" for k
    by (rule array_from_other) (use that in blast)
  ultimately show ?thesis unfolding array_table_def by (simp add: add.commute)
qed

lemma object_table_from: "object_from (\<lambda>_. L_nil) kvs = object_table kvs"
proof (induction kvs rule: rev_induct)
  case Nil
  show ?case by (simp add: object_from_def object_table_def fun_eq_iff split: lval.split)
next
  case (snoc kv kvs)
  obtain k v where kv: "kv = (k, v)" by force
  have "object_from (\<lambda>_. L_nil) (kvs @ [kv]) = (object_table kvs)(L_string k := v)"
    using snoc by (simp add: object_from_def kv)
  also have "\<dots> = object_table (kvs @ [kv])"
    by (auto simp: object_table_def fun_eq_iff kv split: lval.split)
  finally show ?case .
qed

text \<open>The context right after the first event of a container, and the last event.\<close>

definition array_begun :: "('l, 'd) lua \<Rightarrow> 'l luaT_ctx \<Rightarrow> 'l luaT_ctx" where
  "array_begun lua c = c\<lparr>cx_L := lua_newtable lua (keyed lua c), cx_cur_state := JPS_IN_ARRAY,
     cx_state_stack := cx_cur_state c # cx_state_stack c, cx_array_idx := 1,
     cx_array_stack := word_of_int (cx_array_idx c + (if in_array c then 1 else 0)) # cx_array_stack c\<rparr>"

definition object_begun :: "('l, 'd) lua \<Rightarrow> 'l luaT_ctx \<Rightarrow> 'l luaT_ctx" where
  "object_begun lua c = c\<lparr>cx_L := lua_newtable lua (keyed lua c), cx_cur_state := JPS_IN_TABLE,
     cx_state_stack := cx_cur_state c # cx_state_stack c, cx_array_idx := cx_array_idx c + (if in_array c then 1 else 0)\<rparr>"

lemma begin_events:
  "json_parser_cb lua JSON_T_ARRAY_BEGIN v c = Inr (True, array_begun lua c)"
  "json_parser_cb lua JSON_T_OBJECT_BEGIN v c = Inr (True, object_begun lua c)"
  by (cases c; simp add: json_parser_cb_def begin_table_eq array_begun_def object_begun_def Let_def)+

lemma sint_small_index: "small_index i \<Longrightarrow> sint (word_of_int i :: 8 word) = i"
  by (simp add: small_index_def signed_of_int signed_take_bit_int_eq_self)

lemma container_done:
  assumes laws: "lua_laws lua V" and r: "slot_ready lua V c a s k n" "1 \<le> n"
    and o: "opened V (keyed lua c) (lua_newtable lua (keyed lua c)) (vw_stack V (keyed lua c)) b"
    and arr: "is_arr \<longrightarrow> small_index (cx_array_idx c + (if in_array c then 1 else 0))"
    and f: "filled V (if is_arr then array_begun lua c else object_begun lua c) c2 b (vw_stack V (keyed lua c)) g (if is_arr then m else 0)"
  shows "\<exists>c'. json_parser_cb lua (if is_arr then JSON_T_ARRAY_END else JSON_T_OBJECT_END) None c2 = Inr (True, c') \<and> stored V c c' a s k (L_table b)
    \<and> vw_live V (cx_L c') = vw_live V (cx_L c2) \<and> (\<forall>x. x \<noteq> a \<longrightarrow> vw_table V (cx_L c') x = vw_table V (cx_L c2) x)
    \<and> a \<in> vw_live V (cx_L c) \<and> b \<notin> vw_live V (cx_L c) \<and> vw_live V (lua_newtable lua (keyed lua c)) = insert b (vw_live V (cx_L c))"
proof -
  let ?c3 = "c2\<lparr>cx_cur_state := cx_cur_state c, cx_state_stack := cx_state_stack c, cx_array_stack := cx_array_stack c,
    cx_array_idx := cx_array_idx c + (if in_array c then 1 else 0)\<rparr>"
  note F = f [unfolded filled_def]
  have cb: "json_parser_cb lua (if is_arr then JSON_T_ARRAY_END else JSON_T_OBJECT_END) None c2 = Inr (end_table lua ?c3)"
  proof (cases is_arr)
    case True
    then have "cx_state_stack c2 = cx_cur_state c # cx_state_stack c"
      "cx_array_stack c2 = word_of_int (cx_array_idx c + (if in_array c then 1 else 0)) # cx_array_stack c"
      using F by (simp_all add: array_begun_def)
    then show ?thesis using True arr sint_small_index [of "cx_array_idx c + (if in_array c then 1 else 0)"]
      by (cases c2) (simp add: json_parser_cb_def pop_state_def pop_index_def)
  next
    case False
    then have "cx_state_stack c2 = cx_cur_state c # cx_state_stack c" "cx_array_stack c2 = cx_array_stack c"
      "cx_array_idx c2 = cx_array_idx c + (if in_array c then 1 else 0)"
      using F by (simp_all add: object_begun_def)
    then show ?thesis using False by (cases c2) (simp add: json_parser_cb_def pop_state_def)
  qed
  have "\<exists>c'. end_table lua ?c3 = (True, c') \<and> stored V c c' a s k (L_table b)
    \<and> vw_live V (cx_L c') = vw_live V (cx_L c2) \<and> (\<forall>x. x \<noteq> a \<longrightarrow> vw_table V (cx_L c') x = vw_table V (cx_L c2) x)
    \<and> a \<in> vw_live V (cx_L c) \<and> b \<notin> vw_live V (cx_L c) \<and> vw_live V (lua_newtable lua (keyed lua c)) = insert b (vw_live V (cx_L c))"
    by (rule close_ok [OF laws r o]) (use F in \<open>auto simp: array_begun_def object_begun_def split: if_splits\<close>)
  then show ?thesis unfolding cb by auto
qed

lemma filled_empty:
  assumes "opened V L (cx_L c) r b"
  shows "filled V c c b r (\<lambda>_. L_nil) 0"
  using assms by (simp add: filled_def opened_def)

text \<open>What a table \<open>b\<close> with the contents \<open>g\<close> will stand for, from the tables made since \<open>L\<close>.\<close>

definition stands_for :: "('l, 'd) lua \<Rightarrow> ('l, 'd) lua_view \<Rightarrow> u8 \<Rightarrow> 'l \<Rightarrow> 'l \<Rightarrow> nat \<Rightarrow> ('d lval \<Rightarrow> 'd lval) \<Rightarrow> jtree \<Rightarrow> bool" where
  "stands_for lua V pt L L' b g t \<longleftrightarrow> (\<forall>tb N ws. b \<in> N \<longrightarrow> tb b = g \<longrightarrow> vw_live V L' - vw_live V L \<subseteq> N
     \<longrightarrow> (\<forall>x \<in> vw_live V L' - vw_live V L. tb x = vw_table V L' x) \<longrightarrow> holds lua pt tb N (L_table b) t ws)"

lemma stands_forD:
  assumes "stands_for lua V pt L L' b g t" "b \<in> N" "tb b = g" "vw_live V L' - vw_live V L \<subseteq> N"
    and "\<And>x. x \<in> vw_live V L' - vw_live V L \<Longrightarrow> tb x = vw_table V L' x"
  shows "holds lua pt tb N (L_table b) t ws"
  using assms unfolding stands_for_def by blast

text \<open>The events of a container between its first and its last one fill the new table.\<close>

definition begun :: "bool \<Rightarrow> ('l, 'd) lua \<Rightarrow> 'l luaT_ctx \<Rightarrow> 'l luaT_ctx" where
  "begun is_arr lua c = (if is_arr then array_begun lua c else object_begun lua c)"

definition container_fills :: "('l, 'd) lua \<Rightarrow> ('l, 'd) lua_view \<Rightarrow> u8 \<Rightarrow> bool \<Rightarrow> (jtype \<times> jvalue option) list \<Rightarrow> jtree \<Rightarrow> bool" where
  "container_fills lua V pt is_arr evs t \<longleftrightarrow>
     (\<forall>c b r. decodable t \<longrightarrow> 0 \<le> cx_key_lvl c \<longrightarrow> opened V (keyed lua c) (lua_newtable lua (keyed lua c)) r b
        \<longrightarrow> 2 * nesting t \<le> vw_room V (lua_newtable lua (keyed lua c))
        \<longrightarrow> (has_array t \<longrightarrow> small_index (cx_array_idx c + (if in_array c then 1 else 0)))
        \<longrightarrow> (\<exists>c2 g m. deliver (Some (json_parser_cb lua)) evs (begun is_arr lua c) = Inr (True, c2)
              \<and> filled V (begun is_arr lua c) c2 b r g (if is_arr then m else 0)
              \<and> stands_for lua V pt (lua_newtable lua (keyed lua c)) (cx_L c2) b g t))
   \<and> (\<forall>ws. events False pt t ws = (if is_arr then JSON_T_ARRAY_BEGIN else JSON_T_OBJECT_BEGIN, None) # evs
        @ [(if is_arr then JSON_T_ARRAY_END else JSON_T_OBJECT_END, None)])
   \<and> (is_arr \<longrightarrow> has_array t)"

lemma container_stores:
  fixes V :: "('l, 'd) lua_view"
  assumes laws: "lua_laws lua V" and inner: "container_fills lua V pt is_arr evs t"
  shows "tree_stores lua V pt t"
  unfolding tree_stores_def
proof (intro allI impI)
  fix c :: "'l luaT_ctx" and a s k ws
  assume d: "decodable t" and r: "slot_ready lua V c a s k (2 * nesting t + 1)"
    and i: "has_array t \<longrightarrow> small_index (cx_array_idx c + (if in_array c then 1 else 0))"
  let ?c1 = "begun is_arr lua c" and ?L1 = "lua_newtable lua (keyed lua c)"
  note K = slot_readyD [OF laws r]
  have "0 < vw_room V (keyed lua c)" using K(6) by simp
  from newtable_opened [OF laws this] obtain b where o: "opened V (keyed lua c) ?L1 (vw_stack V (keyed lua c)) b" by blast
  have "2 * nesting t \<le> vw_room V ?L1" using o K(6) by (simp add: opened_def)
  with inner d o i r obtain c2 g m where c2: "deliver (Some (json_parser_cb lua)) evs ?c1 = Inr (True, c2)"
    and f: "filled V ?c1 c2 b (vw_stack V (keyed lua c)) g (if is_arr then m else 0)"
    and h: "stands_for lua V pt ?L1 (cx_L c2) b g t" unfolding container_fills_def slot_ready_def by blast
  have "is_arr \<longrightarrow> small_index (cx_array_idx c + (if in_array c then 1 else 0))" using inner i unfolding container_fills_def by blast
  from container_done [OF laws r _ o this f [unfolded begun_def], simplified] obtain c'
    where c': "json_parser_cb lua (if is_arr then JSON_T_ARRAY_END else JSON_T_OBJECT_END) None c2 = Inr (True, c')"
      "stored V c c' a s k (L_table b)" "vw_live V (cx_L c') = vw_live V (cx_L c2)"
      "\<And>x. x \<noteq> a \<Longrightarrow> vw_table V (cx_L c') x = vw_table V (cx_L c2) x"
      "a \<in> vw_live V (cx_L c)" "b \<notin> vw_live V (cx_L c)" "vw_live V ?L1 = insert b (vw_live V (cx_L c))"
    by auto
  have L1: "cx_L ?c1 = ?L1" by (simp add: begun_def array_begun_def object_begun_def)
  have live: "vw_live V ?L1 \<subseteq> vw_live V (cx_L c2)" "vw_table V (cx_L c2) b = g" using f L1 unfolding filled_def by auto
  have "holds lua pt (vw_table V (cx_L c')) (new_tables V c c') (L_table b) t ws"
  proof (rule stands_forD [OF h])
    show "b \<in> new_tables V c c'" using c'(3,6,7) live(1) by auto
    show "vw_table V (cx_L c') b = g" using c'(4) [of b] c'(5,6) live(2) by metis
    show "vw_live V (cx_L c2) - vw_live V ?L1 \<subseteq> new_tables V c c'" using c'(3,7) by auto
    show "vw_table V (cx_L c') x = vw_table V (cx_L c2) x" if "x \<in> vw_live V (cx_L c2) - vw_live V ?L1" for x
      using that c'(4) [of x] c'(5,7) by auto
  qed
  moreover have "deliver (Some (json_parser_cb lua)) (events False pt t ws) c = Inr (True, c')"
    using c2 c'(1) inner unfolding container_fills_def begun_def
    by (cases is_arr) (simp_all add: begin_events deliver_append if_ok_def)
  ultimately show "\<exists>c' v. deliver (Some (json_parser_cb lua)) (events False pt t ws) c = Inr (True, c') \<and> stored V c c' a s k v
      \<and> holds lua pt (vw_table V (cx_L c')) (new_tables V c c') v t ws" using c'(2) by blast
qed

lemma begun_fields [simp]:
  "cx_L (begun is_arr lua c) = lua_newtable lua (keyed lua c)" "in_array (begun True lua c)" "cx_array_idx (begun True lua c) = 1"
  "cx_key_lvl (begun is_arr lua c) = cx_key_lvl c" "cx_cur_state (begun False lua c) = JPS_IN_TABLE"
  "cx_array_idx (begun False lua c) = cx_array_idx c + (if in_array c then 1 else 0)"
  by (simp_all add: begun_def array_begun_def object_begun_def in_array_def)

lemma empty_fills:
  fixes V :: "('l, 'd) lua_view"
  shows "container_fills lua V pt True [] (T_arr0 ws0)" "container_fills lua V pt False [] (T_obj0 ws0)"
proof -
  have e: "array_table lua [] (\<lambda>_. L_nil)" "object_table [] = (\<lambda>_. L_nil :: 'd lval)"
    by (simp_all add: array_table_def object_table_def fun_eq_iff split: lval.split)
  have s: "stands_for lua V pt L L b (\<lambda>_. L_nil) (T_arr0 ws0)" "stands_for lua V pt L L b (\<lambda>_. L_nil) (T_obj0 ws0)" for L b
    using e by (simp_all add: stands_for_def)
  have f: "filled V (begun is_arr lua c) (begun is_arr lua c) b r (\<lambda>_. L_nil) 0"
    if "opened V (keyed lua c) (lua_newtable lua (keyed lua c)) r b" for c b r is_arr
    by (rule filled_empty) (use that in simp)
  show "container_fills lua V pt True [] (T_arr0 ws0)" unfolding container_fills_def
    using s(1) f by (fastforce intro: exI [of _ 0])
  show "container_fills lua V pt False [] (T_obj0 ws0)" unfolding container_fills_def
    using s(2) f by (fastforce intro: exI [of _ 0])
qed

lemma array_fills:
  assumes laws: "lua_laws lua V" and es: "elems_fill lua V pt es"
  shows "container_fills lua V pt True (events_elems False pt es) (T_arr es)"
  unfolding container_fills_def
proof (intro conjI allI impI, goal_cases)
  case (1 c b r)
  let ?c1 = "begun True lua c" and ?L1 = "lua_newtable lua (keyed lua c)"
  have o: "vw_stack V (cx_L ?c1) = L_table b # r" "b \<in> vw_live V (cx_L ?c1)" "vw_table V ?L1 b = (\<lambda>_. L_nil)"
    using 1(3) by (auto simp: opened_def)
  have pre: "decodable_elems es" "2 * nesting_elems es + 2 \<le> vw_room V (cx_L ?c1)"
    "has_array_elems es \<longrightarrow> - 128 \<le> cx_array_idx ?c1 \<and> cx_array_idx ?c1 + int (elem_count es) \<le> 127"
    using 1(1,4) by auto
  obtain c2 vs where c2: "deliver (Some (json_parser_cb lua)) (events_elems False pt es) ?c1 = Inr (True, c2)" "length vs = elem_count es"
    "filled V ?c1 c2 b r (array_from lua (vw_table V (cx_L ?c1) b) (cx_array_idx ?c1) vs) (elem_count es)"
    "holds_elems lua pt (vw_table V (cx_L c2)) (new_tables V ?c1 c2) vs es"
    using es [unfolded elems_fill_def, rule_format, OF pre(1) _ _ o(1,2) pre(2)] pre(3) 1(2) by auto
  have "elem_count es \<le> 2 ^ 53" using 1(1) by (simp split: if_splits)
  then have a: "array_table lua vs (array_from lua (\<lambda>_. L_nil) 1 vs)"
    using array_table_from [OF lua_lawsD(8) [OF laws]] c2(2) by simp
  have "stands_for lua V pt ?L1 (cx_L c2) b (array_from lua (\<lambda>_. L_nil) 1 vs) (T_arr es)"
    unfolding stands_for_def
  proof (intro allI impI)
    fix tb N ws
    assume "b \<in> N" "tb b = array_from lua (\<lambda>_. L_nil) 1 vs" "vw_live V (cx_L c2) - vw_live V ?L1 \<subseteq> N"
      "\<forall>x \<in> vw_live V (cx_L c2) - vw_live V ?L1. tb x = vw_table V (cx_L c2) x"
    moreover from this have "holds_elems lua pt tb N vs es" by (intro holds_mono(2) [OF c2(4)]) simp_all
    ultimately show "holds lua pt tb N (L_table b) (T_arr es) ws" using a by auto
  qed
  then show ?case using c2(1,3) o(3)
    by (intro exI [of _ c2] exI [of _ "array_from lua (\<lambda>_. L_nil) 1 vs"] exI [of _ "elem_count es"]) simp
qed simp_all

lemma object_fills:
  assumes ms: "members_fill lua V pt ms"
  shows "container_fills lua V pt False (events_members False pt ms) (T_obj ms)"
  unfolding container_fills_def
proof (intro conjI allI impI, goal_cases)
  case (1 c b r)
  let ?c1 = "begun False lua c" and ?L1 = "lua_newtable lua (keyed lua c)"
  have o: "vw_stack V (cx_L ?c1) = L_table b # r" "b \<in> vw_live V (cx_L ?c1)" "vw_table V ?L1 b = (\<lambda>_. L_nil)"
    using 1(3) by (auto simp: opened_def)
  have pre: "decodable_members ms" "2 * nesting_members ms + 2 \<le> vw_room V (cx_L ?c1)"
    "has_array_members ms \<longrightarrow> small_index (cx_array_idx ?c1)" using 1(1,4,5) by auto
  obtain c2 kvs where c2: "deliver (Some (json_parser_cb lua)) (events_members False pt ms) ?c1 = Inr (True, c2)"
    "filled V ?c1 c2 b r (object_from (vw_table V (cx_L ?c1) b) kvs) 0"
    "holds_members lua pt (vw_table V (cx_L c2)) (new_tables V ?c1 c2) kvs ms"
    using ms [unfolded members_fill_def, rule_format, OF pre(1) _ _ o(1,2) pre(2)] pre(3) 1(2) by auto
  have "stands_for lua V pt ?L1 (cx_L c2) b (object_table kvs) (T_obj ms)"
    unfolding stands_for_def
  proof (intro allI impI)
    fix tb N ws
    assume "b \<in> N" "tb b = object_table kvs" "vw_live V (cx_L c2) - vw_live V ?L1 \<subseteq> N"
      "\<forall>x \<in> vw_live V (cx_L c2) - vw_live V ?L1. tb x = vw_table V (cx_L c2) x"
    moreover from this have "holds_members lua pt tb N kvs ms" by (intro holds_mono(3) [OF c2(3)]) simp_all
    ultimately show "holds lua pt tb N (L_table b) (T_obj ms) ws" by auto
  qed
  then show ?case using c2(1,2) o(3) by (intro exI [of _ c2] exI [of _ "object_table kvs"] exI [of _ 0]) (simp add: object_table_from)
qed simp_all

lemma all_store:
  assumes "lua_laws lua V"
  shows "tree_stores lua V pt t" "elems_fill lua V pt es" "members_fill lua V pt ms"
  by (induction t and es and ms)
    (auto intro: scalars_store [OF assms] container_stores [OF assms empty_fills(1)] container_stores [OF assms empty_fills(2)]
      container_stores [OF assms array_fills [OF assms]] container_stores [OF assms object_fills]
      elems_Last elems_More members_Last [OF assms] members_More [OF assms])

section \<open>Decoding a text\<close>

lemma root_done:
  assumes laws: "lua_laws lua V" and t: "container_fills lua V pt is_arr evs t" "decodable t"
    and room: "2 * nesting t < vw_room V L"
  shows "\<exists>c b. deliver (Some (json_parser_cb lua)) (events False pt t ws) (luaT_json_parser_ctx_create L) = Inr (True, c)
    \<and> vw_stack V (cx_L c) = L_table b # vw_stack V L
    \<and> holds lua pt (vw_table V (cx_L c)) (vw_live V (cx_L c) - vw_live V L) (L_table b) t ws
    \<and> (\<forall>x \<in> vw_live V L. vw_table V (cx_L c) x = vw_table V L x)"
proof -
  let ?c = "luaT_json_parser_ctx_create L" and ?L1 = "lua_newtable lua L"
  have k: "keyed lua ?c = L" "0 \<le> cx_key_lvl ?c" "\<not> in_array ?c" "cx_array_idx ?c = 1"
    by (simp_all add: keyed_def in_array_def luaT_json_parser_ctx_create_def)
  have "0 < vw_room V L" using room by simp
  from newtable_opened [OF laws this] obtain b where o: "opened V L ?L1 (vw_stack V L) b" by blast
  have "2 * nesting t \<le> vw_room V ?L1" using o room by (simp add: opened_def)
  with t o k obtain c2 g m where c2: "deliver (Some (json_parser_cb lua)) evs (begun is_arr lua ?c) = Inr (True, c2)"
    and f: "filled V (begun is_arr lua ?c) c2 b (vw_stack V L) g (if is_arr then m else 0)"
    and h: "stands_for lua V pt ?L1 (cx_L c2) b g t"
    unfolding container_fills_def by (fastforce simp: small_index_def)
  note F = f [unfolded filled_def begun_fields k(1)]
  let ?c' = "c2\<lparr>cx_cur_state := JPS_NONE, cx_state_stack := [], cx_array_stack := [], cx_array_idx := 1\<rparr>"
  have e: "json_parser_cb lua (if is_arr then JSON_T_ARRAY_END else JSON_T_OBJECT_END) None c2 = Inr (True, ?c')"
  proof (cases is_arr)
    case True
    then have "cx_state_stack c2 = [JPS_NONE]" "cx_array_stack c2 = [1]"
      using F by (simp_all add: begun_def array_begun_def luaT_json_parser_ctx_create_def in_array_def)
    then show ?thesis using True
      by (cases c2) (simp add: json_parser_cb_def pop_state_def pop_index_def end_table_def)
  next
    case False
    then have "cx_state_stack c2 = [JPS_NONE]" "cx_array_stack c2 = []" "cx_array_idx c2 = 1"
      using F by (simp_all add: begun_def object_begun_def luaT_json_parser_ctx_create_def in_array_def)
    then show ?thesis using False by (cases c2) (simp add: json_parser_cb_def pop_state_def end_table_def)
  qed
  have d: "deliver (Some (json_parser_cb lua)) (events False pt t ws) ?c = Inr (True, ?c')"
    using c2 e t(1) unfolding container_fills_def begun_def
    by (cases is_arr) (simp_all add: begin_events deliver_append if_ok_def)
  have live: "vw_live V ?L1 = insert b (vw_live V L)" "b \<notin> vw_live V L" "vw_table V ?L1 = (vw_table V L)(b := (\<lambda>_. L_nil))"
    using o by (simp_all add: opened_def)
  have "holds lua pt (vw_table V (cx_L c2)) (vw_live V (cx_L c2) - vw_live V L) (L_table b) t ws"
    by (rule stands_forD [OF h]) (use F live in auto)
  moreover have "\<forall>x \<in> vw_live V L. vw_table V (cx_L c2) x = vw_table V L x" using F live by auto
  ultimately show ?thesis using d F by (intro exI [of _ ?c'] exI [of _ b]) simp
qed

lemma container_root:
  assumes laws: "lua_laws lua V" and t: "is_container t"
  shows "\<exists>is_arr evs. container_fills lua V pt is_arr evs t"
  using t array_fills [OF laws all_store(2) [OF laws]] object_fills [OF all_store(3) [OF laws]] empty_fills
  by (cases t) (fastforce+)

lemma decode_chars_feed:
  assumes "list_all (\<lambda>n. 0 < n \<and> n < 128) cs"
  shows "decode_chars jc (map word_of_int cs) = feed jc cs"
  using assms
proof (induction cs arbitrary: jc)
  case (Cons n cs)
  then have "sint (word_of_int n :: u8) = n" by (simp add: signed_of_int signed_take_bit_int_eq_self)
  then show ?case using Cons by simp
qed simp


text \<open>A small Lua: a stack, tables as functions, and ten slots; numbers are integers or texts.\<close>

record toy =
  toy_stack :: "(int + u8 list) lval list"
  toy_table :: "nat \<Rightarrow> (int + u8 list) lval \<Rightarrow> (int + u8 list) lval"
  toy_next :: nat
  toy_room :: nat

definition toy_push :: "(int + u8 list) lval \<Rightarrow> toy \<Rightarrow> toy" where
  "toy_push v L = L\<lparr>toy_stack := v # toy_stack L, toy_room := toy_room L - 1\<rparr>"

definition toy_settable :: "toy \<Rightarrow> toy" where
  "toy_settable L = (case toy_stack L of
     v # k # L_table t # s \<Rightarrow> L\<lparr>toy_stack := L_table t # s,
       toy_table := (toy_table L)(t := (toy_table L t)(k := v)), toy_room := toy_room L + 2\<rparr> | _ \<Rightarrow> L)"

definition toy_lua :: "(toy, int + u8 list) lua" where
  "toy_lua = \<lparr>number_of_int = Inl, strtod = Inr, lua_gettop = (\<lambda>L. int (length (toy_stack L))),
     lua_settop = (\<lambda>n L. L\<lparr>toy_stack := drop (length (toy_stack L) - nat n) (toy_stack L)\<rparr>), lua_pushnil = toy_push L_nil,
     lua_pushboolean = (\<lambda>b. toy_push (L_boolean b)), lua_pushinteger = (\<lambda>i. toy_push (L_number (Inl i))),
     lua_pushnumber = (\<lambda>d. toy_push (L_number d)), lua_pushlstring = (\<lambda>s. toy_push (L_string s)),
     lua_pushcfunction = (\<lambda>a. toy_push (L_function a)),
     lua_newtable = (\<lambda>L. (toy_push (L_table (toy_next L)) L)\<lparr>toy_table := (toy_table L)(toy_next L := (\<lambda>_. L_nil)),
       toy_next := Suc (toy_next L)\<rparr>),
     lua_settable = (\<lambda>i L. toy_settable L)\<rparr>"

definition toy_view :: "(toy, int + u8 list) lua_view" where
  "toy_view = \<lparr>vw_stack = toy_stack, vw_table = toy_table, vw_live = (\<lambda>L. {..<toy_next L}), vw_room = toy_room\<rparr>"

lemma toy_lua_laws: "lua_laws toy_lua toy_view"
  unfolding lua_laws_def
  by (auto simp: lua_pushes_def toy_view_def toy_lua_def toy_push_def toy_settable_def lessThan_Suc plain_key_def inj_on_def)

definition demo_tree :: jtree where
  "demo_tree = T_arr (More [] (T_int False 1) [] (Last [] (T_obj (Last_m [] [Plain 0x61] [] [] T_true [])) []))"

definition toy_start :: toy where
  "toy_start = \<lparr>toy_stack = [], toy_table = (\<lambda>_ _. L_nil), toy_next = 0, toy_room = 10\<rparr>"


text \<open>
  A bracket too many: the parser calls back for every closing bracket it meets after the end
  of the value, and the callback then takes the top of an empty \<open>std::stack\<close>, whatever the Lua state.
\<close>

theorem json_decode_crash: "luaT_json_parser_decode lua point [0x5B, 0x5D, 0x5D] L = Inl Undefined"
proof -
  have "case luaT_json_parser_decode lua point [0x5B, 0x5D, 0x5D] L of Inl e \<Rightarrow> e = Undefined | Inr _ \<Rightarrow> False"
    by code_simp
  then show ?thesis by (simp split: sum.splits)
qed

end
