(* ===== verification/LuaEncode.thy ===== *)
theory LuaEncode imports LuaDecode JsonLimits ByteBuf begin

text \<open>
  The encoding half of \<^verbatim>\<open>lua/luaT_json_parser.cpp\<close>: Lua values written as JSON text into a byte
  buffer. A C string is the list of its bytes, the terminating NUL left out. The further functions
  of the Lua library it calls are fields of \<open>lua_reader\<close>.
\<close>

section \<open>UTF-8\<close>

text \<open>
  \<open>json_utf8_get\<close> and \<open>json_utf8_cont\<close>; a continuation byte is \<open>None\<close> when it is not one. The index
  is always below the length, which is checked before.
\<close>

definition json_utf8_get :: "u8 list \<Rightarrow> nat \<Rightarrow> u32" where
  "json_utf8_get buf idx = (if idx < length buf then ucast (buf ! idx) else 0) AND 0xFF"

definition json_utf8_cont :: "u8 list \<Rightarrow> nat \<Rightarrow> u32 option" where
  "json_utf8_cont buf idx = (let c = json_utf8_get buf idx in if c AND 0xC0 = 0x80 then Some (c AND 0x3F) else None)"

text \<open>The character and its length, \<open>buflen_left\<close> being the number of bytes left.\<close>

definition json_utf8_decode_single :: "u8 list \<Rightarrow> (u32 \<times> nat) option" where
  "json_utf8_decode_single buf =
     (if length buf < 1 then None
      else let c = json_utf8_get buf 0
      in if c AND 0x80 = 0 then Some (c, 1)
      else if c AND 0xE0 = 0xC0 then
        (if length buf < 2 then None
         else case json_utf8_cont buf 1 of None \<Rightarrow> None
         | Some c1 \<Rightarrow> let o_char = push_bit 6 (c AND 0x1F) OR c1 in if 128 \<le> o_char then Some (o_char, 2) else None)
      else if c AND 0xF0 = 0xE0 then
        (if length buf < 3 then None
         else case (json_utf8_cont buf 1, json_utf8_cont buf 2) of
           (Some c1, Some c2) \<Rightarrow>
             let o_char = push_bit 12 (c AND 0x0F) OR push_bit 6 c1 OR c2
             in if 2048 \<le> o_char \<and> (o_char < 55296 \<or> 57343 < o_char) then Some (o_char, 3) else None
         | _ \<Rightarrow> None)
      else if c AND 0xF8 = 0xF0 then
        (if length buf < 4 then None
         else case (json_utf8_cont buf 1, json_utf8_cont buf 2, json_utf8_cont buf 3) of
           (Some c1, Some c2, Some c3) \<Rightarrow>
             let o_char = push_bit 18 (c AND 0x0F) OR push_bit 12 c1 OR push_bit 6 c2 OR c3
             in if 65536 \<le> o_char \<and> o_char \<le> 1114111 then Some (o_char, 4) else None
         | _ \<Rightarrow> None)
      else None)"

section \<open>Strings\<close>

fun append_chars :: "byte_buffer \<Rightarrow> u8 list \<Rightarrow> byte_buffer res" where
  "append_chars b [] = Inr b"
| "append_chars b (c # cs) = seq (append_value b c) (\<lambda>b. append_chars b cs)"

text \<open>The characters written as they are, compared as a signed \<open>char\<close>, and the short escapes.\<close>

definition escape_char :: "u8 \<Rightarrow> u8 list option" where
  "escape_char b =
     (if b = 0x20 \<or> b = 0x21 \<or> (0x23 \<le> sint b \<and> sint b \<le> 0x2E) \<or> (0x30 \<le> sint b \<and> sint b \<le> 0x5B) \<or> 0x5D \<le> sint b
      then Some [b]
      else if b = 8 then Some [0x5C, 0x62]
      else if b = 12 then Some [0x5C, 0x66]
      else if b = 10 then Some [0x5C, 0x6E]
      else if b = 13 then Some [0x5C, 0x72]
      else if b = 0x2F then Some [0x5C, 0x2F]
      else if b = 0x22 then Some [0x5C, 0x22]
      else if b = 0x5C then Some [0x5C, 0x5C]
      else None)"

text \<open>An element of the array \<open>hexdigits\<close>, which ends with a NUL.\<close>

definition hexdigit :: "nat \<Rightarrow> u8 res" where
  "hexdigit d = (if d < 10 then Inr (word_of_nat (0x30 + d)) else if d < 16 then Inr (word_of_nat (0x37 + d))
     else if d = 16 then Inr 0 else Inl Undefined)"

fun append_hexdigits :: "byte_buffer \<Rightarrow> nat list \<Rightarrow> byte_buffer res" where
  "append_hexdigits b [] = Inr b"
| "append_hexdigits b (d # ds) = seq (hexdigit d) (\<lambda>c. seq (append_value b c) (\<lambda>b. append_hexdigits b ds))"

definition append_escape :: "byte_buffer \<Rightarrow> u32 \<Rightarrow> byte_buffer res" where
  "append_escape b u =
     (let d1 = unat (u div 4096); u = u mod 4096;
          d2 = unat (u div 256); u = u mod 256;
          d3 = unat (u div 16); u = u mod 16;
          d4 = unat u
      in seq (append_chars b [0x5C, 0x75]) (\<lambda>b. append_hexdigits b [d1, d2, d3, d4]))"

fun escapes_loop :: "u8 list \<Rightarrow> byte_buffer \<Rightarrow> byte_buffer res" where
  "escapes_loop [] byteBuffer = Inr byteBuffer"
| "escapes_loop (b # bs) byteBuffer =
     (if b = 0 then Inr byteBuffer
      else case escape_char b of
        Some cs \<Rightarrow> seq (append_chars byteBuffer cs) (\<lambda>byteBuffer. escapes_loop bs byteBuffer)
      | None \<Rightarrow>
          let (u, u_n, skip) = (case json_utf8_decode_single (b # bs) of
                None \<Rightarrow> (scast b, 0, 0)
              | Some (o_char, o_len) \<Rightarrow> (o_char AND 0xFFFF, drop_bit 16 o_char, o_len - 1))
          in seq (if u_n \<noteq> 0 then append_escape byteBuffer u_n else Inr byteBuffer) (\<lambda>byteBuffer.
             seq (append_escape byteBuffer u) (\<lambda>byteBuffer. escapes_loop (drop skip bs) byteBuffer)))"

text \<open>Every caller passes the length of the string as \<open>srclen\<close>.\<close>

definition create_json_escapes :: "u8 list \<Rightarrow> byte_buffer \<Rightarrow> byte_buffer res" where
  "create_json_escapes s byteBuffer =
     seq (append_value byteBuffer (0x22 :: u8)) (\<lambda>byteBuffer.
     seq (escapes_loop s byteBuffer) (\<lambda>byteBuffer.
     append_value byteBuffer (0x22 :: u8)))"

section \<open>Values\<close>

record ('l, 'd) lua_reader = "('l, 'd) lua" +
  lua_type :: "int \<Rightarrow> 'l \<Rightarrow> int"
  lua_tolstring :: "int \<Rightarrow> 'l \<Rightarrow> u8 list option \<times> 'l"
  lua_toboolean :: "int \<Rightarrow> 'l \<Rightarrow> bool"
  lua_tocfunction :: "int \<Rightarrow> 'l \<Rightarrow> u64"
  lua_pushvalue :: "int \<Rightarrow> 'l \<Rightarrow> 'l"
  lua_pop :: "int \<Rightarrow> 'l \<Rightarrow> 'l"
  lua_next :: "int \<Rightarrow> 'l \<Rightarrow> bool \<times> 'l"

definition LUA_TNIL :: int where "LUA_TNIL = 0"
definition LUA_TBOOLEAN :: int where "LUA_TBOOLEAN = 1"
definition LUA_TNUMBER :: int where "LUA_TNUMBER = 3"
definition LUA_TSTRING :: int where "LUA_TSTRING = 4"
definition LUA_TTABLE :: int where "LUA_TTABLE = 5"
definition LUA_TFUNCTION :: int where "LUA_TFUNCTION = 6"

text \<open>The text that \<open>printf\<close> of the GNU library writes for a pointer with \<open>%p\<close>.\<close>

fun hex_text :: "nat \<Rightarrow> u8 list" where
  "hex_text n = (let c = (if n mod 16 < 10 then word_of_nat (0x30 + n mod 16) else word_of_nat (0x57 + n mod 16))
     in if n < 16 then [c] else hex_text (n div 16) @ [c])"

definition pointer_text :: "u64 \<Rightarrow> u8 list" where
  "pointer_text p = (if p = 0 then [0x28, 0x6E, 0x69, 0x6C, 0x29] else [0x30, 0x78] @ hex_text (unat p))"

text \<open>
  \<open>luaT_json_parser_dump_object\<close> and the loop over the entries of a table inside it, which call each
  other; a table that contains itself makes them run for ever.
\<close>

datatype dump_call = Dump_object | Dump_entries int

partial_function (option) dump ::
  "('l, 'd) lua_reader \<Rightarrow> dump_call \<Rightarrow> 'l \<Rightarrow> byte_buffer \<Rightarrow> (bool \<times> 'l \<times> byte_buffer) run" where
  "dump lua call L b =
     (case call of
        Dump_object \<Rightarrow>
          if lua_type lua (- 1) L = LUA_TNIL then
            bind_run (Some (ByteBuffer_append b [0x6E, 0x75, 0x6C, 0x6C] 4)) (\<lambda>b. ret (True, L, b))
          else if lua_type lua (- 1) L = LUA_TNUMBER then
            (case lua_tolstring lua (- 1) L of (s, L) \<Rightarrow>
               (case s of None \<Rightarrow> Some (Inl Undefined)
                | Some s \<Rightarrow> bind_run (Some (ByteBuffer_append b s (word_of_nat (length s)))) (\<lambda>b. ret (True, L, b))))
          else if lua_type lua (- 1) L = LUA_TBOOLEAN then
            bind_run (if lua_toboolean lua (- 1) L then Some (ByteBuffer_append b [0x74, 0x72, 0x75, 0x65] 4)
                      else Some (ByteBuffer_append b [0x66, 0x61, 0x6C, 0x73, 0x65] 5)) (\<lambda>b. ret (True, L, b))
          else if lua_type lua (- 1) L = LUA_TSTRING then
            (case lua_tolstring lua (- 1) L of (s, L) \<Rightarrow>
               (case s of None \<Rightarrow> Some (Inl Undefined)
                | Some s \<Rightarrow> bind_run (Some (create_json_escapes s b)) (\<lambda>b. ret (True, L, b))))
          else if lua_type lua (- 1) L = LUA_TTABLE then
            bind_run (Some (append_value b (0x7B :: u8))) (\<lambda>b. dump lua (Dump_entries 0) (lua_pushnil lua L) b)
          else if lua_type lua (- 1) L = LUA_TFUNCTION then
            bind_run (Some (create_json_escapes (function_name @ [0x3A] @ pointer_text (lua_tocfunction lua (- 1) L)) b))
              (\<lambda>b. ret (True, L, b))
          else ret (False, L, b)
      | Dump_entries idx \<Rightarrow>
          (case lua_next lua (- 2) L of (found, L) \<Rightarrow>
             if \<not> found then bind_run (Some (append_value b (0x7D :: u8))) (\<lambda>b. ret (True, L, b))
             else
               bind_run (if 0 < idx then Some (append_value b (0x2C :: u8)) else ret b) (\<lambda>b.
               case lua_tolstring lua (- 1) (lua_pushvalue lua (- 2) L) of (key, L) \<Rightarrow>
               let L = lua_pop lua 1 L
               in bind_run (Some (create_json_escapes (case key of None \<Rightarrow> [] | Some k \<Rightarrow> k) b)) (\<lambda>b.
                  bind_run (Some (append_value b (0x3A :: u8))) (\<lambda>b.
                  bind_run (dump lua Dump_object L b) (\<lambda>(ok, L, b).
                  if \<not> ok then ret (False, L, b)
                  else dump lua (Dump_entries (idx + 1)) (lua_pop lua 1 L) b))))))"

definition luaT_json_parser_dump_object ::
  "('l, 'd) lua_reader \<Rightarrow> 'l \<Rightarrow> byte_buffer \<Rightarrow> (bool \<times> 'l \<times> byte_buffer) run" where
  "luaT_json_parser_dump_object lua L b = dump lua Dump_object L b"

definition luaT_json_parser_encode ::
  "('l, 'd) lua_reader \<Rightarrow> 'l \<Rightarrow> byte_buffer \<Rightarrow> (bool \<times> 'l \<times> byte_buffer) run" where
  "luaT_json_parser_encode lua L b =
     (let oldtop = lua_gettop lua L
      in bind_run (luaT_json_parser_dump_object lua L b) (\<lambda>(rc, L, b).
         let L = lua_settop lua oldtop L
         in bind_run (if rc then Some (append_value b (0 :: u8)) else ret b) (\<lambda>b. ret (rc, L, b))))"

end
