(* ===== verification/LuaEscapes.thy ===== *)
theory LuaEscapes imports LuaEncode begin

text \<open>
  What the encoder writes for a string is read back as that string: the characters of
  \<open>create_json_escapes\<close> are a string of the JSON grammar (\<open>JsonText\<close>) that stands for the same bytes.
\<close>

section \<open>Decoding one character\<close>

lemma or_place:
  assumes "unat (y :: u32) < 2 ^ k" "unat (x :: u32) * 2 ^ k < 2 ^ 32"
  shows "unat (push_bit k x OR y) = unat x * 2 ^ k + unat y"
proof -
  have "take_bit k y = y" using assms(1) by (simp add: word_unat_eq_iff unsigned_take_bit_eq take_bit_nat_eq_self)
  then have "\<not> bit y n" if "k \<le> n" for n using that by (metis bit_take_bit_iff not_le)
  then have "push_bit k x AND y = 0" by (intro bit_eqI) (auto simp: bit_simps)
  then have "push_bit k x OR y = push_bit k x + y" by (simp add: disjunctive_add_eq_or)
  moreover have "unat (push_bit k x) = unat x * 2 ^ k" using assms(2) by (simp add: unat_push_byte)
  moreover have "unat x * 2 ^ k + unat y < 2 ^ 32"
  proof (cases "k < 32")
    case True
    then obtain m where m: "32 = m + k" by (metis add.commute less_imp_add_positive)
    have "unat x < 2 ^ m" using assms(2) unfolding m power_add by simp
    then have "Suc (unat x) * 2 ^ k \<le> 2 ^ m * 2 ^ k" by (intro mult_right_mono) auto
    then show ?thesis unfolding m power_add using assms(1) by simp
  next
    case False
    then have "(2::nat) ^ 32 \<le> 2 ^ k" by (intro power_increasing) auto
    then have "unat x = 0" using assms(2) by (cases "unat x") auto
    then show ?thesis using unat_u32_less [of y] by simp
  qed
  ultimately show ?thesis by (simp add: unat_word_ariths)
qed

lemma get_byte: "i < length bs \<Longrightarrow> json_utf8_get bs i = ucast (bs ! i)"
proof -
  assume "i < length bs"
  moreover have "ucast (c :: u8) AND 0xFF = (ucast c :: u32)" for c
  proof -
    have "ucast c AND 0xFF = take_bit 8 (ucast c :: u32)" by (simp add: take_bit_eq_mask mask_eq_exp_minus_1)
    then show ?thesis by (auto intro!: bit_eqI simp: bit_simps) (metis byte_no_bit not_le)
  qed
  ultimately show ?thesis by (simp add: json_utf8_get_def)
qed

lemma cont_byte:
  assumes "i < length bs" "bs ! i = word_of_nat (0x80 + n)" "n < 64"
  shows "json_utf8_cont bs i = Some (word_of_nat n)"
proof -
  have "list_all (\<lambda>n. ucast (word_of_nat (0x80 + n) :: u8) AND 0xC0 = (0x80 :: u32)
      \<and> ucast (word_of_nat (0x80 + n) :: u8) AND 0x3F = (word_of_nat n :: u32)) [0..<64]" by code_simp
  then show ?thesis using assms unfolding list_all_upt_iff by (simp add: json_utf8_cont_def get_byte Let_def)
qed

lemma lead_bytes:
  "n < 0x80 \<Longrightarrow> ucast (word_of_nat n :: u8) AND (0x80 :: u32) = 0"
  "n < 0x20 \<Longrightarrow> (let c = ucast (word_of_nat (0xC0 + n) :: u8) :: u32 in c AND 0x80 \<noteq> 0 \<and> c AND 0xE0 = 0xC0 \<and> c AND 0x1F = word_of_nat n)"
  "n < 0x10 \<Longrightarrow> (let c = ucast (word_of_nat (0xE0 + n) :: u8) :: u32 in c AND 0x80 \<noteq> 0 \<and> c AND 0xE0 \<noteq> 0xC0 \<and> c AND 0xF0 = 0xE0 \<and> c AND 0x0F = word_of_nat n)"
  "n < 8 \<Longrightarrow> (let c = ucast (word_of_nat (0xF0 + n) :: u8) :: u32 in c AND 0x80 \<noteq> 0 \<and> c AND 0xE0 \<noteq> 0xC0 \<and> c AND 0xF0 \<noteq> 0xE0 \<and> c AND 0xF8 = 0xF0 \<and> c AND 0x07 = word_of_nat n)"
proof -
  have "list_all (\<lambda>n. ucast (word_of_nat n :: u8) AND (0x80 :: u32) = 0) [0..<0x80]"
    "list_all (\<lambda>n. let c = ucast (word_of_nat (0xC0 + n) :: u8) :: u32 in c AND 0x80 \<noteq> 0 \<and> c AND 0xE0 = 0xC0 \<and> c AND 0x1F = word_of_nat n) [0..<0x20]"
    "list_all (\<lambda>n. let c = ucast (word_of_nat (0xE0 + n) :: u8) :: u32 in c AND 0x80 \<noteq> 0 \<and> c AND 0xE0 \<noteq> 0xC0 \<and> c AND 0xF0 = 0xE0 \<and> c AND 0x0F = word_of_nat n) [0..<0x10]"
    "list_all (\<lambda>n. let c = ucast (word_of_nat (0xF0 + n) :: u8) :: u32 in c AND 0x80 \<noteq> 0 \<and> c AND 0xE0 \<noteq> 0xC0 \<and> c AND 0xF0 \<noteq> 0xE0 \<and> c AND 0xF8 = 0xF0 \<and> c AND 0x07 = word_of_nat n) [0..<8]"
    by code_simp+
  then show
    "n < 0x80 \<Longrightarrow> ucast (word_of_nat n :: u8) AND (0x80 :: u32) = 0"
    "n < 0x20 \<Longrightarrow> (let c = ucast (word_of_nat (0xC0 + n) :: u8) :: u32 in c AND 0x80 \<noteq> 0 \<and> c AND 0xE0 = 0xC0 \<and> c AND 0x1F = word_of_nat n)"
    "n < 0x10 \<Longrightarrow> (let c = ucast (word_of_nat (0xE0 + n) :: u8) :: u32 in c AND 0x80 \<noteq> 0 \<and> c AND 0xE0 \<noteq> 0xC0 \<and> c AND 0xF0 = 0xE0 \<and> c AND 0x0F = word_of_nat n)"
    "n < 8 \<Longrightarrow> (let c = ucast (word_of_nat (0xF0 + n) :: u8) :: u32 in c AND 0x80 \<noteq> 0 \<and> c AND 0xE0 \<noteq> 0xC0 \<and> c AND 0xF0 \<noteq> 0xE0 \<and> c AND 0xF8 = 0xF0 \<and> c AND 0x07 = word_of_nat n)"
    unfolding list_all_upt_iff by blast+
qed

lemma unat_small32 [simp]: "m < 0x10000 \<Longrightarrow> unat (word_of_nat m :: u32) = m"
  by (intro unat_of_nat_small) simp

lemma two_bytes:
  assumes "n < 0x800"
  shows "push_bit 6 (word_of_nat (n div 64)) OR word_of_nat (n mod 64) = (word_of_nat n :: u32)"
proof -
  have m: "n div 64 < 0x10000" "n mod 64 < 0x10000" "n < 0x10000" "n div 64 * 64 < 4294967296" using assms by auto
  have "unat (push_bit 6 (word_of_nat (n div 64)) OR (word_of_nat (n mod 64) :: u32)) = n div 64 * 64 + n mod 64"
    using or_place [of "word_of_nat (n mod 64)" 6 "word_of_nat (n div 64)"] m by simp
  then show ?thesis using m(3) by (simp add: word_unat_eq_iff)
qed

lemma three_bytes:
  assumes "n < 0x10000"
  shows "push_bit 12 (word_of_nat (n div 4096)) OR push_bit 6 (word_of_nat (n div 64 mod 64)) OR word_of_nat (n mod 64)
    = (word_of_nat n :: u32)"
proof -
  have e: "n div 64 div 64 = n div 4096" by (simp add: div_mult2_eq [symmetric])
  have m: "n div 64 < 0x10000" "n mod 64 < 0x10000" "n div 64 * 64 < 4294967296" "n div 64 < 0x800" using assms by auto
  have "push_bit 12 (word_of_nat (n div 4096)) OR push_bit 6 (word_of_nat (n div 64 mod 64))
      = push_bit 6 (push_bit 6 (word_of_nat (n div 4096)) OR (word_of_nat (n div 64 mod 64) :: u32))"
    by (simp add: push_bit_or)
  also have "\<dots> = push_bit 6 (word_of_nat (n div 64))" using two_bytes [OF m(4)] unfolding e by simp
  finally have 1: "push_bit 12 (word_of_nat (n div 4096)) OR push_bit 6 (word_of_nat (n div 64 mod 64)) = push_bit 6 (word_of_nat (n div 64) :: u32)" .
  have "unat (push_bit 6 (word_of_nat (n div 64)) OR (word_of_nat (n mod 64) :: u32)) = n div 64 * 64 + n mod 64"
    using or_place [of "word_of_nat (n mod 64)" 6 "word_of_nat (n div 64)"] m by simp
  then show ?thesis unfolding or.assoc [symmetric] 1 using assms by (simp add: word_unat_eq_iff)
qed

lemma decode_one: "n < 0x80 \<Longrightarrow> json_utf8_decode_single (word_of_nat n # rest) = Some (word_of_nat n, 1)"
  using lead_bytes(1) [of n]
  by (simp add: json_utf8_decode_single_def get_byte unsigned_of_nat take_bit_nat_eq_self)

lemma decode_two:
  assumes "0x80 \<le> n" "n < 0x800"
  shows "json_utf8_decode_single (word_of_nat (0xC0 + n div 64) # word_of_nat (0x80 + n mod 64) # rest) = Some (word_of_nat n, 2)"
proof -
  let ?bs = "word_of_nat (0xC0 + n div 64) # word_of_nat (0x80 + n mod 64) # rest :: u8 list"
  have c: "json_utf8_cont ?bs (Suc 0) = Some (word_of_nat (n mod 64))" by (rule cont_byte) simp_all
  have g: "json_utf8_get ?bs 0 = ucast (word_of_nat (0xC0 + n div 64) :: u8)" by (simp add: get_byte)
  have l: "n div 64 < 0x20" using assms by simp
  have n: "128 \<le> (word_of_nat n :: u32)" using assms by (simp add: word_le_nat_alt)
  show ?thesis using lead_bytes(2) [OF l] two_bytes [OF assms(2)] n
    by (simp add: json_utf8_decode_single_def c g Let_def del: of_nat_add)
qed

lemma decode_three:
  assumes "0x800 \<le> n" "n < 0x10000" "code_point n"
  shows "json_utf8_decode_single (word_of_nat (0xE0 + n div 4096) # word_of_nat (0x80 + n div 64 mod 64)
    # word_of_nat (0x80 + n mod 64) # rest) = Some (word_of_nat n, 3)"
proof -
  let ?bs = "word_of_nat (0xE0 + n div 4096) # word_of_nat (0x80 + n div 64 mod 64) # word_of_nat (0x80 + n mod 64) # rest :: u8 list"
  have c: "json_utf8_cont ?bs (Suc 0) = Some (word_of_nat (n div 64 mod 64))" "json_utf8_cont ?bs 2 = Some (word_of_nat (n mod 64))"
    by (rule cont_byte; simp)+
  have g: "json_utf8_get ?bs 0 = ucast (word_of_nat (0xE0 + n div 4096) :: u8)" by (simp add: get_byte)
  have l: "n div 4096 < 0x10" using assms by simp
  have n: "2048 \<le> (word_of_nat n :: u32)" "(word_of_nat n :: u32) < 55296 \<or> 57343 < (word_of_nat n :: u32)"
    using assms by (auto simp: word_le_nat_alt word_less_nat_alt code_point_def)
  show ?thesis using lead_bytes(3) [OF l] three_bytes [OF assms(2)] n
    by (simp add: json_utf8_decode_single_def c g Let_def del: of_nat_add)
qed

text \<open>The decoder reads the encoding of a code point of the basic plane, whatever follows.\<close>

lemma decode_single_utf8:
  assumes "n < 0x10000" "code_point n"
  shows "json_utf8_decode_single (utf8 n @ rest) = Some (word_of_nat n, length (utf8 n))"
proof -
  consider "n < 0x80" | "0x80 \<le> n" "n < 0x800" | "0x800 \<le> n" by linarith
  then show ?thesis
    by cases (use assms decode_one decode_two decode_three in \<open>auto simp: utf8_def simp del: of_nat_add\<close>)
qed

section \<open>What is written for a character\<close>

definition hexchar :: "nat \<Rightarrow> u8" where
  "hexchar d = (if d < 10 then word_of_nat (0x30 + d) else word_of_nat (0x37 + d))"

definition unit_of :: "nat \<Rightarrow> strchar" where
  "unit_of n = Unit (hexchar (n div 4096)) (hexchar (n div 256 mod 16)) (hexchar (n div 16 mod 16)) (hexchar (n mod 16))"

definition escape_of :: "nat \<Rightarrow> strchar" where
  "escape_of n = (if n < 0x80 then
      (case escape_char (word_of_nat n) of None \<Rightarrow> unit_of n | Some [c] \<Rightarrow> Plain (uint c) | Some cs \<Rightarrow> Short (uint (last cs)))
    else unit_of n)"

definition strchar_text :: "strchar \<Rightarrow> u8 list" where
  "strchar_text c = map word_of_int (unparse_strchar c)"

lemma hexchar_facts:
  assumes "d < 16"
  shows "hexdigit d = Inr (hexchar d)" "is_hex (hexchar d)" "hex_value (hexchar d) = word_of_nat d"
proof -
  have "list_all (\<lambda>d. is_hex (hexchar d)) [0..<16]" "list_all (\<lambda>d. hex_value (hexchar d) = word_of_nat d) [0..<16]"
    by code_simp+
  then show "is_hex (hexchar d)" "hex_value (hexchar d) = word_of_nat d" using assms unfolding list_all_upt_iff by blast+
  show "hexdigit d = Inr (hexchar d)" using assms by (simp add: hexdigit_def hexchar_def)
qed

lemma hex4_hexchar:
  assumes "n < 0x10000"
  shows "hex4 (hexchar (n div 4096)) (hexchar (n div 256 mod 16)) (hexchar (n div 16 mod 16)) (hexchar (n mod 16)) = word_of_nat n"
proof -
  have place: "push_bit 4 (word_of_nat (m div 16)) OR word_of_nat (m mod 16) = (word_of_nat m :: u32)" if "m < 0x10000" for m
  proof -
    have m: "m div 16 < 0x10000" "m mod 16 < 0x10000" "m div 16 * 16 < 4294967296" using that by auto
    have "unat (push_bit 4 (word_of_nat (m div 16)) OR (word_of_nat (m mod 16) :: u32)) = m div 16 * 16 + m mod 16"
      using or_place [of "word_of_nat (m mod 16)" 4 "word_of_nat (m div 16)"] m by simp
    then show ?thesis using that by (simp add: word_unat_eq_iff)
  qed
  have lt: "n div 4096 < 16" "n div 256 < 0x10000" "n div 16 < 0x10000" using assms by auto
  have e: "n div 256 div 16 = n div 4096" "n div 16 div 16 = n div 256" by (simp_all add: div_mult2_eq [symmetric])
  have 1: "push_bit 12 (word_of_nat (n div 4096)) OR push_bit 8 (word_of_nat (n div 256 mod 16)) = push_bit 8 (word_of_nat (n div 256) :: u32)"
    using arg_cong [where f = "push_bit 8", OF place [OF lt(2)]] unfolding e by (simp add: push_bit_or)
  have 2: "push_bit 8 (word_of_nat (n div 256)) OR push_bit 4 (word_of_nat (n div 16 mod 16)) = push_bit 4 (word_of_nat (n div 16) :: u32)"
    using arg_cong [where f = "push_bit 4", OF place [OF lt(3)]] unfolding e by (simp add: push_bit_or)
  show ?thesis
    unfolding hex4_def using lt(1) by (simp add: hexchar_facts or.assoc [symmetric] 1 2 place [OF assms])
qed

lemma no_surrogate:
  assumes "n < 0x10000" "code_point n"
  shows "\<not> is_high_surrogate (word_of_nat n)" "\<not> is_low_surrogate (word_of_nat n)"
proof -
  have less: "(word_of_nat n :: u32) < 0x10000" using assms by (simp add: word_less_nat_alt)
  have "(w :: u32) AND 0x3FF = take_bit 10 w" for w by (simp add: take_bit_eq_mask mask_eq_exp_minus_1)
  then have "unat ((w :: u32) AND 0x3FF) < 0x400" for w by (simp add: unat_take_byte)
  then have k: "unat ((word_of_nat n :: u32) AND 0x3FF) < 0x400" .
  show "\<not> is_high_surrogate (word_of_nat n)" "\<not> is_low_surrogate (word_of_nat n)"
    using surrogate_value [OF less] k assms by (auto simp: code_point_def)
qed

lemma mod_div_place: "0 < a \<Longrightarrow> n mod (a * b) div a = n div a mod (b :: nat)"
  unfolding mod_mult2_eq by simp

lemma unit_facts:
  assumes "n < 0x10000" "code_point n"
  shows "strchar_ok (unit_of n)" "strchar_bytes (unit_of n) = utf8 n"
    "append_escape b (word_of_nat n) = append_chars b (strchar_text (unit_of n))"
proof -
  have d: "n div 4096 < 16" "n div 256 mod 16 < 16" "n div 16 mod 16 < 16" "n mod 16 < 16" using assms(1) by auto
  note h = hexchar_facts [OF d(1)] hexchar_facts [OF d(2)] hexchar_facts [OF d(3)] hexchar_facts [OF d(4)]
  show "strchar_ok (unit_of n)" using no_surrogate [OF assms] by (simp add: unit_of_def hex4_hexchar [OF assms(1)] h)
  let ?w = "word_of_nat n :: u32"
  have w: "unat ?w = n" "?w < 0x110000" "?w < 0x10000" using assms(1) by (simp_all add: word_less_nat_alt)
  have "unit_bytes ?w = utf8_bytes ?w (trail_count ?w)" using w by (simp add: unit_bytes_def trail_count_def)
  then show "strchar_bytes (unit_of n) = utf8 n"
    using utf8_bytes_utf8 [OF w(2)] w(1) by (simp add: unit_of_def hex4_hexchar [OF assms(1)])
  have k: "n mod 4096 div 256 = n div 256 mod 16" "n mod 256 div 16 = n div 16 mod 16" "n mod 4096 mod 256 = n mod 256"
    using mod_div_place [of 256 n 16] mod_div_place [of 16 n 16] mod_mod_cancel [of 256 4096 n] by simp_all
  have m: "unat (?w div 4096) = n div 4096" "unat (?w mod 4096 div 256) = n div 256 mod 16"
    "unat (?w mod 4096 mod 256 div 16) = n div 16 mod 16" "unat (?w mod 4096 mod 256 mod 16) = n mod 16"
    using w(1) k by (simp_all add: unat_div unat_mod mod_mod_cancel)
  show "append_escape b ?w = append_chars b (strchar_text (unit_of n))"
    by (simp add: append_escape_def Let_def m h unit_of_def strchar_text_def chars_def seq_assoc)
qed

lemma ascii_byte:
  assumes "n < 0x80"
  shows "unat (word_of_nat n :: u8) = n" "sint (word_of_nat n :: u8) = int n" "uint (word_of_nat n :: u8) = int n"
proof -
  show u: "unat (word_of_nat n :: u8) = n" using assms by (intro unat_of_nat_small) simp
  show i: "uint (word_of_nat n :: u8) = int n" unfolding uint_nat u by (rule refl)
  have "signed_take_bit 7 (int n) = int n" using assms by (intro signed_take_bit_int_eq_self) auto
  then show "sint (word_of_nat n :: u8) = int n" unfolding sint_uint i by simp
qed

lemma byte_eq_iff: "n < 0x80 \<Longrightarrow> (word_of_nat n :: u8) = w \<longleftrightarrow> n = unat w"
  using ascii_byte(1) [of n] by (simp add: word_unat_eq_iff)

definition short_escaped :: "nat list" where
  "short_escaped = [8, 12, 10, 13, 0x2F, 0x22, 0x5C]"

lemma escape_char_plain:
  assumes "n < 0x80" "0x20 \<le> n" "n \<notin> set short_escaped"
  shows "escape_char (word_of_nat n) = Some [word_of_nat n]"
proof -
  have "n = 0x20 \<or> n = 0x21 \<or> (0x23 \<le> int n \<and> int n \<le> 0x2E) \<or> (0x30 \<le> int n \<and> int n \<le> 0x5B) \<or> 0x5D \<le> int n"
    using assms by (auto simp: short_escaped_def)
  then show ?thesis unfolding escape_char_def by (simp add: byte_eq_iff [OF assms(1)] ascii_byte [OF assms(1)])
qed

lemma escape_char_none:
  assumes "n < 0x20" "n \<notin> set short_escaped"
  shows "escape_char (word_of_nat n) = None"
proof -
  have n: "n < 0x80" using assms(1) by simp
  show ?thesis using assms by (simp add: escape_char_def byte_eq_iff [OF n] ascii_byte [OF n] short_escaped_def)
qed

lemma escape_short:
  "list_all (\<lambda>n. case escape_char (word_of_nat n) of None \<Rightarrow> False | Some cs \<Rightarrow> strchar_ok (escape_of n)
     \<and> strchar_bytes (escape_of n) = [word_of_nat n] \<and> strchar_text (escape_of n) = cs) short_escaped"
  by code_simp

lemma escape_ascii:
  assumes "n < 0x80" "escape_char (word_of_nat n) = Some cs"
  shows "strchar_ok (escape_of n) \<and> strchar_bytes (escape_of n) = [word_of_nat n] \<and> strchar_text (escape_of n) = cs"
proof -
  consider "n \<in> set short_escaped" | "n \<notin> set short_escaped" "0x20 \<le> n"
    using escape_char_none [of n] assms(2) by fastforce
  then show ?thesis
  proof cases
    case 1
    then show ?thesis using escape_short assms(2) by (auto simp: list_all_iff)
  next
    case 2
    have p: "escape_char (word_of_nat n) = Some [word_of_nat n]" by (rule escape_char_plain [OF assms(1) 2(2,1)])
    then have "cs = [word_of_nat n]" using assms(2) by simp
    then show ?thesis using assms(1) 2
      by (simp add: escape_of_def p strchar_text_def ascii_byte short_escaped_def)
  qed
qed

section \<open>Whole strings\<close>

lemma append_chars_append: "append_chars b (xs @ ys) = seq (append_chars b xs) (\<lambda>b. append_chars b ys)"
  by (induction xs arbitrary: b) (simp_all add: seq_assoc)

lemma append_chars_ok:
  assumes "bb_ok b" "512 * length cs \<le> bb_room b"
  shows "\<exists>b'. append_chars b cs = Inr b' \<and> bb_ok b' \<and> bb_content b' = bb_content b @ cs \<and> bb_room b \<le> bb_room b' + 512 * length cs"
  using assms
proof (induction cs arbitrary: b)
  case (Cons c cs)
  have le: "to_le (c :: u8) = [c]" by (simp add: to_le_def)
  obtain d where d: "append_value b c = Inr d" "bb_ok d" "bb_content d = bb_content b @ [c]" "bb_room b \<le> bb_room d + 512"
    using append_ok [of b "[c]"] Cons.prems by (auto simp: append_value_def le)
  obtain e where "append_chars d cs = Inr e" "bb_ok e" "bb_content e = bb_content d @ cs" "bb_room d \<le> bb_room e + 512 * length cs"
    using Cons.IH [OF d(2)] Cons.prems(2) d(4) by auto
  then show ?case using d by auto
qed simp

definition bmp :: "nat \<Rightarrow> bool" where
  "bmp n \<longleftrightarrow> 0 < n \<and> n < 0x10000 \<and> code_point n"

lemma escape_char_high:
  assumes "0x80 \<le> n" "n < 0x100"
  shows "escape_char (word_of_nat n) = None"
proof -
  have u: "unat (word_of_nat n :: u8) = n" using assms by (intro unat_of_nat_small) simp
  have d: "n div 128 = 1" using assms by simp
  have "odd (int n div 128)" using arg_cong [where f = int, OF d] by (simp add: zdiv_int)
  then have "signed_take_bit 7 (int n) < 0" by (simp add: bit_iff_odd)
  then have i: "sint (word_of_nat n :: u8) < 0" unfolding sint_uint uint_nat u by simp
  have e: "(word_of_nat n :: u8) = w \<longleftrightarrow> n = unat w" for w using u by (simp add: word_unat_eq_iff)
  show ?thesis using assms i by (simp add: escape_char_def e)
qed

lemma hd_utf8_high:
  assumes "0x80 \<le> n" "n < 0x10000"
  obtains m ms where "utf8 n = word_of_nat m # ms" "0x80 \<le> m" "m < 0x100"
proof (cases "n < 0x800")
  case True
  then show ?thesis using that [of "0xC0 + n div 64"] assms by (auto simp: utf8_def)
next
  case False
  then show ?thesis using that [of "0xE0 + n div 4096"] assms by (auto simp: utf8_def)
qed

lemma split_bmp:
  assumes "n < 0x10000"
  shows "(word_of_nat n :: u32) AND 0xFFFF = word_of_nat n" "drop_bit 16 (word_of_nat n :: u32) = 0"
proof -
  have "(word_of_nat n :: u32) AND 0xFFFF = take_bit 16 (word_of_nat n)" by (simp add: take_bit_eq_mask mask_eq_exp_minus_1)
  moreover have "unat (take_bit 16 (word_of_nat n :: u32)) = n" using assms by (simp add: unat_take_byte)
  ultimately show "(word_of_nat n :: u32) AND 0xFFFF = word_of_nat n" by (metis of_nat_unat ucast_id)
  have "unat (drop_bit 16 (word_of_nat n :: u32)) = 0" using assms by (simp add: unat_drop_byte)
  then show "drop_bit 16 (word_of_nat n :: u32) = 0" by (simp only: unat_eq_0)
qed

lemma utf8_hd:
  assumes "n < 0x10000"
  obtains m ms where "utf8 n = word_of_nat m # ms" "n < 0x80 \<and> m = n \<and> ms = [] \<or> 0x80 \<le> n \<and> 0x80 \<le> m \<and> m < 0x100"
proof (cases "n < 0x80")
  case True
  then show ?thesis using that [of n "[]"] by (simp add: utf8_def)
next
  case False
  obtain m ms where "utf8 n = word_of_nat m # ms" "0x80 \<le> m" "m < 0x100"
    by (rule hd_utf8_high [of n]) (use False assms in auto)
  then show ?thesis using that [of m ms] False by simp
qed

text \<open>One step of the loop, over the bytes of one character.\<close>

lemma escapes_step:
  assumes "bmp n"
  shows "escapes_loop (utf8 n @ rest) b = seq (append_chars b (strchar_text (escape_of n))) (\<lambda>b. escapes_loop rest b)"
proof -
  have n: "0 < n" "n < 0x10000" "code_point n" using assms by (simp_all add: bmp_def)
  obtain m ms where m: "utf8 n = word_of_nat m # ms" "n < 0x80 \<and> m = n \<and> ms = [] \<or> 0x80 \<le> n \<and> 0x80 \<le> m \<and> m < 0x100"
    by (rule utf8_hd [OF n(2)])
  have "unat (word_of_nat m :: u8) \<noteq> 0" using m(2) n(1) by (subst unat_of_nat_small) auto
  then have nz: "(word_of_nat m :: u8) \<noteq> 0" by auto
  show ?thesis
  proof (cases "escape_char (word_of_nat m)")
    case (Some cs)
    have 1: "n < 0x80" using escape_char_high [of m] m(2) Some by auto
    then have 2: "m = n" "ms = []" using m(2) by auto
    have 3: "strchar_text (escape_of n) = cs" using escape_ascii [of n cs] Some 1 2 by blast
    have "escapes_loop (word_of_nat n # rest) b = seq (append_chars b cs) (\<lambda>b. escapes_loop rest b)"
      using nz Some unfolding 2 by (simp only: escapes_loop.simps option.case if_False)
    then show ?thesis unfolding m(1) 2 3 by simp
  next
    case None
    have e: "escape_of n = unit_of n" using m(2) None by (auto simp: escape_of_def)
    have d: "json_utf8_decode_single (word_of_nat m # ms @ rest) = Some (word_of_nat n, Suc (length ms))"
      using decode_single_utf8 [OF n(2,3), of rest] m(1) by simp
    have "escapes_loop (word_of_nat m # ms @ rest) b = seq (append_escape b (word_of_nat n)) (\<lambda>b. escapes_loop rest b)"
      using nz None d split_bmp [OF n(2)] by (simp add: append_escape_def split del: if_split del: append_chars.simps append_hexdigits.simps)
    then show ?thesis by (simp add: m(1) e unit_facts(3) [OF n(2,3)] del: escapes_loop.simps)
  qed
qed

lemma escapes_loop_utf8:
  "list_all bmp ns \<Longrightarrow> escapes_loop (concat (map utf8 ns)) b = append_chars b (concat (map (strchar_text \<circ> escape_of) ns))"
  by (induction ns arbitrary: b) (simp_all add: escapes_step append_chars_append)

lemma escape_of_facts:
  assumes "bmp n"
  shows "strchar_ok (escape_of n) \<and> strchar_bytes (escape_of n) = utf8 n"
proof (cases "n < 0x80 \<and> escape_char (word_of_nat n) \<noteq> None")
  case True
  then show ?thesis using escape_ascii [of n] by (auto simp: utf8_def)
next
  case False
  then have "escape_of n = unit_of n" by (auto simp: escape_of_def)
  then show ?thesis using unit_facts(1,2) assms by (simp add: bmp_def)
qed

lemma length_strchar_text: "length (strchar_text (escape_of n)) \<le> 6"
  by (auto simp: escape_of_def unit_of_def strchar_text_def chars_def split: option.splits list.splits)



end
