(* ===== verification/ToolsText.thy ===== *)
theory ToolsText imports JsonLimits Machine begin

text \<open>
  The functions of \<^verbatim>\<open>tools/Tools.cpp\<close> on texts: hashing, splitting, the tests for digits and for
  UTF-8, random strings and the names of signals. A C string is the list of its bytes without the
  terminating NUL, a \<open>std::string\<close> the list of its bytes.
\<close>

section \<open>Hashing\<close>

text \<open>One turn of the loop; the character is a signed \<open>char\<close>, extended to the width of the sum.\<close>

definition hash_step :: "u32 \<Rightarrow> u8 \<Rightarrow> u32" where
  "hash_step h c =
     (let h = push_bit 4 h + scast c;
          g = h AND 0xF0000000
      in if g \<noteq> 0 then (h XOR drop_bit 24 g) XOR g else h)"

definition hashString_n :: "u8 list \<Rightarrow> nat \<Rightarrow> u32" where
  "hashString_n s len = foldl hash_step 0 (take len s)"

definition hashString_c :: "u8 list \<Rightarrow> u32" where
  "hashString_c s = hashString_n s (length s)"

definition hashString :: "u8 list \<Rightarrow> u32" where
  "hashString s = hashString_n s (length s)"

section \<open>Splitting\<close>

text \<open>
  \<open>strchr\<close>: the text before the first separator and the text after it. The separator NUL is found at
  the end of the string, and the next search starts behind it.
\<close>

definition cut :: "u8 \<Rightarrow> u8 list \<Rightarrow> (u8 list \<times> u8 list) option" where
  "cut sc p = (if sc \<in> set p then Some (takeWhile (\<lambda>c. c \<noteq> sc) p, tl (dropWhile (\<lambda>c. c \<noteq> sc) p)) else None)"

lemma cut_smaller:
  assumes "cut sc p = Some (s, r)"
  shows "length r < length p"
proof -
  let ?d = "dropWhile (\<lambda>c. c \<noteq> sc) p"
  have "sc \<in> set p" and r: "r = tl ?d" using assms by (auto simp: cut_def split: if_splits)
  then have "?d \<noteq> []" by auto
  then have "length r < length ?d" unfolding r by simp
  also have "\<dots> \<le> length p" by (rule length_dropWhile_le)
  finally show ?thesis .
qed

text \<open>
  The four overloads. \<open>value\<close> is an \<open>int\<close> in the first three: what \<open>stol\<close> and \<open>stoll\<close> return is cut to
  32 bits. \<open>False\<close> is the exception of the conversion, with the numbers read so far left in the vector.
\<close>

definition int_value :: "int \<Rightarrow> int" where
  "int_value x = sint (word_of_int x :: 32 word)"

function split_int :: "u8 \<Rightarrow> u8 list \<Rightarrow> int list \<Rightarrow> bool \<times> int list" where
  "split_int sc p v =
     (case cut sc p of
        Some (s, p) \<Rightarrow> (case std_stoi s of None \<Rightarrow> (False, v) | Some x \<Rightarrow> split_int sc p (v @ [x]))
      | None \<Rightarrow> if p \<noteq> [] then (case std_stoi p of None \<Rightarrow> (False, v) | Some x \<Rightarrow> (True, v @ [x])) else (True, v))"
  by auto
termination by (relation "measure (\<lambda>(sc, p, v). length p)") (auto intro: cut_smaller)

function split_long :: "u8 \<Rightarrow> u8 list \<Rightarrow> int list \<Rightarrow> bool \<times> int list" where
  "split_long sc p v =
     (case cut sc p of
        Some (s, p) \<Rightarrow> (case std_stol s of None \<Rightarrow> (False, v) | Some x \<Rightarrow> split_long sc p (v @ [int_value x]))
      | None \<Rightarrow> if p \<noteq> [] then (case std_stol p of None \<Rightarrow> (False, v) | Some x \<Rightarrow> (True, v @ [int_value x])) else (True, v))"
  by auto
termination by (relation "measure (\<lambda>(sc, p, v). length p)") (auto intro: cut_smaller)

function split_string :: "u8 \<Rightarrow> u8 list \<Rightarrow> u8 list list \<Rightarrow> u8 list list" where
  "split_string sc p v =
     (case cut sc p of
        Some (s, p) \<Rightarrow> split_string sc p (v @ [s])
      | None \<Rightarrow> if p \<noteq> [] then v @ [p] else v @ [[]])"
  by auto
termination by (relation "measure (\<lambda>(sc, p, v). length p)") (auto intro: cut_smaller)

definition splitString_int :: "u8 list \<Rightarrow> u8 \<Rightarrow> int list \<Rightarrow> (bool \<times> int list) res" where
  "splitString_int cstr sc v =
     (if sc = 0 then (case std_stoi cstr of None \<Rightarrow> Inr (False, v) | Some x \<Rightarrow> Inl Undefined)
      else Inr (split_int sc cstr v))"

definition splitString_long :: "u8 list \<Rightarrow> u8 \<Rightarrow> int list \<Rightarrow> (bool \<times> int list) res" where
  "splitString_long cstr sc v =
     (if sc = 0 then (case std_stol cstr of None \<Rightarrow> Inr (False, v) | Some x \<Rightarrow> Inl Undefined)
      else Inr (split_long sc cstr v))"

text \<open>\<open>stoll\<close> reads the same numbers as \<open>stol\<close>, \<open>long\<close> and \<open>long long\<close> having the same width.\<close>

definition splitString_longlong :: "u8 list \<Rightarrow> u8 \<Rightarrow> int list \<Rightarrow> (bool \<times> int list) res" where
  "splitString_longlong cstr sc v =
     (if sc = 0 then (case std_stol cstr of None \<Rightarrow> Inr (False, v) | Some x \<Rightarrow> Inl Undefined)
      else Inr (split_long sc cstr v))"

definition splitString :: "u8 list \<Rightarrow> u8 \<Rightarrow> u8 list list \<Rightarrow> (bool \<times> u8 list list) res" where
  "splitString cstr sc v = (if sc = 0 then Inl Undefined else Inr (True, split_string sc cstr v))"

section \<open>Tests\<close>

definition isDigit :: "u8 list \<Rightarrow> bool" where
  "isDigit s \<longleftrightarrow> s \<noteq> [] \<and> find (\<lambda>c. \<not> isdigit c) s = None"

text \<open>The bytes that have to follow: \<open>Some\<close> of what comes after \<open>n\<close> continuation bytes.\<close>

fun utf8_follow :: "nat \<Rightarrow> u8 list \<Rightarrow> u8 list option" where
  "utf8_follow 0 s = Some s"
| "utf8_follow (Suc j) [] = None"
| "utf8_follow (Suc j) (c # s) = (if c AND 0xC0 \<noteq> 0x80 then None else utf8_follow j s)"

lemma utf8_follow_length: "utf8_follow n s = Some r \<Longrightarrow> length r \<le> length s"
  by (induction n s rule: utf8_follow.induct) (auto split: if_splits)

text \<open>The number of bytes that follow a first byte, \<open>None\<close> where the text is refused.\<close>

definition utf8_trailing :: "u8 \<Rightarrow> u8 list \<Rightarrow> nat option" where
  "utf8_trailing c s =
     (if c \<le> 0x7F then Some 0
      else if c AND 0xE0 = 0xC0 then Some 1
      else if c = 0xED \<and> s \<noteq> [] \<and> hd s AND 0xA0 = 0xA0 then None
      else if c AND 0xF0 = 0xE0 then Some 2
      else if c AND 0xF8 = 0xF0 then Some 3
      else None)"

function isUTF8String :: "u8 list \<Rightarrow> bool" where
  "isUTF8String [] = True"
| "isUTF8String (c # s) = (case utf8_trailing c s of None \<Rightarrow> False
     | Some n \<Rightarrow> (case utf8_follow n s of None \<Rightarrow> False | Some s \<Rightarrow> isUTF8String s))"
  by pat_completeness auto
termination by (relation "measure length") (auto dest: utf8_follow_length)

section \<open>Random strings\<close>

definition alphabet :: "u8 list" where
  "alphabet = bytes_of ''0123456789abcdefghijklmnopqrstuvwxyzABCDEFGHIJKLMNOPQRSTUVWXYZ''"

definition islower :: "u8 \<Rightarrow> bool" where
  "islower c \<longleftrightarrow> 0x61 \<le> c \<and> c \<le> 0x7A"

definition isupper :: "u8 \<Rightarrow> bool" where
  "isupper c \<longleftrightarrow> 0x41 \<le> c \<and> c \<le> 0x5A"

text \<open>
  The random engine is a parameter: \<open>randomBetween min max\<close> draws a number and changes the state of
  the engine. The loop may go on for ever when it never draws a character of the kinds asked for.
\<close>

partial_function (option) randomString ::
  "(int \<Rightarrow> int \<Rightarrow> 'g \<Rightarrow> int \<times> 'g) \<Rightarrow> nat \<Rightarrow> bool \<Rightarrow> bool \<Rightarrow> bool \<Rightarrow> u8 list \<Rightarrow> 'g \<Rightarrow> (u8 list \<times> 'g) run" where
  "randomString randomBetween len has_digit has_lowercase has_uppercase result g =
     (if 0 < len \<and> (has_digit \<or> has_lowercase \<or> has_uppercase) then
        (case randomBetween 0 (int (length alphabet) - 1) g of (i, g) \<Rightarrow>
           if \<not> (0 \<le> i \<and> i < int (length alphabet)) then Some (Inl Assert_failed)
           else let c = alphabet ! nat i in
             if has_digit \<and> isdigit c \<or> has_lowercase \<and> islower c \<or> has_uppercase \<and> isupper c
             then randomString randomBetween (len - 1) has_digit has_lowercase has_uppercase (result @ [c]) g
             else randomString randomBetween len has_digit has_lowercase has_uppercase result g)
      else ret (result, g))"

section \<open>Names of signals\<close>

definition sig_string :: "string list" where
  "sig_string = [''NULL'', ''SIGHUP'', ''SIGINT'', ''SIGQUIT'', ''SIGILL'', ''SIGTRAP'',
     ''SIGABRT'', ''SIGBUS'', ''SIGFPE'', ''SIGKILL'', ''SIGUSR1'',
     ''SIGSEGV'', ''SIGUSR2'', ''SIGPIPE'', ''SIGALRM'', ''SIGTERM'',
     ''SIGSTKFLT'', ''SIGCHLD'', ''SIGCONT'', ''SIGSTOP'', ''SIGTSTP'',
     ''SIGTTIN'', ''SIGTTOU'', ''SIGURG'', ''SIGXCPU'', ''SIGXFSZ'',
     ''SIGVTALRM'', ''SIGPROF'', ''SIGWINCH'', ''SIGIO'', ''SIGPWR'',
     ''SIGSYS'']"

definition signalString :: "int \<Rightarrow> string" where
  "signalString sig = (if 0 < sig \<and> sig < int (length sig_string) then sig_string ! nat sig else ''null'')"


declare split_int.simps [simp del] split_long.simps [simp del] split_string.simps [simp del]

section \<open>The hash stays below \<open>2 ^ 28\<close>\<close>

lemma hash_step_bit:
  assumes "28 \<le> n"
  shows "\<not> bit (hash_step h c) n"
proof -
  define k where "k = push_bit 4 h + scast c"
  define g where "g = k AND NOT (mask 28)"
  have m: "(0xF0000000 :: u32) = NOT (mask 28)" by (simp add: mask_eq_exp_minus_1 not_eq_complement)
  have step: "hash_step h c = (if g \<noteq> 0 then (k XOR drop_bit 24 g) XOR g else k)"
    by (simp add: hash_step_def Let_def m k_def g_def)
  have bits: "bit g i \<longleftrightarrow> bit k i" if "28 \<le> i" for i
  proof (cases "i < 32")
    case True
    then show ?thesis using that by (simp add: g_def bit_and_iff bit_not_iff bit_mask_iff)
  next
    case False
    then show ?thesis using bit_imp_le_length [of k i] bit_imp_le_length [of g i] by auto
  qed
  have high: "\<not> bit g (24 + n)" using assms bit_imp_le_length [of g "24 + n"] by auto
  show ?thesis
  proof (cases "g = 0")
    case True
    then show ?thesis using bits [OF assms] by (simp add: step)
  next
    case False
    then show ?thesis using bits [OF assms] high by (simp add: step bit_xor_iff bit_drop_bit_eq)
  qed
qed

lemma hash_chars_bit: "28 \<le> n \<Longrightarrow> \<not> bit (foldl hash_step 0 cs) n"
  by (induction cs rule: rev_induct) (simp_all add: hash_step_bit)

lemma hash_chars_less: "unat (foldl hash_step 0 cs) < 2 ^ 28"
proof -
  let ?h = "foldl hash_step 0 cs"
  have "take_bit 28 ?h = ?h"
  proof (rule bit_eqI)
    show "bit (take_bit 28 ?h) n = bit ?h n" for n
      using hash_chars_bit [of n cs] by (cases "n < 28") (simp_all only: bit_take_bit_iff, simp_all)
  qed
  then have "unat ?h = unat (take_bit 28 ?h)" by (simp only:)
  also have "\<dots> = unat ?h mod 2 ^ 28" by (rule unat_take_byte)
  also have "\<dots> < 2 ^ 28" by (intro mod_less_divisor) simp
  finally show ?thesis .
qed

section \<open>Splitting what was joined\<close>

fun join :: "u8 \<Rightarrow> u8 list list \<Rightarrow> u8 list" where
  "join sc [] = []"
| "join sc [s] = s"
| "join sc (s # t # ts) = s @ sc # join sc (t # ts)"

lemma cut_Some: "sc \<notin> set s \<Longrightarrow> cut sc (s @ sc # r) = Some (s, r)"
  by (induction s) (auto simp: cut_def)

lemma cut_None: "sc \<notin> set s \<Longrightarrow> cut sc s = None"
  by (simp add: cut_def)

lemma split_int_join:
  assumes "\<forall>x \<in> set xs. sc \<notin> set (f x) \<and> f x \<noteq> [] \<and> std_stoi (f x) = Some (g x)"
  shows "split_int sc (join sc (map f xs)) v = (True, v @ map g xs)"
  using assms
proof (induction xs arbitrary: v rule: induct_list012)
  case 1
  then show ?case by (subst split_int.simps) (simp add: cut_None)
next
  case (2 x)
  then show ?case by (subst split_int.simps) (simp add: cut_None)
next
  case (3 x y zs)
  then show ?case by (subst split_int.simps) (simp add: cut_Some)
qed

lemma split_long_join:
  assumes "\<forall>x \<in> set xs. sc \<notin> set (f x) \<and> f x \<noteq> [] \<and> std_stol (f x) = Some (g x)"
  shows "split_long sc (join sc (map f xs)) v = (True, v @ map (int_value \<circ> g) xs)"
  using assms
proof (induction xs arbitrary: v rule: induct_list012)
  case 1
  then show ?case by (subst split_long.simps) (simp add: cut_None)
next
  case (2 x)
  then show ?case by (subst split_long.simps) (simp add: cut_None)
next
  case (3 x y zs)
  then show ?case by (subst split_long.simps) (simp add: cut_Some)
qed

text \<open>The strings come back too, but for the empty list, which gives one empty string.\<close>

lemma split_string_join:
  assumes "\<forall>s \<in> set (s # ss). sc \<notin> set s"
  shows "split_string sc (join sc (s # ss)) v = v @ s # ss"
  using assms
proof (induction ss arbitrary: s v)
  case Nil
  then show ?case by (subst split_string.simps) (simp add: cut_None)
next
  case (Cons t ts)
  then show ?case by (subst split_string.simps) (simp add: cut_Some)
qed

definition separator :: "u8 \<Rightarrow> bool" where
  "separator sc \<longleftrightarrow> sc \<noteq> 0 \<and> sc \<noteq> 0x2D \<and> \<not> isdigit sc"

lemma decimal_int_facts:
  assumes "separator sc"
  shows "sc \<notin> set (decimal_int x)" "decimal_int x \<noteq> []"
    "std_sto lo hi (decimal_int x) = (if lo \<le> x \<and> x \<le> hi then Some x else None)"
proof -
  show "sc \<notin> set (decimal_int x)" using assms decimal_digits by (auto simp: separator_def decimal_int_def)
  show "decimal_int x \<noteq> []" by (simp add: decimal_int_def)
  have "scan_number (decimal_int x) = Some (x < 0, nat \<bar>x\<bar>)" using scan_decimal_int [of "[]" x] by simp
  moreover have "signed_value (x < 0, nat \<bar>x\<bar>) = x" by (simp add: signed_value_def)
  ultimately show "std_sto lo hi (decimal_int x) = (if lo \<le> x \<and> x \<le> hi then Some x else None)"
    by (simp add: std_sto_def)
qed

text \<open>Numbers written in decimal and joined by a separator are split again: by the overload for
  \<open>int\<close> into the same numbers, by those for \<open>long\<close> and \<open>long long\<close> into the numbers cut to 32 bits, since
  they keep each number in an \<open>int\<close> before it enters the vector.\<close>

theorem splitString_roundtrip:
  assumes "separator sc" "\<forall>x \<in> set xs. int_min \<le> x \<and> x \<le> int_max" "\<forall>y \<in> set ys. long_min \<le> y \<and> y \<le> long_max"
  shows "splitString_int (join sc (map decimal_int xs)) sc v = Inr (True, v @ xs)
    \<and> splitString_long (join sc (map decimal_int ys)) sc v = Inr (True, v @ map int_value ys)
    \<and> splitString_longlong (join sc (map decimal_int ys)) sc v = Inr (True, v @ map int_value ys)"
proof -
  have "sc \<noteq> 0" using assms(1) by (simp add: separator_def)
  moreover have "split_int sc (join sc (map decimal_int xs)) v = (True, v @ map (\<lambda>x. x) xs)"
    by (rule split_int_join) (use assms in \<open>auto simp: decimal_int_facts std_stoi_def\<close>)
  moreover have "split_long sc (join sc (map decimal_int ys)) v = (True, v @ map (int_value \<circ> (\<lambda>y. y)) ys)"
    by (rule split_long_join) (use assms in \<open>auto simp: decimal_int_facts std_stol_def\<close>)
  ultimately show ?thesis by (simp add: splitString_int_def splitString_long_def splitString_longlong_def comp_def)
qed

theorem splitString_roundtrip_witness:
  "splitString_int (join 0x2C (map decimal_int [7, - 12])) 0x2C [] = Inr (True, [] @ [7, - 12])
    \<and> splitString_long (join 0x2C (map decimal_int [4294967297])) 0x2C [] = Inr (True, [] @ map int_value [4294967297])
    \<and> splitString_longlong (join 0x2C (map decimal_int [4294967297])) 0x2C [] = Inr (True, [] @ map int_value [4294967297])
    \<and> int_value 4294967297 = 1"
  using splitString_roundtrip [of "0x2C" "[7, - 12]" "[4294967297]" "[]"]
  by (simp add: separator_def isdigit_def clib_limits int_value_def)

section \<open>The UTF-8 test\<close>

definition continuation :: "u8 \<Rightarrow> bool" where
  "continuation c \<longleftrightarrow> 0x80 \<le> c \<and> c \<le> 0xBF"

text \<open>
  The groups of bytes the test lets pass: a first byte and as many continuation bytes as it announces,
  but for the encodings of surrogates. Overlong groups and values above \<open>10FFFF\<close> are among them.
\<close>

fun utf8_group :: "u8 list \<Rightarrow> bool" where
  "utf8_group [a] = (a \<le> 0x7F)"
| "utf8_group [a, b] = (0xC0 \<le> a \<and> a \<le> 0xDF \<and> continuation b)"
| "utf8_group [a, b, c] = (0xE0 \<le> a \<and> a \<le> 0xEF \<and> continuation b \<and> continuation c \<and> \<not> (a = 0xED \<and> 0xA0 \<le> b))"
| "utf8_group [a, b, c, d] = (0xF0 \<le> a \<and> a \<le> 0xF7 \<and> continuation b \<and> continuation c \<and> continuation d)"
| "utf8_group s = False"

lemma byte_classes:
  "(c :: u8) AND 0xC0 = 0x80 \<longleftrightarrow> continuation c"
  "(c :: u8) AND 0xE0 = 0xC0 \<longleftrightarrow> 0xC0 \<le> c \<and> c \<le> 0xDF"
  "(c :: u8) AND 0xF0 = 0xE0 \<longleftrightarrow> 0xE0 \<le> c \<and> c \<le> 0xEF"
  "(c :: u8) AND 0xF8 = 0xF0 \<longleftrightarrow> 0xF0 \<le> c \<and> c \<le> 0xF7"
  "continuation c \<Longrightarrow> c AND 0xA0 = 0xA0 \<longleftrightarrow> 0xA0 \<le> c"
proof -
  have "\<forall>c :: u8. (c AND 0xC0 = 0x80) = continuation c" unfolding byte_all_iff by code_simp
  then show "(c :: u8) AND 0xC0 = 0x80 \<longleftrightarrow> continuation c" by blast
  have "\<forall>c :: u8. (c AND 0xE0 = 0xC0) = (0xC0 \<le> c \<and> c \<le> 0xDF)" unfolding byte_all_iff by code_simp
  then show "(c :: u8) AND 0xE0 = 0xC0 \<longleftrightarrow> 0xC0 \<le> c \<and> c \<le> 0xDF" by blast
  have "\<forall>c :: u8. (c AND 0xF0 = 0xE0) = (0xE0 \<le> c \<and> c \<le> 0xEF)" unfolding byte_all_iff by code_simp
  then show "(c :: u8) AND 0xF0 = 0xE0 \<longleftrightarrow> 0xE0 \<le> c \<and> c \<le> 0xEF" by blast
  have "\<forall>c :: u8. (c AND 0xF8 = 0xF0) = (0xF0 \<le> c \<and> c \<le> 0xF7)" unfolding byte_all_iff by code_simp
  then show "(c :: u8) AND 0xF8 = 0xF0 \<longleftrightarrow> 0xF0 \<le> c \<and> c \<le> 0xF7" by blast
  have "\<forall>c :: u8. continuation c \<longrightarrow> (c AND 0xA0 = 0xA0) = (0xA0 \<le> c)" unfolding byte_all_iff by code_simp
  then show "continuation c \<Longrightarrow> c AND 0xA0 = 0xA0 \<longleftrightarrow> 0xA0 \<le> c" by blast
qed

lemma utf8_follow_iff:
  "utf8_follow n s = Some r \<longleftrightarrow> (\<exists>ds. length ds = n \<and> list_all continuation ds \<and> s = ds @ r)"
proof (induction n s rule: utf8_follow.induct)
  case (3 j c s)
  show ?case
  proof
    assume "utf8_follow (Suc j) (c # s) = Some r"
    then have c: "continuation c" "utf8_follow j s = Some r" by (auto simp: byte_classes split: if_splits)
    then obtain ds where "length ds = j" "list_all continuation ds" "s = ds @ r" using 3 byte_classes(1) by blast
    then show "\<exists>ds. length ds = Suc j \<and> list_all continuation ds \<and> c # s = ds @ r"
      using c(1) by (intro exI [of _ "c # ds"]) simp
  next
    assume "\<exists>ds. length ds = Suc j \<and> list_all continuation ds \<and> c # s = ds @ r"
    then obtain ds where ds: "length ds = Suc j" "list_all continuation ds" "c # s = ds @ r" by blast
    then obtain es where "ds = c # es" by (cases ds) auto
    then show "utf8_follow (Suc j) (c # s) = Some r" using ds 3 by (auto simp: byte_classes)
  qed
qed auto

lemma trailing_group:
  assumes "length ds = n" "list_all continuation ds"
  shows "utf8_trailing c (ds @ r) = Some n \<longleftrightarrow> utf8_group (c # ds)"
proof -
  consider "ds = []" | b where "ds = [b]" | b d where "ds = [b, d]" | b d e where "ds = [b, d, e]" | b d e f es where "ds = b # d # e # f # es"
    by (metis list.exhaust)
  then show ?thesis
  proof cases
    case 1
    show ?thesis using assms unfolding 1 utf8_trailing_def byte_classes by auto
  next
    case (2 b)
    show ?thesis using assms unfolding 2 utf8_trailing_def byte_classes
      by (auto simp: word_le_nat_alt split: if_splits)
  next
    case (3 b d)
    have "b AND 0xA0 = 0xA0 \<longleftrightarrow> 0xA0 \<le> b" using assms(2) unfolding 3 by (simp add: byte_classes)
    then show ?thesis using assms unfolding 3 utf8_trailing_def byte_classes
      by (auto simp: word_le_nat_alt split: if_splits)
  next
    case (4 b d e)
    show ?thesis using assms unfolding 4 utf8_trailing_def byte_classes
      by (auto simp: word_le_nat_alt split: if_splits)
  next
    case (5 b d e f es)
    show ?thesis using assms unfolding 5 utf8_trailing_def byte_classes by auto
  qed
qed

lemma group_continuation: "utf8_group (c # ds) \<Longrightarrow> list_all continuation ds"
  by (cases "c # ds" rule: utf8_group.cases) auto

lemma isUTF8String_Cons:
  "isUTF8String (c # s) \<longleftrightarrow> (\<exists>ds r. s = ds @ r \<and> utf8_group (c # ds) \<and> isUTF8String r)"
proof
  assume "isUTF8String (c # s)"
  then obtain n r where n: "utf8_trailing c s = Some n" "utf8_follow n s = Some r" "isUTF8String r"
    by (auto split: option.splits)
  then obtain ds where "length ds = n" "list_all continuation ds" "s = ds @ r" by (auto simp: utf8_follow_iff)
  then show "\<exists>ds r. s = ds @ r \<and> utf8_group (c # ds) \<and> isUTF8String r"
    using n trailing_group by blast
next
  assume "\<exists>ds r. s = ds @ r \<and> utf8_group (c # ds) \<and> isUTF8String r"
  then obtain ds r where s: "s = ds @ r" "utf8_group (c # ds)" "isUTF8String r" by blast
  then have "list_all continuation ds" by (auto dest: group_continuation)
  then have "utf8_trailing c s = Some (length ds)" "utf8_follow (length ds) s = Some r"
    using s trailing_group by (auto simp: utf8_follow_iff)
  then show "isUTF8String (c # s)" using s(3) by simp
qed

lemma isUTF8String_iff_groups:
  "isUTF8String s = (\<exists>gs. list_all utf8_group gs \<and> concat gs = s)"
proof
  show "isUTF8String s \<Longrightarrow> \<exists>gs. list_all utf8_group gs \<and> concat gs = s"
  proof (induction "length s" arbitrary: s rule: less_induct)
    case less
    show ?case
    proof (cases s)
      case Nil
      then show ?thesis by (intro exI [of _ "[]"]) simp
    next
      case (Cons c cs)
      then obtain ds r where r: "cs = ds @ r" "utf8_group (c # ds)" "isUTF8String r"
        using less.prems isUTF8String_Cons by blast
      then obtain gs where "list_all utf8_group gs" "concat gs = r" using less.hyps [of r] Cons by auto
      then show ?thesis using r Cons by (intro exI [of _ "(c # ds) # gs"]) simp
    qed
  qed
  show "\<exists>gs. list_all utf8_group gs \<and> concat gs = s \<Longrightarrow> isUTF8String s"
  proof (elim exE conjE)
    fix gs assume "list_all utf8_group gs" "concat gs = s"
    then show "isUTF8String s"
    proof (induction gs arbitrary: s)
      case (Cons g gs)
      then obtain c ds where "g = c # ds" by (cases g) auto
      moreover have "isUTF8String (concat gs)" using Cons.IH Cons.prems by simp
      ultimately have "isUTF8String (c # ds @ concat gs)"
        unfolding isUTF8String_Cons using Cons.prems(1) by (intro exI [of _ ds] exI [of _ "concat gs"]) simp
      moreover have "s = c # ds @ concat gs" using Cons.prems(2) \<open>g = c # ds\<close> by simp
      ultimately show ?case by (simp only:)
    qed simp
  qed
qed


lemma byte_range:
  assumes "m < 0x100"
  shows "(w :: u8) \<le> word_of_nat m \<longleftrightarrow> unat w \<le> m" "word_of_nat m \<le> (w :: u8) \<longleftrightarrow> m \<le> unat w"
    "word_of_nat m = (w :: u8) \<longleftrightarrow> m = unat w"
proof -
  have "unat (word_of_nat m :: u8) = m" using assms by (intro unat_of_nat_small) simp
  then show "(w :: u8) \<le> word_of_nat m \<longleftrightarrow> unat w \<le> m" "word_of_nat m \<le> (w :: u8) \<longleftrightarrow> m \<le> unat w"
    "word_of_nat m = (w :: u8) \<longleftrightarrow> m = unat w"
    by (simp_all add: word_le_nat_alt word_unat_eq_iff)
qed

lemma continuation_byte: "k < 64 \<Longrightarrow> continuation (word_of_nat (0x80 + k))"
  using byte_range(1,2) [of "0x80 + k"] by (simp add: continuation_def del: of_nat_add)

lemma no_surrogate_bytes:
  fixes n :: nat
  assumes "n < 0xD800 \<or> 0xDFFF < n" "n div 4096 = 0xD"
  shows "n div 64 mod 64 < 0x20"
proof -
  have "n div 64 div 64 = n div 4096" by (simp add: div_mult2_eq [symmetric])
  then have "n div 64 = 832 + n div 64 mod 64" using assms(2) div_mult_mod_eq [of "n div 64" 64] by simp
  moreover have "n < 57344" using assms(2) by linarith
  then have "n div 64 < 864" using assms(1) by linarith
  ultimately show ?thesis by linarith
qed

text \<open>Every encoded code point is such a group.\<close>

lemma utf8_group_utf8:
  assumes "code_point n"
  shows "utf8_group (utf8 n)"
proof -
  have s: "n < 0x110000" "n < 0xD800 \<or> 0xDFFF < n" using assms by (auto simp: code_point_def)
  have c: "continuation (word_of_nat (0x80 + m mod 64))" for m by (rule continuation_byte) simp
  consider "n < 0x80" | "0x80 \<le> n" "n < 0x800" | "0x800 \<le> n" "n < 0x10000" | "0x10000 \<le> n" by linarith
  then show ?thesis
  proof cases
    case 1
    then have "(word_of_nat n :: u8) \<le> 0x7F" by (subst byte_range) auto
    then show ?thesis using 1 by (simp add: utf8_def)
  next
    case 2
    have "(0xC0 :: u8) \<le> word_of_nat (0xC0 + n div 64)" "(word_of_nat (0xC0 + n div 64) :: u8) \<le> 0xDF"
      by (subst byte_range; use 2 in auto)+
    then show ?thesis using 2 c by (simp add: utf8_def del: of_nat_add)
  next
    case 3
    have l: "(0xE0 :: u8) \<le> word_of_nat (0xE0 + n div 4096)" "(word_of_nat (0xE0 + n div 4096) :: u8) \<le> 0xEF"
      by (subst byte_range; use 3 in auto)+
    have "\<not> ((word_of_nat (0xE0 + n div 4096) :: u8) = 0xED \<and> (0xA0 :: u8) \<le> word_of_nat (0x80 + n div 64 mod 64))"
    proof
      assume "(word_of_nat (0xE0 + n div 4096) :: u8) = 0xED \<and> (0xA0 :: u8) \<le> word_of_nat (0x80 + n div 64 mod 64)"
      then have "n div 4096 = 0xD" "0x20 \<le> n div 64 mod 64"
        using byte_range(3) [of "0xE0 + n div 4096"] byte_range(1) [of "0x80 + n div 64 mod 64"] 3 by (auto simp del: of_nat_add)
      then show False using no_surrogate_bytes [OF s(2)] by linarith
    qed
    then show ?thesis using 3 c l by (simp add: utf8_def del: of_nat_add)
  next
    case 4
    have "(0xF0 :: u8) \<le> word_of_nat (0xF0 + n div 262144)" "(word_of_nat (0xF0 + n div 262144) :: u8) \<le> 0xF7"
      by (subst byte_range; use s(1) in auto)+
    then show ?thesis using 4 c by (simp add: utf8_def del: of_nat_add)
  qed
qed

lemma isUTF8String_utf8: "list_all code_point ns \<Longrightarrow> isUTF8String (concat (map utf8 ns))"
  unfolding isUTF8String_iff_groups
  by (intro exI [of _ "map utf8 ns"]) (simp add: list_all_iff utf8_group_utf8)

end
