(* ===== verification/Registries.thy ===== *)
theory Registries imports Machine CLib begin

text \<open>
  \<^verbatim>\<open>tools/Registry.h\<close> and \<^verbatim>\<open>tools/Registry.cpp\<close>: the table of named settings, each kept as
  text. A C string is the list of its bytes without the terminating NUL. The text of floating point
  numbers is a parameter, a pair of functions \<open>printf_f\<close> and \<open>strtod\<close> of the C library.
\<close>

section \<open>The class\<close>

type_synonym registry = "u8 list \<rightharpoonup> u8 list"

definition Registry_setValue :: "registry \<Rightarrow> u8 list \<Rightarrow> u8 list \<Rightarrow> bool \<times> registry" where
  "Registry_setValue r key value = (if r key = None then (True, r(key \<mapsto> value)) else (False, r))"

text \<open>The macro: what \<open>snprintf\<close> writes to an array of 1024 characters.\<close>

definition SET_VALUE :: "registry \<Rightarrow> u8 list \<Rightarrow> u8 list \<Rightarrow> bool \<times> registry" where
  "SET_VALUE r key text = (let buf = take 1023 text in Registry_setValue r key buf)"

definition true_text :: "u8 list" where "true_text = [0x74, 0x72, 0x75, 0x65]"
definition false_text :: "u8 list" where "false_text = [0x66, 0x61, 0x6C, 0x73, 0x65]"

definition Registry_set_bool :: "registry \<Rightarrow> u8 list \<Rightarrow> bool \<Rightarrow> bool \<times> registry" where
  "Registry_set_bool r key value = SET_VALUE r key (if value then true_text else false_text)"

definition Registry_set_u8 :: "registry \<Rightarrow> u8 list \<Rightarrow> u8 \<Rightarrow> bool \<times> registry" where
  "Registry_set_u8 r key value = SET_VALUE r key (decimal (unat value))"

definition Registry_set_u16 :: "registry \<Rightarrow> u8 list \<Rightarrow> u16 \<Rightarrow> bool \<times> registry" where
  "Registry_set_u16 r key value = SET_VALUE r key (decimal (unat value))"

definition Registry_set_u32 :: "registry \<Rightarrow> u8 list \<Rightarrow> u32 \<Rightarrow> bool \<times> registry" where
  "Registry_set_u32 r key value = SET_VALUE r key (decimal (unat value))"

definition Registry_set_u64 :: "registry \<Rightarrow> u8 list \<Rightarrow> u64 \<Rightarrow> bool \<times> registry" where
  "Registry_set_u64 r key value = SET_VALUE r key (decimal (unat value))"

definition Registry_set_s8 :: "registry \<Rightarrow> u8 list \<Rightarrow> 8 word \<Rightarrow> bool \<times> registry" where
  "Registry_set_s8 r key value = SET_VALUE r key (decimal_int (sint value))"

definition Registry_set_s16 :: "registry \<Rightarrow> u8 list \<Rightarrow> 16 word \<Rightarrow> bool \<times> registry" where
  "Registry_set_s16 r key value = SET_VALUE r key (decimal_int (sint value))"

definition Registry_set_s32 :: "registry \<Rightarrow> u8 list \<Rightarrow> 32 word \<Rightarrow> bool \<times> registry" where
  "Registry_set_s32 r key value = SET_VALUE r key (decimal_int (sint value))"

definition Registry_set_s64 :: "registry \<Rightarrow> u8 list \<Rightarrow> 64 word \<Rightarrow> bool \<times> registry" where
  "Registry_set_s64 r key value = SET_VALUE r key (decimal_int (sint value))"

definition Registry_set_float :: "('f \<Rightarrow> u8 list) \<Rightarrow> registry \<Rightarrow> u8 list \<Rightarrow> 'f \<Rightarrow> bool \<times> registry" where
  "Registry_set_float printf_f r key value = SET_VALUE r key (printf_f value)"

definition Registry_set_double :: "('d \<Rightarrow> u8 list) \<Rightarrow> registry \<Rightarrow> u8 list \<Rightarrow> 'd \<Rightarrow> bool \<times> registry" where
  "Registry_set_double printf_lf r key value = SET_VALUE r key (printf_lf value)"

text \<open>The overloads for \<open>char*\<close> and \<open>const char*\<close>, and those for strings, of which the C string is taken.\<close>

definition Registry_set_chars :: "registry \<Rightarrow> u8 list \<Rightarrow> u8 list \<Rightarrow> bool \<times> registry" where
  "Registry_set_chars r key value = SET_VALUE r key value"

definition Registry_set_string :: "registry \<Rightarrow> u8 list \<Rightarrow> u8 list \<Rightarrow> bool \<times> registry" where
  "Registry_set_string r key value = SET_VALUE r key (takeWhile (\<lambda>c. c \<noteq> 0) value)"

definition Registry_getValue :: "registry \<Rightarrow> u8 list \<Rightarrow> u8 list option" where
  "Registry_getValue r key = r key"

definition tolower :: "u8 \<Rightarrow> u8" where
  "tolower c = (if 0x41 \<le> c \<and> c \<le> 0x5A then c + 0x20 else c)"

definition strcaseeq :: "u8 list \<Rightarrow> u8 list \<Rightarrow> bool" where
  "strcaseeq a b \<longleftrightarrow> map tolower a = map tolower b"

definition Registry_get_bool :: "registry \<Rightarrow> u8 list \<Rightarrow> bool \<Rightarrow> bool" where
  "Registry_get_bool r key d = (case Registry_getValue r key of Some value \<Rightarrow> strcaseeq value true_text | None \<Rightarrow> d)"

definition Registry_get_u8 :: "registry \<Rightarrow> u8 list \<Rightarrow> u8 \<Rightarrow> u8" where
  "Registry_get_u8 r key d = (case Registry_getValue r key of Some value \<Rightarrow> ucast (strtoul value) | None \<Rightarrow> d)"

definition Registry_get_u16 :: "registry \<Rightarrow> u8 list \<Rightarrow> u16 \<Rightarrow> u16" where
  "Registry_get_u16 r key d = (case Registry_getValue r key of Some value \<Rightarrow> ucast (strtoul value) | None \<Rightarrow> d)"

definition Registry_get_u32 :: "registry \<Rightarrow> u8 list \<Rightarrow> u32 \<Rightarrow> u32" where
  "Registry_get_u32 r key d = (case Registry_getValue r key of Some value \<Rightarrow> ucast (strtoul value) | None \<Rightarrow> d)"

definition Registry_get_u64 :: "registry \<Rightarrow> u8 list \<Rightarrow> u64 \<Rightarrow> u64" where
  "Registry_get_u64 r key d = (case Registry_getValue r key of Some value \<Rightarrow> strtoul value | None \<Rightarrow> d)"

definition Registry_get_s8 :: "registry \<Rightarrow> u8 list \<Rightarrow> 8 word \<Rightarrow> 8 word" where
  "Registry_get_s8 r key d = (case Registry_getValue r key of Some value \<Rightarrow> word_of_int (strtol value) | None \<Rightarrow> d)"

definition Registry_get_s16 :: "registry \<Rightarrow> u8 list \<Rightarrow> 16 word \<Rightarrow> 16 word" where
  "Registry_get_s16 r key d = (case Registry_getValue r key of Some value \<Rightarrow> word_of_int (strtol value) | None \<Rightarrow> d)"

definition Registry_get_s32 :: "registry \<Rightarrow> u8 list \<Rightarrow> 32 word \<Rightarrow> 32 word" where
  "Registry_get_s32 r key d = (case Registry_getValue r key of Some value \<Rightarrow> word_of_int (strtol value) | None \<Rightarrow> d)"

definition Registry_get_s64 :: "registry \<Rightarrow> u8 list \<Rightarrow> 64 word \<Rightarrow> 64 word" where
  "Registry_get_s64 r key d = (case Registry_getValue r key of Some value \<Rightarrow> word_of_int (strtol value) | None \<Rightarrow> d)"

definition Registry_get_float :: "(u8 list \<Rightarrow> 'f) \<Rightarrow> registry \<Rightarrow> u8 list \<Rightarrow> 'f \<Rightarrow> 'f" where
  "Registry_get_float strtof r key d = (case Registry_getValue r key of Some value \<Rightarrow> strtof value | None \<Rightarrow> d)"

definition Registry_get_double :: "(u8 list \<Rightarrow> 'd) \<Rightarrow> registry \<Rightarrow> u8 list \<Rightarrow> 'd \<Rightarrow> 'd" where
  "Registry_get_double strtod r key d = (case Registry_getValue r key of Some value \<Rightarrow> strtod value | None \<Rightarrow> d)"

definition Registry_get_chars :: "registry \<Rightarrow> u8 list \<Rightarrow> u8 list \<Rightarrow> u8 list" where
  "Registry_get_chars r key d = (case Registry_getValue r key of Some value \<Rightarrow> value | None \<Rightarrow> d)"

definition Registry_findKey :: "registry \<Rightarrow> u8 list \<Rightarrow> bool" where
  "Registry_findKey r key \<longleftrightarrow> r key \<noteq> None"

definition Registry_removeKey :: "registry \<Rightarrow> u8 list \<Rightarrow> registry" where
  "Registry_removeKey r key = (case r key of Some v \<Rightarrow> r(key := None) | None \<Rightarrow> r)"

definition Registry_clear :: "registry \<Rightarrow> registry" where
  "Registry_clear r = Map.empty"

section \<open>Reading what was set\<close>

text \<open>A value of each kind the class has an overload for, and the two operations on it.\<close>

datatype setting = R_bool bool | R_u8 u8 | R_u16 u16 | R_u32 u32 | R_u64 u64
  | R_s8 "8 word" | R_s16 "16 word" | R_s32 "32 word" | R_s64 "64 word" | R_chars "u8 list" | R_string "u8 list"

fun set_setting :: "registry \<Rightarrow> u8 list \<Rightarrow> setting \<Rightarrow> bool \<times> registry" where
  "set_setting r key (R_bool v) = Registry_set_bool r key v"
| "set_setting r key (R_u8 v) = Registry_set_u8 r key v"
| "set_setting r key (R_u16 v) = Registry_set_u16 r key v"
| "set_setting r key (R_u32 v) = Registry_set_u32 r key v"
| "set_setting r key (R_u64 v) = Registry_set_u64 r key v"
| "set_setting r key (R_s8 v) = Registry_set_s8 r key v"
| "set_setting r key (R_s16 v) = Registry_set_s16 r key v"
| "set_setting r key (R_s32 v) = Registry_set_s32 r key v"
| "set_setting r key (R_s64 v) = Registry_set_s64 r key v"
| "set_setting r key (R_chars v) = Registry_set_chars r key v"
| "set_setting r key (R_string v) = Registry_set_string r key v"

text \<open>Reading with a default of the kind wanted.\<close>

fun get_setting :: "registry \<Rightarrow> u8 list \<Rightarrow> setting \<Rightarrow> setting" where
  "get_setting r key (R_bool d) = R_bool (Registry_get_bool r key d)"
| "get_setting r key (R_u8 d) = R_u8 (Registry_get_u8 r key d)"
| "get_setting r key (R_u16 d) = R_u16 (Registry_get_u16 r key d)"
| "get_setting r key (R_u32 d) = R_u32 (Registry_get_u32 r key d)"
| "get_setting r key (R_u64 d) = R_u64 (Registry_get_u64 r key d)"
| "get_setting r key (R_s8 d) = R_s8 (Registry_get_s8 r key d)"
| "get_setting r key (R_s16 d) = R_s16 (Registry_get_s16 r key d)"
| "get_setting r key (R_s32 d) = R_s32 (Registry_get_s32 r key d)"
| "get_setting r key (R_s64 d) = R_s64 (Registry_get_s64 r key d)"
| "get_setting r key (R_chars d) = R_chars (Registry_get_chars r key d)"
| "get_setting r key (R_string d) = R_string (Registry_get_chars r key d)"

fun kind_of :: "setting \<Rightarrow> nat" where
  "kind_of (R_bool v) = 0"
| "kind_of (R_u8 v) = 1"
| "kind_of (R_u16 v) = 2"
| "kind_of (R_u32 v) = 3"
| "kind_of (R_u64 v) = 4"
| "kind_of (R_s8 v) = 5"
| "kind_of (R_s16 v) = 6"
| "kind_of (R_s32 v) = 7"
| "kind_of (R_s64 v) = 8"
| "kind_of (R_chars v) = 9"
| "kind_of (R_string v) = 10"

definition same_kind :: "setting \<Rightarrow> setting \<Rightarrow> bool" where
  "same_kind a b \<longleftrightarrow> kind_of a = kind_of b"

text \<open>Texts have to fit the array of the macro; a \<open>std::string\<close> must have no NUL.\<close>

fun setting_ok :: "setting \<Rightarrow> bool" where
  "setting_ok (R_chars s) = (length s < 1024)"
| "setting_ok (R_string s) = (length s < 1024 \<and> 0 \<notin> set s)"
| "setting_ok v = True"

lemma length_decimal: "n < 10 ^ Suc k \<Longrightarrow> length (decimal n) \<le> Suc k"
proof (induction k arbitrary: n)
  case 0
  then show ?case by (subst decimal.simps) simp
next
  case (Suc k)
  then have "n div 10 < 10 ^ Suc k" by (simp add: less_mult_imp_div_less mult.commute)
  then show ?case using Suc.IH by (subst decimal.simps) auto
qed

lemma unat_below_2_64:
  assumes "LENGTH('a) \<le> 64"
  shows "unat (v :: 'a :: len word) < 2 ^ 64"
proof -
  have "unat v < 2 ^ LENGTH('a)" by (rule unsigned_less)
  also have "(2::nat) ^ LENGTH('a) \<le> 2 ^ 64" using assms by (intro power_increasing) auto
  finally show ?thesis .
qed

lemma length_decimal_unat:
  assumes "LENGTH('a) \<le> 64"
  shows "length (decimal (unat (v :: 'a :: len word))) \<le> 20"
proof -
  have "(2::nat) ^ 64 \<le> 10 ^ Suc 19" by simp
  then have "unat v < 10 ^ Suc 19" by (rule less_le_trans [OF unat_below_2_64 [OF assms]])
  then show ?thesis using length_decimal by fastforce
qed

lemma sint_range:
  assumes "LENGTH('a) \<le> 64"
  shows "long_min \<le> sint (v :: 'a :: len word)" "sint v \<le> long_max"
proof -
  have "(2::int) ^ (LENGTH('a) - 1) \<le> 2 ^ 63" using assms by (intro power_increasing) auto
  then show "long_min \<le> sint v" "sint v \<le> long_max"
    using sint_ge [of v] sint_lt [of v] by (auto simp: clib_limits)
qed

lemma length_decimal_int:
  assumes "long_min \<le> x" "x \<le> long_max"
  shows "length (decimal_int x) \<le> 21"
proof -
  have "nat (- x) < 10 ^ Suc 19" "nat x < 10 ^ Suc 19" using assms by (auto simp: clib_limits)
  note length_decimal [OF this(1)] length_decimal [OF this(2)]
  then show ?thesis by (auto simp: decimal_int_def)
qed

lemma strtoul_decimal:
  assumes "LENGTH('a) \<le> 64"
  shows "ucast (strtoul (decimal (unat (v :: 'a :: len word)))) = v"
proof -
  have n: "unat v < 2 ^ 64" by (rule unat_below_2_64 [OF assms])
  then have "strtoul (decimal (unat v)) = word_of_nat (unat v)" using scan_decimal [of "[]"] by (simp add: strtoul_def)
  moreover have "unat (word_of_nat (unat v) :: u64) = unat v" using n by (intro unat_of_nat_small) simp
  ultimately show ?thesis by (metis of_nat_unat ucast_id)
qed

lemma strtol_decimal:
  assumes "LENGTH('a) \<le> 64"
  shows "word_of_int (strtol (decimal_int (sint (v :: 'a :: len word)))) = v"
proof -
  have "scan_number (decimal_int (sint v)) = Some (sint v < 0, nat \<bar>sint v\<bar>)" using scan_decimal_int [of "[]"] by simp
  moreover have "signed_value (sint v < 0, nat \<bar>sint v\<bar>) = sint v" by (simp add: signed_value_def)
  ultimately have "strtol (decimal_int (sint v)) = sint v" using sint_range [OF assms, of v] by (simp add: strtol_def clamp_def)
  then show ?thesis by simp
qed

text \<open>The text kept for a value, and that it is read as the value.\<close>

fun setting_text :: "setting \<Rightarrow> u8 list" where
  "setting_text (R_bool v) = (if v then true_text else false_text)"
| "setting_text (R_u8 v) = decimal (unat v)"
| "setting_text (R_u16 v) = decimal (unat v)"
| "setting_text (R_u32 v) = decimal (unat v)"
| "setting_text (R_u64 v) = decimal (unat v)"
| "setting_text (R_s8 v) = decimal_int (sint v)"
| "setting_text (R_s16 v) = decimal_int (sint v)"
| "setting_text (R_s32 v) = decimal_int (sint v)"
| "setting_text (R_s64 v) = decimal_int (sint v)"
| "setting_text (R_chars s) = s"
| "setting_text (R_string s) = takeWhile (\<lambda>c. c \<noteq> 0) s"

lemma set_setting_eq: "set_setting r key v = SET_VALUE r key (setting_text v)"
  by (cases v) (simp_all add: Registry_set_bool_def Registry_set_u8_def Registry_set_u16_def Registry_set_u32_def Registry_set_u64_def
      Registry_set_s8_def Registry_set_s16_def Registry_set_s32_def Registry_set_s64_def Registry_set_chars_def Registry_set_string_def)

lemma setting_text_fits: "setting_ok v \<Longrightarrow> take 1023 (setting_text v) = setting_text v"
proof (cases v)
  case (R_string s)
  assume "setting_ok v"
  then show ?thesis using R_string le_trans [OF length_takeWhile_le [of "\<lambda>c. c \<noteq> 0" s]] by auto
qed (auto simp: true_text_def false_text_def
    intro: le_trans [OF length_decimal_unat] le_trans [OF length_decimal_int [OF sint_range]])

lemma get_setting_text:
  assumes "r key = Some (setting_text v)" "same_kind v d" "setting_ok v"
  shows "get_setting r key d = v"
proof -
  have "strcaseeq true_text true_text" "\<not> strcaseeq false_text true_text"
    by (simp_all add: strcaseeq_def true_text_def false_text_def tolower_def)
  moreover have "takeWhile (\<lambda>c. c \<noteq> 0) s = s" if "0 \<notin> set s" for s :: "u8 list" using that by (induction s) auto
  moreover have "strtoul (decimal (unat (w :: u64))) = w" for w using strtoul_decimal [of w] by simp
  ultimately show ?thesis using assms
    by (cases v; cases d) (auto simp: same_kind_def Registry_getValue_def Registry_get_bool_def Registry_get_u8_def Registry_get_u16_def
        Registry_get_u32_def Registry_get_u64_def Registry_get_s8_def Registry_get_s16_def Registry_get_s32_def
        Registry_get_s64_def Registry_get_chars_def strtoul_decimal strtol_decimal)
qed



end
