(* ===== verification/ToolsFiles.thy ===== *)
theory ToolsFiles imports Registries begin

text \<open>
  The functions of \<^verbatim>\<open>tools/Tools.cpp\<close> on file names and directories. The file system is a
  parameter (\<open>os\<close>) with a state of type \<open>'s\<close>, one field per system call. \<open>dirname\<close> and \<open>basename\<close> are
  those of POSIX. The static arrays hold \<open>PATH_MAX\<close> characters; a name that leaves no room for the
  terminating NUL is read behind the array, unless the character looked for comes first.
\<close>

record 's filesystem =
  fs_realpath :: "u8 list \<Rightarrow> 's \<Rightarrow> u8 list option"
  fs_mkdir :: "u8 list \<Rightarrow> 's \<Rightarrow> int \<times> 's"
  fs_isDir :: "u8 list \<Rightarrow> 's \<Rightarrow> bool"
  fs_entries :: "u8 list \<Rightarrow> 's \<Rightarrow> (u8 list \<times> u8) list option"

definition PATH_MAX :: nat where "PATH_MAX = 4096"

definition slash :: u8 where "slash = 0x2F"
definition dot :: u8 where "dot = 0x2E"

section \<open>Names\<close>

definition strip_slashes :: "u8 list \<Rightarrow> u8 list" where
  "strip_slashes s = rev (dropWhile (\<lambda>c. c = slash) (rev s))"

definition before_last_slash :: "u8 list \<Rightarrow> u8 list" where
  "before_last_slash s = rev (dropWhile (\<lambda>c. c \<noteq> slash) (rev s))"

definition after_last_slash :: "u8 list \<Rightarrow> u8 list" where
  "after_last_slash s = rev (takeWhile (\<lambda>c. c \<noteq> slash) (rev s))"

definition dirname :: "u8 list \<Rightarrow> u8 list" where
  "dirname path =
     (let s = strip_slashes path
      in if path = [] then [dot] else if s = [] then [slash]
         else if slash \<notin> set s then [dot]
         else let d = strip_slashes (before_last_slash s) in if d = [] then [slash] else d)"

definition basename :: "u8 list \<Rightarrow> u8 list" where
  "basename path =
     (let s = strip_slashes path
      in if path = [] then [dot] else if s = [] then [slash] else after_last_slash s)"

text \<open>\<open>strncpy\<close> to a static array: the characters, and whether a NUL ends them.\<close>

definition static_copy :: "u8 list \<Rightarrow> u8 list \<times> bool" where
  "static_copy s = (take PATH_MAX s, length s < PATH_MAX)"

definition getDirectoryName :: "u8 list \<Rightarrow> u8 list res" where
  "getDirectoryName fullname = (case static_copy fullname of (s, ended) \<Rightarrow> if ended then Inr (dirname s) else Inl Undefined)"

definition getFilename :: "u8 list \<Rightarrow> u8 list res" where
  "getFilename fullname = (case static_copy fullname of (s, ended) \<Rightarrow> if ended then Inr (basename s) else Inl Undefined)"

text \<open>What follows the first dot, and what precedes it.\<close>

definition getFilenameExtension :: "u8 list \<Rightarrow> u8 list option res" where
  "getFilenameExtension filename =
     (case static_copy filename of (s, ended) \<Rightarrow>
        if \<not> ended then Inl Undefined
        else if dot \<in> set s then Inr (Some (tl (dropWhile (\<lambda>c. c \<noteq> dot) s))) else Inr None)"

definition getFilenamePrefix :: "u8 list \<Rightarrow> u8 list res" where
  "getFilenamePrefix filename =
     (case static_copy filename of (s, ended) \<Rightarrow>
        if dot \<in> set s then Inr (takeWhile (\<lambda>c. c \<noteq> dot) s) else if ended then Inr s else Inl Undefined)"

text \<open>\<open>snprintf\<close> of the null pointer \<open>realpath\<close> gives for a directory that does not exist is undefined.\<close>

definition absoluteDirectory :: "'s filesystem \<Rightarrow> 's \<Rightarrow> u8 list \<Rightarrow> u8 list res" where
  "absoluteDirectory os st fullname =
     seq (getDirectoryName fullname) (\<lambda>d.
     case fs_realpath os d st of
       None \<Rightarrow> Inl Undefined
     | Some realdir \<Rightarrow> seq (getFilename fullname) (\<lambda>f. Inr (take (PATH_MAX - 1) (realdir @ slash # f))))"

section \<open>Directories\<close>

definition EEXIST :: int where "EEXIST = 17"

text \<open>\<open>std::string::find\<close> from a position on.\<close>

definition find_slash :: "u8 list \<Rightarrow> nat \<Rightarrow> nat option" where
  "find_slash s i = (let r = drop i s in if slash \<in> set r then Some (i + length (takeWhile (\<lambda>c. c \<noteq> slash) r)) else None)"

lemma find_slash_ge: "find_slash s i = Some h \<Longrightarrow> i \<le> h"
  by (auto simp: find_slash_def Let_def split: if_splits)

function create_loop :: "'s filesystem \<Rightarrow> u8 list \<Rightarrow> nat \<Rightarrow> 's \<Rightarrow> bool \<times> 's" where
  "create_loop os fullPath i st =
     (if i < length fullPath then
        let head = find_slash fullPath i;
            dir = take (case head of None \<Rightarrow> length fullPath | Some h \<Rightarrow> h) fullPath;
            (rc, st) = (if dir \<noteq> [] then fs_mkdir os dir st else (0, st))
        in if \<not> (rc = 0 \<or> rc = EEXIST) then (False, st)
           else (case head of None \<Rightarrow> (True, st) | Some h \<Rightarrow> create_loop os fullPath (h + 1) st)
      else (True, st))"
  by auto
termination
  by (relation "measure (\<lambda>(os, s, i, st). length s - i)") (auto dest!: find_slash_ge [OF sym])

definition createDirectory :: "'s filesystem \<Rightarrow> u8 list \<Rightarrow> 's \<Rightarrow> (bool \<times> 's) res" where
  "createDirectory os path st = seq (absoluteDirectory os st path) (\<lambda>fullPath. Inr (create_loop os fullPath 0 st))"

text \<open>
  \<open>traverseDirectory\<close>: the entries come with the name and the type \<open>readdir\<close> reports. The function
  calls itself from its loop, and returns what that call returns. A directory that cannot be opened gives
  a null pointer to \<open>readdir\<close>.
\<close>

definition DT_DIR :: u8 where "DT_DIR = 4"

definition has_suffix :: "u8 list \<Rightarrow> u8 list option \<Rightarrow> bool" where
  "has_suffix name filter_suffix =
     (case filter_suffix of None \<Rightarrow> True
      | Some suffix \<Rightarrow> dot \<in> set name \<and> strcaseeq (dot # rev (takeWhile (\<lambda>c. c \<noteq> dot) (rev name))) suffix)"

datatype walk = Walk_folder "u8 list" | Walk_entries "u8 list" "(u8 list \<times> u8) list"

partial_function (option) traverse ::
  "'s filesystem \<Rightarrow> 's \<Rightarrow> u8 list option \<Rightarrow> (u8 list \<Rightarrow> 'c \<Rightarrow> bool \<times> 'c) \<Rightarrow> walk \<Rightarrow> 'c \<Rightarrow> (bool \<times> 'c) run" where
  "traverse os st filter_suffix callback w c =
     (case w of
        Walk_folder folder \<Rightarrow>
          if \<not> fs_isDir os folder st then ret (callback folder c)
          else (case fs_entries os folder st of
                  None \<Rightarrow> Some (Inl Undefined)
                | Some es \<Rightarrow> traverse os st filter_suffix callback (Walk_entries folder es) c)
      | Walk_entries folder es \<Rightarrow>
          (case es of
             [] \<Rightarrow> ret (True, c)
           | e # es \<Rightarrow>
               if fst e \<noteq> [] \<and> hd (fst e) = dot \<or> \<not> has_suffix (fst e) filter_suffix
               then traverse os st filter_suffix callback (Walk_entries folder es) c
               else
                 let fullname = take (PATH_MAX - 1) (folder @ slash # fst e)
                 in if snd e AND DT_DIR \<noteq> 0 then traverse os st filter_suffix callback (Walk_folder fullname) c
                    else (case callback fullname c of (ok, c) \<Rightarrow>
                       if \<not> ok then ret (False, c)
                       else traverse os st filter_suffix callback (Walk_entries folder es) c)))"

definition traverseDirectory ::
  "'s filesystem \<Rightarrow> 's \<Rightarrow> u8 list \<Rightarrow> u8 list option \<Rightarrow> (u8 list \<Rightarrow> 'c \<Rightarrow> bool \<times> 'c) \<Rightarrow> 'c \<Rightarrow> (bool \<times> 'c) run" where
  "traverseDirectory os st folder filter_suffix callback c = traverse os st filter_suffix callback (Walk_folder folder) c"

section \<open>Names taken apart\<close>

lemma getDirectoryName_getFilename:
  assumes "length (d @ slash # f) < PATH_MAX" "slash \<notin> set f" "f \<noteq> []" "d \<noteq> []" "last d \<noteq> slash"
  shows "getDirectoryName (d @ slash # f) = Inr d" "getFilename (d @ slash # f) = Inr f"
proof -
  have s: "strip_slashes (d @ slash # f) = d @ slash # f"
    using assms(2,3) by (cases f rule: rev_cases) (auto simp: strip_slashes_def)
  have dw: "dropWhile (\<lambda>c. c \<noteq> slash) (rev f @ slash # rev d) = slash # rev d"
    "takeWhile (\<lambda>c. c \<noteq> slash) (rev f @ slash # rev d) = rev f"
    using assms(2) by (auto simp: dropWhile_append takeWhile_append)
  have b: "before_last_slash (d @ slash # f) = d @ [slash]" "after_last_slash (d @ slash # f) = f"
    by (simp_all add: before_last_slash_def after_last_slash_def dw)
  have "strip_slashes (d @ [slash]) = d"
    using assms(4,5) by (cases d rule: rev_cases) (auto simp: strip_slashes_def)
  then show "getDirectoryName (d @ slash # f) = Inr d" "getFilename (d @ slash # f) = Inr f"
    using assms(1,4) s b by (simp_all add: getDirectoryName_def getFilename_def static_copy_def dirname_def basename_def)
qed

lemma at_first_dot: "dot \<notin> set p \<Longrightarrow> takeWhile (\<lambda>c. c \<noteq> dot) (p @ dot # e) = p \<and> dropWhile (\<lambda>c. c \<noteq> dot) (p @ dot # e) = dot # e"
  by (induction p) auto

lemma getFilename_parts:
  assumes "length (p @ dot # e) < PATH_MAX" "dot \<notin> set p"
  shows "getFilenamePrefix (p @ dot # e) = Inr p" "getFilenameExtension (p @ dot # e) = Inr (Some e)"
  using assms by (simp_all add: getFilenamePrefix_def getFilenameExtension_def static_copy_def at_first_dot)

end
