(* ===== verification/ToolsNet.thy ===== *)
theory ToolsNet imports Machine CLib begin

text \<open>
  The functions of \<^verbatim>\<open>tools/Tools.cpp\<close> for network addresses, the login of players, and
  encryption. The conversions of addresses, the HTTP library \<^verbatim>\<open>curl\<close>, the JSON library
  \<^verbatim>\<open>rapidjson\<close> and the block cipher of \<^verbatim>\<open>openssl\<close> are parameters.
\<close>

section \<open>Network addresses\<close>

text \<open>The byte order of the network, on a little-endian machine.\<close>

definition to_network :: "u16 \<Rightarrow> u16" where
  "to_network p = push_bit 8 p OR drop_bit 8 p"

definition to_host :: "u16 \<Rightarrow> u16" where
  "to_host p = push_bit 8 p OR drop_bit 8 p"

text \<open>The union \<open>NetworkEndpoint\<close>: the address is the lower half of the value.\<close>

definition endpoint_value :: "u32 \<Rightarrow> u32 \<Rightarrow> u64" where
  "endpoint_value address port = ucast address OR push_bit 32 (ucast port)"

definition endpoint_address :: "u64 \<Rightarrow> u32" where
  "endpoint_address value = ucast value"

definition endpoint_port :: "u64 \<Rightarrow> u32" where
  "endpoint_port value = ucast (drop_bit 32 value)"

definition combineNetworkEndpoint :: "(u8 list \<Rightarrow> u32 option) \<Rightarrow> u8 list \<Rightarrow> int \<Rightarrow> u64" where
  "combineNetworkEndpoint inet_aton address port =
     (case inet_aton address of None \<Rightarrow> 0
      | Some s_addr \<Rightarrow> endpoint_value s_addr (ucast (to_network (word_of_int port))))"

definition splitNetworkEndpoint :: "(u32 \<Rightarrow> u8 list) \<Rightarrow> u64 \<Rightarrow> u8 list \<times> int" where
  "splitNetworkEndpoint inet_ntoa value =
     (inet_ntoa (endpoint_address value), uint (to_host (ucast (endpoint_port value))))"

lemma endpoint_parts:
  "endpoint_address (endpoint_value a p) = a" "endpoint_port (endpoint_value a p) = p"
  by (rule bit_word_eqI; auto simp: endpoint_address_def endpoint_port_def endpoint_value_def bit_simps dest: bit_imp_le_length)+

lemma to_host_network: "to_host (to_network p) = p"
  by (rule bit_word_eqI) (auto simp: to_host_def to_network_def bit_simps dest: bit_imp_le_length)

lemma splitNetworkEndpoint_combine:
  assumes "inet_aton address = Some a" "inet_ntoa a = address" "0 \<le> port" "port < 65536"
  shows "splitNetworkEndpoint inet_ntoa (combineNetworkEndpoint inet_aton address port) = (address, port)"
proof -
  have u: "ucast (ucast (q :: u16) :: u32) = q" for q by (rule bit_word_eqI) (simp add: bit_simps)
  have "uint (word_of_int port :: u16) = port" using assms(3,4) by (simp add: uint_word_of_int)
  then show ?thesis using assms(1,2)
    by (simp add: splitNetworkEndpoint_def combineNetworkEndpoint_def endpoint_parts u to_host_network)
qed

section \<open>The answer of the login server\<close>

text \<open>
  What \<^verbatim>\<open>rapidjson\<close> makes of the answer, as far as the callback asks: \<open>HasMember\<close> asserts that
  the document is an object, \<open>GetString\<close> that the value is a string.
\<close>

datatype rj_value = RJ_string "u8 list" | RJ_other
datatype rj_document = RJ_object "(u8 list \<times> rj_value) list" | RJ_no_object

definition has_member :: "rj_document \<Rightarrow> u8 list \<Rightarrow> bool res" where
  "has_member d name = (case d of RJ_object ms \<Rightarrow> Inr (map_of ms name \<noteq> None) | RJ_no_object \<Rightarrow> Inl Assert_failed)"

definition is_string :: "rj_document \<Rightarrow> u8 list \<Rightarrow> bool res" where
  "is_string d name = (case d of RJ_no_object \<Rightarrow> Inl Assert_failed
     | RJ_object ms \<Rightarrow> (case map_of ms name of None \<Rightarrow> Inl Assert_failed | Some (RJ_string s) \<Rightarrow> Inr True | Some RJ_other \<Rightarrow> Inr False))"

definition get_string :: "rj_document \<Rightarrow> u8 list \<Rightarrow> u8 list res" where
  "get_string d name = (case d of RJ_no_object \<Rightarrow> Inl Assert_failed
     | RJ_object ms \<Rightarrow> (case map_of ms name of Some (RJ_string s) \<Rightarrow> Inr s | _ \<Rightarrow> Inl Assert_failed))"

definition errcode :: "u8 list" where "errcode = bytes_of ''errcode''"
definition errmsg_name :: "u8 list" where "errmsg_name = bytes_of ''errmsg''"
definition session_key_name :: "u8 list" where "session_key_name = bytes_of ''session_key''"
definition openid_name :: "u8 list" where "openid_name = bytes_of ''openid''"

text \<open>The arguments the user's function is called with: success, and two texts.\<close>

type_synonym login = "bool \<times> u8 list \<times> u8 list"

definition curlWriteCallback :: "(u8 list \<Rightarrow> rj_document option) \<Rightarrow> u8 list \<Rightarrow> login res" where
  "curlWriteCallback parse ptr =
     (case parse ptr of
        None \<Rightarrow> Inr (False, bytes_of ''ParseCallbackError'', ptr)
      | Some document \<Rightarrow>
          seq (has_member document errcode) (\<lambda>has.
          if has then
            seq (seq (has_member document errmsg_name) (\<lambda>h. if h then is_string document errmsg_name else Inr False)) (\<lambda>m.
            seq (if m then get_string document errmsg_name else Inr ptr) (\<lambda>errmsg.
            Inr (False, errcode, errmsg)))
          else
            seq (seq (has_member document session_key_name) (\<lambda>h. if \<not> h then Inr True else is_string document session_key_name)) (\<lambda>missing.
            if missing then Inr (False, bytes_of ''not found `session_key`'', ptr)
            else
              seq (seq (has_member document openid_name) (\<lambda>h. if \<not> h then Inr True
                    else seq (is_string document openid_name) (\<lambda>s. Inr (\<not> s)))) (\<lambda>missing.
              if missing then Inr (False, bytes_of ''not found `openid`'', ptr)
              else
                seq (get_string document session_key_name) (\<lambda>session_key.
                seq (get_string document openid_name) (\<lambda>openid.
                Inr (True, session_key, openid)))))))"

text \<open>
  \<open>decode_jscode\<close>: the URL, and the call of the library, which hands the answer to the callback. The
  context is deleted by the callback, and again here when the library reports an error afterwards.
\<close>

definition jscode_url :: "u8 list \<Rightarrow> u8 list \<Rightarrow> u8 list \<Rightarrow> u8 list" where
  "jscode_url appid appsecret jscode =
     bytes_of ''https://api.weixin.qq.com/sns/jscode2session?appid='' @ appid @
     bytes_of ''&secret='' @ appsecret @ bytes_of ''&js_code='' @ jscode @ bytes_of ''&grant_type=authorization_code''"

text \<open>The answers the library hands to the callback, in pieces, and the text of the error if there is one.\<close>

type_synonym transfer = "u8 list list \<times> u8 list option"

fun deliver_answers :: "(u8 list \<Rightarrow> rj_document option) \<Rightarrow> bool \<Rightarrow> u8 list list \<Rightarrow> (bool \<times> login list) res" where
  "deliver_answers parse alive [] = Inr (alive, [])"
| "deliver_answers parse alive (a # as) =
     (if \<not> alive then Inl Undefined
      else seq (curlWriteCallback parse a) (\<lambda>l. seq (deliver_answers parse False as) (\<lambda>(alive, ls). Inr (alive, l # ls))))"

definition decode_jscode ::
  "(u8 list \<Rightarrow> rj_document option) \<Rightarrow> (u8 list \<Rightarrow> transfer option) \<Rightarrow> u8 list \<Rightarrow> u8 list \<Rightarrow> u8 list \<Rightarrow> (bool \<times> login list) res" where
  "decode_jscode parse curl appid appsecret jscode =
     (case curl (jscode_url appid appsecret jscode) of
        None \<Rightarrow> Inr (False, [])
      | Some (answers, error) \<Rightarrow>
          seq (deliver_answers parse True answers) (\<lambda>(alive, calls).
          case error of
            None \<Rightarrow> Inr (True, calls)
          | Some e \<Rightarrow> if alive then Inr (False, calls @ [(False, bytes_of ''error'', e)]) else Inl Undefined))"

text \<open>No answer ever makes the callback report success: the test of \<open>session_key\<close> is the wrong way round.\<close>

lemma curlWriteCallback_fails: "curlWriteCallback parse ptr \<noteq> Inr (True, session_key, openid)"
  by (auto simp: curlWriteCallback_def seq_eq_Inr_iff has_member_def is_string_def get_string_def
      split: option.splits rj_document.splits rj_value.splits if_splits)

lemma deliver_answers_fail: "deliver_answers parse alive as = Inr (r, calls) \<Longrightarrow> list_all (\<lambda>l. \<not> fst l) calls"
proof (induction as arbitrary: alive r calls)
  case (Cons a as)
  obtain l ls where l: "curlWriteCallback parse a = Inr l" "deliver_answers parse False as = Inr (r, ls)" "calls = l # ls"
    using Cons.prems by (auto simp: seq_eq_Inr_iff split: if_splits)
  have "\<not> fst l" using curlWriteCallback_fails l(1) by (cases l) auto
  then show ?case using l Cons.IH [OF l(2)] by simp
qed simp

text \<open>A player can never log in: whatever the server answers, no call of the user's function reports success.\<close>

theorem decode_jscode_never_succeeds:
  "case decode_jscode parse curl appid appsecret jscode of Inl e \<Rightarrow> True | Inr (_, calls) \<Rightarrow> list_all (\<lambda>l. \<not> fst l) calls"
proof (cases "curl (jscode_url appid appsecret jscode)")
  case (Some t)
  obtain answers err where t: "t = (answers, err)" by (cases t)
  show ?thesis
  proof (cases "deliver_answers parse True answers")
    case (Inr r)
    obtain alive calls where r: "r = (alive, calls)" by (cases r)
    have "list_all (\<lambda>l. \<not> fst l) calls" using deliver_answers_fail Inr r by blast
    then show ?thesis using Some t Inr r by (cases err) (auto simp: decode_jscode_def)
  qed (simp add: decode_jscode_def Some t)
qed (simp add: decode_jscode_def)

section \<open>DES\<close>

text \<open>
  The electronic code book: blocks of eight bytes, the last one filled with zeros. \<open>cipher\<close> is the
  function of the library on one block, for one key and one direction.
\<close>

definition des_key :: "u8 list \<Rightarrow> u8 list" where
  "des_key deskey = (if length deskey \<le> 8 then deskey @ replicate (8 - length deskey) 0 else take 8 deskey)"

text \<open>The loop over the whole blocks, \<open>i\<close> counting them, and what is left after them.\<close>

definition whole_blocks :: "(u8 list \<Rightarrow> u8 list) \<Rightarrow> u8 list \<Rightarrow> u8 list" where
  "whole_blocks cipher s = concat (map (\<lambda>i. cipher (take 8 (drop (i * 8) s))) [0..<length s div 8])"

definition last_block :: "(u8 list \<Rightarrow> u8 list) \<Rightarrow> u8 list \<Rightarrow> u8 list" where
  "last_block cipher s =
     (if length s mod 8 \<noteq> 0 then
        let tmp1 = length s div 8 * 8; tmp2 = length s - tmp1
        in cipher (take tmp2 (drop tmp1 s) @ replicate (8 - tmp2) 0)
      else [])"

definition openssl_des_encrypt :: "(u8 list \<Rightarrow> u8 list \<Rightarrow> u8 list) \<Rightarrow> u8 list \<Rightarrow> u8 list \<Rightarrow> u8 list" where
  "openssl_des_encrypt encrypt plainString deskey =
     (let cipher = encrypt (des_key deskey) in whole_blocks cipher plainString @ last_block cipher plainString)"

definition openssl_des_decrypt :: "(u8 list \<Rightarrow> u8 list \<Rightarrow> u8 list) \<Rightarrow> u8 list \<Rightarrow> u8 list \<Rightarrow> u8 list" where
  "openssl_des_decrypt decrypt cipherString deskey =
     (let cipher = decrypt (des_key deskey) in whole_blocks cipher cipherString @ last_block cipher cipherString)"

text \<open>What decryption gives back: the text filled with zeros to whole blocks.\<close>

definition padded :: "u8 list \<Rightarrow> u8 list" where
  "padded s = s @ replicate ((8 - length s mod 8) mod 8) 0"

definition block_inverse :: "(u8 list \<Rightarrow> u8 list) \<Rightarrow> (u8 list \<Rightarrow> u8 list) \<Rightarrow> bool" where
  "block_inverse enc dec \<longleftrightarrow> (\<forall>b. length b = 8 \<longrightarrow> length (enc b) = 8 \<and> dec (enc b) = b)"

lemma whole_blocks_short: "length s < 8 \<Longrightarrow> whole_blocks c s = []"
  by (simp add: whole_blocks_def)

lemma whole_blocks_step:
  assumes "length a = 8"
  shows "whole_blocks c (a @ s) = c a @ whole_blocks c s"
proof -
  have n: "length (a @ s) div 8 = Suc (length s div 8)" using assms by simp
  have "[0..<Suc n] = 0 # map Suc [0..<n]" for n by (simp add: map_Suc_upt upt_conv_Cons del: upt_Suc)
  then show ?thesis unfolding whole_blocks_def n using assms by (simp add: comp_def add.commute del: upt_Suc)
qed

lemma last_block_step:
  assumes "length a = 8"
  shows "last_block c (a @ s) = last_block c s"
proof -
  have "(8 + length s) div 8 = Suc (length s div 8)" by simp
  then show ?thesis using assms by (simp add: last_block_def Let_def)
qed

lemma split_block:
  assumes "8 \<le> length s"
  obtains a r where "s = a @ r" "length a = 8" "length r < length s"
  using that [of "take 8 s" "drop 8 s"] assms by simp

lemma ecb_padded: "whole_blocks c s @ last_block c s = whole_blocks c (padded s)"
proof (induction "length s" arbitrary: s rule: less_induct)
  case less
  show ?case
  proof (cases "8 \<le> length s")
    case True
    then obtain a r where s: "s = a @ r" "length a = 8" "length r < length s" by (rule split_block)
    have "padded s = a @ padded r" using s(2) unfolding s(1) padded_def by simp
    then show ?thesis using less [OF s(3)] unfolding s(1) by (simp add: whole_blocks_step last_block_step s(2))
  next
    case False
    show ?thesis
    proof (cases "s = []")
      case True
      then show ?thesis by (simp add: whole_blocks_def last_block_def padded_def)
    next
      case ne: False
      have "length s mod 8 = length s" "(8 - length s) mod 8 = 8 - length s" using False ne by (auto simp: mod_less)
      then show ?thesis using False ne whole_blocks_step [of "padded s" c "[]"]
        by (simp add: whole_blocks_short last_block_def padded_def Let_def)
    qed
  qed
qed

lemma whole_blocks_inverse:
  assumes "block_inverse enc dec"
  shows "length s = 8 * n \<Longrightarrow> whole_blocks dec (whole_blocks enc s) = s \<and> length (whole_blocks enc s) = 8 * n"
proof (induction n arbitrary: s)
  case 0
  then show ?case by (simp add: whole_blocks_def)
next
  case (Suc n)
  obtain a r where s: "s = a @ r" "length a = 8" by (rule split_block [of s]) (use Suc.prems in auto)
  have "length (enc a) = 8 \<and> dec (enc a) = a" using assms s(2) by (simp add: block_inverse_def)
  then show ?case using Suc.IH [of r] Suc.prems s by (simp add: whole_blocks_step)
qed

text \<open>Decryption undoes encryption under the same key, but for the zeros that fill the last block.\<close>

theorem des_roundtrip:
  assumes "block_inverse (encrypt (des_key deskey)) (decrypt (des_key deskey))"
  shows "openssl_des_decrypt decrypt (openssl_des_encrypt encrypt s deskey) deskey = padded s"
proof -
  let ?e = "encrypt (des_key deskey)" and ?d = "decrypt (des_key deskey)"
  have "length (padded s) mod 8 = 0" by (simp add: padded_def mod_add_right_eq) presburger
  then obtain n where n: "length (padded s) = 8 * n" by auto
  note i = whole_blocks_inverse [OF assms n]
  have "last_block ?d (whole_blocks ?e (padded s)) = []" using i by (simp add: last_block_def)
  moreover have "openssl_des_encrypt encrypt s deskey = whole_blocks ?e (padded s)"
    by (simp add: openssl_des_encrypt_def ecb_padded Let_def)
  ultimately show ?thesis using i by (simp add: openssl_des_decrypt_def Let_def)
qed

end
