(* ===== verification/Http.thy ===== *)
theory Http imports Machine CLib begin

text \<open>
  \<^verbatim>\<open>tools/HttpParser.h\<close> and \<^verbatim>\<open>tools/HttpParser.cpp\<close>: the parser of HTTP requests. The data are the
  bytes up to the length given; sizes are counted as natural numbers where they cannot leave
  \<open>size_t\<close>, and the length announced by the request is added at 64 bits.
\<close>

section \<open>The class\<close>

record http =
  req_method :: "u8 list"
  req_url :: "u8 list"
  req_version :: "u8 list"
  req_headers :: "u8 list \<rightharpoonup> u8 list"

datatype parser_state =
    s_request_start | s_request_method | s_request_url | s_request_version | s_request_line_done
  | s_request_field_name | s_request_field_value | s_request_header_done

definition CR :: u8 where "CR = 0x0D"
definition LF :: u8 where "LF = 0x0A"
definition SP :: u8 where "SP = 0x20"

definition HttpParser_clear :: "http \<Rightarrow> http" where
  "HttpParser_clear h = h\<lparr>req_method := [], req_url := [], req_version := [], req_headers := Map.empty\<rparr>"

text \<open>\<open>c_str()\<close> of the value: what follows a NUL is lost.\<close>

definition HttpParser_header :: "http \<Rightarrow> u8 list \<Rightarrow> u8 list option" where
  "HttpParser_header h name = map_option (takeWhile (\<lambda>c. c \<noteq> 0)) (req_headers h name)"

text \<open>The variables of \<open>parse\<close>.\<close>

record scan =
  sc_http :: http
  sc_nread :: nat
  sc_prevread :: nat
  sc_ps :: parser_state
  sc_c :: u8
  sc_name :: "u8 list"

text \<open>\<open>assign(&data[prevread], nread - prevread - k)\<close>; a size that wraps would read outside the data.\<close>

definition piece :: "u8 list \<Rightarrow> scan \<Rightarrow> nat \<Rightarrow> u8 list res" where
  "piece data s k =
     (if sc_prevread s + k \<le> sc_nread s then Inr (take (sc_nread s - sc_prevread s - k) (drop (sc_prevread s) data))
      else Inl Undefined)"

definition trim :: "u8 list \<Rightarrow> u8 list" where
  "trim v = rev (dropWhile (\<lambda>c. c = SP) (rev (dropWhile (\<lambda>c. c = SP) v)))"

text \<open>One turn of each loop, on the next character: an early return, or the variables after it.\<close>

definition line_step :: "u8 list \<Rightarrow> u8 \<Rightarrow> scan \<Rightarrow> (u64 \<times> http + scan) res" where
  "line_step data ch s =
     (let prevc = sc_c s;
          c = ch;
          s = s\<lparr>sc_c := c, sc_nread := sc_nread s + 1\<rparr>
      in case sc_ps s of
           s_request_method \<Rightarrow>
             if c = SP then
               seq (piece data s 1) (\<lambda>m.
               Inr (Inr (s\<lparr>sc_ps := s_request_url, sc_http := (sc_http s)\<lparr>req_method := m\<rparr>, sc_prevread := sc_nread s\<rparr>)))
             else Inr (Inr s)
         | s_request_url \<Rightarrow>
             if c = SP then
               seq (piece data s 1) (\<lambda>u.
               Inr (Inr (s\<lparr>sc_ps := s_request_version, sc_http := (sc_http s)\<lparr>req_url := u\<rparr>, sc_prevread := sc_nread s\<rparr>)))
             else Inr (Inr s)
         | s_request_version \<Rightarrow>
             if c = LF \<and> prevc = CR then
               seq (piece data s 2) (\<lambda>v.
               Inr (Inr (s\<lparr>sc_ps := s_request_line_done, sc_http := (sc_http s)\<lparr>req_version := v\<rparr>\<rparr>)))
             else Inr (Inr s)
         | _ \<Rightarrow> Inr (Inl (- 1, sc_http s)))"

definition header_step :: "u8 list \<Rightarrow> u8 \<Rightarrow> scan \<Rightarrow> (u64 \<times> http + scan) res" where
  "header_step data ch s =
     (let prevc = sc_c s;
          c = ch;
          s = s\<lparr>sc_c := c, sc_nread := sc_nread s + 1\<rparr>
      in case sc_ps s of
           s_request_field_name \<Rightarrow>
             if c = LF \<and> prevc = CR then Inr (Inr (s\<lparr>sc_ps := s_request_header_done\<rparr>))
             else if c = 0x3A then
               seq (piece data s 1) (\<lambda>n.
               Inr (Inr (s\<lparr>sc_ps := s_request_field_value, sc_name := n, sc_prevread := sc_nread s\<rparr>)))
             else Inr (Inr s)
         | s_request_field_value \<Rightarrow>
             if c = LF \<and> prevc = CR then
               seq (piece data s 2) (\<lambda>v.
               let s = s\<lparr>sc_ps := s_request_field_name, sc_prevread := sc_nread s\<rparr>;
                   value = (if v \<noteq> [] then trim v else v)
               in if req_headers (sc_http s) (sc_name s) \<noteq> None then Inr (Inl (- 1, sc_http s))
                  else Inr (Inr (s\<lparr>sc_http := (sc_http s)\<lparr>req_headers := (req_headers (sc_http s))(sc_name s \<mapsto> value)\<rparr>\<rparr>)))
             else Inr (Inr s)
         | _ \<Rightarrow> Inr (Inl (- 1, sc_http s)))"

text \<open>A loop, over the characters not read yet; it ends with them or in the state \<open>final\<close>.\<close>

fun scan_loop :: "(u8 list \<Rightarrow> u8 \<Rightarrow> scan \<Rightarrow> (u64 \<times> http + scan) res) \<Rightarrow> parser_state \<Rightarrow> u8 list \<Rightarrow> u8 list \<Rightarrow> scan \<Rightarrow> (u64 \<times> http + scan) res" where
  "scan_loop step final data [] s = Inr (Inr s)"
| "scan_loop step final data (ch # chs) s =
     (if sc_ps s = final then Inr (Inr s)
      else seq (step data ch s) (\<lambda>r. case r of Inl n \<Rightarrow> Inr (Inl n) | Inr s \<Rightarrow> scan_loop step final data chs s))"

definition content_length :: "u8 list" where
  "content_length = bytes_of ''Content-Length''"

text \<open>What follows the headers: the announced body has to be there too.\<close>

definition body_length :: "u8 list \<Rightarrow> scan \<Rightarrow> u64" where
  "body_length data s =
     (case HttpParser_header (sc_http s) content_length of
        None \<Rightarrow> word_of_nat (sc_nread s)
      | Some v \<Rightarrow> (case std_stol v of None \<Rightarrow> - 1
          | Some n \<Rightarrow> let nread = word_of_nat (sc_nread s) + word_of_int n
                      in if word_of_nat (length data) < nread then 0 else nread))"

definition HttpParser_parse :: "http \<Rightarrow> u8 list \<Rightarrow> (u64 \<times> http) res" where
  "HttpParser_parse h data =
     (if data = [] then Inr (0, h)
      else
        let h = HttpParser_clear h;
            s = \<lparr>sc_http = h, sc_nread = 0, sc_prevread = 0, sc_ps = s_request_method, sc_c = 0, sc_name = []\<rparr>
        in seq (scan_loop line_step s_request_line_done data data s) (\<lambda>r. case r of
             Inl n \<Rightarrow> Inr n
           | Inr s \<Rightarrow>
             if sc_ps s \<noteq> s_request_line_done then Inr (0, sc_http s)
             else
               let s = s\<lparr>sc_prevread := sc_nread s, sc_ps := s_request_field_name\<rparr>
               in seq (scan_loop header_step s_request_header_done data (drop (sc_nread s) data) s) (\<lambda>r. case r of
                    Inl n \<Rightarrow> Inr n
                  | Inr s \<Rightarrow>
                    if sc_ps s \<noteq> s_request_header_done then Inr (0, sc_http s)
                    else Inr (body_length data s, sc_http s))))"

section \<open>Scanning a prefix of the data\<close>

lemma scan_loop_Cons:
  assumes "scan_loop step final d (ch # xs) s = Inr (Inr t)" "sc_ps s \<noteq> final"
  obtains u where "step d ch s = Inr (Inr u)" "scan_loop step final d xs u = Inr (Inr t)"
proof -
  obtain x where x: "step d ch s = Inr x" "(case x of Inl n \<Rightarrow> Inr (Inl n) | Inr s \<Rightarrow> scan_loop step final d xs s) = Inr (Inr t)"
    using assms by (auto simp: seq_eq_Inr_iff)
  show ?thesis by (cases x) (use x that in auto)
qed

text \<open>A step looks only at what has been read, and counts one character.\<close>

locale scanner =
  fixes step :: "u8 list \<Rightarrow> u8 \<Rightarrow> scan \<Rightarrow> (u64 \<times> http + scan) res"
  assumes step_local: "sc_nread s < length d1 \<Longrightarrow> step (d1 @ d2) ch s = step d1 ch s"
    and step_next: "step d ch s = Inr (Inr t) \<Longrightarrow> sc_nread t = sc_nread s + 1"
begin

lemma loop_nread:
  "scan_loop step final d xs s = Inr (Inr t) \<Longrightarrow>
     sc_nread s \<le> sc_nread t \<and> (sc_ps s \<noteq> final \<longrightarrow> sc_ps t = final \<longrightarrow> sc_nread s < sc_nread t)"
proof (induction xs arbitrary: s)
  case (Cons ch xs)
  show ?case
  proof (cases "sc_ps s = final")
    case False
    then obtain u where u: "step d ch s = Inr (Inr u)" "scan_loop step final d xs u = Inr (Inr t)"
      by (rule scan_loop_Cons [OF Cons.prems])
    then show ?thesis using Cons.IH [OF u(2)] step_next [OF u(1)] by auto
  qed (use Cons.prems in auto)
qed auto

lemma loop_prefix:
  assumes "scan_loop step final (d1 @ d2) (xs @ ys) s = Inr (Inr t)" "sc_ps t = final" "sc_nread s + length xs \<le> length d1"
  shows "if sc_nread t \<le> sc_nread s + length xs then scan_loop step final d1 xs s = Inr (Inr t)
    else \<exists>u. scan_loop step final d1 xs s = Inr (Inr u) \<and> sc_ps u \<noteq> final"
  using assms(1,3)
proof (induction xs arbitrary: s)
  case Nil
  show ?case
  proof (cases "sc_ps s = final")
    case True
    then have "t = s" using Nil.prems(1) by (cases ys) auto
    then show ?thesis by simp
  next
    case False
    then show ?thesis using loop_nread [OF Nil.prems(1)] assms(2) by auto
  qed
next
  case (Cons ch xs)
  show ?case
  proof (cases "sc_ps s = final")
    case True
    then have "t = s" using Cons.prems(1) by simp
    then show ?thesis using True by simp
  next
    case False
    then obtain u where u: "step (d1 @ d2) ch s = Inr (Inr u)" "scan_loop step final (d1 @ d2) (xs @ ys) u = Inr (Inr t)"
      by (rule scan_loop_Cons [OF Cons.prems(1) [unfolded append_Cons]])
    have l: "step d1 ch s = Inr (Inr u)" using u(1) step_local [of s d1] Cons.prems(2) by simp
    have n: "sc_nread u = sc_nread s + 1" using step_next [OF l] .
    show ?thesis using Cons.IH [OF u(2)] Cons.prems(2) False l n by auto
  qed
qed

end

lemma piece_local: "sc_nread s \<le> length d1 \<Longrightarrow> piece (d1 @ d2) s k = piece d1 s k"
  by (auto simp: piece_def)

interpretation line: scanner line_step
proof
  show "sc_nread s < length d1 \<Longrightarrow> line_step (d1 @ d2) ch s = line_step d1 ch s" for s d1 d2 ch
    by (simp add: line_step_def Let_def piece_local cong: parser_state.case_cong)
  show "line_step d ch s = Inr (Inr t) \<Longrightarrow> sc_nread t = sc_nread s + 1" for d ch s t
    by (auto simp: line_step_def Let_def seq_eq_Inr_iff split: parser_state.splits if_splits)
qed

interpretation head: scanner header_step
proof
  show "sc_nread s < length d1 \<Longrightarrow> header_step (d1 @ d2) ch s = header_step d1 ch s" for s d1 d2 ch
    by (simp add: header_step_def Let_def piece_local cong: parser_state.case_cong)
  show "header_step d ch s = Inr (Inr t) \<Longrightarrow> sc_nread t = sc_nread s + 1" for d ch s t
    by (auto simp: header_step_def Let_def seq_eq_Inr_iff split: parser_state.splits if_splits)
qed

section \<open>Scanning a well-formed request\<close>

definition advance :: "scan \<Rightarrow> u8 list \<Rightarrow> scan" where
  "advance s xs = s\<lparr>sc_nread := sc_nread s + length xs, sc_c := last (sc_c s # xs)\<rparr>"

lemma advance_fields [simp]:
  "sc_nread (advance s xs) = sc_nread s + length xs" "sc_ps (advance s xs) = sc_ps s"
  "sc_prevread (advance s xs) = sc_prevread s" "sc_http (advance s xs) = sc_http s"
  "sc_name (advance s xs) = sc_name s" "advance s [] = s"
  by (simp_all add: advance_def)

lemma skip:
  assumes "\<And>ch s'. ch \<in> set xs \<Longrightarrow> sc_ps s' = sc_ps s \<Longrightarrow> step data ch s' = Inr (Inr (advance s' [ch]))"
    and "sc_ps s \<noteq> final"
  shows "scan_loop step final data (xs @ r) s = scan_loop step final data r (advance s xs)"
  using assms
proof (induction xs arbitrary: s)
  case (Cons x xs)
  have "advance (advance s [x]) xs = advance s (x # xs)" by (simp add: advance_def)
  then show ?case using Cons.IH [of "advance s [x]"] Cons.prems by simp
qed simp

lemma piece_middle:
  assumes "sc_prevread s = length pre" "sc_nread s = length pre + length xs + k"
  shows "piece (pre @ xs @ r) s k = Inr xs"
  using assms by (simp add: piece_def)

lemma to_delimiter:
  assumes "scan_loop step final data (xs @ d # r) s = scan_loop step final data (d # r) (advance s xs)"
    and "sc_ps s \<noteq> final" "step data d (advance s xs) = Inr (Inr t)"
  shows "scan_loop step final data (xs @ d # r) s = scan_loop step final data r t"
  using assms by simp

text \<open>The parts of the request line.\<close>

lemma scan_method:
  assumes "sc_ps s = s_request_method" "sc_nread s = length pre" "sc_prevread s = length pre" "SP \<notin> set xs"
    and "data = pre @ xs @ SP # r"
  shows "scan_loop line_step s_request_line_done data (xs @ SP # r) s
    = scan_loop line_step s_request_line_done data r (s\<lparr>sc_http := (sc_http s)\<lparr>req_method := xs\<rparr>,
        sc_nread := length pre + length xs + 1, sc_prevread := length pre + length xs + 1, sc_ps := s_request_url, sc_c := SP\<rparr>)"
  by (rule to_delimiter, rule skip)
    (use assms in \<open>auto simp: line_step_def Let_def advance_def piece_middle\<close>)

lemma scan_url:
  assumes "sc_ps s = s_request_url" "sc_nread s = length pre" "sc_prevread s = length pre" "SP \<notin> set xs"
    and "data = pre @ xs @ SP # r"
  shows "scan_loop line_step s_request_line_done data (xs @ SP # r) s
    = scan_loop line_step s_request_line_done data r (s\<lparr>sc_http := (sc_http s)\<lparr>req_url := xs\<rparr>,
        sc_nread := length pre + length xs + 1, sc_prevread := length pre + length xs + 1, sc_ps := s_request_version, sc_c := SP\<rparr>)"
  by (rule to_delimiter, rule skip)
    (use assms in \<open>auto simp: line_step_def Let_def advance_def piece_middle\<close>)

lemma scan_version:
  assumes "sc_ps s = s_request_version" "sc_nread s = length pre" "sc_prevread s = length pre" "LF \<notin> set xs"
    and "data = pre @ xs @ CR # LF # r"
  shows "scan_loop line_step s_request_line_done data (xs @ CR # LF # r) s
    = Inr (Inr (s\<lparr>sc_http := (sc_http s)\<lparr>req_version := xs\<rparr>, sc_nread := length pre + length xs + 2,
        sc_ps := s_request_line_done, sc_c := LF\<rparr>))"
proof -
  have "CR \<noteq> LF" by (simp add: CR_def LF_def)
  then have "scan_loop line_step s_request_line_done data ((xs @ [CR]) @ LF # r) s
      = scan_loop line_step s_request_line_done data r (s\<lparr>sc_http := (sc_http s)\<lparr>req_version := xs\<rparr>, sc_nread := length pre + length xs + 2,
        sc_ps := s_request_line_done, sc_c := LF\<rparr>)"
    by (intro to_delimiter skip)
      (use assms piece_middle [of _ pre xs 2 "CR # LF # r"] in \<open>auto simp: line_step_def Let_def advance_def\<close>)
  then show ?thesis by (cases r) simp_all
qed

text \<open>The headers, given as they are written.\<close>

type_synonym field = "u8 list \<times> u8 list"

definition field_ok :: "field \<Rightarrow> bool" where
  "field_ok = (\<lambda>(n, v). LF \<notin> set n \<and> 0x3A \<notin> set n \<and> LF \<notin> set v)"

definition field_text :: "field \<Rightarrow> u8 list" where
  "field_text = (\<lambda>(n, v). n @ 0x3A # v @ [CR, LF])"

definition field_map :: "field list \<Rightarrow> u8 list \<rightharpoonup> u8 list" where
  "field_map fs = map_of (map (\<lambda>(n, v). (n, trim v)) fs)"

definition before_field :: "u8 list \<Rightarrow> scan \<Rightarrow> bool" where
  "before_field pre s \<longleftrightarrow> sc_ps s = s_request_field_name \<and> sc_nread s = length pre \<and> sc_prevread s = length pre \<and> sc_c s = LF"

lemma scan_field:
  assumes "before_field pre s" "field_ok (n, v)" "data = pre @ field_text (n, v) @ r" "req_headers (sc_http s) n = None"
  shows "scan_loop header_step s_request_header_done data (field_text (n, v) @ r) s
    = scan_loop header_step s_request_header_done data r (s\<lparr>sc_http := (sc_http s)\<lparr>req_headers := (req_headers (sc_http s))(n \<mapsto> trim v)\<rparr>,
        sc_nread := length pre + length (field_text (n, v)), sc_prevread := length pre + length (field_text (n, v)), sc_name := n\<rparr>)"
proof -
  have c: "CR \<noteq> LF" "(0x3A :: u8) \<noteq> LF" by (simp_all add: CR_def LF_def)
  let ?t = "s\<lparr>sc_nread := length pre + length n + 1, sc_prevread := length pre + length n + 1,
      sc_ps := s_request_field_value, sc_c := 0x3A, sc_name := n\<rparr>"
  have "scan_loop header_step s_request_header_done data (n @ 0x3A # v @ CR # LF # r) s
      = scan_loop header_step s_request_header_done data (v @ CR # LF # r) ?t"
    by (rule to_delimiter, rule skip)
      (use assms c piece_middle [of _ pre n 1 "0x3A # v @ CR # LF # r"] in \<open>auto simp: before_field_def field_ok_def field_text_def header_step_def Let_def advance_def\<close>)
  moreover have "scan_loop header_step s_request_header_done data ((v @ [CR]) @ LF # r) ?t
      = scan_loop header_step s_request_header_done data r (s\<lparr>sc_http := (sc_http s)\<lparr>req_headers := (req_headers (sc_http s))(n \<mapsto> trim v)\<rparr>,
        sc_nread := length pre + length (field_text (n, v)), sc_prevread := length pre + length (field_text (n, v)), sc_name := n\<rparr>)"
    by (intro to_delimiter skip)
      (use assms c piece_middle [of _ "pre @ n @ [0x3A]" v 2 "CR # LF # r"] in \<open>auto simp: before_field_def field_ok_def field_text_def header_step_def Let_def advance_def trim_def\<close>)
  ultimately show ?thesis by (simp add: field_text_def)
qed

lemma scan_fields:
  assumes "before_field pre s" "list_all field_ok fs" "distinct (map fst fs)"
    and "\<forall>n \<in> fst ` set fs. req_headers (sc_http s) n = None" "data = pre @ concat (map field_text fs) @ r"
  shows "\<exists>t. before_field (pre @ concat (map field_text fs)) t
    \<and> scan_loop header_step s_request_header_done data (concat (map field_text fs) @ r) s
      = scan_loop header_step s_request_header_done data r t
    \<and> sc_http t = (sc_http s)\<lparr>req_headers := req_headers (sc_http s) ++ field_map fs\<rparr>"
  using assms
proof (induction fs arbitrary: pre s)
  case Nil
  then show ?case by (intro exI [of _ s]) (simp add: field_map_def)
next
  case (Cons f fs)
  obtain n v where f: "f = (n, v)" by (cases f)
  let ?u = "s\<lparr>sc_http := (sc_http s)\<lparr>req_headers := (req_headers (sc_http s))(n \<mapsto> trim v)\<rparr>,
      sc_nread := length pre + length (field_text f), sc_prevread := length pre + length (field_text f), sc_name := n\<rparr>"
  have loop: "scan_loop header_step s_request_header_done data (field_text f @ concat (map field_text fs) @ r) s
      = scan_loop header_step s_request_header_done data (concat (map field_text fs) @ r) ?u"
    using scan_field [of pre s n v data "concat (map field_text fs) @ r"] Cons.prems f by auto
  have u: "before_field (pre @ field_text f) ?u" using Cons.prems(1) by (simp add: before_field_def)
  have "\<exists>t. before_field ((pre @ field_text f) @ concat (map field_text fs)) t
    \<and> scan_loop header_step s_request_header_done data (concat (map field_text fs) @ r) ?u
      = scan_loop header_step s_request_header_done data r t
    \<and> sc_http t = (sc_http ?u)\<lparr>req_headers := req_headers (sc_http ?u) ++ field_map fs\<rparr>"
    by (rule Cons.IH [OF u]) (use Cons.prems f in \<open>auto simp: image_iff\<close>)
  then obtain t where t: "before_field (pre @ field_text f @ concat (map field_text fs)) t"
    "scan_loop header_step s_request_header_done data (concat (map field_text fs) @ r) ?u
      = scan_loop header_step s_request_header_done data r t"
    "sc_http t = (sc_http ?u)\<lparr>req_headers := req_headers (sc_http ?u) ++ field_map fs\<rparr>"
    unfolding append_assoc by blast
  have "fst ` set (map (\<lambda>(n, v). (n, trim v)) fs) = fst ` set fs" by (force simp: image_iff)
  then have "n \<notin> dom (field_map fs)" using Cons.prems(3) f by (simp add: field_map_def dom_map_of_conv_image_fst)
  then have m: "(req_headers (sc_http s))(n \<mapsto> trim v) ++ field_map fs = req_headers (sc_http s) ++ field_map (f # fs)"
    unfolding f field_map_def by (simp add: map_add_upd_left)
  have h: "sc_http t = (sc_http s)\<lparr>req_headers := req_headers (sc_http s) ++ field_map (f # fs)\<rparr>"
    unfolding t(3) m [symmetric] by simp
  show ?case unfolding list.map concat.simps append_assoc loop t(2) using t(1) h by blast
qed

record request =
  rq_method :: "u8 list"
  rq_url :: "u8 list"
  rq_version :: "u8 list"
  rq_fields :: "field list"

definition request_ok :: "request \<Rightarrow> bool" where
  "request_ok q \<longleftrightarrow> SP \<notin> set (rq_method q) \<and> SP \<notin> set (rq_url q) \<and> LF \<notin> set (rq_version q)
     \<and> list_all field_ok (rq_fields q) \<and> distinct (map fst (rq_fields q))"

definition line_text :: "request \<Rightarrow> u8 list" where
  "line_text q = rq_method q @ SP # rq_url q @ SP # rq_version q @ [CR, LF]"

definition fields_text :: "request \<Rightarrow> u8 list" where
  "fields_text q = concat (map field_text (rq_fields q)) @ [CR, LF]"

definition request_fields :: "request \<Rightarrow> http" where
  "request_fields q = \<lparr>req_method = rq_method q, req_url = rq_url q, req_version = rq_version q, req_headers = field_map (rq_fields q)\<rparr>"

definition start_line :: "http \<Rightarrow> scan" where
  "start_line h = \<lparr>sc_http = HttpParser_clear h, sc_nread = 0, sc_prevread = 0, sc_ps = s_request_method, sc_c = 0, sc_name = []\<rparr>"

definition start_fields :: "scan \<Rightarrow> scan" where
  "start_fields s = s\<lparr>sc_prevread := sc_nread s, sc_ps := s_request_field_name\<rparr>"

lemma scan_line:
  assumes "request_ok q"
  obtains t where "scan_loop line_step s_request_line_done (line_text q @ r) (line_text q @ r) (start_line h) = Inr (Inr t)"
    "sc_ps t = s_request_line_done" "before_field (line_text q) (start_fields t)"
    "sc_http t = \<lparr>req_method = rq_method q, req_url = rq_url q, req_version = rq_version q, req_headers = Map.empty\<rparr>"
proof -
  let ?m = "rq_method q" and ?u = "rq_url q" and ?v = "rq_version q"
  let ?d = "?m @ SP # ?u @ SP # ?v @ CR # LF # r"
  have d: "line_text q @ r = ?d" by (simp add: line_text_def)
  have ok: "SP \<notin> set ?m" "SP \<notin> set ?u" "LF \<notin> set ?v" using assms by (auto simp: request_ok_def)
  let ?l = "\<lambda>cs s. scan_loop line_step s_request_line_done ?d cs s"
  define a where "a = (start_line h)\<lparr>sc_http := (sc_http (start_line h))\<lparr>req_method := ?m\<rparr>,
        sc_nread := length ?m + 1, sc_prevread := length ?m + 1, sc_ps := s_request_url, sc_c := SP\<rparr>"
  define b where "b = a\<lparr>sc_http := (sc_http a)\<lparr>req_url := ?u\<rparr>, sc_nread := length (?m @ [SP]) + length ?u + 1,
        sc_prevread := length (?m @ [SP]) + length ?u + 1, sc_ps := s_request_version, sc_c := SP\<rparr>"
  define t where "t = b\<lparr>sc_http := (sc_http b)\<lparr>req_version := ?v\<rparr>, sc_nread := length (?m @ SP # ?u @ [SP]) + length ?v + 2,
        sc_ps := s_request_line_done, sc_c := LF\<rparr>"
  have 1: "?l ?d (start_line h) = ?l (?u @ SP # ?v @ CR # LF # r) a"
    using scan_method [of "start_line h" "[]" ?m ?d "?u @ SP # ?v @ CR # LF # r"] ok by (simp add: start_line_def a_def)
  have 2: "?l (?u @ SP # ?v @ CR # LF # r) a = ?l (?v @ CR # LF # r) b"
    unfolding b_def by (rule scan_url) (use ok in \<open>simp_all add: a_def\<close>)
  have 3: "?l (?v @ CR # LF # r) b = Inr (Inr t)"
    unfolding t_def by (rule scan_version) (use ok in \<open>simp_all add: b_def\<close>)
  show ?thesis
  proof (rule that)
    show "scan_loop line_step s_request_line_done (line_text q @ r) (line_text q @ r) (start_line h) = Inr (Inr t)"
      unfolding d 1 2 3 by (rule refl)
  qed (simp_all add: t_def b_def a_def start_line_def start_fields_def before_field_def line_text_def HttpParser_clear_def)
qed

lemma scan_head:
  assumes "request_ok q" "before_field (line_text q) s"
    "sc_http s = \<lparr>req_method = rq_method q, req_url = rq_url q, req_version = rq_version q, req_headers = Map.empty\<rparr>"
  shows "\<exists>t. scan_loop header_step s_request_header_done (line_text q @ fields_text q @ r) (fields_text q @ r) s = Inr (Inr t)
    \<and> sc_ps t = s_request_header_done \<and> sc_nread t = length (line_text q @ fields_text q) \<and> sc_http t = request_fields q"
proof -
  let ?fs = "concat (map field_text (rq_fields q))"
  let ?d = "line_text q @ ?fs @ CR # LF # r"
  have ok: "list_all field_ok (rq_fields q)" "distinct (map fst (rq_fields q))" using assms(1) by (simp_all add: request_ok_def)
  obtain u where u: "before_field (line_text q @ ?fs) u"
    "scan_loop header_step s_request_header_done ?d (?fs @ CR # LF # r) s = scan_loop header_step s_request_header_done ?d (CR # LF # r) u"
    "sc_http u = (sc_http s)\<lparr>req_headers := req_headers (sc_http s) ++ field_map (rq_fields q)\<rparr>"
    using scan_fields [OF assms(2) ok, of ?d "CR # LF # r"] assms(3) by auto
  let ?t = "u\<lparr>sc_c := LF, sc_nread := sc_nread u + 2, sc_ps := s_request_header_done\<rparr>"
  have "CR \<noteq> LF" "CR \<noteq> 0x3A" by (simp_all add: CR_def LF_def)
  then have "scan_loop header_step s_request_header_done ?d (CR # LF # r) u = scan_loop header_step s_request_header_done ?d r ?t"
    using u(1) by (simp add: header_step_def Let_def before_field_def)
  also have "\<dots> = Inr (Inr ?t)" by (cases r) simp_all
  finally have "scan_loop header_step s_request_header_done (line_text q @ fields_text q @ r) (fields_text q @ r) s = Inr (Inr ?t)"
    using u(2) by (simp add: fields_text_def)
  moreover have "sc_nread ?t = length (line_text q @ fields_text q)" using u(1) by (simp add: before_field_def fields_text_def)
  moreover have "sc_http ?t = request_fields q" using u(3) assms(3) by (simp add: request_fields_def)
  ultimately show ?thesis by (intro exI [of _ ?t]) simp
qed

lemma parse_unfold:
  assumes "data \<noteq> []"
  shows "HttpParser_parse h data = seq (scan_loop line_step s_request_line_done data data (start_line h)) (\<lambda>r. case r of
             Inl n \<Rightarrow> Inr n
           | Inr s \<Rightarrow>
             if sc_ps s \<noteq> s_request_line_done then Inr (0, sc_http s)
             else seq (scan_loop header_step s_request_header_done data (drop (sc_nread s) data) (start_fields s)) (\<lambda>r. case r of
                    Inl n \<Rightarrow> Inr n
                  | Inr s \<Rightarrow> if sc_ps s \<noteq> s_request_header_done then Inr (0, sc_http s)
                      else Inr (body_length data s, sc_http s)))"
  unfolding HttpParser_parse_def start_line_def start_fields_def Let_def if_not_P [OF assms] by (intro arg_cong [where f = "seq _"] ext) (simp split: sum.split)

text \<open>The length of the body the request announces, and that the text has one of that length.\<close>

definition announces :: "request \<Rightarrow> nat \<Rightarrow> bool" where
  "announces q n = (case HttpParser_header (request_fields q) content_length of None \<Rightarrow> n = 0
     | Some v \<Rightarrow> std_stol v = Some (int n))"

lemma body_length_eq:
  assumes "announces q n" "sc_http s = request_fields q" "sc_nread s + n < 2 ^ 64" "length data < 2 ^ 64" "sc_nread s \<le> length data"
  shows "body_length data s = (if sc_nread s + n \<le> length data then word_of_nat (sc_nread s + n) else 0)"
proof -
  have "unat (word_of_nat (length data) :: u64) = length data" "unat (word_of_nat (sc_nread s + n) :: u64) = sc_nread s + n"
    using assms(3,4) by (simp_all add: unat_of_nat_small del: of_nat_add)
  then have "(word_of_nat (length data) :: u64) < word_of_nat (sc_nread s + n) \<longleftrightarrow> length data < sc_nread s + n"
    unfolding word_less_nat_alt by simp
  then show ?thesis using assms(1,2,5)
    by (auto simp: body_length_def announces_def Let_def split: option.splits)
qed

lemma parse_whole:
  assumes "request_ok q" "announces q (length body)" "text = line_text q @ fields_text q @ body" "length (text @ rest) < 2 ^ 64"
  shows "HttpParser_parse h (text @ rest) = Inr (word_of_nat (length text), request_fields q)"
proof -
  let ?d = "line_text q @ fields_text q @ body @ rest"
  obtain t where t: "scan_loop line_step s_request_line_done ?d ?d (start_line h) = Inr (Inr t)"
    "sc_ps t = s_request_line_done" "before_field (line_text q) (start_fields t)"
    "sc_http t = \<lparr>req_method = rq_method q, req_url = rq_url q, req_version = rq_version q, req_headers = Map.empty\<rparr>"
    by (rule scan_line [OF assms(1)])
  have n: "sc_nread t = length (line_text q)" using t(3) by (simp add: before_field_def start_fields_def)
  have "sc_http (start_fields t) = \<lparr>req_method = rq_method q, req_url = rq_url q, req_version = rq_version q, req_headers = Map.empty\<rparr>"
    using t(4) by (simp add: start_fields_def)
  then obtain u where u: "scan_loop header_step s_request_header_done ?d (fields_text q @ body @ rest) (start_fields t) = Inr (Inr u)"
    "sc_ps u = s_request_header_done" "sc_nread u = length (line_text q @ fields_text q)" "sc_http u = request_fields q"
    using scan_head [OF assms(1) t(3), of "body @ rest"] by blast
  have "?d \<noteq> []" by (simp add: line_text_def)
  moreover have "body_length ?d u = word_of_nat (length text)"
    using body_length_eq [OF assms(2) u(4), of ?d] u(3) assms(3,4) by (simp add: add.assoc del: of_nat_add)
  ultimately have "HttpParser_parse h ?d = Inr (word_of_nat (length text), request_fields q)"
    using t(1,2) u(1,2,4) n by (simp add: parse_unfold)
  then show ?thesis unfolding assms(3) by simp
qed

lemma parse_prefix:
  assumes "request_ok q" "announces q (length body)" "text = line_text q @ fields_text q @ body" "length text < 2 ^ 64" "k < length text"
  shows "runs (HttpParser_parse h (take k text)) (\<lambda>(n, _). n = 0)"
proof (cases "k = 0")
  case False
  let ?d = "take k text"
  have d: "text = ?d @ drop k text" "length ?d = k" "?d \<noteq> []" using assms(5) False by auto
  obtain t where t: "scan_loop line_step s_request_line_done text text (start_line h) = Inr (Inr t)"
    "sc_ps t = s_request_line_done" "before_field (line_text q) (start_fields t)"
    "sc_http t = \<lparr>req_method = rq_method q, req_url = rq_url q, req_version = rq_version q, req_headers = Map.empty\<rparr>"
    unfolding assms(3) by (rule scan_line [OF assms(1)])
  have n: "sc_nread t = length (line_text q)" using t(3) by (simp add: before_field_def start_fields_def)
  have n0: "sc_nread (start_line h) = 0" by (simp add: start_line_def)
  have "scan_loop line_step s_request_line_done (?d @ drop k text) (?d @ drop k text) (start_line h) = Inr (Inr t)"
    using t(1) by simp
  note line = line.loop_prefix [OF this t(2)]
  show ?thesis
  proof (cases "k < length (line_text q)")
    case True
    then show ?thesis using line n n0 d by (auto simp: parse_unfold)
  next
    case False
    have l: "scan_loop line_step s_request_line_done ?d ?d (start_line h) = Inr (Inr t)" using line n n0 d(2) False by simp
    have "sc_http (start_fields t) = \<lparr>req_method = rq_method q, req_url = rq_url q, req_version = rq_version q, req_headers = Map.empty\<rparr>"
      using t(4) by (simp add: start_fields_def)
    then obtain u where u: "scan_loop header_step s_request_header_done text (fields_text q @ body) (start_fields t) = Inr (Inr u)"
      "sc_ps u = s_request_header_done" "sc_nread u = length (line_text q @ fields_text q)" "sc_http u = request_fields q"
      using scan_head [OF assms(1) t(3), of body] unfolding assms(3) by blast
    let ?xs = "drop (length (line_text q)) ?d"
    have x: "fields_text q @ body = ?xs @ drop k text"
      using False assms(3) d(1) by (metis append_eq_conv_conj drop_append append_take_drop_id diff_is_0_eq' drop_0 d(2) linorder_not_less)
    have n1: "sc_nread (start_fields t) = length (line_text q)" using n by (simp add: start_fields_def)
    have "scan_loop header_step s_request_header_done (?d @ drop k text) (?xs @ drop k text) (start_fields t) = Inr (Inr u)"
      using u(1) x by simp
    note head = head.loop_prefix [OF this u(2)]
    show ?thesis
    proof (cases "k < length (line_text q @ fields_text q)")
      case True
      then show ?thesis using head l n n1 u(3) d t(2) False assms(5) by (auto simp: parse_unfold)
    next
      case k: False
      have hd: "scan_loop header_step s_request_header_done ?d ?xs (start_fields t) = Inr (Inr u)"
        using head n1 u(3) d(2) False k by simp
      have "\<not> sc_nread u + length body \<le> length ?d" "sc_nread u + length body < 2 ^ 64" "length ?d < 2 ^ 64" "sc_nread u \<le> length ?d"
        using u(3) assms(3,4,5) d(2) k by simp_all
      then have "body_length ?d u = 0" using body_length_eq [OF assms(2) u(4), of ?d] by presburger
      then show ?thesis using l hd n d(3) t(2) u(2) by (simp add: parse_unfold)
    qed
  qed
qed (simp add: HttpParser_parse_def)

text \<open>C13. A well-formed request whose \<open>Content-Length\<close> is the length of its body is read in full: the
  result is the number of its bytes, whatever follows them, and the object holds its parts. Of any
  proper beginning of it the parser asks for more.\<close>

theorem http_parse_complete:
  assumes "request_ok q" "announces q (length body)" "text = line_text q @ fields_text q @ body" "length (text @ rest) < 2 ^ 64"
  shows "HttpParser_parse h (text @ rest) = Inr (word_of_nat (length text), request_fields q)
    \<and> list_all (\<lambda>k. runs (HttpParser_parse h (take k text)) (\<lambda>(n, _). n = 0)) [0..<length text]"
  using parse_whole [OF assms] parse_prefix [OF assms(1-3)] assms(4) by (simp add: list_all_iff)

definition demo_request :: request where
  "demo_request = \<lparr>rq_method = bytes_of ''POST'', rq_url = bytes_of ''/a'', rq_version = bytes_of ''HTTP/1.1'',
     rq_fields = [(content_length, bytes_of '' 2 '')]\<rparr>"

definition demo_text :: "u8 list" where
  "demo_text = line_text demo_request @ fields_text demo_request @ bytes_of ''hi''"

theorem http_parse_complete_witness:
  "HttpParser_parse (request_fields demo_request) (demo_text @ bytes_of ''GET'') = Inr (word_of_nat (length demo_text), request_fields demo_request)
    \<and> list_all (\<lambda>k. runs (HttpParser_parse (request_fields demo_request) (take k demo_text)) (\<lambda>(n, _). n = 0)) [0..<length demo_text]"
proof (rule http_parse_complete [where body = "bytes_of ''hi''"])
  show "request_ok demo_request" by (simp add: request_ok_def demo_request_def bytes_of_def field_ok_def content_length_def SP_def LF_def)
  have "std_stol (bytes_of ''2'') = Some 2"
    by (simp add: std_stol_def std_sto_def scan_number_def isspace_def isdigit_def digits_value_def digit_value_def clib_limits
        signed_value_def bytes_of_def)
  moreover have "HttpParser_header (request_fields demo_request) content_length = Some (bytes_of ''2'')"
    by (simp add: HttpParser_header_def request_fields_def demo_request_def field_map_def trim_def bytes_of_def SP_def)
  ultimately show "announces demo_request (length (bytes_of ''hi''))" by (simp add: announces_def bytes_of_def)
  show "demo_text = line_text demo_request @ fields_text demo_request @ bytes_of ''hi''" by (rule demo_text_def)
  show "length (demo_text @ bytes_of ''GET'') < 2 ^ 64"
    by (simp add: demo_text_def demo_request_def line_text_def fields_text_def field_text_def content_length_def bytes_of_def)
qed

end
