(* ===== verification/Xml.thy ===== *)
theory Xml imports Registries begin

text \<open>
  \<^verbatim>\<open>xml/XmlParser.h\<close> and \<^verbatim>\<open>xml/XmlParser.cpp\<close>: the walk over an XML document that fills a
  registry. The library \<^verbatim>\<open>rapidxml\<close> is a parameter, one field per function the code calls. Its parser
  works in place: the names and values of a document are pointers into the text it was given, which
  has to outlive the document; \<open>xp_alive\<close> says whether that text is still there.
\<close>

section \<open>The class\<close>

record 'n rapidxml =
  rx_load :: "u8 list \<Rightarrow> 'n option option"
  rx_first_node :: "'n \<Rightarrow> 'n option"
  rx_first_named :: "u8 list \<Rightarrow> 'n \<Rightarrow> 'n option"
  rx_next_sibling :: "'n \<Rightarrow> 'n option"
  rx_next_named :: "u8 list \<Rightarrow> 'n \<Rightarrow> 'n option"
  rx_name :: "'n \<Rightarrow> u8 list"
  rx_attributes :: "'n \<Rightarrow> (u8 list \<times> u8 list) list"

record 'n xml_parser =
  xp_root :: "'n option"
  xp_alive :: bool

text \<open>
  \<open>rx_load\<close> reads a file and parses it: \<open>None\<close> is an exception, otherwise it gives the first node of the
  document. The text belongs to a \<open>rapidxml::file\<close> local to the block, which is destroyed at its end.
\<close>

definition XmlParser_open :: "'n rapidxml \<Rightarrow> u8 list \<Rightarrow> 'n xml_parser \<Rightarrow> bool \<times> 'n xml_parser" where
  "XmlParser_open api xmlfile p =
     (case rx_load api xmlfile of None \<Rightarrow> (False, p)
      | Some root \<Rightarrow> (True, p\<lparr>xp_root := root, xp_alive := False\<rparr>))"

definition getRootNode :: "'n xml_parser \<Rightarrow> 'n option" where
  "getRootNode p = xp_root p"

text \<open>With a name the library compares it with the names of the nodes.\<close>

definition getChildNode :: "'n rapidxml \<Rightarrow> 'n \<Rightarrow> u8 list option \<Rightarrow> 'n option" where
  "getChildNode api n name = (case name of Some s \<Rightarrow> rx_first_named api s n | None \<Rightarrow> rx_first_node api n)"

definition getNextNode :: "'n rapidxml \<Rightarrow> 'n \<Rightarrow> u8 list option \<Rightarrow> 'n option" where
  "getNextNode api n name = (case name of Some s \<Rightarrow> rx_next_named api s n | None \<Rightarrow> rx_next_sibling api n)"

text \<open>Reading the name of a node: a node without a name has no pointer into the text.\<close>

definition node_name :: "'n rapidxml \<Rightarrow> 'n xml_parser \<Rightarrow> 'n \<Rightarrow> u8 list res" where
  "node_name api p n = (if xp_alive p \<or> rx_name api n = [] then Inr (rx_name api n) else Inl Undefined)"

definition node_attributes :: "'n rapidxml \<Rightarrow> 'n xml_parser \<Rightarrow> 'n \<Rightarrow> (u8 list \<times> u8 list) list res" where
  "node_attributes api p n = (if xp_alive p \<or> rx_attributes api n = [] then Inr (rx_attributes api n) else Inl Undefined)"

definition getValueByString :: "'n rapidxml \<Rightarrow> 'n xml_parser \<Rightarrow> 'n \<Rightarrow> u8 list option \<Rightarrow> u8 list option \<Rightarrow> u8 list option res" where
  "getValueByString api p n name defaultValue =
     seq (node_attributes api p n) (\<lambda>as.
     Inr (case (case name of Some s \<Rightarrow> find (\<lambda>(a, v). a = s) as | None \<Rightarrow> find (\<lambda>_. True) as) of
            None \<Rightarrow> defaultValue | Some (a, v) \<Rightarrow> Some v))"

definition getValueByInteger :: "'n rapidxml \<Rightarrow> 'n xml_parser \<Rightarrow> 'n \<Rightarrow> u8 list option \<Rightarrow> u32 \<Rightarrow> u32 res" where
  "getValueByInteger api p n name defaultValue =
     seq (node_attributes api p n) (\<lambda>as.
     Inr (case (case name of Some s \<Rightarrow> find (\<lambda>(a, v). a = s) as | None \<Rightarrow> find (\<lambda>_. True) as) of
            None \<Rightarrow> defaultValue | Some (a, v) \<Rightarrow> ucast (strtoul v)))"

text \<open>\<open>getValues\<close> fills a map it got by value, which is lost.\<close>

definition getValues :: "'n rapidxml \<Rightarrow> 'n xml_parser \<Rightarrow> 'n \<Rightarrow> (u8 list \<rightharpoonup> u8 list) \<Rightarrow> (u8 list \<rightharpoonup> u8 list) res" where
  "getValues api p n values = seq (node_attributes api p n) (\<lambda>as. Inr values)"

section \<open>Filling a registry\<close>

text \<open>The name a setting gets, cut to the array of \<open>snprintf\<close>.\<close>

definition setting_key :: "u8 list \<Rightarrow> u8 list \<Rightarrow> u8 list \<Rightarrow> u8 list" where
  "setting_key name node attr =
     (if 0 < length name then take 1023 (name @ 0x2E # node @ 0x2E # attr) else take 1023 (node @ 0x2E # attr))"

text \<open>The loop over the attributes; a name that is there already is only logged.\<close>

fun set_attributes :: "u8 list \<Rightarrow> u8 list \<Rightarrow> (u8 list \<times> u8 list) list \<Rightarrow> registry \<Rightarrow> registry" where
  "set_attributes name node [] r = r"
| "set_attributes name node ((a, v) # as) r =
     (case Registry_set_chars r (setting_key name node a) v of (ok, r) \<Rightarrow> set_attributes name node as r)"

partial_function (option) makeRegistry ::
  "'n rapidxml \<Rightarrow> 'n xml_parser \<Rightarrow> registry \<Rightarrow> 'n option \<Rightarrow> u8 list \<Rightarrow> registry run" where
  "makeRegistry api p r xmlNode name =
     (case xmlNode of
        None \<Rightarrow> ret r
      | Some n \<Rightarrow>
          bind_run (Some (node_attributes api p n)) (\<lambda>as.
          bind_run (if as = [] then ret r
                    else bind_run (Some (node_name api p n)) (\<lambda>node. ret (set_attributes name node as r))) (\<lambda>r.
          bind_run (if xmlNode = getRootNode p then makeRegistry api p r (getChildNode api n None) []
                    else bind_run (Some (node_name api p n)) (\<lambda>node.
                      if 0 < length name then makeRegistry api p r (getChildNode api n None) (name @ 0x2E # node)
                      else makeRegistry api p r (getChildNode api n None) node)) (\<lambda>r.
          makeRegistry api p r (getNextNode api n None) name))))"

definition XmlParser_makeRegistry :: "'n rapidxml \<Rightarrow> 'n xml_parser \<Rightarrow> registry \<Rightarrow> u8 list \<Rightarrow> registry run" where
  "XmlParser_makeRegistry api p r prefix = makeRegistry api p r (getRootNode p) prefix"

section \<open>The settings of a document\<close>

text \<open>
  A document as a tree, and when the pointers of the library stand for a list of siblings. \<open>root\<close> is the
  first node of the document, which no other node is.
\<close>

datatype xml = Element "u8 list" "(u8 list \<times> u8 list) list" "xml list"

fun stands_for :: "'n rapidxml \<Rightarrow> 'n \<Rightarrow> 'n option \<Rightarrow> xml list \<Rightarrow> bool" where
  "stands_for api root x [] = (x = None)"
| "stands_for api root x (Element nm as cs # ts) =
     (case x of None \<Rightarrow> False | Some n \<Rightarrow> n \<noteq> root \<and> rx_name api n = nm \<and> rx_attributes api n = as
        \<and> stands_for api root (rx_first_node api n) cs \<and> stands_for api root (rx_next_sibling api n) ts)"

text \<open>The settings, in the order in which they are entered, and what entering them gives.\<close>

definition attribute_settings :: "u8 list \<Rightarrow> u8 list \<Rightarrow> (u8 list \<times> u8 list) list \<Rightarrow> (u8 list \<times> u8 list) list" where
  "attribute_settings name node as = map (\<lambda>(a, v). (setting_key name node a, take 1023 v)) as"

fun settings :: "u8 list \<Rightarrow> xml list \<Rightarrow> (u8 list \<times> u8 list) list" where
  "settings name [] = []"
| "settings name (Element nm as cs # ts) =
     attribute_settings name nm as @ settings (if name = [] then nm else name @ 0x2E # nm) cs @ settings name ts"

definition enter_all :: "registry \<Rightarrow> (u8 list \<times> u8 list) list \<Rightarrow> registry" where
  "enter_all r kvs = foldl (\<lambda>r (k, v). if r k = None then r(k \<mapsto> v) else r) r kvs"

lemma enter_all_append: "enter_all r (xs @ ys) = enter_all (enter_all r xs) ys"
  by (simp add: enter_all_def)

lemma enter_all_Nil [simp]: "enter_all r [] = r"
  by (simp add: enter_all_def)

lemma set_attributes_enter_all: "set_attributes name node as r = enter_all r (attribute_settings name node as)"
  by (induction as arbitrary: r)
    (auto simp: attribute_settings_def enter_all_def Registry_set_chars_def SET_VALUE_def Registry_setValue_def)

text \<open>What a registry holds after entering settings: the first value of each new name.\<close>

lemma enter_all_lookup: "enter_all r kvs = map_of kvs ++ r"
proof (induction kvs arbitrary: r)
  case (Cons kv kvs)
  obtain k v where "kv = (k, v)" by (cases kv)
  moreover have "enter_all r ((k, v) # kvs) = enter_all (if r k = None then r(k \<mapsto> v) else r) kvs" by (simp add: enter_all_def)
  ultimately show ?case unfolding Cons.IH by (auto simp: fun_eq_iff map_add_def split: option.splits)
qed (simp add: enter_all_def)

lemma makeRegistry_siblings:
  assumes "xp_alive p" "xp_root p = Some root"
  shows "stands_for api root x ts \<Longrightarrow> makeRegistry api p r x name = ret (enter_all r (settings name ts))"
proof (induction name ts arbitrary: x r rule: settings.induct)
  case (1 name)
  then show ?case by (subst makeRegistry.simps) simp
next
  case (2 name nm as cs ts)
  obtain n where n: "x = Some n" "n \<noteq> root" "rx_name api n = nm" "rx_attributes api n = as"
    "stands_for api root (rx_first_node api n) cs" "stands_for api root (rx_next_sibling api n) ts"
    using 2(3) by (auto split: option.splits)
  show ?case unfolding n(1)
    by (subst makeRegistry.simps)
      (use n assms 2(1) [OF n(5)] 2(2) [OF n(6)] in
        \<open>auto simp: node_attributes_def node_name_def getRootNode_def getChildNode_def getNextNode_def
           set_attributes_enter_all enter_all_append attribute_settings_def\<close>)
qed


text \<open>A document with one element below the root, its nodes being numbers.\<close>

definition toy_xml :: "nat rapidxml" where
  "toy_xml = \<lparr>rx_load = (\<lambda>_. Some (Some 0)), rx_first_node = (\<lambda>n. if n = 0 then Some 1 else None),
     rx_first_named = (\<lambda>_ _. None), rx_next_sibling = (\<lambda>_. None), rx_next_named = (\<lambda>_ _. None),
     rx_name = (\<lambda>n. if n = 0 then [0x72] else [0x6C]), rx_attributes = (\<lambda>n. if n = 0 then [] else [([0x61], [0x32])])\<rparr>"


end
