(* ===== verification/Configs.thy ===== *)
theory Configs imports Xml ToolsFiles begin

text \<open>
  \<^verbatim>\<open>config/Config.h\<close> and \<^verbatim>\<open>config/Config.cpp\<close>: the command line, the configuration file and
  the guard process. The options \<open>getopt\<close> reports, the system calls and the XML library are parameters.
  The titles of the processes and the text of the usage message are left out.
\<close>

section \<open>The class\<close>

record config =
  cf_values :: registry
  cf_halt :: bool
  cf_runasdaemon :: bool
  cf_reload :: bool
  cf_terminate_reason :: int
  cf_confile :: "u8 list"
  cf_guard :: bool
  cf_threads :: int

definition new_Config :: config where
  "new_Config = \<lparr>cf_values = Map.empty, cf_halt = False, cf_runasdaemon = False, cf_reload = False,
     cf_terminate_reason = 0, cf_confile = bytes_of ''conf/conf.xml'', cf_guard = False, cf_threads = 0\<rparr>"

definition syshalt :: "config \<Rightarrow> int \<Rightarrow> config" where
  "syshalt c reason = (if \<not> cf_halt c then c\<lparr>cf_terminate_reason := reason, cf_halt := True\<rparr> else c)"

text \<open>The root node of the file is read with an empty prefix.\<close>

definition Config_loadconf :: "'n rapidxml \<Rightarrow> config \<Rightarrow> u8 list \<Rightarrow> (bool \<times> config) run" where
  "Config_loadconf api c xmlfile =
     (case XmlParser_open api xmlfile \<lparr>xp_root = None, xp_alive = True\<rparr> of (ok, p) \<Rightarrow>
        if \<not> ok then ret (False, c)
        else
          let c = c\<lparr>cf_values := Registry_clear (cf_values c)\<rparr>
          in bind_run (XmlParser_makeRegistry api p (cf_values c) []) (\<lambda>r. ret (True, c\<lparr>cf_values := r\<rparr>)))"

text \<open>\<open>atoi\<close>, and one option; \<open>False\<close> after the usage message.\<close>

definition atoi :: "u8 list \<Rightarrow> int" where
  "atoi s = sint (word_of_int (strtol s) :: 32 word)"

definition set_option :: "config \<Rightarrow> u8 \<Rightarrow> u8 list \<Rightarrow> bool \<times> config" where
  "set_option c opt optarg =
     (if opt = 0x64 \<or> opt = 0x44 then (True, c\<lparr>cf_runasdaemon := True\<rparr>)
      else if opt = 0x63 then (True, c\<lparr>cf_confile := optarg\<rparr>)
      else if opt = 0x67 then (True, c\<lparr>cf_guard := True\<rparr>)
      else if opt = 0x74 then (True, c\<lparr>cf_threads := atoi optarg\<rparr>)
      else (False, c))"

fun set_options :: "config \<Rightarrow> (u8 \<times> u8 list) list \<Rightarrow> bool \<times> config" where
  "set_options c [] = (True, c)"
| "set_options c ((opt, optarg) # opts) =
     (case set_option c opt optarg of (ok, c) \<Rightarrow> if ok then set_options c opts else (False, c))"

text \<open>
  The processes: \<open>fork\<close> gives 0 in the child, and \<open>waitpid\<close> the status word. The loop ends in a child
  with \<open>False\<close>, and with \<open>True\<close> when the guard calls \<open>exit\<close>.
\<close>

record 'w processes =
  ps_daemon :: "'w \<Rightarrow> 'w"
  ps_fork :: "'w \<Rightarrow> int \<times> 'w"
  ps_waitpid :: "int \<Rightarrow> 'w \<Rightarrow> int \<times> 'w"

partial_function (option) guard_loop :: "'w processes \<Rightarrow> config \<Rightarrow> 'w \<Rightarrow> (bool \<times> 'w) option" where
  "guard_loop ps c w =
     (if cf_halt c then Some (False, w)
      else (case ps_fork ps w of (pid, w) \<Rightarrow>
        if pid \<noteq> 0 then
          (case ps_waitpid ps pid w of (status, w) \<Rightarrow>
             if status = 1 then Some (True, w) else guard_loop ps c w)
        else Some (False, w)))"

text \<open>\<open>init\<close>: \<open>None\<close> for the configuration is the exit of the guard.\<close>

definition Config_init ::
  "'n rapidxml \<Rightarrow> 's filesystem \<Rightarrow> 's \<Rightarrow> 'w processes \<Rightarrow> config \<Rightarrow> (u8 \<times> u8 list) list \<Rightarrow> 'w \<Rightarrow> (bool \<times> config option \<times> 'w) run" where
  "Config_init api os st ps c opts w =
     (case set_options c opts of (ok, c) \<Rightarrow>
        if \<not> ok then ret (False, Some c, w)
        else
          let w = (if cf_runasdaemon c then ps_daemon ps w else w)
          in (case (if cf_runasdaemon c \<and> cf_guard c then guard_loop ps c w else Some (False, w)) of
                None \<Rightarrow> None
              | Some (exited, w) \<Rightarrow>
                  if exited then ret (False, None, w)
                  else if cf_confile c = [] then ret (True, Some c, w)
                  else bind_run (Some (absoluteDirectory os st (cf_confile c))) (\<lambda>f.
                       let c = c\<lparr>cf_confile := f\<rparr>
                       in bind_run (Config_loadconf api c f) (\<lambda>(ok, c). ret (ok, Some c, w)))))"

section \<open>The configuration file\<close>

text \<open>A configuration file that is read and parsed, and whose root element has an element below it or an
  attribute, is walked after its text has been freed: the block that parses it owns the text, and the
  document only points into it.\<close>

theorem loadconf_reads_freed_text:
  assumes "rx_load api xmlfile = Some (Some root)"
    and "rx_attributes api root \<noteq> [] \<or> (\<exists>n. rx_first_node api root = Some n \<and> n \<noteq> root \<and> (rx_name api n \<noteq> [] \<or> rx_attributes api n \<noteq> []))"
  shows "Config_loadconf api c xmlfile = Some (Inl Undefined)"
proof -
  let ?p = "\<lparr>xp_root = Some root, xp_alive = False\<rparr>"
  have inner: "makeRegistry api ?p r (Some n) [] = Some (Inl Undefined)"
    if "n \<noteq> root" "rx_name api n \<noteq> [] \<or> rx_attributes api n \<noteq> []" for n r
    using that by (subst makeRegistry.simps) (auto simp: node_attributes_def node_name_def getRootNode_def)
  have "makeRegistry api ?p Map.empty (Some root) [] = Some (Inl Undefined)"
    using assms(2) inner
    by (subst makeRegistry.simps) (auto simp: node_attributes_def node_name_def getRootNode_def getChildNode_def)
  then show ?thesis using assms(1)
    by (simp add: Config_loadconf_def XmlParser_open_def XmlParser_makeRegistry_def getRootNode_def Registry_clear_def)
qed

theorem loadconf_reads_freed_text_witness:
  "Config_loadconf toy_xml new_Config [0x61] = Some (Inl Undefined)"
  by (rule loadconf_reads_freed_text [where root = 0]) (simp_all add: toy_xml_def)

section \<open>The guard\<close>

text \<open>
  The status word of \<open>waitpid\<close> has the exit code in its second byte. A child that gives up while it starts
  exits with code 1, which is not the status 1 the guard looks for; it starts the next one, for ever.
\<close>

definition exit_status :: "int \<Rightarrow> int" where
  "exit_status code = code * 256"

definition children_never_stop :: "'w processes \<Rightarrow> bool" where
  "children_never_stop ps \<longleftrightarrow> (\<forall>w. fst (ps_fork ps w) \<noteq> 0) \<and> (\<forall>pid w. fst (ps_waitpid ps pid w) \<noteq> 1)"

lemma guard_loop_returns: "guard_loop ps c w = Some y \<Longrightarrow> cf_halt c \<or> \<not> children_never_stop ps"
  by (rule guard_loop.raw_induct [where P = "\<lambda>ps c w y. cf_halt c \<or> \<not> children_never_stop ps"])
    (auto simp: children_never_stop_def split: prod.splits if_splits; metis fst_conv)+

lemma guard_never_gives_up:
  assumes "\<not> cf_halt c" "\<And>w. fst (ps_fork ps w) \<noteq> 0" "\<And>pid w. \<exists>code. fst (ps_waitpid ps pid w) = exit_status code"
  shows "guard_loop ps c w = None"
proof (rule ccontr)
  have "exit_status code \<noteq> 1" for code unfolding exit_status_def by presburger
  then have "children_never_stop ps" using assms(2,3) unfolding children_never_stop_def by metis
  moreover assume "guard_loop ps c w \<noteq> None"
  ultimately show False using guard_loop_returns [of ps c w] assms(1) by blast
qed

end
