(* ===== verification/Times.thy ===== *)
theory Times imports Machine CLib "HOL-Library.Signed_Division" begin

text \<open>
  \<^verbatim>\<open>time/Time.h\<close>, \<^verbatim>\<open>time/Time.cpp\<close> and \<^verbatim>\<open>time/Timer.h\<close>: points in time and interval timers.
  Both parts of a \<open>timeval\<close> are signed 64-bit integers; the overflow of a signed product is undefined. The
  clock of the system is a parameter.
\<close>

section \<open>Time\<close>

record time =
  tv_sec :: "64 word"
  tv_usec :: "64 word"

definition Time_of_milliseconds :: "u64 \<Rightarrow> time" where
  "Time_of_milliseconds milliseconds = \<lparr>tv_sec = milliseconds div 1000, tv_usec = milliseconds mod 1000 * 1000\<rparr>"

definition Time_of_parts :: "u64 \<Rightarrow> u64 \<Rightarrow> time" where
  "Time_of_parts secondPart millisecondPart = \<lparr>tv_sec = secondPart, tv_usec = millisecondPart * 1000\<rparr>"

definition secondPart :: "time \<Rightarrow> u64" where
  "secondPart t = tv_sec t"

definition millisecondPart :: "time \<Rightarrow> u64" where
  "millisecondPart t = word_of_int (sint (tv_usec t) sdiv 1000)"

definition microsecondsPart :: "time \<Rightarrow> u64" where
  "microsecondsPart t = tv_usec t"

definition Time_milliseconds :: "time \<Rightarrow> u64 res" where
  "Time_milliseconds t =
     (let s = sint (tv_sec t) * 1000
      in if long_min \<le> s \<and> s \<le> long_max then Inr (word_of_int s + millisecondPart t) else Inl Undefined)"

definition Time_copy :: "time \<Rightarrow> time" where
  "Time_copy t = \<lparr>tv_sec = secondPart t, tv_usec = microsecondsPart t\<rparr>"

definition Time_now :: "('w \<Rightarrow> time) \<Rightarrow> 'w \<Rightarrow> time" where
  "Time_now gettimeofday w = gettimeofday w"

definition Time_assign :: "u64 \<Rightarrow> time" where
  "Time_assign milliseconds = \<lparr>tv_sec = milliseconds div 1000, tv_usec = milliseconds mod 1000 * 1000\<rparr>"

definition Time_plus :: "time \<Rightarrow> u64 \<Rightarrow> u64 res" where
  "Time_plus t milliseconds = seq (Time_milliseconds t) (\<lambda>m. Inr (m + milliseconds))"

definition Time_plus_time :: "time \<Rightarrow> time \<Rightarrow> u64 res" where
  "Time_plus_time t u = seq (Time_milliseconds t) (\<lambda>m. seq (Time_milliseconds u) (\<lambda>n. Inr (m + n)))"

definition Time_minus :: "time \<Rightarrow> u64 \<Rightarrow> u64 res" where
  "Time_minus t milliseconds = seq (Time_milliseconds t) (\<lambda>m. Inr (if milliseconds \<le> m then m - milliseconds else 0))"

definition Time_minus_time :: "time \<Rightarrow> time \<Rightarrow> u64 res" where
  "Time_minus_time t u = seq (Time_milliseconds t) (\<lambda>m. seq (Time_milliseconds u) (\<lambda>n. Inr (if n \<le> m then m - n else 0)))"

definition Time_greater :: "time \<Rightarrow> time \<Rightarrow> bool res" where
  "Time_greater t u = seq (Time_milliseconds t) (\<lambda>m. seq (Time_milliseconds u) (\<lambda>n. Inr (n < m)))"

definition Time_less :: "time \<Rightarrow> time \<Rightarrow> bool res" where
  "Time_less t u = seq (Time_milliseconds t) (\<lambda>m. seq (Time_milliseconds u) (\<lambda>n. Inr (m < n)))"

section \<open>Timers\<close>

text \<open>The time \<open>now\<close> is that of the global \<open>sTime\<close>, in milliseconds.\<close>

record timer =
  last_scale :: u64
  interval_milliseconds :: u32

definition new_Timer :: "u64 \<Rightarrow> u32 \<Rightarrow> timer" where
  "new_Timer now milliseconds = \<lparr>last_scale = now, interval_milliseconds = milliseconds\<rparr>"

definition resetInterval :: "u32 \<Rightarrow> timer \<Rightarrow> timer" where
  "resetInterval milliseconds ti = ti\<lparr>interval_milliseconds := milliseconds\<rparr>"

definition Timer_fires :: "u64 \<Rightarrow> timer \<Rightarrow> bool \<times> timer" where
  "Timer_fires now ti =
     (if ucast (interval_milliseconds ti) \<le> now - last_scale ti then (True, ti\<lparr>last_scale := now\<rparr>) else (False, ti))"

definition resetScale :: "u64 \<Rightarrow> timer \<Rightarrow> timer" where
  "resetScale now ti = ti\<lparr>last_scale := now\<rparr>"

section \<open>Facts\<close>

text \<open>A time made of milliseconds has as many, up to the largest a signed 64-bit number holds.\<close>

lemma Time_milliseconds_of:
  assumes "ms < 2 ^ 63"
  shows "Time_milliseconds (Time_of_milliseconds ms) = Inr ms"
proof -
  have n: "unat ms < 2 ^ 63" using assms by (simp add: word_less_nat_alt)
  have si: "sint w = int (unat w)" if "unat w < 2 ^ 63" for w :: "64 word"
  proof -
    have "int (unat w) < int (2 ^ 63)" using that by (simp only: of_nat_less_iff)
    then have "uint w < 2 ^ 63" by (simp only: uint_nat of_nat_power of_nat_numeral)
    then have "signed_take_bit 63 (uint w) = uint w"
      by (intro signed_take_bit_int_eq_self) (auto intro: order_trans [OF _ uint_ge_0])
    then show ?thesis by (simp add: sint_uint)
  qed
  have s: "unat (ms div 1000) = unat ms div 1000" by (simp add: unat_div)
  have u: "unat (ms mod 1000 * 1000) = unat ms mod 1000 * 1000"
    by (simp add: unat_word_ariths unat_mod)
  have "sint (ms div 1000) = int (unat ms div 1000)" using si [of "ms div 1000"] n s by simp
  moreover have "int (unat ms div 1000) * 1000 \<le> long_max"
  proof -
    have "unat ms div 1000 * 1000 \<le> unat ms" by simp
    then have "unat ms div 1000 * 1000 \<le> 2 ^ 63 - 1" using n by linarith
    then show ?thesis by (simp add: clib_limits)
  qed
  moreover have "sint (ms mod 1000 * 1000) sdiv 1000 = int (unat ms mod 1000)"
  proof -
    have "unat ms mod 1000 < 1000" by simp
    then have "sint (ms mod 1000 * 1000) = int (unat ms mod 1000) * 1000" using si [of "ms mod 1000 * 1000"] u by simp
    then show ?thesis by (cases "unat ms mod 1000 = 0") (simp_all add: signed_divide_int_def sgn_mult)
  qed
  ultimately have "Time_milliseconds (Time_of_milliseconds ms)
      = Inr (word_of_int (int (unat ms div 1000) * 1000) + word_of_int (int (unat ms mod 1000)))"
    by (simp add: Time_milliseconds_def Time_of_milliseconds_def millisecondPart_def clib_limits)
  also have "word_of_int (int (unat ms div 1000) * 1000) + word_of_int (int (unat ms mod 1000))
      = (word_of_int (int (unat ms div 1000 * 1000 + unat ms mod 1000)) :: u64)"
    by (simp only: of_int_add of_nat_add of_nat_mult of_nat_numeral)
  also have "\<dots> = ms" unfolding div_mult_mod_eq by simp
  finally show ?thesis .
qed

text \<open>
  A timer asked at the times of a list, none before the one before it: how often it fires, and that
  between two times at which it fires its interval passes.
\<close>

fun firings :: "u64 list \<Rightarrow> timer \<Rightarrow> u64 list" where
  "firings [] ti = []"
| "firings (now # nows) ti = (case Timer_fires now ti of (f, ti) \<Rightarrow> (if f then [now] else []) @ firings nows ti)"

lemma firings_apart:
  assumes "sorted (map unat (last_scale ti # nows))"
  shows "successively (\<lambda>a b. unat (interval_milliseconds ti) \<le> unat b - unat a) (last_scale ti # firings nows ti)
    \<and> list_all (\<lambda>t. t \<in> set nows) (firings nows ti)"
  using assms
proof (induction nows arbitrary: ti)
  case (Cons now nows)
  have d: "unat (now - last_scale ti) = unat now - unat (last_scale ti)"
    using Cons.prems by (intro unat_minus_le) (auto simp: word_le_nat_alt)
  have c: "unat (ucast (interval_milliseconds ti) :: u64) = unat (interval_milliseconds ti)"
  proof -
    have "unat (interval_milliseconds ti) < 2 ^ LENGTH(64)" by (rule less_trans [OF unat_u32_less]) simp
    then show ?thesis unfolding unsigned_ucast_eq by (intro take_bit_nat_eq_self)
  qed
  show ?case
  proof (cases "ucast (interval_milliseconds ti) \<le> now - last_scale ti")
    case True
    let ?ti = "ti\<lparr>last_scale := now\<rparr>"
    have "successively (\<lambda>a b. unat (interval_milliseconds ?ti) \<le> unat b - unat a) (last_scale ?ti # firings nows ?ti)
      \<and> list_all (\<lambda>t. t \<in> set nows) (firings nows ?ti)"
      by (rule Cons.IH) (use Cons.prems in auto)
    then show ?thesis using True d c by (auto simp: Timer_fires_def word_le_nat_alt list_all_iff)
  next
    case False
    have "successively (\<lambda>a b. unat (interval_milliseconds ti) \<le> unat b - unat a) (last_scale ti # firings nows ti)
      \<and> list_all (\<lambda>t. t \<in> set nows) (firings nows ti)"
      by (rule Cons.IH) (use Cons.prems in auto)
    then show ?thesis using False by (auto simp: Timer_fires_def list_all_iff)
  qed
qed simp

end
