(* ===== verification/LuaCalls.thy ===== *)
theory LuaCalls imports LuaTables LuaEncode Registries begin

text \<open>
  \<^verbatim>\<open>lua/luaT.h\<close> and \<^verbatim>\<open>lua/luaT.cpp\<close>: calling functions of a Lua program and taking their results, the
  owner of a Lua state, running files, and registering functions and values. The functions of the Lua
  library they call are fields of \<open>lua_api\<close>; a call into a program may not return. The functions that
  print a state are in \<open>LuaDump\<close>.
\<close>

section \<open>The Lua library\<close>

record ('l, 'd) lua_api = "('l, 'd) lua_reader" +
  lua_isnumber :: "int \<Rightarrow> 'l \<Rightarrow> bool"
  lua_isstring :: "int \<Rightarrow> 'l \<Rightarrow> bool"
  lua_isuserdata :: "int \<Rightarrow> 'l \<Rightarrow> bool"
  lua_tonumber :: "int \<Rightarrow> 'l \<Rightarrow> 'd"
  lua_tointeger :: "int \<Rightarrow> 'l \<Rightarrow> int"
  lua_pushlightuserdata :: "u64 \<Rightarrow> 'l \<Rightarrow> 'l"
  lua_gettable :: "int \<Rightarrow> 'l \<Rightarrow> 'l"
  lua_rawset :: "int \<Rightarrow> 'l \<Rightarrow> 'l"
  lua_rawget :: "int \<Rightarrow> 'l \<Rightarrow> 'l"
  lua_rawgeti :: "int \<Rightarrow> int \<Rightarrow> 'l \<Rightarrow> 'l"
  lua_insert :: "int \<Rightarrow> 'l \<Rightarrow> 'l"
  get_global :: "u8 list \<Rightarrow> 'l \<Rightarrow> 'l"
  set_global :: "u8 list \<Rightarrow> 'l \<Rightarrow> 'l"
  load_string :: "u8 list \<Rightarrow> 'l \<Rightarrow> int \<times> 'l"
  protected_call :: "int \<Rightarrow> int \<Rightarrow> int \<Rightarrow> 'l \<Rightarrow> (int \<times> 'l) run"
  double_is_integer :: "'d \<Rightarrow> bool"
  to_float :: "'d \<Rightarrow> 'd"
  C_address :: "string \<Rightarrow> u64"

definition LUA_TNONE :: int where "LUA_TNONE = - 1"
definition LUA_TLIGHTUSERDATA :: int where "LUA_TLIGHTUSERDATA = 2"
definition LUA_TTHREAD :: int where "LUA_TTHREAD = 8"
definition LUA_REGISTRYINDEX :: int where "LUA_REGISTRYINDEX = - 10000"

definition LUA_REGISTER_NAMESPACE :: "u8 list" where "LUA_REGISTER_NAMESPACE = bytes_of ''cc''"
definition LUA_REGISTER_SERVICE :: "u8 list" where "LUA_REGISTER_SERVICE = bytes_of ''cc.service''"

text \<open>The macros of the library's header, and \<open>lua_pushstring\<close> of a C string.\<close>

definition lua_istable :: "('l, 'd, 'z) lua_api_scheme \<Rightarrow> int \<Rightarrow> 'l \<Rightarrow> bool" where
  "lua_istable api i L = (lua_type api i L = LUA_TTABLE)"

definition lua_isfunction :: "('l, 'd, 'z) lua_api_scheme \<Rightarrow> int \<Rightarrow> 'l \<Rightarrow> bool" where
  "lua_isfunction api i L = (lua_type api i L = LUA_TFUNCTION)"

definition lua_isboolean :: "('l, 'd, 'z) lua_api_scheme \<Rightarrow> int \<Rightarrow> 'l \<Rightarrow> bool" where
  "lua_isboolean api i L = (lua_type api i L = LUA_TBOOLEAN)"

definition lua_isnoneornil :: "('l, 'd, 'z) lua_api_scheme \<Rightarrow> int \<Rightarrow> 'l \<Rightarrow> bool" where
  "lua_isnoneornil api i L = (lua_type api i L \<le> 0)"

definition C_string :: "u8 list \<Rightarrow> u8 list" where
  "C_string s = takeWhile (\<lambda>c. c \<noteq> 0) s"

definition lua_pushstring :: "('l, 'd, 'z) lua_api_scheme \<Rightarrow> u8 list \<Rightarrow> 'l \<Rightarrow> 'l" where
  "lua_pushstring api s L = lua_pushlstring api (C_string s) L"

section \<open>Calls\<close>

text \<open>The value of a call. A number goes through a \<open>float\<close>.\<close>

datatype 'd luaT_Value = Value_nil | Value_bool bool | Value_integer int | Value_float 'd | Value_string "u8 list"

text \<open>A value at the top of the stack. Only \<open>lua_tolstring\<close> changes the state; without a case the old value stays.\<close>

definition get_result :: "('l, 'd, 'z) lua_api_scheme \<Rightarrow> 'd luaT_Value \<Rightarrow> 'l \<Rightarrow> ('d luaT_Value \<times> 'l) res" where
  "get_result api r L =
     (if lua_isboolean api (- 1) L then Inr (Value_bool (lua_toboolean api (- 1) L), L)
      else if lua_isnumber api (- 1) L then
        (if double_is_integer api (lua_tonumber api (- 1) L) then Inr (Value_integer (lua_tointeger api (- 1) L), L)
         else Inr (Value_float (to_float api (lua_tonumber api (- 1) L)), L))
      else if lua_isstring api (- 1) L then
        (case lua_tolstring api (- 1) L of (None, L) \<Rightarrow> Inl Undefined | (Some s, L) \<Rightarrow> Inr (Value_string (C_string s), L))
      else Inr (r, L))"

definition luaT_pcall ::
  "('l, 'd, 'z) lua_api_scheme \<Rightarrow> int \<Rightarrow> 'd luaT_Value \<Rightarrow> 'l \<Rightarrow> (bool \<times> 'd luaT_Value \<times> 'l) run" where
  "luaT_pcall api args r L =
     (let func_idx = - (args + 1)
      in if \<not> lua_isfunction api func_idx L then ret (False, r, lua_pop api (args + 1) L)
         else
           let L = get_global api (bytes_of ''__G_TRACKBACK__'') L;
               (traceback, L) = (if \<not> lua_isfunction api (- 1) L then (0, lua_pop api 1 L)
                                 else (func_idx - 1, lua_insert api (func_idx - 1) L))
           in bind_run (protected_call api args 1 traceback L) (\<lambda>(error, L).
              if error \<noteq> 0 then
                ret (False, r, if traceback = 0 then lua_pop api 1 (snd (lua_tolstring api (- 1) L)) else lua_pop api 2 L)
              else
                bind_run (Some (get_result api r L)) (\<lambda>(r, L).
                let L = lua_pop api 1 L
                in ret (True, r, if traceback \<noteq> 0 then lua_pop api 1 L else L))))"

text \<open>
  The overloads of \<open>luaT_pushvalue\<close>, by the type of the argument: integers of any width, where a 64-bit
  unsigned number becomes a signed one, floating point numbers, C strings, strings and pointers. The general template pushes nil.
\<close>

datatype 'd lua_arg = Arg_bool bool | Arg_int int | Arg_u64 u64 | Arg_float 'd | Arg_chars "u8 list" | Arg_string "u8 list"
  | Arg_pointer u64 | Arg_other

fun luaT_pushvalue :: "('l, 'd, 'z) lua_api_scheme \<Rightarrow> 'd lua_arg \<Rightarrow> 'l \<Rightarrow> 'l" where
  "luaT_pushvalue api (Arg_bool b) L = lua_pushboolean api b L"
| "luaT_pushvalue api (Arg_int i) L = lua_pushinteger api i L"
| "luaT_pushvalue api (Arg_u64 w) L = lua_pushinteger api (sint w) L"
| "luaT_pushvalue api (Arg_float d) L = lua_pushnumber api d L"
| "luaT_pushvalue api (Arg_chars s) L = lua_pushstring api s L"
| "luaT_pushvalue api (Arg_string s) L = lua_pushlstring api s L"
| "luaT_pushvalue api (Arg_pointer p) L = lua_pushlightuserdata api p L"
| "luaT_pushvalue api Arg_other L = lua_pushnil api L"

text \<open>The templates \<open>luaT_callFunction\<close> for no to six arguments.\<close>

definition luaT_callFunction ::
  "('l, 'd, 'z) lua_api_scheme \<Rightarrow> 'd lua_arg list \<Rightarrow> 'd luaT_Value \<Rightarrow> 'l \<Rightarrow> (bool \<times> 'd luaT_Value \<times> 'l) run" where
  "luaT_callFunction api args r L = luaT_pcall api (int (length args)) r (fold (luaT_pushvalue api) args L)"

definition luaT_getGlobalFunction :: "('l, 'd, 'z) lua_api_scheme \<Rightarrow> u8 list \<Rightarrow> 'l \<Rightarrow> 'l" where
  "luaT_getGlobalFunction api func L = get_global api func L"

definition luaT_getRegistry :: "('l, 'd, 'z) lua_api_scheme \<Rightarrow> int \<Rightarrow> 'l \<Rightarrow> 'l" where
  "luaT_getRegistry api r L = lua_rawgeti api LUA_REGISTRYINDEX r L"

definition luaT_execString :: "('l, 'd, 'z) lua_api_scheme \<Rightarrow> u8 list \<Rightarrow> 'l \<Rightarrow> (bool \<times> 'l) run" where
  "luaT_execString api s L =
     bind_run (luaT_pcall api 0 Value_nil (snd (load_string api s L))) (\<lambda>(ok, r, L). ret (ok, L))"

text \<open>The name without a suffix \<open>.lua\<close> in any case, in an array of \<open>PATH_MAX\<close> characters, goes into a call of \<open>require\<close>.\<close>

definition require_text :: "u8 list \<Rightarrow> u8 list" where
  "require_text filename =
     (let buf = take 4095 filename;
          suffix = rev (takeWhile (\<lambda>c. c \<noteq> 0x2E) (rev buf));
          buf = (if 0x2E \<in> set buf \<and> strcaseeq (0x2E # suffix) (bytes_of ''.lua'')
                 then take (length buf - length suffix - 1) buf else buf)
      in take 4095 (bytes_of ''require '' @ [0x22] @ buf @ [0x22]))"

definition luaT_execFile :: "('l, 'd, 'z) lua_api_scheme \<Rightarrow> u8 list \<Rightarrow> 'l \<Rightarrow> (bool \<times> 'l) run" where
  "luaT_execFile api filename L = luaT_execString api (require_text filename) L"

definition luaT_cleanup :: "('l, 'd, 'z) lua_api_scheme \<Rightarrow> 'l \<Rightarrow> 'l" where
  "luaT_cleanup api L = lua_settop api 0 L"

section \<open>The owner of a state\<close>

definition luaT_setOwner :: "('l, 'd, 'z) lua_api_scheme \<Rightarrow> u32 \<Rightarrow> 'l \<Rightarrow> 'l" where
  "luaT_setOwner api sid L = set_global api LUA_REGISTER_SERVICE (lua_pushinteger api (uint sid) L)"

text \<open>A state without an owner gives -1, and what was pushed stays on the stack.\<close>

definition luaT_getOwner :: "('l, 'd, 'z) lua_api_scheme \<Rightarrow> 'l \<Rightarrow> u32 \<times> 'l" where
  "luaT_getOwner api L =
     (let L = get_global api LUA_REGISTER_SERVICE L
      in if lua_isnoneornil api (- 1) L then (- 1, L)
         else (word_of_int (lua_tointeger api (- 1) L), lua_pop api 1 L))"

text \<open>\<open>luaT_tostring\<close>; a C string, or the null pointer \<open>lua_tostring\<close> may give.\<close>

definition luaT_tostring :: "('l, 'd, 'z) lua_api_scheme \<Rightarrow> int \<Rightarrow> 'l \<Rightarrow> u8 list option \<times> 'l" where
  "luaT_tostring api idx L =
     (if lua_istable api idx L then (Some (bytes_of ''[table]''), L)
      else if lua_type api idx L = LUA_TNONE then (Some (bytes_of ''[none]''), L)
      else if lua_type api idx L = LUA_TNIL then (Some (bytes_of ''[nil]''), L)
      else if lua_isboolean api idx L then (Some (bytes_of (if lua_toboolean api idx L then ''[true]'' else ''[false]'')), L)
      else if lua_isfunction api idx L then (Some (bytes_of ''[function]''), L)
      else if lua_isuserdata api idx L then (Some (bytes_of ''[userdata]''), L)
      else if lua_type api idx L = LUA_TLIGHTUSERDATA then (Some (bytes_of ''[lightuserdata]''), L)
      else if lua_type api idx L = LUA_TTHREAD then (Some (bytes_of ''[thread]''), L)
      else case lua_tolstring api idx L of (s, L) \<Rightarrow> (map_option C_string s, L))"

section \<open>Registration\<close>

definition luaT_regNamespace :: "('l, 'd, 'z) lua_api_scheme \<Rightarrow> u8 list \<Rightarrow> 'l \<Rightarrow> 'l" where
  "luaT_regNamespace api ns L =
     lua_pop api 1 (lua_rawset api (- 3) (lua_newtable api (lua_pushstring api ns (get_global api (bytes_of ''_G'') L))))"

definition luaT_beginNamespace :: "('l, 'd, 'z) lua_api_scheme \<Rightarrow> u8 list \<Rightarrow> 'l \<Rightarrow> 'l" where
  "luaT_beginNamespace api ns L = lua_rawget api (- 2) (lua_pushstring api ns (get_global api (bytes_of ''_G'') L))"

definition luaT_endNamespace :: "('l, 'd, 'z) lua_api_scheme \<Rightarrow> 'l \<Rightarrow> 'l" where
  "luaT_endNamespace api L = lua_pop api 2 L"

text \<open>A C function is known by its name; \<open>C_address\<close> is where it lies. \<open>LUA_REGISTER\<close> is the same as \<open>luaT_regFunction\<close>.\<close>

definition luaT_regFunction :: "('l, 'd, 'z) lua_api_scheme \<Rightarrow> u8 list \<Rightarrow> string \<Rightarrow> 'l \<Rightarrow> 'l" where
  "luaT_regFunction api func routine L =
     lua_rawset api (- 3) (lua_pushcfunction api (C_address api routine) (lua_pushstring api func L))"

definition luaT_regGlobalFunction :: "('l, 'd, 'z) lua_api_scheme \<Rightarrow> u8 list \<Rightarrow> string \<Rightarrow> 'l \<Rightarrow> 'l" where
  "luaT_regGlobalFunction api func routine L =
     lua_pop api 1 (luaT_regFunction api func routine (get_global api (bytes_of ''_G'') L))"

definition luaT_regInteger :: "('l, 'd, 'z) lua_api_scheme \<Rightarrow> u8 list \<Rightarrow> int \<Rightarrow> 'l \<Rightarrow> 'l" where
  "luaT_regInteger api key v L = lua_settable api (- 3) (lua_pushinteger api v (lua_pushstring api key L))"

text \<open>A \<open>long\<close> becomes a floating point number.\<close>

definition luaT_regLong :: "('l, 'd, 'z) lua_api_scheme \<Rightarrow> u8 list \<Rightarrow> int \<Rightarrow> 'l \<Rightarrow> 'l" where
  "luaT_regLong api key v L = lua_settable api (- 3) (lua_pushnumber api (number_of_int api v) (lua_pushstring api key L))"

definition luaT_regDouble :: "('l, 'd, 'z) lua_api_scheme \<Rightarrow> u8 list \<Rightarrow> 'd \<Rightarrow> 'l \<Rightarrow> 'l" where
  "luaT_regDouble api key v L = lua_settable api (- 3) (lua_pushnumber api v (lua_pushstring api key L))"

definition luaT_regString :: "('l, 'd, 'z) lua_api_scheme \<Rightarrow> u8 list \<Rightarrow> u8 list \<Rightarrow> 'l \<Rightarrow> 'l" where
  "luaT_regString api key v L = lua_settable api (- 3) (lua_pushstring api v (lua_pushstring api key L))"

definition luaT_regObject :: "('l, 'd, 'z) lua_api_scheme \<Rightarrow> u8 list \<Rightarrow> u64 \<Rightarrow> 'l \<Rightarrow> 'l" where
  "luaT_regObject api key v L = lua_rawset api (- 3) (lua_pushlightuserdata api v (lua_pushstring api key L))"

section \<open>A call leaves the stack as it was\<close>

text \<open>
  What the manual says of the functions a call uses, in terms of the stack alone: \<open>stk\<close> gives it, the top
  first. A protected call replaces the function and its arguments by one result or one error message.
\<close>

definition type_code :: "'d lval \<Rightarrow> int" where
  "type_code v = (case v of L_nil \<Rightarrow> LUA_TNIL | L_boolean b \<Rightarrow> LUA_TBOOLEAN | L_number d \<Rightarrow> LUA_TNUMBER
     | L_string s \<Rightarrow> LUA_TSTRING | L_table t \<Rightarrow> LUA_TTABLE | L_function a \<Rightarrow> LUA_TFUNCTION)"

definition call_laws :: "('l, 'd, 'z) lua_api_scheme \<Rightarrow> ('l \<Rightarrow> 'd lval list) \<Rightarrow> bool" where
  "call_laws api stk \<longleftrightarrow>
     (\<forall>i L. i < length (stk L) \<longrightarrow> lua_type api (- int i - 1) L = type_code (stk L ! i))
   \<and> (\<forall>n L. n \<le> length (stk L) \<longrightarrow> stk (lua_pop api (int n) L) = drop n (stk L))
   \<and> (\<forall>s L. \<exists>v. stk (get_global api s L) = v # stk L)
   \<and> (\<forall>n L v as r. stk L = v # as @ r \<longrightarrow> length as = n \<longrightarrow> stk (lua_insert api (- int n - 1) L) = as @ v # r)
   \<and> (\<forall>n h L as f r e L'. stk L = as @ f # r \<longrightarrow> length as = n \<longrightarrow>
        protected_call api (int n) 1 h L = Some (Inr (e, L')) \<longrightarrow> (\<exists>v. stk L' = v # r))
   \<and> (\<forall>L v r. stk L = v # r \<longrightarrow> (\<exists>v'. stk (snd (lua_tolstring api (- 1) L)) = v' # r))
   \<and> (\<forall>L. lua_isstring api (- 1) L \<longrightarrow> fst (lua_tolstring api (- 1) L) \<noteq> None)"

lemma call_lawsD:
  assumes "call_laws api stk"
  shows "i < length (stk L) \<Longrightarrow> lua_type api (- int i - 1) L = type_code (stk L ! i)"
    and "n \<le> length (stk L) \<Longrightarrow> stk (lua_pop api (int n) L) = drop n (stk L)"
    and "\<exists>v. stk (get_global api s L) = v # stk L"
    and "stk L = v # as @ r \<Longrightarrow> length as = n \<Longrightarrow> stk (lua_insert api (- int n - 1) L) = as @ v # r"
    and "stk L = as @ f # r \<Longrightarrow> length as = n \<Longrightarrow> protected_call api (int n) 1 h L = Some (Inr (e, L')) \<Longrightarrow> \<exists>v. stk L' = v # r"
    and "stk L = v # r \<Longrightarrow> \<exists>v'. stk (snd (lua_tolstring api (- 1) L)) = v' # r"
    and "lua_isstring api (- 1) L \<Longrightarrow> fst (lua_tolstring api (- 1) L) \<noteq> None"
  by (insert assms; simp only: call_laws_def; elim conjE; iprover)+

lemma pop_laws:
  assumes "call_laws api stk"
  shows "stk L = v # r \<Longrightarrow> stk (lua_pop api 1 L) = r" "stk L = v # w # r \<Longrightarrow> stk (lua_pop api 2 L) = r"
  using call_lawsD(2) [OF assms, of 1 L] call_lawsD(2) [OF assms, of 2 L] by simp_all

text \<open>Reading the result keeps what is below it, and does not fail.\<close>

lemma get_result_ok:
  assumes "call_laws api stk" "stk L = v # r"
  shows "\<exists>x L' v'. get_result api d L = Inr (x, L') \<and> stk L' = v' # r"
proof (cases "\<not> lua_isboolean api (- 1) L \<and> \<not> lua_isnumber api (- 1) L \<and> lua_isstring api (- 1) L")
  case True
  then obtain s where "fst (lua_tolstring api (- 1) L) = Some s" using call_lawsD(7) [OF assms(1)] by blast
  moreover obtain v' where "stk (snd (lua_tolstring api (- 1) L)) = v' # r" using call_lawsD(6) [OF assms] by blast
  ultimately show ?thesis using True by (cases "lua_tolstring api (- 1) L") (simp add: get_result_def)
qed (use assms(2) in \<open>auto simp: get_result_def\<close>)

text \<open>A call of a function, with the handler looked up.\<close>

definition after_call :: "('l, 'd, 'z) lua_api_scheme \<Rightarrow> bool \<Rightarrow> 'd luaT_Value \<Rightarrow> int \<times> 'l \<Rightarrow> (bool \<times> 'd luaT_Value \<times> 'l) run" where
  "after_call api handler v = (\<lambda>(error, L).
     if error \<noteq> 0 then ret (False, v, if handler then lua_pop api 2 L else lua_pop api 1 (snd (lua_tolstring api (- 1) L)))
     else bind_run (Some (get_result api v L)) (\<lambda>(x, L).
       ret (True, x, if handler then lua_pop api 1 (lua_pop api 1 L) else lua_pop api 1 L)))"

lemma after_call_ok:
  assumes laws: "call_laws api stk" and w: "stk L = w # (if handler then g # r else r)"
    and run: "after_call api handler v (error, L) = Some (Inr (ok, v', L'))"
  shows "stk L' = r \<and> (\<not> ok \<longrightarrow> v' = v)"
proof (cases "error = 0")
  case True
  obtain x L3 w' where x: "get_result api v L = Inr (x, L3)" "stk L3 = w' # (if handler then g # r else r)"
    using get_result_ok [OF laws w] by blast
  have "ok" "L' = (if handler then lua_pop api 1 (lua_pop api 1 L3) else lua_pop api 1 L3)"
    using run x(1) True by (simp_all add: after_call_def ret_def)
  then show ?thesis using x(2) pop_laws(1) [OF laws] by (cases handler) simp_all
next
  case False
  have "v' = v" "L' = (if handler then lua_pop api 2 L else lua_pop api 1 (snd (lua_tolstring api (- 1) L)))"
    using run False by (simp_all add: after_call_def ret_def)
  moreover obtain w' where "\<not> handler \<Longrightarrow> stk (snd (lua_tolstring api (- 1) L)) = w' # r"
    using call_lawsD(6) [OF laws w] by auto
  ultimately show ?thesis using w pop_laws [OF laws] by (cases handler) simp_all
qed

lemma luaT_pcall_runs:
  assumes "lua_isfunction api (- (int n + 1)) L"
  shows "luaT_pcall api (int n) v L =
    (let G = get_global api (bytes_of ''__G_TRACKBACK__'') L; handler = lua_isfunction api (- 1) G
     in bind_run (protected_call api (int n) 1 (if handler then - (int n + 1) - 1 else 0)
          (if handler then lua_insert api (- (int n + 1) - 1) G else lua_pop api 1 G)) (after_call api handler v))"
proof -
  have n: "- (int n + 1) - 1 \<noteq> 0" by simp
  show ?thesis
    by (cases "lua_isfunction api (- 1) (get_global api (bytes_of ''__G_TRACKBACK__'') L)")
      (simp_all only: luaT_pcall_def after_call_def Let_def assms n not_True_eq_False not_False_eq_True if_True if_False prod.case simp_thms)
qed

lemma bind_run_eq_Inr: "bind_run m f = Some (Inr y) \<longleftrightarrow> (\<exists>x. m = Some (Inr x) \<and> f x = Some (Inr y))"
  by (cases m; cases "the m") auto

text \<open>
  C19. A call of a Lua function leaves the stack as it was before the function and its arguments were
  pushed: whether the value is a function or not, whether the program has a handler for errors or
  not, and whether the call succeeds or fails. A value that is not a function, and a call that fails,
  give \<open>false\<close>, and then the result is the one given before.
\<close>

theorem luaT_pcall_balanced:
  assumes laws: "call_laws api stk" and L: "stk L = as @ f # r" "length as = n"
    and run: "luaT_pcall api (int n) v L = Some (Inr (ok, v', L'))"
  shows "stk L' = r \<and> (type_code f \<noteq> LUA_TFUNCTION \<longrightarrow> \<not> ok) \<and> (\<not> ok \<longrightarrow> v' = v)"
proof (cases "lua_isfunction api (- (int n + 1)) L")
  case False
  have "stk (lua_pop api (int (Suc n)) L) = drop (Suc n) (stk L)" by (rule call_lawsD(2) [OF laws]) (use L in simp)
  moreover have "drop (Suc n) (as @ f # r) = r" using L(2) by simp
  ultimately have "stk (lua_pop api (int n + 1) L) = r" using L(1) by (simp add: add.commute)
  moreover have "luaT_pcall api (int n) v L = ret (False, v, lua_pop api (int n + 1) L)"
    by (simp only: luaT_pcall_def Let_def False not_False_eq_True if_True)
  ultimately show ?thesis using run by (simp add: ret_def)
next
  case True
  have "lua_type api (- int n - 1) L = type_code (stk L ! n)" by (rule call_lawsD(1) [OF laws]) (use L in simp)
  moreover have "stk L ! n = f" using L by (simp add: nth_append)
  moreover have "lua_type api (- int n - 1) L = LUA_TFUNCTION" using True by (simp add: lua_isfunction_def)
  ultimately have f: "type_code f = LUA_TFUNCTION" by simp
  let ?G = "get_global api (bytes_of ''__G_TRACKBACK__'') L"
  obtain g where g: "stk ?G = g # as @ f # r" using call_lawsD(3) [OF laws, of "bytes_of ''__G_TRACKBACK__''" L] unfolding L(1) by blast
  define handler where "handler = lua_isfunction api (- 1) ?G"
  define h where "h = (if handler then - (int n + 1) - 1 else 0)"
  define LL where "LL = (if handler then lua_insert api (- (int n + 1) - 1) ?G else lua_pop api 1 ?G)"
  have s: "stk LL = as @ f # (if handler then g # r else r)"
  proof -
    have "stk (lua_insert api (- int (Suc n) - 1) ?G) = (as @ [f]) @ g # r"
      by (rule call_lawsD(4) [OF laws]) (use g L(2) in simp_all)
    moreover have "- int (Suc n) - 1 = - (int n + 1) - 1" by simp
    moreover have "stk (lua_pop api 1 ?G) = as @ f # r" using pop_laws(1) [OF laws, of ?G g "as @ f # r"] g by blast
    ultimately show ?thesis by (simp add: LL_def)
  qed
  have e: "luaT_pcall api (int n) v L = bind_run (protected_call api (int n) 1 h LL) (after_call api handler v)"
    by (simp only: luaT_pcall_runs [OF True] Let_def handler_def h_def LL_def)
  from run obtain error L2 where c: "protected_call api (int n) 1 h LL = Some (Inr (error, L2))"
    unfolding e bind_run_eq_Inr by auto
  obtain w where "stk L2 = w # (if handler then g # r else r)" using call_lawsD(5) [OF laws s L(2) c] by blast
  moreover have "after_call api handler v (error, L2) = Some (Inr (ok, v', L'))" using run unfolding e c by (simp only: bind_run_simps)
  ultimately have "stk L' = r \<and> (\<not> ok \<longrightarrow> v' = v)" by (rule after_call_ok [OF laws])
  then show ?thesis using f by simp
qed

text \<open>A Lua state that is its stack, with numbers as integers; every function returns 7, and no global is set.\<close>

definition type_at :: "int lval list \<Rightarrow> int \<Rightarrow> int" where
  "type_at s i = (if 0 \<le> - i - 1 \<and> nat (- i - 1) < length s then type_code (s ! nat (- i - 1)) else LUA_TNONE)"

definition stack_lua :: "(int lval list, int) lua_api" where
  "stack_lua = \<lparr>number_of_int = id, strtod = (\<lambda>_. 0), lua_gettop = (\<lambda>s. int (length s)),
     lua_settop = (\<lambda>n s. drop (length s - nat n) s), lua_pushnil = (\<lambda>s. L_nil # s), lua_pushboolean = (\<lambda>b s. L_boolean b # s),
     lua_pushinteger = (\<lambda>i s. L_number i # s), lua_pushnumber = (\<lambda>d s. L_number d # s), lua_pushlstring = (\<lambda>b s. L_string b # s),
     lua_pushcfunction = (\<lambda>a s. L_function a # s), lua_newtable = (\<lambda>s. L_table 0 # s), lua_settable = (\<lambda>_ s. drop 2 s),
     lua_type = (\<lambda>i s. type_at s i),
     lua_tolstring = (\<lambda>_ s. (case s of L_string b # _ \<Rightarrow> Some b | _ \<Rightarrow> None, s)), lua_toboolean = (\<lambda>_ s. hd s = L_boolean True),
     lua_tocfunction = (\<lambda>_ s. 0), lua_pushvalue = (\<lambda>i s. (s ! nat (- i - 1)) # s), lua_pop = (\<lambda>n s. drop (nat n) s),
     lua_next = (\<lambda>_ s. (False, tl s)),
     lua_isnumber = (\<lambda>i s. type_at s i = LUA_TNUMBER), lua_isstring = (\<lambda>i s. type_at s i = LUA_TSTRING),
     lua_isuserdata = (\<lambda>_ _. False), lua_tonumber = (\<lambda>_ s. case s of L_number d # _ \<Rightarrow> d | _ \<Rightarrow> 0),
     lua_tointeger = (\<lambda>_ s. case s of L_number d # _ \<Rightarrow> d | _ \<Rightarrow> 0), lua_pushlightuserdata = (\<lambda>_ s. L_nil # s),
     lua_gettable = (\<lambda>_ s. L_nil # tl s), lua_rawset = (\<lambda>_ s. drop 2 s), lua_rawget = (\<lambda>_ s. L_nil # tl s),
     lua_rawgeti = (\<lambda>_ _ s. L_nil # s),
     lua_insert = (\<lambda>i s. take (nat (- i - 1)) (tl s) @ hd s # drop (nat (- i - 1)) (tl s)),
     get_global = (\<lambda>_ s. L_nil # s), set_global = (\<lambda>_ s. tl s), load_string = (\<lambda>_ s. (0, L_function 1 # s)),
     protected_call = (\<lambda>n _ _ s. ret (0, L_number 7 # drop (nat n + 1) s)),
     double_is_integer = (\<lambda>_. True), to_float = id, C_address = (\<lambda>_. 1)\<rparr>"

lemma stack_lua_laws: "call_laws stack_lua id"
  unfolding call_laws_def
proof (intro conjI allI impI, goal_cases)
  case (7 L)
  then show ?case
    by (cases L; cases "hd L") (simp_all add: stack_lua_def type_at_def type_code_def LUA_TNONE_def LUA_TNIL_def LUA_TBOOLEAN_def
        LUA_TNUMBER_def LUA_TSTRING_def LUA_TTABLE_def LUA_TFUNCTION_def)
qed (auto simp: stack_lua_def type_at_def ret_def)

theorem luaT_pcall_balanced_witness:
  "\<exists>L'. luaT_pcall stack_lua (int 1) Value_nil [L_nil, L_function 5, L_boolean True] = Some (Inr (True, Value_integer 7, L'))
    \<and> id L' = [L_boolean True]"
proof -
  have "luaT_pcall stack_lua (int 1) Value_nil [L_nil, L_function 5, L_boolean True] = Some (Inr (True, Value_integer 7, [L_boolean True]))"
    by code_simp
  then show ?thesis
    using luaT_pcall_balanced [OF stack_lua_laws, of "[L_nil, L_function 5, L_boolean True]" "[L_nil]" "L_function 5" "[L_boolean True]" 1]
    by fastforce
qed

end
