(* ===== verification/LuaXml.thy ===== *)
theory LuaXml imports LuaCalls Xml begin

text \<open>
  \<^verbatim>\<open>lua/luaT_xml_parser.cpp\<close>: an XML document becomes Lua tables. The library Lua is the parameter of
  \<open>LuaDecode\<close>, the library rapidxml that of \<open>Xml\<close>.
\<close>

section \<open>The walk\<close>

definition push_C_string :: "('l, 'd) lua \<Rightarrow> u8 list \<Rightarrow> 'l \<Rightarrow> 'l" where
  "push_C_string lua s L = lua_pushlstring lua (C_string s) L"

fun push_attributes :: "('l, 'd) lua \<Rightarrow> (u8 list \<times> u8 list) list \<Rightarrow> 'l \<Rightarrow> 'l" where
  "push_attributes lua [] L = L"
| "push_attributes lua ((k, v) # as) L =
     push_attributes lua as (lua_settable lua (- 3) (push_C_string lua v (push_C_string lua k L)))"

partial_function (option) luaT_xml_parser :: "('l, 'd) lua \<Rightarrow> 'n rapidxml \<Rightarrow> 'n xml_parser \<Rightarrow> 'l \<Rightarrow> 'n option \<Rightarrow> 'l run" where
  "luaT_xml_parser lua api p L xmlNode =
     (case xmlNode of
        None \<Rightarrow> ret L
      | Some n \<Rightarrow>
          bind_run (if xmlNode \<noteq> getRootNode p
                    then bind_run (Some (node_name api p n)) (\<lambda>name. ret (push_C_string lua name L)) else ret L) (\<lambda>L.
          bind_run (Some (node_attributes api p n)) (\<lambda>as.
          bind_run (luaT_xml_parser lua api p (push_attributes lua as (lua_newtable lua L)) (getChildNode api n None)) (\<lambda>L.
          luaT_xml_parser lua api p (if xmlNode \<noteq> getRootNode p then lua_settable lua (- 3) L else L) (getNextNode api n None)))))"

text \<open>A new parser has no root; \<open>final\<close> does nothing.\<close>

definition new_XmlParser :: "'n xml_parser" where
  "new_XmlParser = \<lparr>xp_root = None, xp_alive = False\<rparr>"

definition luaT_xml_parser_decode :: "('l, 'd) lua \<Rightarrow> 'n rapidxml \<Rightarrow> u8 list \<Rightarrow> 'l \<Rightarrow> (bool \<times> 'l) run" where
  "luaT_xml_parser_decode lua api file L =
     (case XmlParser_open api file new_XmlParser of (ok, p) \<Rightarrow>
      if \<not> ok then ret (False, L)
      else case getRootNode p of
             None \<Rightarrow> ret (False, L)
           | Some root \<Rightarrow> bind_run (luaT_xml_parser lua api p L (Some root)) (\<lambda>L. ret (True, L)))"

definition luaT_xml_parser_encode :: "u8 list" where
  "luaT_xml_parser_encode = bytes_of ''NOT IMPLEMENT''"

section \<open>The tables of a document\<close>

text \<open>
  The contents of the table of an element: its attributes, and then its children by their names, so that
  of several children of one name the last is kept, and a child hides an attribute of its name.
\<close>

definition fill_attributes :: "('d lval \<Rightarrow> 'd lval) \<Rightarrow> (u8 list \<times> u8 list) list \<Rightarrow> 'd lval \<Rightarrow> 'd lval" where
  "fill_attributes f as = foldl (\<lambda>f (k, v). f(L_string (C_string k) := L_string (C_string v))) f as"

fun fill_children :: "('d lval \<Rightarrow> 'd lval) \<Rightarrow> xml list \<Rightarrow> nat list \<Rightarrow> 'd lval \<Rightarrow> 'd lval" where
  "fill_children f (Element nm as cs # ts) (b # bs) = fill_children (f(L_string (C_string nm) := L_table b)) ts bs"
| "fill_children f ts bs = f"

text \<open>The tables at the addresses \<open>bs\<close>, all among \<open>N\<close>, hold the elements \<open>ts\<close>.\<close>

fun xml_tables :: "(nat \<Rightarrow> 'd lval \<Rightarrow> 'd lval) \<Rightarrow> nat set \<Rightarrow> xml list \<Rightarrow> nat list \<Rightarrow> bool" where
  "xml_tables tb N [] bs = (bs = [])"
| "xml_tables tb N (Element nm as cs # ts) bs =
     (\<exists>b bs' kids. bs = b # bs' \<and> b \<in> N \<and> tb b = fill_children (fill_attributes (\<lambda>_. L_nil) as) cs kids
        \<and> xml_tables tb N cs kids \<and> xml_tables tb N ts bs')"

fun xml_depth :: "xml list \<Rightarrow> nat" where
  "xml_depth [] = 0"
| "xml_depth (Element nm as cs # ts) = max (Suc (xml_depth cs)) (xml_depth ts)"

lemma xml_tables_mono:
  "xml_tables tb N ts bs \<Longrightarrow> N \<subseteq> N' \<Longrightarrow> (\<And>x. x \<in> N \<Longrightarrow> tb' x = tb x) \<Longrightarrow> xml_tables tb' N' ts bs"
  by (induction tb N ts bs rule: xml_tables.induct) (simp, fastforce)

section \<open>One step of the Lua state at a time\<close>

definition look :: "('l, 'd) lua_view \<Rightarrow> 'l \<Rightarrow> 'd lval list \<times> nat \<times> (nat \<Rightarrow> 'd lval \<Rightarrow> 'd lval) \<times> nat set" where
  "look V L = (vw_stack V L, vw_room V L, vw_table V L, vw_live V L)"

lemma look_push:
  assumes "lua_pushes V v f" "look V L = (s, Suc r, T, N)"
  shows "look V (f L) = (v # s, r, T, N)"
  using lua_pushesD [OF assms(1), of L] assms(2) by (simp add: look_def)

lemma look_push_string:
  assumes "lua_laws lua V" "look V L = (s, Suc r, T, N)"
  shows "look V (push_C_string lua x L) = (L_string (C_string x) # s, r, T, N)"
  unfolding push_C_string_def by (rule look_push [OF lua_lawsD(5) [OF assms(1)] assms(2)])

lemma look_newtable:
  assumes "lua_laws lua V" "look V L = (s, Suc r, T, N)"
  shows "\<exists>t. t \<notin> N \<and> look V (lua_newtable lua L) = (L_table t # s, r, T(t := (\<lambda>_. L_nil)), insert t N)"
  using lua_lawsD(6) [OF assms(1), of L] assms(2) by (auto simp: look_def)

lemma look_settable:
  assumes "lua_laws lua V" "look V L = (v # L_string k # L_table t # s, r, T, N)" "t \<in> N"
  shows "look V (lua_settable lua (- 3) L) = (L_table t # s, r + 2, T(t := (T t)(L_string k := v)), N)"
  using lua_lawsD(7) [OF assms(1), of L v "L_string k" t s] assms(2,3) by (auto simp: look_def plain_key_def)

lemma look_attributes:
  assumes "lua_laws lua V" "look V L = (L_table t # s, r, T, N)" "t \<in> N" "2 \<le> r"
  shows "look V (push_attributes lua as L) = (L_table t # s, r, T(t := fill_attributes (T t) as), N)"
  using assms(2)
proof (induction as arbitrary: L T)
  case (Cons a as)
  obtain k v where a: "a = (k, v)" by (cases a)
  obtain n where n: "r = Suc (Suc n)" using assms(4) by (metis add_2_eq_Suc le_Suc_ex)
  let ?L = "lua_settable lua (- 3) (push_C_string lua v (push_C_string lua k L))"
  have "look V (push_C_string lua k L) = (L_string (C_string k) # L_table t # s, Suc n, T, N)"
    by (rule look_push_string [OF assms(1)]) (use Cons.prems n in simp)
  then have "look V (push_C_string lua v (push_C_string lua k L)) = (L_string (C_string v) # L_string (C_string k) # L_table t # s, n, T, N)"
    by (rule look_push_string [OF assms(1)])
  then have "look V ?L = (L_table t # s, n + 2, T(t := (T t)(L_string (C_string k) := L_string (C_string v))), N)"
    by (rule look_settable [OF assms(1) _ assms(3)])
  then have "look V ?L = (L_table t # s, r, T(t := (T t)(L_string (C_string k) := L_string (C_string v))), N)" using n by simp
  note IH = Cons.IH [OF this]
  have "fill_attributes (T t) (a # as) = fill_attributes ((T t)(L_string (C_string k) := L_string (C_string v))) as"
    by (simp add: a fill_attributes_def)
  with IH show ?case by (simp only: a push_attributes.simps fun_upd_upd fun_upd_same)
qed (simp add: fill_attributes_def)

section \<open>The walk fills the tables\<close>

lemma xml_siblings:
  assumes laws: "lua_laws lua V" and p: "xp_alive p" "xp_root p = Some root"
  shows "Xml.stands_for api root x ts \<Longrightarrow> look V L = (L_table a # s, r, T, N) \<Longrightarrow> a \<in> N \<Longrightarrow> 2 * xml_depth ts + 2 \<le> r \<Longrightarrow>
    \<exists>L' T' N' bs. luaT_xml_parser lua api p L x = ret L' \<and> look V L' = (L_table a # s, r, T', N') \<and> N \<subseteq> N'
      \<and> T' a = fill_children (T a) ts bs \<and> (\<forall>y \<in> N. y \<noteq> a \<longrightarrow> T' y = T y) \<and> xml_tables T' (N' - N) ts bs"
proof (induction ts arbitrary: x L a s r T N rule: xml_depth.induct)
  case 1
  then have "luaT_xml_parser lua api p L x = ret L" by (subst luaT_xml_parser.simps) simp
  then show ?case using 1 by (intro exI [of _ L] exI [of _ T] exI [of _ N] exI [of _ "[]"]) simp
next
  case (2 nm as cs ts)
  obtain n where n: "x = Some n" "n \<noteq> root" "rx_name api n = nm" "rx_attributes api n = as"
    "Xml.stands_for api root (rx_first_node api n) cs" "Xml.stands_for api root (rx_next_sibling api n) ts"
    using 2(3) by (auto split: option.splits)
  obtain q where q: "r = Suc (Suc q)" "2 * xml_depth cs + 2 \<le> q" using 2(6)
    by (intro that [of "r - 2"]) (auto simp: max_def split: if_splits)
  let ?key = "push_C_string lua nm L"
  have k: "look V ?key = (L_string (C_string nm) # L_table a # s, Suc q, T, N)"
    by (rule look_push_string [OF laws]) (use 2(4) q in simp)
  obtain b where b: "b \<notin> N" "look V (lua_newtable lua ?key) =
      (L_table b # L_string (C_string nm) # L_table a # s, q, T(b := (\<lambda>_. L_nil)), insert b N)"
    using look_newtable [OF laws k] by blast
  let ?L1 = "push_attributes lua as (lua_newtable lua ?key)" and ?s = "L_string (C_string nm) # L_table a # s"
  let ?T1 = "(T(b := (\<lambda>_. L_nil)))(b := fill_attributes (\<lambda>_. L_nil) as)"
  have L1: "look V ?L1 = (L_table b # ?s, q, ?T1, insert b N)"
    using look_attributes [OF laws b(2), of as] q(2) by simp
  obtain L2 T2 N2 kids where k2: "luaT_xml_parser lua api p ?L1 (rx_first_node api n) = ret L2"
    "look V L2 = (L_table b # ?s, q, T2, N2)" "insert b N \<subseteq> N2" "T2 b = fill_children (fill_attributes (\<lambda>_. L_nil) as) cs kids"
    "\<forall>y \<in> insert b N. y \<noteq> b \<longrightarrow> T2 y = ?T1 y" "xml_tables T2 (N2 - insert b N) cs kids"
    using 2(1) [OF n(5) L1 _ q(2)] by auto
  let ?L3 = "lua_settable lua (- 3) L2" and ?T3 = "T2(a := (T2 a)(L_string (C_string nm) := L_table b))"
  have ab: "a \<noteq> b" "a \<in> N2" using b(1) 2(5) k2(3) by auto
  have "look V ?L3 = (L_table a # s, q + 2, ?T3, N2)" by (rule look_settable [OF laws k2(2) ab(2)])
  then have L3: "look V ?L3 = (L_table a # s, r, ?T3, N2)" using q(1) by simp
  have d: "2 * xml_depth ts + 2 \<le> r" using 2(6) by (auto simp: max_def split: if_splits)
  obtain L4 T4 N4 bs where k4: "luaT_xml_parser lua api p ?L3 (rx_next_sibling api n) = ret L4"
    "look V L4 = (L_table a # s, r, T4, N4)" "N2 \<subseteq> N4" "T4 a = fill_children (?T3 a) ts bs"
    "\<forall>y \<in> N2. y \<noteq> a \<longrightarrow> T4 y = ?T3 y" "xml_tables T4 (N4 - N2) ts bs"
    using 2(2) [OF n(6) L3 ab(2) d] by blast
  have run: "luaT_xml_parser lua api p L x = ret L4"
    unfolding n(1)
    by (subst luaT_xml_parser.simps)
      (use n p k2(1) k4(1) in \<open>simp add: node_name_def node_attributes_def getRootNode_def getChildNode_def getNextNode_def\<close>)
  have same: "T4 y = T2 y" if "y \<in> N2" "y \<noteq> a" for y using that k4(5) by simp
  have "T2 a = T a" using k2(5) 2(5) ab(1) by simp
  then have "T4 a = fill_children (T a) (Element nm as cs # ts) (b # bs)" using k4(4) by simp
  moreover have "\<forall>y \<in> N. y \<noteq> a \<longrightarrow> T4 y = T y"
  proof (intro ballI impI)
    fix y assume y: "y \<in> N" "y \<noteq> a"
    then have "y \<noteq> b" "y \<in> N2" using b(1) k2(3) by auto
    then show "T4 y = T y" using same y k2(5) by simp
  qed
  moreover have "xml_tables T4 (N4 - N) (Element nm as cs # ts) (b # bs)"
  proof -
    have "b \<in> N4 - N" "T4 b = fill_children (fill_attributes (\<lambda>_. L_nil) as) cs kids"
      using b(1) k2(3,4) k4(3) same [of b] ab(1) by auto
    moreover have "xml_tables T4 (N4 - N) cs kids"
      by (rule xml_tables_mono [OF k2(6)]) (use k4(3) same 2(5) in auto)
    moreover have "xml_tables T4 (N4 - N) ts bs"
      by (rule xml_tables_mono [OF k4(6)]) (use k2(3) in auto)
    ultimately show ?thesis by auto
  qed
  ultimately show ?case using run k4(2,3) k2(3)
    by (intro exI [of _ L4] exI [of _ T4] exI [of _ N4] exI [of _ "b # bs"]) auto
qed



text \<open>As the program opens its documents, their text is gone: a root with a name is read from freed memory.\<close>

lemma xml_decode_reads_freed_text:
  assumes "rx_load api file = Some (Some root)" "rx_attributes api root \<noteq> []"
  shows "luaT_xml_parser_decode lua api file L = Some (Inl Undefined)"
  using assms
  by (simp add: luaT_xml_parser_decode_def XmlParser_open_def getRootNode_def, subst luaT_xml_parser.simps)
    (simp add: getRootNode_def node_attributes_def)

end
