(* ===== verification/Messages.thy ===== *)
theory Messages imports LuaXml ToolsFiles begin

text \<open>
  \<^verbatim>\<open>lua/MessageParser.h\<close> and \<^verbatim>\<open>lua/MessageParser.cpp\<close>: Lua tables become protobuf messages and messages
  become tables, field by field through the reflection interface of protobuf. That library is a
  parameter (\<open>protobuf\<close>), one field per function the code calls. Its messages are values of a type \<open>'m\<close>:
  a submessage that the code changes through a pointer is put back into its message.
\<close>

section \<open>The library\<close>

datatype cpp_type = CPPTYPE_INT32 | CPPTYPE_INT64 | CPPTYPE_UINT32 | CPPTYPE_UINT64 | CPPTYPE_DOUBLE | CPPTYPE_FLOAT
  | CPPTYPE_BOOL | CPPTYPE_ENUM | CPPTYPE_STRING | CPPTYPE_MESSAGE

text \<open>Values of the scalar types, as the methods \<open>Get\<close>, \<open>Set\<close> and \<open>Add\<close> of each type take and give them.\<close>

datatype 'd pb_value = PB_int32 "32 word" | PB_int64 "64 word" | PB_uint32 u32 | PB_uint64 u64 | PB_double 'd | PB_float 'd
  | PB_bool bool | PB_enum "32 word" | PB_string "u8 list"

fun value_type :: "'d pb_value \<Rightarrow> cpp_type" where
  "value_type (PB_int32 w) = CPPTYPE_INT32"
| "value_type (PB_int64 w) = CPPTYPE_INT64"
| "value_type (PB_uint32 w) = CPPTYPE_UINT32"
| "value_type (PB_uint64 w) = CPPTYPE_UINT64"
| "value_type (PB_double d) = CPPTYPE_DOUBLE"
| "value_type (PB_float d) = CPPTYPE_FLOAT"
| "value_type (PB_bool b) = CPPTYPE_BOOL"
| "value_type (PB_enum w) = CPPTYPE_ENUM"
| "value_type (PB_string s) = CPPTYPE_STRING"

text \<open>
  \<open>'D\<close> are the descriptors of message types and \<open>'f\<close> those of fields. \<open>pb_mutable\<close> is the submessage of a
  field, made if there is none, and \<open>pb_put\<close> puts it back; \<open>pb_new_item\<close> and \<open>pb_put_item\<close> do the same for
  a new last element of a repeated field.
\<close>

record ('m, 'f, 'D, 'd) protobuf =
  pb_fields :: "'D \<Rightarrow> 'f list"
  pb_name :: "'f \<Rightarrow> u8 list"
  pb_repeated :: "'f \<Rightarrow> bool"
  pb_type :: "'f \<Rightarrow> cpp_type"
  pb_message_type :: "'f \<Rightarrow> 'D"
  pb_has :: "'f \<Rightarrow> 'm \<Rightarrow> bool"
  pb_size :: "'f \<Rightarrow> 'm \<Rightarrow> nat"
  pb_get :: "'f \<Rightarrow> 'm \<Rightarrow> 'd pb_value"
  pb_get_item :: "'f \<Rightarrow> nat \<Rightarrow> 'm \<Rightarrow> 'd pb_value"
  pb_sub :: "'f \<Rightarrow> 'm \<Rightarrow> 'm"
  pb_sub_item :: "'f \<Rightarrow> nat \<Rightarrow> 'm \<Rightarrow> 'm"
  pb_set :: "'f \<Rightarrow> 'd pb_value \<Rightarrow> 'm \<Rightarrow> 'm"
  pb_add :: "'f \<Rightarrow> 'd pb_value \<Rightarrow> 'm \<Rightarrow> 'm"
  pb_mutable :: "'f \<Rightarrow> 'm \<Rightarrow> 'm"
  pb_put :: "'f \<Rightarrow> 'm \<Rightarrow> 'm \<Rightarrow> 'm"
  pb_new_item :: "'f \<Rightarrow> 'm \<Rightarrow> 'm"
  pb_put_item :: "'f \<Rightarrow> 'm \<Rightarrow> 'm \<Rightarrow> 'm"
  pb_find_type :: "u8 list \<Rightarrow> 'D option"
  pb_prototype :: "'D \<Rightarrow> 'm option"
  pb_new :: "'m \<Rightarrow> 'm"
  pb_type_name :: "'m \<Rightarrow> u8 list"
  pb_clear :: "'m \<Rightarrow> 'm"
  pb_byte_size :: "'m \<Rightarrow> nat"
  pb_serialize :: "'m \<Rightarrow> u8 list option"
  pb_parse :: "u8 list \<Rightarrow> 'm \<Rightarrow> bool \<times> 'm"

section \<open>From Lua to messages\<close>

text \<open>
  How a function ends: with a value of \<open>rc\<close>, or by the exception of \<open>std::string\<close> made from a null pointer,
  which \<open>lua_tostring\<close> gives for a value that is neither a string nor a number.
\<close>

datatype outcome = Rc bool | Thrown

text \<open>The scalar cases of the switches in \<open>encodeFieldRepeated\<close> and \<open>encodeFieldSimple\<close>: the value at the top.\<close>

definition scalar_at_top :: "('l, 'd, 'z) lua_api_scheme \<Rightarrow> cpp_type \<Rightarrow> 'l \<Rightarrow> 'd pb_value option \<times> 'l" where
  "scalar_at_top api ty L =
     (case ty of
        CPPTYPE_INT32 \<Rightarrow> (Some (PB_int32 (word_of_int (lua_tointeger api (- 1) L))), L)
      | CPPTYPE_INT64 \<Rightarrow> (Some (PB_int64 (word_of_int (lua_tointeger api (- 1) L))), L)
      | CPPTYPE_UINT32 \<Rightarrow> (Some (PB_uint32 (word_of_int (lua_tointeger api (- 1) L))), L)
      | CPPTYPE_UINT64 \<Rightarrow> (Some (PB_uint64 (word_of_int (lua_tointeger api (- 1) L))), L)
      | CPPTYPE_DOUBLE \<Rightarrow> (Some (PB_double (lua_tonumber api (- 1) L)), L)
      | CPPTYPE_FLOAT \<Rightarrow> (Some (PB_float (to_float api (lua_tonumber api (- 1) L))), L)
      | CPPTYPE_BOOL \<Rightarrow> (Some (PB_bool (lua_toboolean api (- 1) L)), L)
      | CPPTYPE_ENUM \<Rightarrow> (Some (PB_enum (word_of_int (lua_tointeger api (- 1) L))), L)
      | CPPTYPE_STRING \<Rightarrow> (case lua_tolstring api (- 1) L of (s, L) \<Rightarrow> (map_option (\<lambda>s. PB_string (C_string s)) s, L))
      | CPPTYPE_MESSAGE \<Rightarrow> (None, L))"

text \<open>
  The functions that call each other: \<open>encodeDescriptor\<close> and its loop over the fields, \<open>encodeField\<close> and
  its loop over the entries of a table, \<open>encodeFieldRepeated\<close>, \<open>encodeFieldSimple\<close>. They need not end: the
  table of a recursive message type may contain itself.
\<close>

datatype ('f, 'D) encoding = Encode_descriptor 'D | Encode_fields "'f list" | Encode_field 'f | Encode_entries 'f int bool
  | Encode_repeated 'f | Encode_simple 'f

partial_function (option) encode_call ::
  "('l, 'd, 'z) lua_api_scheme \<Rightarrow> ('m, 'f, 'D, 'd) protobuf \<Rightarrow> ('f, 'D) encoding \<Rightarrow> 'l \<Rightarrow> 'm \<Rightarrow> (outcome \<times> 'l \<times> 'm) run" where
  "encode_call api pb call L m =
     (case call of
        Encode_descriptor d \<Rightarrow>
          if \<not> lua_istable api (- 1) L then ret (Rc False, L, m) else encode_call api pb (Encode_fields (pb_fields pb d)) L m
      | Encode_fields fs \<Rightarrow>
          (case fs of
             [] \<Rightarrow> ret (Rc True, L, m)
           | f # fs \<Rightarrow> bind_run (encode_call api pb (Encode_field f) L m) (\<lambda>(rc, L, m).
               if rc = Rc True then encode_call api pb (Encode_fields fs) L m else ret (rc, L, m)))
      | Encode_field f \<Rightarrow>
          (let L = lua_gettable api (- 2) (lua_pushstring api (pb_name pb f) L)
           in if pb_repeated pb f then
                bind_run (if lua_istable api (- 1) L
                          then encode_call api pb (Encode_entries f (lua_gettop api L) True) (lua_pushnil api L) m
                          else ret (Rc True, L, m)) (\<lambda>(rc, L, m).
                if rc = Thrown then ret (rc, L, m) else ret (rc, lua_pop api 1 L, m))
              else
                bind_run (encode_call api pb (Encode_simple f) L m) (\<lambda>(rc, L, m).
                if rc = Thrown then ret (rc, L, m) else ret (rc, lua_pop api 1 L, m)))
      | Encode_entries f table_index rc \<Rightarrow>
          (case lua_next api table_index L of (found, L) \<Rightarrow>
             if \<not> found \<or> \<not> rc then ret (Rc rc, L, m)
             else bind_run (encode_call api pb (Encode_repeated f) L m) (\<lambda>(rc, L, m).
               if rc = Thrown then ret (rc, L, m)
               else encode_call api pb (Encode_entries f table_index (rc = Rc True)) (lua_pop api 1 L) m))
      | Encode_repeated f \<Rightarrow>
          bind_run (Some (check (pb_repeated pb f))) (\<lambda>_.
          if lua_isnoneornil api (- 1) L then ret (Rc True, L, m)
          else if pb_type pb f = CPPTYPE_MESSAGE then
            bind_run (encode_call api pb (Encode_descriptor (pb_message_type pb f)) L (pb_new_item pb f m)) (\<lambda>(rc, L, sub).
            ret (rc, L, pb_put_item pb f sub m))
          else (case scalar_at_top api (pb_type pb f) L of (v, L) \<Rightarrow>
                  (case v of None \<Rightarrow> ret (Thrown, L, m) | Some v \<Rightarrow> ret (Rc True, L, pb_add pb f v m))))
      | Encode_simple f \<Rightarrow>
          bind_run (Some (check (\<not> pb_repeated pb f))) (\<lambda>_.
          if lua_isnoneornil api (- 1) L then ret (Rc True, L, m)
          else if pb_type pb f = CPPTYPE_MESSAGE then
            bind_run (encode_call api pb (Encode_descriptor (pb_message_type pb f)) L (pb_mutable pb f m)) (\<lambda>(rc, L, sub).
            ret (rc, L, pb_put pb f sub m))
          else (case scalar_at_top api (pb_type pb f) L of (v, L) \<Rightarrow>
                  (case v of None \<Rightarrow> ret (Thrown, L, m) | Some v \<Rightarrow> ret (Rc True, L, pb_set pb f v m)))))"

definition encodeDescriptor ::
  "('l, 'd, 'z) lua_api_scheme \<Rightarrow> ('m, 'f, 'D, 'd) protobuf \<Rightarrow> 'D \<Rightarrow> 'l \<Rightarrow> 'm \<Rightarrow> (outcome \<times> 'l \<times> 'm) run" where
  "encodeDescriptor api pb d L m = encode_call api pb (Encode_descriptor d) L m"

section \<open>From messages to Lua\<close>

text \<open>The value of a scalar; a 64-bit unsigned number becomes a signed one, and a string ends at its first NUL.\<close>

definition push_scalar :: "('l, 'd) lua \<Rightarrow> 'd pb_value \<Rightarrow> 'l \<Rightarrow> 'l" where
  "push_scalar lua v L =
     (case v of
        PB_int32 w \<Rightarrow> lua_pushinteger lua (sint w) L
      | PB_int64 w \<Rightarrow> lua_pushinteger lua (sint w) L
      | PB_uint32 w \<Rightarrow> lua_pushinteger lua (uint w) L
      | PB_uint64 w \<Rightarrow> lua_pushinteger lua (sint w) L
      | PB_double d \<Rightarrow> lua_pushnumber lua d L
      | PB_float d \<Rightarrow> lua_pushnumber lua d L
      | PB_bool b \<Rightarrow> lua_pushboolean lua b L
      | PB_enum w \<Rightarrow> lua_pushinteger lua (sint w) L
      | PB_string s \<Rightarrow> push_C_string lua s L)"

text \<open>With \<open>DEF_NIL_VALUE\<close> every field that is not set becomes nil.\<close>

definition decodeFieldDefaultValue :: "('l, 'd) lua \<Rightarrow> ('m, 'f, 'D, 'd) protobuf \<Rightarrow> 'f \<Rightarrow> 'l \<Rightarrow> 'l" where
  "decodeFieldDefaultValue lua pb f L = lua_settable lua (- 3) (lua_pushnil lua (push_C_string lua (pb_name pb f) L))"

text \<open>
  \<open>decodeDescriptor\<close> with its loop over the fields, \<open>decodeField\<close> with its loop over the elements,
  \<open>decodeFieldRepeated\<close> and \<open>decodeFieldSimple\<close>.
\<close>

datatype ('f, 'D) decoding = Decode_fields "'f list" | Decode_field 'f | Decode_items 'f nat | Decode_repeated 'f nat | Decode_simple 'f

partial_function (option) decode_call ::
  "('l, 'd) lua \<Rightarrow> ('m, 'f, 'D, 'd) protobuf \<Rightarrow> ('f, 'D) decoding \<Rightarrow> 'm \<Rightarrow> 'l \<Rightarrow> (bool \<times> 'l) run" where
  "decode_call lua pb call m L =
     (case call of
        Decode_fields fs \<Rightarrow>
          (case fs of
             [] \<Rightarrow> ret (True, L)
           | f # fs \<Rightarrow>
               if \<not> pb_repeated pb f \<and> \<not> pb_has pb f m
               then decode_call lua pb (Decode_fields fs) m (decodeFieldDefaultValue lua pb f L)
               else bind_run (decode_call lua pb (Decode_field f) m L) (\<lambda>(rc, L).
                 if \<not> rc then ret (False, L) else decode_call lua pb (Decode_fields fs) m L))
      | Decode_field f \<Rightarrow>
          if pb_repeated pb f then
            bind_run (decode_call lua pb (Decode_items f 0) m (lua_newtable lua (push_C_string lua (pb_name pb f) L))) (\<lambda>(rc, L).
            ret (rc, lua_settable lua (- 3) L))
          else decode_call lua pb (Decode_simple f) m L
      | Decode_items f i \<Rightarrow>
          if i < pb_size pb f m then
            bind_run (decode_call lua pb (Decode_repeated f i) m L) (\<lambda>(rc, L).
            if rc then decode_call lua pb (Decode_items f (Suc i)) m L else ret (False, L))
          else ret (True, L)
      | Decode_repeated f i \<Rightarrow>
          bind_run (Some (check (pb_repeated pb f))) (\<lambda>_.
          let L = lua_pushinteger lua (int i) L
          in if pb_type pb f = CPPTYPE_MESSAGE then
               bind_run (decode_call lua pb (Decode_fields (pb_fields pb (pb_message_type pb f))) (pb_sub_item pb f i m) (lua_newtable lua L))
                 (\<lambda>(rc, L). ret (rc, lua_settable lua (- 3) L))
             else ret (True, lua_settable lua (- 3) (push_scalar lua (pb_get_item pb f i m) L)))
      | Decode_simple f \<Rightarrow>
          bind_run (Some (check (\<not> pb_repeated pb f))) (\<lambda>_.
          let L = push_C_string lua (pb_name pb f) L
          in if pb_type pb f = CPPTYPE_MESSAGE then
               bind_run (decode_call lua pb (Decode_fields (pb_fields pb (pb_message_type pb f))) (pb_sub pb f m) (lua_newtable lua L))
                 (\<lambda>(rc, L). ret (rc, lua_settable lua (- 3) L))
             else if pb_type pb f = CPPTYPE_STRING \<or> pb_has pb f m
             then ret (True, lua_settable lua (- 3) (push_scalar lua (pb_get pb f m) L))
             else ret (True, lua_settable lua (- 3) (decodeFieldDefaultValue lua pb f L))))"

definition decodeDescriptor ::
  "('l, 'd) lua \<Rightarrow> ('m, 'f, 'D, 'd) protobuf \<Rightarrow> 'D \<Rightarrow> 'm \<Rightarrow> 'l \<Rightarrow> (bool \<times> 'l) run" where
  "decodeDescriptor lua pb d m L = decode_call lua pb (Decode_fields (pb_fields pb d)) m L"

section \<open>The class\<close>

text \<open>
  The messages the program has registered, by number. \<open>loadmsg\<close> walks over the files of a directory;
  \<open>import_file\<close> is \<open>Importer::Import\<close>, which changes the state of the library.
\<close>

type_synonym 'm message_table = "u32 \<rightharpoonup> 'm"

definition parseProtoFile :: "(u8 list \<Rightarrow> 'w \<Rightarrow> bool \<times> 'w) \<Rightarrow> u8 list \<Rightarrow> 'w \<Rightarrow> bool \<times> 'w" where
  "parseProtoFile import_file filename w = import_file filename w"

definition loadmsg :: "'s filesystem \<Rightarrow> 's \<Rightarrow> (u8 list \<Rightarrow> 'w \<Rightarrow> bool \<times> 'w) \<Rightarrow> u8 list \<Rightarrow> 'w \<Rightarrow> (bool \<times> 'w) run" where
  "loadmsg os st import_file filename w =
     traverseDirectory os st filename (Some (bytes_of ''.proto'')) (parseProtoFile import_file) w"

definition FindMessage :: "'m message_table \<Rightarrow> u32 \<Rightarrow> 'm option" where
  "FindMessage mp msgid = mp msgid"

definition NewMessage :: "('m, 'f, 'D, 'd) protobuf \<Rightarrow> u32 \<Rightarrow> u8 list \<Rightarrow> 'm message_table \<Rightarrow> 'm option \<times> 'm message_table" where
  "NewMessage pb msgid name mp =
     (case FindMessage mp msgid of
        Some m \<Rightarrow> (Some m, mp)
      | None \<Rightarrow>
          (case pb_find_type pb name of
             None \<Rightarrow> (None, mp)
           | Some d \<Rightarrow> (case pb_prototype pb d of None \<Rightarrow> (None, mp)
               | Some proto \<Rightarrow> let m = pb_new pb proto in (Some m, mp(msgid \<mapsto> m)))))"

definition regmsg :: "('m, 'f, 'D, 'd) protobuf \<Rightarrow> u32 \<Rightarrow> u8 list \<Rightarrow> 'm message_table \<Rightarrow> bool \<times> 'm message_table" where
  "regmsg pb msgid name mp =
     (if FindMessage mp msgid \<noteq> None then (False, mp)
      else case NewMessage pb msgid name mp of (m, mp) \<Rightarrow> (m \<noteq> None, mp))"

text \<open>How each of the conversions begins: the registered message, cleared, and the descriptor of its type.\<close>

definition cleared_message ::
  "('m, 'f, 'D, 'd) protobuf \<Rightarrow> u32 \<Rightarrow> 'm message_table \<Rightarrow> (('D \<times> 'm) option \<times> 'm message_table) res" where
  "cleared_message pb msgid mp =
     (case FindMessage mp msgid of
        None \<Rightarrow> Inr (None, mp)
      | Some m \<Rightarrow>
          let m = pb_clear pb m
          in case pb_find_type pb (pb_type_name pb m) of
               None \<Rightarrow> Inr (None, mp(msgid \<mapsto> m))
             | Some d \<Rightarrow> seq (check (pb_byte_size pb m = 0)) (\<lambda>_. Inr (Some (d, m), mp(msgid \<mapsto> m))))"

text \<open>
  \<open>encode(L, msgid)\<close>: the message, or nothing when a value does not fit or an exception was caught. The
  other two write its bytes, into a buffer of \<open>bufsize\<close> bytes or a string.
\<close>

definition encode_message ::
  "('l, 'd, 'z) lua_api_scheme \<Rightarrow> ('m, 'f, 'D, 'd) protobuf \<Rightarrow> u32 \<Rightarrow> 'l \<Rightarrow> 'm message_table \<Rightarrow> ('m option \<times> 'l \<times> 'm message_table) run" where
  "encode_message api pb msgid L mp =
     bind_run (Some (cleared_message pb msgid mp)) (\<lambda>(x, mp).
     case x of
       None \<Rightarrow> ret (None, L, mp)
     | Some (d, m) \<Rightarrow>
         bind_run (encodeDescriptor api pb d L m) (\<lambda>(rc, L, m).
         let mp = mp(msgid \<mapsto> m)
         in if rc = Rc True then ret (Some m, L, mp) else ret (None, L, mp)))"

definition encode_to_buffer ::
  "('l, 'd, 'z) lua_api_scheme \<Rightarrow> ('m, 'f, 'D, 'd) protobuf \<Rightarrow> u32 \<Rightarrow> nat \<Rightarrow> 'l \<Rightarrow> 'm message_table \<Rightarrow> (u8 list option \<times> 'l \<times> 'm message_table) run" where
  "encode_to_buffer api pb msgid bufsize L mp =
     bind_run (encode_message api pb msgid L mp) (\<lambda>(x, L, mp).
     case x of
       None \<Rightarrow> ret (None, L, mp)
     | Some m \<Rightarrow> if pb_byte_size pb m \<le> bufsize then ret (pb_serialize pb m, L, mp) else ret (None, L, mp))"

definition encode_to_string ::
  "('l, 'd, 'z) lua_api_scheme \<Rightarrow> ('m, 'f, 'D, 'd) protobuf \<Rightarrow> u32 \<Rightarrow> 'l \<Rightarrow> 'm message_table \<Rightarrow> (u8 list option \<times> 'l \<times> 'm message_table) run" where
  "encode_to_string api pb msgid L mp =
     bind_run (encode_message api pb msgid L mp) (\<lambda>(x, L, mp).
     case x of None \<Rightarrow> ret (None, L, mp) | Some m \<Rightarrow> ret (pb_serialize pb m, L, mp))"

text \<open>\<open>decode\<close> of the bytes of an array; that of a string is the same.\<close>

definition decode_array ::
  "('l, 'd) lua \<Rightarrow> ('m, 'f, 'D, 'd) protobuf \<Rightarrow> u32 \<Rightarrow> u8 list \<Rightarrow> 'l \<Rightarrow> 'm message_table \<Rightarrow> (bool \<times> 'l \<times> 'm message_table) run" where
  "decode_array lua pb msgid buf L mp =
     bind_run (Some (cleared_message pb msgid mp)) (\<lambda>(x, mp).
     case x of
       None \<Rightarrow> ret (False, L, mp)
     | Some (d, m) \<Rightarrow>
         (case pb_parse pb buf m of (parsed, m) \<Rightarrow>
          let mp = mp(msgid \<mapsto> m)
          in if \<not> parsed then ret (False, L, mp)
             else bind_run (decodeDescriptor lua pb d m (lua_newtable lua L)) (\<lambda>(rc, L). ret (rc, L, mp))))"

definition decode_string ::
  "('l, 'd) lua \<Rightarrow> ('m, 'f, 'D, 'd) protobuf \<Rightarrow> u32 \<Rightarrow> u8 list \<Rightarrow> 'l \<Rightarrow> 'm message_table \<Rightarrow> (bool \<times> 'l \<times> 'm message_table) run" where
  "decode_string lua pb msgid in_string L mp = decode_array lua pb msgid in_string L mp"

section \<open>Messages as trees\<close>

text \<open>
  The contents of a message: its fields in the order of the descriptor, each absent, a scalar, a
  message, or a list of either. \<open>is_message\<close> says that the library shows a message to have these contents.
\<close>

datatype 'd fields = No_field | Field "u8 list" "'d content" "'d fields"
  and 'd content = Absent | Scalar "'d pb_value" | Scalars "'d pb_value list" | Message "'d fields" | Messages "'d items"
  and 'd items = No_item | Item "'d fields" "'d items"

fun item_count :: "'d items \<Rightarrow> nat" where
  "item_count No_item = 0"
| "item_count (Item fs is) = Suc (item_count is)"

fun is_message :: "('m, 'f, 'D, 'd) protobuf \<Rightarrow> 'm \<Rightarrow> 'f list \<Rightarrow> 'd fields \<Rightarrow> bool"
  and is_content :: "('m, 'f, 'D, 'd) protobuf \<Rightarrow> 'm \<Rightarrow> 'f \<Rightarrow> 'd content \<Rightarrow> bool"
  and is_items :: "('m, 'f, 'D, 'd) protobuf \<Rightarrow> 'm \<Rightarrow> 'f \<Rightarrow> nat \<Rightarrow> 'd items \<Rightarrow> bool" where
  "is_message pb m fs No_field = (fs = [])"
| "is_message pb m fs (Field nm c r) = (\<exists>f fs'. fs = f # fs' \<and> pb_name pb f = nm \<and> is_content pb m f c \<and> is_message pb m fs' r)"
| "is_content pb m f Absent = (\<not> pb_repeated pb f \<and> \<not> pb_has pb f m)"
| "is_content pb m f (Scalar v) = (\<not> pb_repeated pb f \<and> pb_has pb f m \<and> pb_type pb f = value_type v \<and> pb_get pb f m = v)"
| "is_content pb m f (Scalars vs) = (pb_repeated pb f \<and> pb_type pb f \<noteq> CPPTYPE_MESSAGE \<and> pb_size pb f m = length vs
     \<and> (\<forall>i < length vs. pb_get_item pb f i m = vs ! i))"
| "is_content pb m f (Message r) = (\<not> pb_repeated pb f \<and> pb_has pb f m \<and> pb_type pb f = CPPTYPE_MESSAGE
     \<and> is_message pb (pb_sub pb f m) (pb_fields pb (pb_message_type pb f)) r)"
| "is_content pb m f (Messages is) = (pb_repeated pb f \<and> pb_type pb f = CPPTYPE_MESSAGE \<and> pb_size pb f m = item_count is \<and> is_items pb m f 0 is)"
| "is_items pb m f i No_item = True"
| "is_items pb m f i (Item r is) = (is_message pb (pb_sub_item pb f i m) (pb_fields pb (pb_message_type pb f)) r \<and> is_items pb m f (Suc i) is)"

text \<open>The slots the conversion needs above the table it fills.\<close>

fun fields_room :: "'d fields \<Rightarrow> nat" and content_room :: "'d content \<Rightarrow> nat" and items_room :: "'d items \<Rightarrow> nat" where
  "fields_room No_field = 0"
| "fields_room (Field nm c r) = max (content_room c) (fields_room r)"
| "content_room Absent = 2"
| "content_room (Scalar v) = 2"
| "content_room (Scalars vs) = 4"
| "content_room (Message r) = 2 + fields_room r"
| "content_room (Messages is) = 2 + items_room is"
| "items_room No_item = 0"
| "items_room (Item r is) = max (2 + fields_room r) (items_room is)"

text \<open>
  The Lua value of a scalar, and the contents \<open>g'\<close> a table with the contents \<open>g\<close> has after a message was written
  into it: every field under its name, elements from 0 on.
\<close>

fun scalar_value :: "('l, 'd) lua \<Rightarrow> 'd pb_value \<Rightarrow> 'd lval" where
  "scalar_value lua (PB_int32 w) = L_number (number_of_int lua (sint w))"
| "scalar_value lua (PB_int64 w) = L_number (number_of_int lua (sint w))"
| "scalar_value lua (PB_uint32 w) = L_number (number_of_int lua (uint w))"
| "scalar_value lua (PB_uint64 w) = L_number (number_of_int lua (sint w))"
| "scalar_value lua (PB_double d) = L_number d"
| "scalar_value lua (PB_float d) = L_number d"
| "scalar_value lua (PB_bool b) = L_boolean b"
| "scalar_value lua (PB_enum w) = L_number (number_of_int lua (sint w))"
| "scalar_value lua (PB_string s) = L_string (C_string s)"

fun fill_list :: "('l, 'd) lua \<Rightarrow> ('d lval \<Rightarrow> 'd lval) \<Rightarrow> nat \<Rightarrow> 'd lval list \<Rightarrow> 'd lval \<Rightarrow> 'd lval" where
  "fill_list lua g i [] = g"
| "fill_list lua g i (v # vs) = fill_list lua (g(L_number (number_of_int lua (int i)) := v)) (Suc i) vs"

fun fills :: "('l, 'd) lua \<Rightarrow> (nat \<Rightarrow> 'd lval \<Rightarrow> 'd lval) \<Rightarrow> nat set \<Rightarrow> 'd fields \<Rightarrow> ('d lval \<Rightarrow> 'd lval) \<Rightarrow> ('d lval \<Rightarrow> 'd lval) \<Rightarrow> bool"
  and gives :: "('l, 'd) lua \<Rightarrow> (nat \<Rightarrow> 'd lval \<Rightarrow> 'd lval) \<Rightarrow> nat set \<Rightarrow> 'd content \<Rightarrow> 'd lval \<Rightarrow> bool"
  and gives_items :: "('l, 'd) lua \<Rightarrow> (nat \<Rightarrow> 'd lval \<Rightarrow> 'd lval) \<Rightarrow> nat set \<Rightarrow> 'd items \<Rightarrow> 'd lval list \<Rightarrow> bool" where
  "fills lua tb N No_field g g' = (g' = g)"
| "fills lua tb N (Field nm c r) g g' = (\<exists>v. gives lua tb N c v \<and> fills lua tb N r (g(L_string (C_string nm) := v)) g')"
| "gives lua tb N Absent v = (v = L_nil)"
| "gives lua tb N (Scalar x) v = (v = scalar_value lua x)"
| "gives lua tb N (Scalars xs) v = (\<exists>a. v = L_table a \<and> a \<in> N \<and> tb a = fill_list lua (\<lambda>_. L_nil) 0 (map (scalar_value lua) xs))"
| "gives lua tb N (Message r) v = (\<exists>a. v = L_table a \<and> a \<in> N \<and> fills lua tb N r (\<lambda>_. L_nil) (tb a))"
| "gives lua tb N (Messages is) v = (\<exists>a vs. v = L_table a \<and> a \<in> N \<and> tb a = fill_list lua (\<lambda>_. L_nil) 0 vs \<and> gives_items lua tb N is vs)"
| "gives_items lua tb N No_item vs = (vs = [])"
| "gives_items lua tb N (Item r is) vs =
     (\<exists>a us. vs = L_table a # us \<and> a \<in> N \<and> fills lua tb N r (\<lambda>_. L_nil) (tb a) \<and> gives_items lua tb N is us)"

lemma fills_mono:
  "fills lua tb N r g g' \<Longrightarrow> N \<subseteq> N' \<Longrightarrow> (\<And>x. x \<in> N \<Longrightarrow> tb' x = tb x) \<Longrightarrow> fills lua tb' N' r g g'"
  "gives lua tb N c v \<Longrightarrow> N \<subseteq> N' \<Longrightarrow> (\<And>x. x \<in> N \<Longrightarrow> tb' x = tb x) \<Longrightarrow> gives lua tb' N' c v"
  "gives_items lua tb N is vs \<Longrightarrow> N \<subseteq> N' \<Longrightarrow> (\<And>x. x \<in> N \<Longrightarrow> tb' x = tb x) \<Longrightarrow> gives_items lua tb' N' is vs"
proof (induction lua tb N r g g' and lua tb N c v and lua tb N "is" vs rule: fills_gives_gives_items.induct)
qed (simp_all, (metis subsetD)+)

end
