(* ===== verification/MessageTables.thy ===== *)
theory MessageTables imports Messages begin

text \<open>
  Correctness of the conversion of messages to Lua tables: the table holds every field of the message.
\<close>

section \<open>Code that fills the table at the top\<close>

text \<open>
  \<open>fills_top V F n Q\<close>: with a table at the top and \<open>n\<close> slots, \<open>F\<close> returns \<open>true\<close> with the same stack; of the tables
  that were there it changes only the one at the top, from \<open>g\<close> to \<open>g'\<close> with \<open>Q tb D g g'\<close>, where \<open>tb\<close> are the
  contents and \<open>D\<close> the new tables.
\<close>

definition fills_top :: "('l, 'd) lua_view \<Rightarrow> ('l \<Rightarrow> (bool \<times> 'l) run) \<Rightarrow> nat
    \<Rightarrow> ((nat \<Rightarrow> 'd lval \<Rightarrow> 'd lval) \<Rightarrow> nat set \<Rightarrow> ('d lval \<Rightarrow> 'd lval) \<Rightarrow> ('d lval \<Rightarrow> 'd lval) \<Rightarrow> bool) \<Rightarrow> bool" where
  "fills_top V F n Q \<longleftrightarrow> (\<forall>L a s r T N. look V L = (L_table a # s, r, T, N) \<longrightarrow> a \<in> N \<longrightarrow> n \<le> r \<longrightarrow>
     (\<exists>L' T' N'. F L = ret (True, L') \<and> look V L' = (L_table a # s, r, T', N') \<and> N \<subseteq> N'
        \<and> (\<forall>y \<in> N. y \<noteq> a \<longrightarrow> T' y = T y) \<and> Q T' (N' - N) (T a) (T' a)))"

definition stable :: "((nat \<Rightarrow> 'd lval \<Rightarrow> 'd lval) \<Rightarrow> nat set \<Rightarrow> ('d lval \<Rightarrow> 'd lval) \<Rightarrow> ('d lval \<Rightarrow> 'd lval) \<Rightarrow> bool) \<Rightarrow> bool" where
  "stable Q \<longleftrightarrow> (\<forall>tb D g g' tb' D'. Q tb D g g' \<longrightarrow> D \<subseteq> D' \<longrightarrow> (\<forall>x \<in> D. tb' x = tb x) \<longrightarrow> Q tb' D' g g')"

lemma fills_topD:
  assumes "fills_top V F n Q" "look V L = (L_table a # s, r, T, N)" "a \<in> N" "n \<le> r"
  obtains L' T' N' where "F L = ret (True, L')" "look V L' = (L_table a # s, r, T', N')" "N \<subseteq> N'"
    "\<And>y. y \<in> N \<Longrightarrow> y \<noteq> a \<Longrightarrow> T' y = T y" "Q T' (N' - N) (T a) (T' a)"
proof -
  from assms(1) [unfolded fills_top_def, rule_format, OF assms(2-4)] obtain L' T' N' where
    x: "F L = ret (True, L') \<and> look V L' = (L_table a # s, r, T', N') \<and> N \<subseteq> N'
      \<and> (\<forall>y \<in> N. y \<noteq> a \<longrightarrow> T' y = T y) \<and> Q T' (N' - N) (T a) (T' a)" by blast
  show thesis by (rule that [of L' T' N']) (use x in blast)+
qed

lemma filled_by:
  assumes "R = ret (True, L')" "look V L' = (st, r, T', N')" "N \<subseteq> N'" "\<forall>y \<in> N. y \<noteq> a \<longrightarrow> T' y = T y" "Q T' (N' - N) (T a) (T' a)"
  shows "\<exists>L' T' N'. R = ret (True, L') \<and> look V L' = (st, r, T', N') \<and> N \<subseteq> N' \<and> (\<forall>y \<in> N. y \<noteq> a \<longrightarrow> T' y = T y) \<and> Q T' (N' - N) (T a) (T' a)"
  using assms by blast

lemma stableD: "stable Q \<Longrightarrow> Q tb D g g' \<Longrightarrow> D \<subseteq> D' \<Longrightarrow> (\<And>x. x \<in> D \<Longrightarrow> tb' x = tb x) \<Longrightarrow> Q tb' D' g g'"
  unfolding stable_def by blast

lemma fills_top_weaken:
  assumes "fills_top V F n Q" "n \<le> n'" "\<And>tb D g g'. Q tb D g g' \<Longrightarrow> Q' tb D g g'"
  shows "fills_top V F n' Q'"
  unfolding fills_top_def
proof (intro allI impI)
  fix L a s r T N
  assume l: "look V L = (L_table a # s, r, T, N)" "a \<in> N" "n' \<le> r"
  have "n \<le> r" using l(3) assms(2) by simp
  then obtain L' T' N' where "F L = ret (True, L')" "look V L' = (L_table a # s, r, T', N')"
    "N \<subseteq> N'" "\<And>y. y \<in> N \<Longrightarrow> y \<noteq> a \<Longrightarrow> T' y = T y" "Q T' (N' - N) (T a) (T' a)"
    by (rule fills_topD [OF assms(1) l(1,2)]) (rule that)
  then show "\<exists>L' T' N'. F L = ret (True, L') \<and> look V L' = (L_table a # s, r, T', N') \<and> N \<subseteq> N'
      \<and> (\<forall>y \<in> N. y \<noteq> a \<longrightarrow> T' y = T y) \<and> Q' T' (N' - N) (T a) (T' a)"
    using assms(3) by (intro exI [of _ L'] exI [of _ T'] exI [of _ N']) simp
qed

lemma fills_top_return:
  assumes "\<And>tb D g. Q tb D g g"
  shows "fills_top V (\<lambda>L. ret (True, L)) n Q"
  unfolding fills_top_def
proof (intro allI impI)
  fix L a s r T N
  assume l: "look V L = (L_table a # s, r, T, N)" "a \<in> N" "n \<le> r"
  show "\<exists>L' T' N'. ret (True, L) = ret (True, L') \<and> look V L' = (L_table a # s, r, T', N') \<and> N \<subseteq> N'
      \<and> (\<forall>y \<in> N. y \<noteq> a \<longrightarrow> T' y = T y) \<and> Q T' (N' - N) (T a) (T' a)"
    by (rule filled_by [where Q = Q, OF refl l(1) subset_refl _ assms]) (intro ballI impI refl)
qed

lemma fills_top_then:
  assumes F: "fills_top V F n Q" and G: "fills_top V G n Q'" and st: "stable Q" "stable Q'"
  shows "fills_top V (\<lambda>L. bind_run (F L) (\<lambda>(rc, L). if \<not> rc then ret (False, L) else G L)) n
    (\<lambda>tb D g g'. \<exists>h. Q tb D g h \<and> Q' tb D h g')"
  unfolding fills_top_def
proof (intro allI impI)
  fix L a s r T N
  assume l: "look V L = (L_table a # s, r, T, N)" "a \<in> N" "n \<le> r"
  obtain L1 T1 N1 where 1: "F L = ret (True, L1)" "look V L1 = (L_table a # s, r, T1, N1)" "N \<subseteq> N1"
    "\<And>y. y \<in> N \<Longrightarrow> y \<noteq> a \<Longrightarrow> T1 y = T y" "Q T1 (N1 - N) (T a) (T1 a)" by (rule fills_topD [OF F l]) (rule that)
  have a: "a \<in> N1" using 1(3) l(2) by blast
  obtain L2 T2 N2 where 2: "G L1 = ret (True, L2)" "look V L2 = (L_table a # s, r, T2, N2)" "N1 \<subseteq> N2"
    "\<And>y. y \<in> N1 \<Longrightarrow> y \<noteq> a \<Longrightarrow> T2 y = T1 y" "Q' T2 (N2 - N1) (T1 a) (T2 a)" by (rule fills_topD [OF G 1(2) a l(3)]) (rule that)
  have run: "bind_run (F L) (\<lambda>(rc, L). if \<not> rc then ret (False, L) else G L) = ret (True, L2)" using 1(1) 2(1) by simp
  have sub: "N \<subseteq> N2" using 1(3) 2(3) by blast
  have s1: "N1 - N \<subseteq> N2 - N" by (rule Diff_mono [OF 2(3) subset_refl])
  have s2: "N2 - N1 \<subseteq> N2 - N" by (rule Diff_mono [OF subset_refl 1(3)])
  have e1: "T2 x = T1 x" if "x \<in> N1 - N" for x 
  proof (rule 2(4))
    show "x \<in> N1" by (rule DiffD1 [OF that])
    show "x \<noteq> a" using DiffD2 [OF that] l(2) by metis
  qed
  have q1: "Q T2 (N2 - N) (T a) (T1 a)" by (rule stableD [where tb' = T2 and Q = Q, OF st(1) 1(5) s1]) (rule e1)
  have q2: "Q' T2 (N2 - N) (T1 a) (T2 a)" by (rule stableD [where tb' = T2 and Q = Q', OF st(2) 2(5) s2]) (rule refl)
  have q: "\<exists>h. Q T2 (N2 - N) (T a) h \<and> Q' T2 (N2 - N) h (T2 a)" by (intro exI conjI) (rule q1 q2)+
  have "\<forall>y \<in> N. y \<noteq> a \<longrightarrow> T2 y = T y"
  proof (intro ballI impI)
    fix y assume "y \<in> N" "y \<noteq> a"
    then show "T2 y = T y" using 1(4) [of y] 2(4) [of y] subsetD [OF 1(3), of y] by simp
  qed
  from filled_by [where Q = "\<lambda>tb D g g'. \<exists>h. Q tb D g h \<and> Q' tb D h g'", OF run 2(2) sub this q]
  show "\<exists>L' T' N'. bind_run (F L) (\<lambda>(rc, L). if \<not> rc then ret (False, L) else G L) = ret (True, L')
      \<and> look V L' = (L_table a # s, r, T', N') \<and> N \<subseteq> N' \<and> (\<forall>y \<in> N. y \<noteq> a \<longrightarrow> T' y = T y)
      \<and> (\<exists>h. Q T' (N' - N) (T a) h \<and> Q' T' (N' - N) h (T' a))" .
qed

lemma look_settable_key:
  assumes "lua_laws lua V" "look V L = (v # k # L_table t # s, r, T, N)" "t \<in> N" "plain_key lua k"
  shows "look V (lua_settable lua (- 3) L) = (L_table t # s, r + 2, T(t := (T t)(k := v)), N)"
  using lua_lawsD(7) [OF assms(1), of L v k t s] assms(2-) by (auto simp: look_def)

text \<open>A value is stored under a key, and a new table is filled and then stored under a key.\<close>

lemma fills_top_value:
  assumes laws: "lua_laws lua V" and k: "lua_pushes V k pk" "plain_key lua k" and v: "lua_pushes V v pv"
  shows "fills_top V (\<lambda>L. ret (True, lua_settable lua (- 3) (pv (pk L)))) 2 (\<lambda>tb D g g'. g' = g(k := v))"
  unfolding fills_top_def
proof (intro allI impI)
  fix L a s r T N
  assume l: "look V L = (L_table a # s, r, T, N)" "a \<in> N" "2 \<le> r"
  obtain q where q: "r = Suc (Suc q)" using l(3) by (metis add_2_eq_Suc le_Suc_ex)
  have "look V (pv (pk L)) = (v # k # L_table a # s, q, T, N)"
    by (rule look_push [OF v look_push [OF k(1)]]) (use l(1) q in simp)
  from look_settable_key [OF laws this l(2) k(2)]
  have e: "look V (lua_settable lua (- 3) (pv (pk L))) = (L_table a # s, r, T(a := (T a)(k := v)), N)" using q by simp
  show "\<exists>L' T' N'. ret (True, lua_settable lua (- 3) (pv (pk L))) = ret (True, L') \<and> look V L' = (L_table a # s, r, T', N')
      \<and> N \<subseteq> N' \<and> (\<forall>y \<in> N. y \<noteq> a \<longrightarrow> T' y = T y) \<and> T' a = (T a)(k := v)"
    by (rule filled_by [where Q = "\<lambda>tb D g g'. g' = g(k := v)", OF refl e]) simp_all
qed

lemma fills_top_table:
  assumes laws: "lua_laws lua V" and k: "lua_pushes V k pk" "plain_key lua k" and F: "fills_top V F n Q" "stable Q"
  shows "fills_top V (\<lambda>L. bind_run (F (lua_newtable lua (pk L))) (\<lambda>(rc, L). ret (rc, lua_settable lua (- 3) L))) (2 + n)
    (\<lambda>tb D g g'. \<exists>b. b \<in> D \<and> Q tb D (\<lambda>_. L_nil) (tb b) \<and> g' = g(k := L_table b))"
  unfolding fills_top_def
proof (intro allI impI)
  fix L a s r T N
  assume l: "look V L = (L_table a # s, r, T, N)" "a \<in> N" "2 + n \<le> r"
  obtain q where q: "r = Suc (Suc q)" "n \<le> q" using l(3) by (intro that [of "r - 2"]) auto
  have "look V (pk L) = (k # L_table a # s, Suc q, T, N)" by (rule look_push [OF k(1)]) (use l(1) q in simp)
  from look_newtable [OF laws this] obtain b where b: "b \<notin> N"
    "look V (lua_newtable lua (pk L)) = (L_table b # k # L_table a # s, q, T(b := (\<lambda>_. L_nil)), insert b N)" by blast
  obtain L1 T1 N1 where 1: "F (lua_newtable lua (pk L)) = ret (True, L1)" "look V L1 = (L_table b # k # L_table a # s, q, T1, N1)"
    "insert b N \<subseteq> N1" "\<And>y. y \<in> insert b N \<Longrightarrow> y \<noteq> b \<Longrightarrow> T1 y = (T(b := (\<lambda>_. L_nil))) y"
    "Q T1 (N1 - insert b N) ((T(b := (\<lambda>_. L_nil))) b) (T1 b)"
    by (rule fills_topD [OF F(1) b(2) insertI1 q(2)]) (rule that)
  let ?L = "lua_settable lua (- 3) L1" and ?T = "T1(a := (T1 a)(k := L_table b))"
  have a: "a \<in> N1" "a \<noteq> b" "T1 a = T a" using 1(3) 1(4) [of a] l(2) b(1) by auto
  have l1: "look V ?L = (L_table a # s, r, ?T, N1)" using look_settable_key [OF laws 1(2) a(1) k(2)] q(1) by simp
  have q1: "\<exists>b. b \<in> N1 - N \<and> Q ?T (N1 - N) (\<lambda>_. L_nil) (?T b) \<and> ?T a = (T a)(k := L_table b)"
  proof (intro exI [of _ b] conjI)
    have "Q T1 (N1 - insert b N) (\<lambda>_. L_nil) (?T b)" using 1(5) a(2) by simp
    then show "Q ?T (N1 - N) (\<lambda>_. L_nil) (?T b)" by (rule stableD [where Q = Q, OF F(2)]) (use l(2) in auto)
    show "b \<in> N1 - N" using 1(3) b(1) by blast
    show "?T a = (T a)(k := L_table b)" using a(3) by simp
  qed
  have same: "\<forall>y \<in> N. y \<noteq> a \<longrightarrow> ?T y = T y" using 1(4) b(1) by fastforce
  have run: "bind_run (F (lua_newtable lua (pk L))) (\<lambda>(rc, L). ret (rc, lua_settable lua (- 3) L)) = ret (True, ?L)"
    using 1(1) by simp
  have sub: "N \<subseteq> N1" using 1(3) by blast
  from filled_by [where Q = "\<lambda>tb D g g'. \<exists>b. b \<in> D \<and> Q tb D (\<lambda>_. L_nil) (tb b) \<and> g' = g(k := L_table b)", OF run l1 sub same q1]
  show "\<exists>L' T' N'. bind_run (F (lua_newtable lua (pk L))) (\<lambda>(rc, L). ret (rc, lua_settable lua (- 3) L)) = ret (True, L')
      \<and> look V L' = (L_table a # s, r, T', N') \<and> N \<subseteq> N' \<and> (\<forall>y \<in> N. y \<noteq> a \<longrightarrow> T' y = T y)
      \<and> (\<exists>b. b \<in> N' - N \<and> Q T' (N' - N) (\<lambda>_. L_nil) (T' b) \<and> T' a = (T a)(k := L_table b))" .
qed

lemma stable_const: "stable (\<lambda>tb D. Q)"
  unfolding stable_def by blast

section \<open>The functions of the decoder\<close>

lemma decode_fields_simps:
  "decode_call lua pb (Decode_fields []) m = (\<lambda>L. ret (True, L))"
  "decode_call lua pb (Decode_fields (f # fs)) m = (\<lambda>L.
     bind_run (if \<not> pb_repeated pb f \<and> \<not> pb_has pb f m then ret (True, decodeFieldDefaultValue lua pb f L)
               else decode_call lua pb (Decode_field f) m L)
       (\<lambda>(rc, L). if \<not> rc then ret (False, L) else decode_call lua pb (Decode_fields fs) m L))"
  by (rule ext, subst decode_call.simps, simp)+

lemma decode_items_simps:
  "pb_size pb f m \<le> i \<Longrightarrow> decode_call lua pb (Decode_items f i) m = (\<lambda>L. ret (True, L))"
  "i < pb_size pb f m \<Longrightarrow> decode_call lua pb (Decode_items f i) m = (\<lambda>L.
     bind_run (decode_call lua pb (Decode_repeated f i) m L)
       (\<lambda>(rc, L). if \<not> rc then ret (False, L) else decode_call lua pb (Decode_items f (Suc i)) m L))"
  by (rule ext, subst decode_call.simps, simp, (rule arg_cong [where f = "bind_run _"], rule ext, simp split: prod.split)?)+

lemma decode_repeated_simps:
  "pb_repeated pb f \<Longrightarrow> pb_type pb f \<noteq> CPPTYPE_MESSAGE \<Longrightarrow> decode_call lua pb (Decode_repeated f i) m =
     (\<lambda>L. ret (True, lua_settable lua (- 3) (push_scalar lua (pb_get_item pb f i m) (lua_pushinteger lua (int i) L))))"
  "pb_repeated pb f \<Longrightarrow> pb_type pb f = CPPTYPE_MESSAGE \<Longrightarrow> decode_call lua pb (Decode_repeated f i) m =
     (\<lambda>L. bind_run (decode_call lua pb (Decode_fields (pb_fields pb (pb_message_type pb f))) (pb_sub_item pb f i m)
       (lua_newtable lua (lua_pushinteger lua (int i) L))) (\<lambda>(rc, L). ret (rc, lua_settable lua (- 3) L)))"
  by (rule ext, subst decode_call.simps, simp add: check_def)+

lemma decode_field_simps:
  "pb_repeated pb f \<Longrightarrow> decode_call lua pb (Decode_field f) m = (\<lambda>L.
     bind_run (decode_call lua pb (Decode_items f 0) m (lua_newtable lua (push_C_string lua (pb_name pb f) L)))
       (\<lambda>(rc, L). ret (rc, lua_settable lua (- 3) L)))"
  "\<not> pb_repeated pb f \<Longrightarrow> decode_call lua pb (Decode_field f) m = decode_call lua pb (Decode_simple f) m"
  by (rule ext, subst decode_call.simps, simp)+

lemma decode_simple_simps:
  "\<not> pb_repeated pb f \<Longrightarrow> pb_has pb f m \<Longrightarrow> pb_type pb f \<noteq> CPPTYPE_MESSAGE \<Longrightarrow> decode_call lua pb (Decode_simple f) m =
     (\<lambda>L. ret (True, lua_settable lua (- 3) (push_scalar lua (pb_get pb f m) (push_C_string lua (pb_name pb f) L))))"
  "\<not> pb_repeated pb f \<Longrightarrow> pb_type pb f = CPPTYPE_MESSAGE \<Longrightarrow> decode_call lua pb (Decode_simple f) m =
     (\<lambda>L. bind_run (decode_call lua pb (Decode_fields (pb_fields pb (pb_message_type pb f))) (pb_sub pb f m)
       (lua_newtable lua (push_C_string lua (pb_name pb f) L))) (\<lambda>(rc, L). ret (rc, lua_settable lua (- 3) L)))"
  by (rule ext, subst decode_call.simps, simp add: check_def)+

lemma push_name_pushes:
  assumes "lua_laws lua V"
  shows "lua_pushes V (L_string (C_string x)) (push_C_string lua x)"
  using lua_lawsD(5) [OF assms, of "C_string x"] unfolding lua_pushes_def push_C_string_def .

lemma push_scalar_pushes:
  assumes "lua_laws lua V"
  shows "lua_pushes V (scalar_value lua v) (push_scalar lua v)"
proof -
  note laws = lua_lawsD(2-4) [OF assms, unfolded lua_pushes_def] push_name_pushes [OF assms, unfolded lua_pushes_def]
  show ?thesis unfolding lua_pushes_def by (cases v) (simp_all add: push_scalar_def laws)
qed

lemma plain_keys: "plain_key lua (L_string x)" "plain_key lua (L_number (number_of_int lua i))"
  by (auto simp: plain_key_def)

lemma scalar_not_message: "value_type v \<noteq> CPPTYPE_MESSAGE"
  by (cases v) simp_all

lemma decode_scalars:
  assumes laws: "lua_laws lua V" and f: "pb_repeated pb f" "pb_type pb f \<noteq> CPPTYPE_MESSAGE"
  shows "pb_size pb f m = i + length vs \<Longrightarrow> (\<forall>j < length vs. pb_get_item pb f (i + j) m = vs ! j) \<Longrightarrow>
    fills_top V (decode_call lua pb (Decode_items f i) m) 2 (\<lambda>tb D g g'. g' = fill_list lua g i (map (scalar_value lua) vs))"
proof (induction vs arbitrary: i)
  case Nil
  then have i: "pb_size pb f m \<le> i" by simp
  show ?case unfolding decode_items_simps(1) [OF i]
    by (intro fills_top_return [where Q = "\<lambda>tb D g g'. g' = fill_list lua g i (map (scalar_value lua) [])"]) simp
next
  case (Cons v vs)
  let ?k = "L_number (number_of_int lua (int i))"
  let ?Q = "\<lambda>tb D g g'. g' = g(?k := scalar_value lua v)" and ?R = "\<lambda>tb D g g'. g' = fill_list lua g (Suc i) (map (scalar_value lua) vs)"
  have v: "pb_get_item pb f i m = v" using spec [OF Cons.prems(2), of 0] by simp
  have i: "i < pb_size pb f m" "pb_size pb f m = Suc i + length vs" using Cons.prems(1) by simp_all
  have vs: "\<forall>j < length vs. pb_get_item pb f (Suc i + j) m = vs ! j"
  proof (intro allI impI)
    fix j assume "j < length vs"
    with spec [OF Cons.prems(2), of "Suc j"] show "pb_get_item pb f (Suc i + j) m = vs ! j" by simp
  qed
  have one: "fills_top V (decode_call lua pb (Decode_repeated f i) m) 2 ?Q"
    unfolding decode_repeated_simps(1) [OF f] v
    by (rule fills_top_value [where pk = "lua_pushinteger lua (int i)" and pv = "push_scalar lua v",
          OF laws lua_lawsD(3) [OF laws] plain_keys(2) push_scalar_pushes [OF laws]])
  have "fills_top V (decode_call lua pb (Decode_items f i) m) 2 (\<lambda>tb D g g'. \<exists>h. ?Q tb D g h \<and> ?R tb D h g')"
    unfolding decode_items_simps(2) [OF i(1)]
    by (rule fills_top_then [where Q = ?Q and Q' = ?R, OF one Cons.IH [OF i(2) vs] stable_const stable_const])
  then show ?case by (rule fills_top_weaken) simp_all
qed

text \<open>A field and the elements of a list of messages, given what the messages in them do.\<close>

definition sets :: "('l, 'd) lua \<Rightarrow> 'd content \<Rightarrow> 'd lval \<Rightarrow> (nat \<Rightarrow> 'd lval \<Rightarrow> 'd lval) \<Rightarrow> nat set
    \<Rightarrow> ('d lval \<Rightarrow> 'd lval) \<Rightarrow> ('d lval \<Rightarrow> 'd lval) \<Rightarrow> bool" where
  "sets lua c k tb D g g' \<longleftrightarrow> (\<exists>v. gives lua tb D c v \<and> g' = g(k := v))"

definition lists :: "('l, 'd) lua \<Rightarrow> 'd items \<Rightarrow> nat \<Rightarrow> (nat \<Rightarrow> 'd lval \<Rightarrow> 'd lval) \<Rightarrow> nat set
    \<Rightarrow> ('d lval \<Rightarrow> 'd lval) \<Rightarrow> ('d lval \<Rightarrow> 'd lval) \<Rightarrow> bool" where
  "lists lua is i tb D g g' \<longleftrightarrow> (\<exists>vs. gives_items lua tb D is vs \<and> g' = fill_list lua g i vs)"

definition decode_one :: "('l, 'd) lua \<Rightarrow> ('m, 'f, 'D, 'd) protobuf \<Rightarrow> 'f \<Rightarrow> 'm \<Rightarrow> 'l \<Rightarrow> (bool \<times> 'l) run" where
  "decode_one lua pb f m L = (if \<not> pb_repeated pb f \<and> \<not> pb_has pb f m then ret (True, decodeFieldDefaultValue lua pb f L)
     else decode_call lua pb (Decode_field f) m L)"

lemma stable_all: "stable (sets lua c k)" "stable (lists lua is i)" "stable (\<lambda>tb D g g'. fills lua tb D r g g')"
  unfolding stable_def sets_def lists_def
proof (safe, goal_cases)
  case (1 tb D g g' tb' D' v)
  have "gives lua tb' D' c v" by (rule fills_mono(2) [OF 1(1,2)]) (rule bspec [OF 1(3)])
  then show ?case by (intro exI [of _ v] conjI refl)
next
  case (2 tb D g g' tb' D' vs)
  have "gives_items lua tb' D' is vs" by (rule fills_mono(3) [OF 2(1,2)]) (rule bspec [OF 2(3)])
  then show ?case by (intro exI [of _ vs] conjI refl)
next
  case (3 tb D g g' tb' D')
  show ?case by (rule fills_mono(1) [OF 3(1,2)]) (rule bspec [OF 3(3)])
qed

lemma decode_default:
  assumes laws: "lua_laws lua V" and f: "\<not> pb_repeated pb f" "\<not> pb_has pb f m"
  shows "fills_top V (decode_one lua pb f m) (content_room Absent) (sets lua Absent (L_string (C_string (pb_name pb f))))"
proof -
  let ?k = "L_string (C_string (pb_name pb f))"
  have "decode_one lua pb f m = (\<lambda>L. ret (True, lua_settable lua (- 3) (lua_pushnil lua (push_C_string lua (pb_name pb f) L))))"
    using f by (simp add: decode_one_def decodeFieldDefaultValue_def fun_eq_iff)
  moreover have "fills_top V (\<lambda>L. ret (True, lua_settable lua (- 3) (lua_pushnil lua (push_C_string lua (pb_name pb f) L)))) 2
      (\<lambda>tb D g g'. g' = g(?k := L_nil))"
    by (rule fills_top_value [where pk = "push_C_string lua (pb_name pb f)" and pv = "lua_pushnil lua",
          OF laws push_name_pushes [OF laws] plain_keys(1) lua_lawsD(1) [OF laws]])
  ultimately show ?thesis by simp (erule fills_top_weaken, simp_all add: sets_def)
qed

lemma decode_scalar:
  assumes laws: "lua_laws lua V" and c: "is_content pb m f (Scalar v)"
  shows "fills_top V (decode_one lua pb f m) (content_room (Scalar v)) (sets lua (Scalar v) (L_string (C_string (pb_name pb f))))"
proof -
  let ?k = "L_string (C_string (pb_name pb f))"
  have "decode_one lua pb f m = (\<lambda>L. ret (True, lua_settable lua (- 3) (push_scalar lua v (push_C_string lua (pb_name pb f) L))))"
    using c scalar_not_message [of v] by (simp add: decode_one_def decode_field_simps decode_simple_simps fun_eq_iff)
  moreover have "fills_top V (\<lambda>L. ret (True, lua_settable lua (- 3) (push_scalar lua v (push_C_string lua (pb_name pb f) L)))) 2
      (\<lambda>tb D g g'. g' = g(?k := scalar_value lua v))"
    by (rule fills_top_value [where pk = "push_C_string lua (pb_name pb f)" and pv = "push_scalar lua v",
          OF laws push_name_pushes [OF laws] plain_keys(1) push_scalar_pushes [OF laws]])
  ultimately show ?thesis by simp (erule fills_top_weaken, simp_all add: sets_def)
qed

lemma decode_list:
  assumes laws: "lua_laws lua V" and f: "pb_repeated pb f"
    and items: "fills_top V (decode_call lua pb (Decode_items f 0) m) n Q" "stable Q"
    and c: "content_room c = 2 + n" "\<And>tb D b. b \<in> D \<Longrightarrow> Q tb D (\<lambda>_. L_nil) (tb b) \<Longrightarrow> gives lua tb D c (L_table b)"
  shows "fills_top V (decode_one lua pb f m) (content_room c) (sets lua c (L_string (C_string (pb_name pb f))))"
proof -
  let ?k = "L_string (C_string (pb_name pb f))"
  have "decode_one lua pb f m = (\<lambda>L. bind_run (decode_call lua pb (Decode_items f 0) m (lua_newtable lua (push_C_string lua (pb_name pb f) L)))
       (\<lambda>(rc, L). ret (rc, lua_settable lua (- 3) L)))"
    using f by (simp add: decode_one_def decode_field_simps fun_eq_iff)
  moreover have "fills_top V (\<lambda>L. bind_run (decode_call lua pb (Decode_items f 0) m (lua_newtable lua (push_C_string lua (pb_name pb f) L)))
       (\<lambda>(rc, L). ret (rc, lua_settable lua (- 3) L))) (2 + n) (\<lambda>tb D g g'. \<exists>b. b \<in> D \<and> Q tb D (\<lambda>_. L_nil) (tb b) \<and> g' = g(?k := L_table b))"
    by (rule fills_top_table [where pk = "push_C_string lua (pb_name pb f)", OF laws push_name_pushes [OF laws] plain_keys(1) items])
  then have "fills_top V (\<lambda>L. bind_run (decode_call lua pb (Decode_items f 0) m (lua_newtable lua (push_C_string lua (pb_name pb f) L)))
       (\<lambda>(rc, L). ret (rc, lua_settable lua (- 3) L))) (content_room c) (sets lua c ?k)"
    by (rule fills_top_weaken) (use c in \<open>auto simp: sets_def\<close>)
  ultimately show ?thesis by simp
qed

lemma decode_sub:
  assumes laws: "lua_laws lua V" and f: "\<not> pb_repeated pb f" "pb_has pb f m" "pb_type pb f = CPPTYPE_MESSAGE"
    and fields: "fills_top V (decode_call lua pb (Decode_fields (pb_fields pb (pb_message_type pb f))) (pb_sub pb f m)) (fields_room r)
      (\<lambda>tb D g g'. fills lua tb D r g g')"
  shows "fills_top V (decode_one lua pb f m) (content_room (Message r)) (sets lua (Message r) (L_string (C_string (pb_name pb f))))"
proof -
  let ?k = "L_string (C_string (pb_name pb f))"
  let ?F = "\<lambda>L. bind_run (decode_call lua pb (Decode_fields (pb_fields pb (pb_message_type pb f))) (pb_sub pb f m)
       (lua_newtable lua (push_C_string lua (pb_name pb f) L))) (\<lambda>(rc, L). ret (rc, lua_settable lua (- 3) L))"
  have e: "decode_one lua pb f m = ?F"
    using f by (simp add: decode_one_def decode_field_simps decode_simple_simps fun_eq_iff)
  have "fills_top V ?F (2 + fields_room r) (\<lambda>tb D g g'. \<exists>b. b \<in> D \<and> fills lua tb D r (\<lambda>_. L_nil) (tb b) \<and> g' = g(?k := L_table b))"
    by (rule fills_top_table [where pk = "push_C_string lua (pb_name pb f)", OF laws push_name_pushes [OF laws] plain_keys(1) fields stable_all(3)])
  then have "fills_top V ?F (content_room (Message r)) (sets lua (Message r) ?k)"
    by (rule fills_top_weaken) (auto simp: sets_def)
  then show ?thesis by (simp only: e)
qed

lemma decode_item:
  assumes laws: "lua_laws lua V" and f: "pb_repeated pb f" "pb_type pb f = CPPTYPE_MESSAGE" "i < pb_size pb f m"
    and fields: "fills_top V (decode_call lua pb (Decode_fields (pb_fields pb (pb_message_type pb f))) (pb_sub_item pb f i m)) (fields_room r)
      (\<lambda>tb D g g'. fills lua tb D r g g')"
    and rest: "fills_top V (decode_call lua pb (Decode_items f (Suc i)) m) (items_room is) (lists lua is (Suc i))"
  shows "fills_top V (decode_call lua pb (Decode_items f i) m) (items_room (Item r is)) (lists lua (Item r is) i)"
proof -
  let ?k = "L_number (number_of_int lua (int i))"
  let ?Q = "\<lambda>tb D g g'. \<exists>b. b \<in> D \<and> fills lua tb D r (\<lambda>_. L_nil) (tb b) \<and> g' = g(?k := L_table b)"
  have st: "stable ?Q" unfolding stable_def
  proof (safe, goal_cases)
    case (1 tb D g g' tb' D' b)
    have "fills lua tb' D' r (\<lambda>_. L_nil) (tb b)" by (rule fills_mono(1) [OF 1(2,3)]) (rule bspec [OF 1(4)])
    then show ?case using 1(1,3,4) by (intro exI [of _ b]) (simp add: subsetD)
  qed
  have "fills_top V (decode_call lua pb (Decode_repeated f i) m) (2 + fields_room r) ?Q"
    unfolding decode_repeated_simps(2) [OF f(1,2)]
    by (rule fills_top_table [where pk = "lua_pushinteger lua (int i)", OF laws lua_lawsD(3) [OF laws] plain_keys(2) fields stable_all(3)])
  then have one: "fills_top V (decode_call lua pb (Decode_repeated f i) m) (items_room (Item r is)) ?Q"
    by (rule fills_top_weaken) simp_all
  have rest: "fills_top V (decode_call lua pb (Decode_items f (Suc i)) m) (items_room (Item r is)) (lists lua is (Suc i))"
    by (rule fills_top_weaken [OF rest]) simp_all
  have "fills_top V (decode_call lua pb (Decode_items f i) m) (items_room (Item r is)) (\<lambda>tb D g g'. \<exists>h. ?Q tb D g h \<and> lists lua is (Suc i) tb D h g')"
    unfolding decode_items_simps(2) [OF f(3)]
    by (rule fills_top_then [where Q = ?Q and Q' = "lists lua is (Suc i)", OF one rest st stable_all(2)])
  then show ?thesis
  proof (rule fills_top_weaken)
    fix tb D g g' assume "\<exists>h. ?Q tb D g h \<and> lists lua is (Suc i) tb D h g'"
    then obtain b vs where "b \<in> D" "fills lua tb D r (\<lambda>_. L_nil) (tb b)" "gives_items lua tb D is vs"
      "g' = fill_list lua (g(?k := L_table b)) (Suc i) vs" unfolding lists_def by blast
    then show "lists lua (Item r is) i tb D g g'" unfolding lists_def by (intro exI [of _ "L_table b # vs"]) simp
  qed simp
qed

section \<open>The table holds the message\<close>

lemma decode_message:
  assumes laws: "lua_laws lua V"
  shows "is_message pb m fs r \<Longrightarrow> fills_top V (decode_call lua pb (Decode_fields fs) m) (fields_room r) (\<lambda>tb D g g'. fills lua tb D r g g')"
    and "is_content pb m f c \<Longrightarrow> fills_top V (decode_one lua pb f m) (content_room c) (sets lua c (L_string (C_string (pb_name pb f))))"
    and "is_items pb m f i is \<Longrightarrow> pb_repeated pb f \<Longrightarrow> pb_type pb f = CPPTYPE_MESSAGE \<Longrightarrow> pb_size pb f m = i + item_count is \<Longrightarrow>
      fills_top V (decode_call lua pb (Decode_items f i) m) (items_room is) (lists lua is i)"
proof (induction pb m fs r and pb m f c and pb m f i "is" rule: is_message_is_content_is_items.induct)
  case (1 pb m fs)
  then have "fs = []" by simp
  then show ?case unfolding \<open>fs = []\<close> decode_fields_simps(1)
    by (intro fills_top_return [where Q = "\<lambda>tb D g g'. fills lua tb D No_field g g'"]) simp
next
  case (2 pb m fs nm c r)
  then obtain f fs' where f: "fs = f # fs'" "pb_name pb f = nm" "is_content pb m f c" "is_message pb m fs' r" by auto
  let ?k = "L_string (C_string nm)"
  have one: "fills_top V (decode_one lua pb f m) (fields_room (Field nm c r)) (sets lua c ?k)"
    by (rule fills_top_weaken [OF 2(1) [OF f(3)]]) (simp_all add: f(2))
  have rest: "fills_top V (decode_call lua pb (Decode_fields fs') m) (fields_room (Field nm c r)) (\<lambda>tb D g g'. fills lua tb D r g g')"
    by (rule fills_top_weaken [OF 2(2) [OF f(4)]]) simp_all
  have "fills_top V (decode_call lua pb (Decode_fields fs) m) (fields_room (Field nm c r))
      (\<lambda>tb D g g'. \<exists>h. sets lua c ?k tb D g h \<and> fills lua tb D r h g')"
    unfolding f(1) decode_fields_simps(2) decode_one_def [symmetric]
    by (rule fills_top_then [where Q = "sets lua c ?k" and Q' = "\<lambda>tb D g g'. fills lua tb D r g g'", OF one rest stable_all(1,3)])
  then show ?case by (rule fills_top_weaken) (auto simp: sets_def)
next
  case (3 pb m f)
  then show ?case by (intro decode_default [OF laws]) simp_all
next
  case (4 pb m f v)
  then show ?case by (rule decode_scalar [OF laws])
next
  case (5 pb m f vs)
  then have f: "pb_repeated pb f" "pb_type pb f \<noteq> CPPTYPE_MESSAGE" "pb_size pb f m = 0 + length vs"
    "\<forall>j < length vs. pb_get_item pb f (0 + j) m = vs ! j" by simp_all
  show ?case by (rule decode_list [OF laws f(1) decode_scalars [OF laws f] stable_const]) auto
next
  case (6 pb m f r)
  then show ?case by (intro decode_sub [OF laws]) simp_all
next
  case (7 pb m f "is")
  then have f: "pb_repeated pb f" "pb_type pb f = CPPTYPE_MESSAGE" "is_items pb m f 0 is" "pb_size pb f m = 0 + item_count is" by simp_all
  show ?case by (rule decode_list [OF laws f(1) 7(1) [OF f(3,1,2,4)] stable_all(2)]) (auto simp: lists_def)
next
  case (8 pb m f i)
  then have i: "pb_size pb f m \<le> i" by simp
  show ?case unfolding decode_items_simps(1) [OF i]
    by (intro fills_top_return [where Q = "lists lua No_item i"]) (simp add: lists_def)
next
  case (9 pb m f i r "is")
  then show ?case by (intro decode_item [OF laws]) simp_all
qed

text \<open>
  C16. Messages to Lua. When a message is registered under the number and the library parses the bytes into a
  message with the contents \<open>r\<close>, then, with a Lua library that does what its manual says and the slots that
  \<open>fields_room\<close> counts, \<open>decode\<close> returns \<open>true\<close> with one more value on the stack: a new table with every
  field of the message under its name, where absent fields are nil and a list is a table from 0 on. No
  table that existed before has changed.
\<close>

theorem message_to_lua:
  assumes laws: "lua_laws lua V"
    and registered: "mp msgid = Some m0" "pb_find_type pb (pb_type_name pb (pb_clear pb m0)) = Some d" "pb_byte_size pb (pb_clear pb m0) = 0"
    and parsed: "pb_parse pb buf (pb_clear pb m0) = (True, m)" "is_message pb m (pb_fields pb d) r"
    and room: "fields_room r < vw_room V L"
  shows "\<exists>L' b. decode_array lua pb msgid buf L mp = ret (True, L', mp(msgid \<mapsto> m)) \<and> vw_stack V L' = L_table b # vw_stack V L
    \<and> fills lua (vw_table V L') (vw_live V L' - vw_live V L) r (\<lambda>_. L_nil) (vw_table V L' b)
    \<and> (\<forall>y \<in> vw_live V L. vw_table V L' y = vw_table V L y)"
proof -
  obtain q where q: "vw_room V L = Suc q" "fields_room r \<le> q" using room by (intro that [of "vw_room V L - 1"]) auto
  have "look V L = (vw_stack V L, Suc q, vw_table V L, vw_live V L)" using q(1) by (simp add: look_def)
  from look_newtable [OF laws this] obtain b where b: "b \<notin> vw_live V L" "look V (lua_newtable lua L) =
      (L_table b # vw_stack V L, q, (vw_table V L)(b := (\<lambda>_. L_nil)), insert b (vw_live V L))" by blast
  obtain L1 T1 N1 where 1: "decode_call lua pb (Decode_fields (pb_fields pb d)) m (lua_newtable lua L) = ret (True, L1)"
    "look V L1 = (L_table b # vw_stack V L, q, T1, N1)" "insert b (vw_live V L) \<subseteq> N1"
    "\<And>y. y \<in> insert b (vw_live V L) \<Longrightarrow> y \<noteq> b \<Longrightarrow> T1 y = ((vw_table V L)(b := (\<lambda>_. L_nil))) y"
    "fills lua T1 (N1 - insert b (vw_live V L)) r (((vw_table V L)(b := (\<lambda>_. L_nil))) b) (T1 b)"
    by (rule fills_topD [OF decode_message(1) [OF laws parsed(2)] b(2) insertI1 q(2)]) (rule that)
  have "decode_array lua pb msgid buf L mp = ret (True, L1, mp(msgid \<mapsto> m))"
    using registered parsed(1) 1(1)
    by (simp add: decode_array_def cleared_message_def FindMessage_def decodeDescriptor_def Let_def check_def)
  moreover have "vw_stack V L1 = L_table b # vw_stack V L" "vw_table V L1 = T1" "vw_live V L1 = N1"
    using 1(2) by (simp_all add: look_def)
  moreover have "fills lua T1 (N1 - vw_live V L) r (\<lambda>_. L_nil) (T1 b)"
    by (rule fills_mono(1) [OF 1(5) [simplified]]) auto
  moreover have "\<forall>y \<in> vw_live V L. T1 y = vw_table V L y" using 1(4) b(1) by fastforce
  ultimately show ?thesis by (intro exI [of _ L1] exI [of _ b]) simp
qed

text \<open>A library with one message type of three fields: a number, a list of strings and a submessage.\<close>

definition toy_pb :: "(nat, nat, nat, int + u8 list) protobuf" where
  "toy_pb = \<lparr>pb_fields = (\<lambda>d. if d = 0 then [0, 1, 2] else [3]), pb_name = (\<lambda>f. [0x61 + word_of_nat f]), pb_repeated = (\<lambda>f. f = 1),
     pb_type = (\<lambda>f. if f = 1 then CPPTYPE_STRING else if f = 2 then CPPTYPE_MESSAGE else CPPTYPE_INT32), pb_message_type = (\<lambda>f. 1),
     pb_has = (\<lambda>f m. m = 1 \<and> f < 3), pb_size = (\<lambda>f m. 2), pb_get = (\<lambda>f m. PB_int32 7), pb_get_item = (\<lambda>f i m. PB_string [0x41 + word_of_nat i]),
     pb_sub = (\<lambda>f m. 2), pb_sub_item = (\<lambda>f i m. 2), pb_set = (\<lambda>f v m. m), pb_add = (\<lambda>f v m. m), pb_mutable = (\<lambda>f m. m),
     pb_put = (\<lambda>f s m. m), pb_new_item = (\<lambda>f m. m), pb_put_item = (\<lambda>f s m. m), pb_find_type = (\<lambda>n. Some 0), pb_prototype = (\<lambda>d. Some 0),
     pb_new = (\<lambda>m. 0), pb_type_name = (\<lambda>m. []), pb_clear = (\<lambda>m. 0), pb_byte_size = (\<lambda>m. m), pb_serialize = (\<lambda>m. Some []),
     pb_parse = (\<lambda>buf m. (True, 1))\<rparr>"

definition toy_message :: "(int + u8 list) fields" where
  "toy_message = Field [0x61] (Scalar (PB_int32 7)) (Field [0x62] (Scalars [PB_string [0x41], PB_string [0x42]])
     (Field [0x63] (Message (Field [0x64] Absent No_field)) No_field))"

theorem message_to_lua_witness:
  "\<exists>L' b. decode_array toy_lua toy_pb 5 [1, 2] toy_start [5 \<mapsto> 0] = ret (True, L', [5 \<mapsto> 1])
    \<and> vw_stack toy_view L' = [L_table b]
    \<and> fills toy_lua (vw_table toy_view L') (vw_live toy_view L' - vw_live toy_view toy_start) toy_message (\<lambda>_. L_nil) (vw_table toy_view L' b)"
proof -
  have m: "is_message toy_pb 1 (pb_fields toy_pb 0) toy_message"
    by (simp add: toy_pb_def toy_message_def less_Suc_eq numeral_2_eq_2)
  show ?thesis
    using message_to_lua [OF toy_lua_laws, of "[5 \<mapsto> 0]" 5 0 toy_pb 0 "[1, 2]" 1 toy_message toy_start] m
    by (auto simp: toy_pb_def toy_message_def toy_view_def toy_start_def)
qed

end
