(* ===== verification/Calendar.thy ===== *)
theory Calendar imports CLib begin

text \<open>
  The dates of \<^verbatim>\<open>tools/Tools.cpp\<close>: the clock in seconds and milliseconds, and the text of a time. Of the
  C library, \<open>gmtime_r\<close> is defined by the Gregorian calendar, and \<open>strftime\<close> for the conversions the
  program uses, with the flags and widths of the GNU library; the text of any other conversion is a
  parameter. The program adds eight hours to every time it writes (\<open>CONVERT_CST_TIME\<close>).
\<close>

section \<open>The calendar of the C library\<close>

record tm =
  tm_sec :: int
  tm_min :: int
  tm_hour :: int
  tm_mday :: int
  tm_mon :: int
  tm_year :: int
  tm_wday :: int

text \<open>
  Days are counted from the first of March of the year 0, in eras of 400 years with 146097 days;
  1970-01-01 is day 719468. The result is the year, the month from 0 and the day of the month.
\<close>

definition civil_from_days :: "int \<Rightarrow> int \<times> int \<times> int" where
  "civil_from_days days =
     (let z = days + 719468;
          era = z div 146097;
          doe = z mod 146097;
          yoe = (doe - doe div 1460 + doe div 36524 - doe div 146096) div 365;
          doy = doe - (365 * yoe + yoe div 4 - yoe div 100);
          mp = (5 * doy + 2) div 153;
          d = doy - (153 * mp + 2) div 5 + 1;
          m = (if mp < 10 then mp + 2 else mp - 10)
      in (yoe + era * 400 + (if m \<le> 1 then 1 else 0), m, d))"

definition gmtime :: "int \<Rightarrow> tm" where
  "gmtime t =
     (let days = t div 86400; rest = t mod 86400
      in case civil_from_days days of (y, m, d) \<Rightarrow>
        \<lparr>tm_sec = rest mod 60, tm_min = rest div 60 mod 60, tm_hour = rest div 3600,
         tm_mday = d, tm_mon = m, tm_year = y - 1900, tm_wday = (days + 4) mod 7\<rparr>)"

section \<open>Texts of times\<close>

definition pad_number :: "nat \<Rightarrow> int \<Rightarrow> u8 list" where
  "pad_number width n =
     (let s = decimal (nat \<bar>n\<bar>); s = replicate (width - length s) 0x30 @ s in if n < 0 then 0x2D # s else s)"

definition week_days :: "string list" where
  "week_days = [''Sun'', ''Mon'', ''Tue'', ''Wed'', ''Thu'', ''Fri'', ''Sat'']"

definition month_names :: "string list" where
  "month_names = [''Jan'', ''Feb'', ''Mar'', ''Apr'', ''May'', ''Jun'', ''Jul'', ''Aug'', ''Sep'', ''Oct'', ''Nov'', ''Dec'']"

text \<open>One conversion with the width given; numbers are filled up with zeros.\<close>

definition convert :: "(char \<Rightarrow> nat \<Rightarrow> tm \<Rightarrow> u8 list) \<Rightarrow> char \<Rightarrow> nat \<Rightarrow> tm \<Rightarrow> u8 list" where
  "convert other c width t =
     (if c = CHR ''y'' then pad_number (max 2 width) (tm_year t mod 100)
      else if c = CHR ''Y'' then pad_number width (tm_year t + 1900)
      else if c = CHR ''m'' then pad_number (max 2 width) (tm_mon t + 1)
      else if c = CHR ''d'' then pad_number (max 2 width) (tm_mday t)
      else if c = CHR ''H'' then pad_number (max 2 width) (tm_hour t)
      else if c = CHR ''M'' then pad_number (max 2 width) (tm_min t)
      else if c = CHR ''S'' then pad_number (max 2 width) (tm_sec t)
      else if c = CHR ''a'' then bytes_of (week_days ! nat (tm_wday t))
      else if c = CHR ''b'' then bytes_of (month_names ! nat (tm_mon t))
      else other c width t)"

definition format_digit :: "char \<Rightarrow> bool" where
  "format_digit c \<longleftrightarrow> of_char c \<ge> (0x30 :: nat) \<and> of_char c \<le> (0x39 :: nat)"

definition width_of :: "string \<Rightarrow> nat" where
  "width_of ds = foldl (\<lambda>n c. 10 * n + (of_char c - 0x30)) 0 ds"

text \<open>\<open>p\<close> holds the width read so far once a conversion has begun.\<close>

fun strftime_text :: "(char \<Rightarrow> nat \<Rightarrow> tm \<Rightarrow> u8 list) \<Rightarrow> string \<Rightarrow> string option \<Rightarrow> tm \<Rightarrow> u8 list" where
  "strftime_text other [] p t = []"
| "strftime_text other (c # s) None t =
     (if c = CHR ''%'' then strftime_text other s (Some []) t else of_char c # strftime_text other s None t)"
| "strftime_text other (c # s) (Some ds) t =
     (if format_digit c then strftime_text other s (Some (ds @ [c])) t
      else convert other c (width_of ds) t @ strftime_text other s None t)"

text \<open>\<open>strftime\<close> on an array of \<open>len\<close> bytes: a text that does not fit leaves the array undetermined.\<close>

definition strftime :: "(char \<Rightarrow> nat \<Rightarrow> tm \<Rightarrow> u8 list) \<Rightarrow> nat \<Rightarrow> string \<Rightarrow> tm \<Rightarrow> u8 list res" where
  "strftime other len s t = (let r = strftime_text other s None t in if length r < len then Inr r else Inl Undefined)"

section \<open>The functions\<close>

text \<open>The clock is \<open>gettimeofday\<close>: seconds and microseconds.\<close>

definition currentSecond :: "int \<times> int \<Rightarrow> u64" where
  "currentSecond clock = word_of_int (fst clock)"

definition currentMillisecond :: "int \<times> int \<Rightarrow> u64" where
  "currentMillisecond clock = word_of_int (fst clock * 1000 + snd clock div 1000)"

definition default_format :: string where
  "default_format = ''%y/%02m/%02d %02H:%02M:%02S''"

definition cst_time :: "int \<times> int \<Rightarrow> u64 \<Rightarrow> int res" where
  "cst_time clock seconds =
     (let t = sint seconds; t = (if t = 0 then fst clock else t); t = t + 8 * 3600
      in if t \<le> long_max then Inr t else Inl Undefined)"

definition timestamp ::
  "(char \<Rightarrow> nat \<Rightarrow> tm \<Rightarrow> u8 list) \<Rightarrow> int \<times> int \<Rightarrow> nat \<Rightarrow> u64 \<Rightarrow> string option \<Rightarrow> u8 list res" where
  "timestamp other clock len seconds time_format =
     seq (cst_time clock seconds) (\<lambda>t.
     strftime other len (case time_format of None \<Rightarrow> default_format | Some f \<Rightarrow> f) (gmtime t))"

definition timestamp_gmt :: "(char \<Rightarrow> nat \<Rightarrow> tm \<Rightarrow> u8 list) \<Rightarrow> int \<times> int \<Rightarrow> nat \<Rightarrow> u64 \<Rightarrow> u8 list res" where
  "timestamp_gmt other clock len seconds =
     seq (cst_time clock seconds) (\<lambda>t. strftime other len ''%a, %d %b %Y %H:%M:%S GMT'' (gmtime t))"

section \<open>Facts\<close>

lemma gmtime_of_day:
  "tm_hour (gmtime t) * 3600 + tm_min (gmtime t) * 60 + tm_sec (gmtime t) = t mod 86400"
  "0 \<le> tm_hour (gmtime t)" "tm_hour (gmtime t) < 24" "0 \<le> tm_min (gmtime t)" "tm_min (gmtime t) < 60"
  "0 \<le> tm_sec (gmtime t)" "tm_sec (gmtime t) < 60"
proof -
  define r where "r = t mod 86400"
  have r: "0 \<le> r" "r < 86400" by (simp_all add: r_def)
  have f: "tm_hour (gmtime t) = r div 3600" "tm_min (gmtime t) = r div 60 mod 60" "tm_sec (gmtime t) = r mod 60"
    by (simp_all add: gmtime_def r_def Let_def split: prod.split)
  have "r = r div 60 * 60 + r mod 60" "r div 60 = r div 60 div 60 * 60 + r div 60 mod 60" "r div 60 div 60 = r div 3600"
    using zdiv_zmult2_eq [of 60 r 60] by simp_all
  then show "tm_hour (gmtime t) * 3600 + tm_min (gmtime t) * 60 + tm_sec (gmtime t) = t mod 86400"
    unfolding f r_def [symmetric] by linarith
  show "0 \<le> tm_hour (gmtime t)" "tm_hour (gmtime t) < 24" "0 \<le> tm_min (gmtime t)" "tm_min (gmtime t) < 60"
    "0 \<le> tm_sec (gmtime t)" "tm_sec (gmtime t) < 60"
    unfolding f using r by (auto simp: div_less_iff_less_mult intro: pos_imp_zdiv_nonneg_iff [THEN iffD2])
qed

lemma gmtime_epoch: "gmtime 0 = \<lparr>tm_sec = 0, tm_min = 0, tm_hour = 0, tm_mday = 1, tm_mon = 0, tm_year = 70, tm_wday = 4\<rparr>"
  by code_simp

lemma gmtime_2019: "gmtime 1566206664 = \<lparr>tm_sec = 24, tm_min = 24, tm_hour = 9, tm_mday = 19, tm_mon = 7, tm_year = 119, tm_wday = 1\<rparr>"
  by code_simp

end
