(* ===== verification/Logger.thy ===== *)
theory Logger imports Lockfree ToolsFiles Times Calendar begin

text \<open>
  \<^verbatim>\<open>logger/Easylog.h\<close> and \<^verbatim>\<open>logger/Easylog.cpp\<close> as they are built: \<open>HAS_LOG_LAYOUT\<close> is not defined,
  \<open>ENABLE_ASYNC_SEND\<close> is. First the class, with output and clock as a parameter; then the threads, where
  the thread that writes may miss the call that should wake it.
\<close>

section \<open>Levels and colours\<close>

datatype severity = GLOBAL | LEVEL_DEBUG | LEVEL_TRACE | LEVEL_ALARM | LEVEL_ERROR | LEVEL_PANIC | LEVEL_SYSTEM | MAX_LEVEL

fun severity_number :: "severity \<Rightarrow> nat" where
  "severity_number GLOBAL = 0"
| "severity_number LEVEL_DEBUG = 1"
| "severity_number LEVEL_TRACE = 2"
| "severity_number LEVEL_ALARM = 3"
| "severity_number LEVEL_ERROR = 4"
| "severity_number LEVEL_PANIC = 5"
| "severity_number LEVEL_SYSTEM = 6"
| "severity_number MAX_LEVEL = 7"

lemma severity_number_inject: "severity_number a = severity_number b \<Longrightarrow> a = b"
  by (cases a; cases b) simp_all

text \<open>Levels are compared by their numbers, as the values of an \<open>enum\<close>.\<close>

instantiation severity :: linorder
begin

definition less_eq_severity :: "severity \<Rightarrow> severity \<Rightarrow> bool" where
  "less_eq_severity a b \<longleftrightarrow> severity_number a \<le> severity_number b"

definition less_severity :: "severity \<Rightarrow> severity \<Rightarrow> bool" where
  "less_severity a b \<longleftrightarrow> severity_number a < severity_number b"

instance
  by standard (auto simp: less_eq_severity_def less_severity_def intro: severity_number_inject)

end

definition level_string :: "severity \<Rightarrow> string option" where
  "level_string l = (case l of GLOBAL \<Rightarrow> Some ''GLOBAL'' | LEVEL_DEBUG \<Rightarrow> Some ''DEBUG'' | LEVEL_TRACE \<Rightarrow> Some ''TRACE''
     | LEVEL_ALARM \<Rightarrow> Some ''ALARM'' | LEVEL_ERROR \<Rightarrow> Some ''ERROR'' | LEVEL_PANIC \<Rightarrow> Some ''PANIC''
     | LEVEL_SYSTEM \<Rightarrow> Some ''SYSTEM'' | MAX_LEVEL \<Rightarrow> None)"

definition levelshort_string :: "severity \<Rightarrow> string option" where
  "levelshort_string l = (case l of GLOBAL \<Rightarrow> Some ''G'' | LEVEL_DEBUG \<Rightarrow> Some ''D'' | LEVEL_TRACE \<Rightarrow> Some ''T''
     | LEVEL_ALARM \<Rightarrow> Some ''ALM'' | LEVEL_ERROR \<Rightarrow> Some ''ERR'' | LEVEL_PANIC \<Rightarrow> Some ''PANIC''
     | LEVEL_SYSTEM \<Rightarrow> Some ''SYS'' | MAX_LEVEL \<Rightarrow> None)"

text \<open>Colours are the numbers of the \<open>enum\<close>, which the code calculates with.\<close>

definition GREY :: nat where "GREY = 37"
definition CYAN :: nat where "CYAN = 36"
definition LRED :: nat where "LRED = 41"
definition YELLOW :: nat where "YELLOW = 43"
definition LMAGENTA :: nat where "LMAGENTA = 45"
definition LCYAN :: nat where "LCYAN = 46"

section \<open>The class\<close>

record level_node =
  ln_level :: severity
  ln_color :: nat
  ln_to_stdout :: bool
  ln_filename :: "u8 list"
  ln_fullname :: "u8 list"
  ln_fs :: "u8 list option"
  ln_fs_launchtime :: u64

text \<open>A stream is the name of its file, opened for appending. \<open>_levels\<close> is a \<open>std::map\<close>, walked in the order of its keys.\<close>

record log_node =
  lg_levelNode :: severity
  lg_buffer :: "u8 list"

record 'w easylog =
  el_stop :: bool
  el_level :: severity
  el_dest_dir :: "u8 list"
  el_autosplit_day :: bool
  el_autosplit_hour :: bool
  el_levels :: "severity \<rightharpoonup> level_node"
  el_logQueue :: "log_node queue"
  el_out :: 'w

text \<open>The clock \<open>gettimeofday\<close>, the global \<open>sTime\<close>, the other conversions of \<open>strftime\<close>, and output.\<close>

record 'w log_io =
  io_clock :: "'w \<Rightarrow> int \<times> int"
  io_sTime :: "'w \<Rightarrow> time"
  io_conversion :: "char \<Rightarrow> nat \<Rightarrow> tm \<Rightarrow> u8 list"
  io_stdout :: "u8 list \<Rightarrow> 'w \<Rightarrow> 'w"
  io_open :: "u8 list \<Rightarrow> 'w \<Rightarrow> 'w"
  io_write :: "u8 list \<Rightarrow> u8 list \<Rightarrow> 'w \<Rightarrow> 'w"
  io_close :: "u8 list \<Rightarrow> 'w \<Rightarrow> 'w"

definition new_level :: "severity \<Rightarrow> nat \<Rightarrow> level_node" where
  "new_level l c = \<lparr>ln_level = l, ln_color = c, ln_to_stdout = True, ln_filename = [], ln_fullname = [], ln_fs = None, ln_fs_launchtime = 0\<rparr>"

definition initial_levels :: "severity \<rightharpoonup> level_node" where
  "initial_levels = [LEVEL_DEBUG \<mapsto> new_level LEVEL_DEBUG CYAN, LEVEL_TRACE \<mapsto> new_level LEVEL_TRACE GREY,
     LEVEL_ALARM \<mapsto> new_level LEVEL_ALARM YELLOW, LEVEL_ERROR \<mapsto> new_level LEVEL_ERROR LRED,
     LEVEL_PANIC \<mapsto> new_level LEVEL_PANIC LMAGENTA, LEVEL_SYSTEM \<mapsto> new_level LEVEL_SYSTEM LCYAN]"

text \<open>The object as it is made in a build with \<open>DEBUG\<close>.\<close>

definition new_Easylog :: "u8 list \<Rightarrow> 'w \<Rightarrow> 'w easylog" where
  "new_Easylog current_directory w = \<lparr>el_stop = False, el_level = LEVEL_DEBUG, el_dest_dir = current_directory,
     el_autosplit_day = True, el_autosplit_hour = False, el_levels = initial_levels, el_logQueue = new_LockfreeQueue, el_out = w\<rparr>"

text \<open>\<open>_levels[level]\<close> enters an element of zeros when there is none.\<close>

definition level_at :: "severity \<Rightarrow> 'w easylog \<Rightarrow> level_node \<times> 'w easylog" where
  "level_at l e = (case el_levels e l of Some n \<Rightarrow> (n, e)
     | None \<Rightarrow> let n = \<lparr>ln_level = GLOBAL, ln_color = 0, ln_to_stdout = False, ln_filename = [], ln_fullname = [], ln_fs = None,
                 ln_fs_launchtime = 0\<rparr> in (n, e\<lparr>el_levels := (el_levels e)(l \<mapsto> n)\<rparr>))"

definition all_levels :: "severity list" where
  "all_levels = [GLOBAL, LEVEL_DEBUG, LEVEL_TRACE, LEVEL_ALARM, LEVEL_ERROR, LEVEL_PANIC, LEVEL_SYSTEM, MAX_LEVEL]"

text \<open>What the setters share: the loop over the levels that are meant.\<close>

definition update_levels :: "severity \<Rightarrow> (level_node \<Rightarrow> level_node) \<Rightarrow> 'w easylog \<Rightarrow> 'w easylog" where
  "update_levels level f e = e\<lparr>el_levels := (\<lambda>l. case el_levels e l of None \<Rightarrow> None
     | Some n \<Rightarrow> Some (if ln_level n = level \<or> level = GLOBAL then f n else n))\<rparr>"

definition set_color :: "severity \<Rightarrow> nat \<Rightarrow> 'w easylog \<Rightarrow> 'w easylog" where
  "set_color level color = update_levels level (\<lambda>n. n\<lparr>ln_color := color\<rparr>)"

definition set_tostdout :: "severity \<Rightarrow> bool \<Rightarrow> 'w easylog \<Rightarrow> 'w easylog" where
  "set_tostdout level enable = update_levels level (\<lambda>n. n\<lparr>ln_to_stdout := enable\<rparr>)"

definition set_level :: "severity \<Rightarrow> 'w easylog \<Rightarrow> 'w easylog" where
  "set_level level e = e\<lparr>el_level := level\<rparr>"

definition set_autosplit_day :: "bool \<Rightarrow> 'w easylog \<Rightarrow> 'w easylog" where
  "set_autosplit_day value e = e\<lparr>el_autosplit_day := value\<rparr>"

definition set_autosplit_hour :: "bool \<Rightarrow> 'w easylog \<Rightarrow> 'w easylog" where
  "set_autosplit_hour value e = e\<lparr>el_autosplit_hour := value\<rparr>"

definition log_color :: "severity \<Rightarrow> 'w easylog \<Rightarrow> nat \<times> 'w easylog" where
  "log_color l e = (case level_at l e of (n, e) \<Rightarrow> (ln_color n, e))"

definition current_log_filename :: "severity \<Rightarrow> 'w easylog \<Rightarrow> u8 list \<times> 'w easylog" where
  "current_log_filename l e = (case level_at l e of (n, e) \<Rightarrow> (ln_fullname n, e))"

text \<open>\<open>set_destination\<close>; \<open>access\<close> is the system call, with the mode \<open>F_OK\<close>, \<open>X_OK\<close> or \<open>W_OK\<close>.\<close>

definition F_OK :: nat where "F_OK = 0"
definition X_OK :: nat where "X_OK = 1"
definition W_OK :: nat where "W_OK = 2"

definition set_destination ::
  "'s filesystem \<Rightarrow> (u8 list \<Rightarrow> nat \<Rightarrow> 's \<Rightarrow> bool) \<Rightarrow> u8 list \<Rightarrow> 's \<Rightarrow> 'w easylog \<Rightarrow> (bool \<times> 's \<times> 'w easylog) res" where
  "set_destination os access dir st e =
     seq (absoluteDirectory os st dir) (\<lambda>realdir.
     seq (if access realdir F_OK st then Inr (True, st) else createDirectory os realdir st) (\<lambda>(ok, st).
     if ok \<and> access realdir F_OK st \<and> fs_isDir os realdir st \<and> access realdir X_OK st \<and> access realdir W_OK st
     then Inr (True, st, e\<lparr>el_dest_dir := realdir\<rparr>) else Inr (False, st, e)))"

definition full_filename :: "'w log_io \<Rightarrow> u8 list \<Rightarrow> 'w easylog \<Rightarrow> u8 list res" where
  "full_filename io filename e =
     (let fullname = el_dest_dir e @ slash # filename;
          stamp = timestamp (io_conversion io) (io_clock io (el_out e)) 64 0
      in if el_autosplit_hour e then seq (stamp (Some ''.%Y-%02m-%02d.%02H'')) (\<lambda>t. Inr (fullname @ t))
         else if el_autosplit_day e then seq (stamp (Some ''.%Y-%02m-%02d'')) (\<lambda>t. Inr (fullname @ t))
         else Inr fullname)"

text \<open>\<open>openfile\<close> and the functions below on the node at level \<open>l\<close>, which is in the map.\<close>

definition openfile :: "'w log_io \<Rightarrow> severity \<Rightarrow> level_node \<Rightarrow> 'w easylog \<Rightarrow> (level_node \<times> 'w easylog) res" where
  "openfile io l n e =
     (let e = (case ln_fs n of None \<Rightarrow> e | Some f \<Rightarrow> e\<lparr>el_out := io_close io f (el_out e)\<rparr>)
      in seq (full_filename io (ln_filename n) e) (\<lambda>fullname.
         let e = e\<lparr>el_out := io_open io fullname (el_out e)\<rparr>;
             n = n\<lparr>ln_fullname := fullname, ln_fs := Some fullname, ln_fs_launchtime := currentSecond (io_clock io (el_out e))\<rparr>
         in Inr (n, e\<lparr>el_levels := (el_levels e)(l \<mapsto> n)\<rparr>)))"

definition need_split :: "u64 \<Rightarrow> u64 \<Rightarrow> 'w easylog \<Rightarrow> bool" where
  "need_split nowtime launchtime e \<longleftrightarrow>
     el_autosplit_day e \<and> tm_mday (gmtime (sint nowtime)) \<noteq> tm_mday (gmtime (sint launchtime))
   \<or> el_autosplit_hour e \<and> tm_hour (gmtime (sint nowtime)) \<noteq> tm_hour (gmtime (sint launchtime))"

definition autosplit_file :: "'w log_io \<Rightarrow> severity \<Rightarrow> level_node \<Rightarrow> 'w easylog \<Rightarrow> (level_node \<times> 'w easylog) res" where
  "autosplit_file io l n e =
     (if (el_autosplit_day e \<or> el_autosplit_hour e) \<and> need_split (secondPart (io_sTime io (el_out e))) (ln_fs_launchtime n) e
      then openfile io l n e else Inr (n, e))"

definition send_to_stdout :: "'w log_io \<Rightarrow> level_node \<Rightarrow> u8 list \<Rightarrow> 'w easylog \<Rightarrow> 'w easylog res" where
  "send_to_stdout io n s e =
     (if \<not> ln_to_stdout n then Inr e
      else if ln_color n = GREY then Inr (e\<lparr>el_out := io_stdout io s (el_out e)\<rparr>)
      else if s = [] then Inl Undefined
      else
        let bright = LRED \<le> ln_color n;
            head = [0x1B, 0x5B] @ decimal (if bright then ln_color n - 10 else ln_color n) @ bytes_of (if bright then '';1m'' else ''m'');
            out = head @ butlast s @ [0x1B] @ bytes_of ''[0m'' @ [0x0A]
        in Inr (e\<lparr>el_out := io_stdout io out (el_out e)\<rparr>))"

definition send_to_file :: "'w log_io \<Rightarrow> severity \<Rightarrow> level_node \<Rightarrow> u8 list \<Rightarrow> 'w easylog \<Rightarrow> 'w easylog res" where
  "send_to_file io l n s e =
     (if ln_fs n = None then Inr e
      else seq (autosplit_file io l n e) (\<lambda>(n, e).
        case ln_fs n of None \<Rightarrow> Inl Undefined | Some f \<Rightarrow> Inr (e\<lparr>el_out := io_write io f s (el_out e)\<rparr>)))"

text \<open>\<open>set_tofile\<close>: the names first, then a file for each level that has a name and none open.\<close>

fun open_files :: "'w log_io \<Rightarrow> severity list \<Rightarrow> 'w easylog \<Rightarrow> 'w easylog res" where
  "open_files io [] e = Inr e"
| "open_files io (l # ls) e =
     (case el_levels e l of
        None \<Rightarrow> open_files io ls e
      | Some n \<Rightarrow> if ln_filename n \<noteq> [] \<and> ln_fs n = None then seq (openfile io l n e) (\<lambda>(n, e). open_files io ls e)
                  else open_files io ls e)"

definition set_tofile :: "'w log_io \<Rightarrow> severity \<Rightarrow> u8 list \<Rightarrow> 'w easylog \<Rightarrow> 'w easylog res" where
  "set_tofile io level filename e = open_files io all_levels (update_levels level (\<lambda>n. n\<lparr>ln_filename := filename\<rparr>) e)"

section \<open>Messages\<close>

definition pad3 :: "u64 \<Rightarrow> u8 list" where
  "pad3 n = pad_number 3 (uint n)"

text \<open>The constructor: the text a message begins with.\<close>

definition new_EasylogMessage ::
  "'w log_io \<Rightarrow> 'w easylog \<Rightarrow> severity \<Rightarrow> u8 list \<Rightarrow> nat \<Rightarrow> u8 list res" where
  "new_EasylogMessage io e level file line =
     (let t = io_sTime io (el_out e)
      in seq (timestamp (io_conversion io) (io_clock io (el_out e)) 64 (secondPart t) (Some ''[%02H:%02M:%02S'')) (\<lambda>time_buffer.
         Inr (time_buffer @ bytes_of ''|'' @ pad3 (millisecondPart t) @ bytes_of ''] ''
           @ (if level \<noteq> LEVEL_TRACE then bytes_of ''<'' @ (case levelshort_string level of None \<Rightarrow> [] | Some s \<Rightarrow> bytes_of s) @ bytes_of ''> '' else [])
           @ (if level = LEVEL_ERROR \<or> level = LEVEL_PANIC then bytes_of ''('' @ file @ bytes_of '':'' @ decimal line @ bytes_of '') '' else []))))"

text \<open>
  \<open>log_message\<close> of the finished text. The message of an \<open>assert\<close> has the level \<open>LEVEL_PANIC\<close> and ends the
  program once it is in the queue, unless the logger has been stopped before.
\<close>

definition log_message :: "severity \<Rightarrow> u8 list \<Rightarrow> 'w easylog \<Rightarrow> 'w easylog run" where
  "log_message level s e =
     (if \<not> el_stop e \<and> el_level e \<le> level then
        case level_at level e of (n, e) \<Rightarrow>
        bind_run (LockfreeQueue_push_back (el_logQueue e) \<lparr>lg_levelNode = level, lg_buffer = s\<rparr>) (\<lambda>q.
        if level = LEVEL_PANIC then Some (Inl Assert_failed) else ret (e\<lparr>el_logQueue := q\<rparr>))
      else ret e)"

text \<open>\<open>flush\<close>, which the destructor calls.\<close>

definition EasylogMessage_flush :: "severity \<Rightarrow> u8 list \<Rightarrow> 'w easylog \<Rightarrow> 'w easylog run" where
  "EasylogMessage_flush level text e = (if text \<noteq> [] then log_message level (text @ [0x0A]) e else ret e)"

text \<open>One turn of \<open>logProcess\<close>: a message is written, the loop ends, or the thread waits.\<close>

datatype log_turn = Goes_on | Ends | Waits

definition write_node :: "'w log_io \<Rightarrow> log_node \<Rightarrow> 'w easylog \<Rightarrow> 'w easylog res" where
  "write_node io g e =
     (case el_levels e (lg_levelNode g) of
        None \<Rightarrow> Inl Undefined
      | Some n \<Rightarrow>
          seq (send_to_stdout io n (lg_buffer g) e) (\<lambda>e. send_to_file io (lg_levelNode g) n (lg_buffer g) e))"

definition logProcess_turn :: "'w log_io \<Rightarrow> 'w easylog \<Rightarrow> (log_turn \<times> 'w easylog) run" where
  "logProcess_turn io e =
     (if LockfreeQueue_empty (el_logQueue e) then ret (if el_stop e then Ends else Waits, e)
      else bind_run (LockfreeQueue_pop_front (el_logQueue e)) (\<lambda>(g, q).
           bind_run (Some (write_node io g (e\<lparr>el_logQueue := q\<rparr>))) (\<lambda>e. ret (Goes_on, e))))"

section \<open>Facts of the class\<close>

lemma log_message_dropped: "el_stop e \<or> level < el_level e \<Longrightarrow> log_message level s e = ret e"
  by (auto simp: log_message_def less_eq_severity_def less_severity_def)

lemma log_message_queued:
  assumes "\<not> el_stop e" "el_level e \<le> level" "level \<noteq> LEVEL_PANIC" "\<not> lq_locker (el_logQueue e)" "level \<in> dom (el_levels e)"
  shows "log_message level s e = ret (e\<lparr>el_logQueue := (el_logQueue e)\<lparr>lq_list := lq_list (el_logQueue e) @
     [\<lparr>lg_levelNode = level, lg_buffer = s\<rparr>]\<rparr>\<rparr>)"
  using assms by (auto simp: log_message_def level_at_def queue_ops)

text \<open>An \<open>assert\<close> that fails ends the program, as long as the logger has not been stopped.\<close>

lemma assert_aborts:
  assumes "\<not> el_stop e" "el_level e \<le> LEVEL_PANIC" "\<not> lq_locker (el_logQueue e)" "LEVEL_PANIC \<in> dom (el_levels e)"
  shows "log_message LEVEL_PANIC s e = Some (Inl Assert_failed)"
  using assms by (auto simp: log_message_def level_at_def queue_ops)

text \<open>
  Files are named by the date in UTC+8 and split when the date in UTC changes: a file started at
  15:59:59 UTC is kept a second later, though its name would be that of the next day.
\<close>

lemma split_not_at_midnight:
  "\<not> need_split 1566230400 1566230399 (new_Easylog [] ())"
  "timestamp other clock 64 1566230400 (Some ''.%Y-%02m-%02d'') = Inr (bytes_of ''.2019-08-20'')"
  "timestamp other clock 64 1566230399 (Some ''.%Y-%02m-%02d'') = Inr (bytes_of ''.2019-08-19'')"
proof -
  have d: "gmtime 1566259200 = \<lparr>tm_sec = 0, tm_min = 0, tm_hour = 0, tm_mday = 20, tm_mon = 7, tm_year = 119, tm_wday = 2\<rparr>"
    "gmtime 1566259199 = \<lparr>tm_sec = 59, tm_min = 59, tm_hour = 23, tm_mday = 19, tm_mon = 7, tm_year = 119, tm_wday = 1\<rparr>"
    "tm_mday (gmtime 1566230400) = 19" "tm_mday (gmtime 1566230399) = 19" by code_simp+
  show "\<not> need_split 1566230400 1566230399 (new_Easylog [] ())" by (simp add: need_split_def new_Easylog_def d)
  show "timestamp other clock 64 1566230400 (Some ''.%Y-%02m-%02d'') = Inr (bytes_of ''.2019-08-20'')"
    "timestamp other clock 64 1566230399 (Some ''.%Y-%02m-%02d'') = Inr (bytes_of ''.2019-08-19'')"
    by (simp_all add: timestamp_def cst_time_def clib_limits d strftime_def format_digit_def digit_char_def convert_def width_of_def
        pad_number_def bytes_of_def decimal.simps)
qed

section \<open>The threads\<close>

text \<open>
  \<open>log_message\<close>, \<open>stop\<close> and \<open>logProcess\<close> as statements that threads interleave, for messages that pass
  the level and do not end the program. The operations of the queue are single steps, which
  \<open>Lockfree\<close> justifies for one popping thread. \<open>notify_all\<close> wakes the thread only when it waits already;
  the mutex it waits with is held by nobody else, so it does not order anything. \<open>stoppers\<close> are the
  threads that may call \<open>stop\<close>, and \<open>spurious\<close> says whether a wait may end for no reason, as the standard allows.
\<close>

datatype 'm log_pc = Log_top | Log_pop | Log_write 'm | Log_ask | Log_before_wait | Log_waiting | Log_ended

datatype 'm client_pc =
    Client_idle | Client_test 'm | Client_push 'm | Client_notify
  | Stop_set | Stop_notify | Stop_join | Stop_done

record 'm log_world =
  lw_queue :: "'m list"
  lw_stop :: bool
  lw_log :: "'m log_pc"
  lw_client :: "nat \<Rightarrow> 'm client_pc"
  lw_pushed :: "'m list"
  lw_written :: "'m list"

definition log_start :: "'m log_world" where
  "log_start = \<lparr>lw_queue = [], lw_stop = False, lw_log = Log_top, lw_client = (\<lambda>_. Client_idle), lw_pushed = [], lw_written = []\<rparr>"

definition wake :: "'m log_pc \<Rightarrow> 'm log_pc" where
  "wake p = (case p of Log_waiting \<Rightarrow> Log_top | _ \<Rightarrow> p)"

text \<open>The step of the writing thread, \<open>None\<close> when it cannot go on by itself.\<close>

definition log_step :: "'m log_world \<Rightarrow> 'm log_world option" where
  "log_step w =
     (case lw_log w of
        Log_top \<Rightarrow> Some (w\<lparr>lw_log := if lw_queue w = [] then Log_ask else Log_pop\<rparr>)
      | Log_pop \<Rightarrow> (case lw_queue w of [] \<Rightarrow> None | m # ms \<Rightarrow> Some (w\<lparr>lw_queue := ms, lw_log := Log_write m\<rparr>))
      | Log_write m \<Rightarrow> Some (w\<lparr>lw_written := lw_written w @ [m], lw_log := Log_top\<rparr>)
      | Log_ask \<Rightarrow> Some (w\<lparr>lw_log := if lw_stop w then Log_ended else Log_before_wait\<rparr>)
      | Log_before_wait \<Rightarrow> Some (w\<lparr>lw_log := Log_waiting\<rparr>)
      | Log_waiting \<Rightarrow> None
      | Log_ended \<Rightarrow> None)"

definition client_step :: "nat \<Rightarrow> 'm log_world \<Rightarrow> 'm log_world option" where
  "client_step t w =
     (case lw_client w t of
        Client_idle \<Rightarrow> None
      | Client_test m \<Rightarrow> Some (w\<lparr>lw_client := (lw_client w)(t := if lw_stop w then Client_idle else Client_push m)\<rparr>)
      | Client_push m \<Rightarrow> Some (w\<lparr>lw_queue := lw_queue w @ [m], lw_pushed := lw_pushed w @ [m],
          lw_client := (lw_client w)(t := Client_notify)\<rparr>)
      | Client_notify \<Rightarrow> Some (w\<lparr>lw_log := wake (lw_log w), lw_client := (lw_client w)(t := Client_idle)\<rparr>)
      | Stop_set \<Rightarrow> Some (w\<lparr>lw_stop := True, lw_client := (lw_client w)(t := Stop_notify)\<rparr>)
      | Stop_notify \<Rightarrow> Some (w\<lparr>lw_log := wake (lw_log w), lw_client := (lw_client w)(t := Stop_join)\<rparr>)
      | Stop_join \<Rightarrow> (if lw_log w = Log_ended then Some (w\<lparr>lw_client := (lw_client w)(t := Stop_done)\<rparr>) else None)
      | Stop_done \<Rightarrow> None)"

inductive log_world_step :: "bool \<Rightarrow> nat set \<Rightarrow> 'm log_world \<Rightarrow> 'm log_world \<Rightarrow> bool" for spurious stoppers where
  writer: "log_step w = Some w' \<Longrightarrow> log_world_step spurious stoppers w w'"
| client: "client_step t w = Some w' \<Longrightarrow> log_world_step spurious stoppers w w'"
| call_log: "lw_client w t = Client_idle \<Longrightarrow> log_world_step spurious stoppers w (w\<lparr>lw_client := (lw_client w)(t := Client_test m)\<rparr>)"
| call_stop: "lw_client w t = Client_idle \<Longrightarrow> t \<in> stoppers \<Longrightarrow>
    log_world_step spurious stoppers w (w\<lparr>lw_client := (lw_client w)(t := Stop_set)\<rparr>)"
| wake_up: "spurious \<Longrightarrow> log_world_step spurious stoppers w (w\<lparr>lw_log := wake (lw_log w)\<rparr>)"

abbreviation log_runs :: "bool \<Rightarrow> nat set \<Rightarrow> 'm log_world \<Rightarrow> 'm log_world \<Rightarrow> bool" where
  "log_runs spurious stoppers \<equiv> (log_world_step spurious stoppers)\<^sup>*\<^sup>*"

inductive_cases log_stepE: "log_world_step spurious stoppers w w'"

section \<open>No message is lost before the thread ends\<close>

definition in_hand :: "'m log_pc \<Rightarrow> 'm list" where
  "in_hand p = (case p of Log_write m \<Rightarrow> [m] | _ \<Rightarrow> [])"

definition log_ok :: "'m log_world \<Rightarrow> bool" where
  "log_ok w \<longleftrightarrow> lw_written w @ in_hand (lw_log w) @ lw_queue w = lw_pushed w
     \<and> (lw_log w = Log_pop \<longrightarrow> lw_queue w \<noteq> []) \<and> (lw_log w = Log_ended \<longrightarrow> lw_stop w)
     \<and> (\<forall>t. lw_client w t \<in> {Stop_notify, Stop_join, Stop_done} \<longrightarrow> lw_stop w)
     \<and> (\<forall>t. lw_client w t = Stop_done \<longrightarrow> lw_log w = Log_ended)"

lemma in_hand_wake [simp]: "in_hand (wake p) = in_hand p"
  by (cases p) (simp_all add: wake_def in_hand_def)

lemma wake_eq [simp]: "wake p = Log_pop \<longleftrightarrow> p = Log_pop" "wake p = Log_ended \<longleftrightarrow> p = Log_ended"
  by (cases p; simp add: wake_def)+

lemma log_okI:
  assumes "lw_written w @ in_hand (lw_log w) @ lw_queue w = lw_pushed w"
    and "lw_log w = Log_pop \<Longrightarrow> lw_queue w \<noteq> []" "lw_log w = Log_ended \<Longrightarrow> lw_stop w"
    and "\<And>t. lw_client w t \<in> {Stop_notify, Stop_join, Stop_done} \<Longrightarrow> lw_stop w"
    and "\<And>t. lw_client w t = Stop_done \<Longrightarrow> lw_log w = Log_ended"
  shows "log_ok w"
  using assms unfolding log_ok_def by blast

lemma log_ok_writer:
  assumes "log_ok w" "log_step w = Some w'"
  shows "log_ok w'"
proof (rule log_okI)
  note w = assms(1) [unfolded log_ok_def]
  show "lw_written w' @ in_hand (lw_log w') @ lw_queue w' = lw_pushed w'"
    "lw_log w' = Log_pop \<Longrightarrow> lw_queue w' \<noteq> []" "lw_log w' = Log_ended \<Longrightarrow> lw_stop w'"
    using assms(2) w by (cases "lw_log w"; auto simp: log_step_def in_hand_def split: list.splits if_splits)+
  have c: "lw_client w' = lw_client w" "lw_stop w' = lw_stop w" "lw_log w \<noteq> Log_ended"
    using assms(2) by (cases "lw_log w"; auto simp: log_step_def split: list.splits if_splits)+
  show "lw_stop w'" if "lw_client w' t \<in> {Stop_notify, Stop_join, Stop_done}" for t using that c w by metis
  show "lw_log w' = Log_ended" if "lw_client w' t = Stop_done" for t using that c w by metis
qed

lemma log_ok_client:
  assumes "log_ok w" "client_step t w = Some w'"
  shows "log_ok w'"
proof (rule log_okI)
  note w = assms(1) [unfolded log_ok_def]
  show "lw_written w' @ in_hand (lw_log w') @ lw_queue w' = lw_pushed w'"
    "lw_log w' = Log_pop \<Longrightarrow> lw_queue w' \<noteq> []" "lw_log w' = Log_ended \<Longrightarrow> lw_stop w'"
    using assms(2) w by (cases "lw_client w t"; auto simp: client_step_def split: if_splits)+
  have o: "lw_client w' u = lw_client w u" if "u \<noteq> t" for u
    using assms(2) that by (cases "lw_client w t") (auto simp: client_step_def split: if_splits)
  have m: "lw_stop w \<Longrightarrow> lw_stop w'" "lw_log w = Log_ended \<Longrightarrow> lw_log w' = Log_ended"
    using assms(2) by (cases "lw_client w t"; auto simp: client_step_def split: if_splits)+
  have n: "lw_client w' t \<in> {Stop_notify, Stop_join, Stop_done} \<Longrightarrow> lw_stop w'"
    "lw_client w' t = Stop_done \<Longrightarrow> lw_log w' = Log_ended"
    using assms(2) w by (cases "lw_client w t"; force simp: client_step_def split: if_splits)+
  show "lw_stop w'" if "lw_client w' u \<in> {Stop_notify, Stop_join, Stop_done}" for u
    using that o [of u] m n w by (cases "u = t") metis+
  show "lw_log w' = Log_ended" if "lw_client w' u = Stop_done" for u
    using that o [of u] m n w by (cases "u = t") metis+
qed

lemma log_ok_step: "log_world_step spurious stoppers w w' \<Longrightarrow> log_ok w \<Longrightarrow> log_ok w'"
proof (induction rule: log_world_step.induct)
  case (call_log w t m)
  then show ?case unfolding log_ok_def by (simp add: all_conj_distrib) metis
next
  case (call_stop w t)
  then show ?case unfolding log_ok_def by simp metis
next
  case (wake_up w)
  then show ?case unfolding log_ok_def by simp
qed (auto intro: log_ok_writer log_ok_client)

lemma log_ok_start: "log_ok log_start"
  by (simp add: log_ok_def log_start_def in_hand_def)


text \<open>Concrete runs are chains of steps.\<close>

lemma log_chain6:
  assumes "log_world_step p S a b" "log_world_step p S b c" "log_world_step p S c d" "log_world_step p S d e"
    "log_world_step p S e f" "log_world_step p S f g"
  shows "log_runs p S a g"
  using assms by (meson converse_rtranclp_into_rtranclp rtranclp.rtrancl_refl)

lemmas log_run_simps = log_step_def client_step_def log_start_def wake_def fun_upd_idem


section \<open>The call that is missed\<close>

text \<open>
  The thread sleeps and nobody is left who would wake it: \<open>stop\<close> has been called, its call of
  \<open>notify_all\<close> is over, and every later message is dropped.
\<close>

definition asleep :: "nat \<Rightarrow> 'm log_world \<Rightarrow> bool" where
  "asleep s w \<longleftrightarrow> lw_log w = Log_waiting \<and> lw_stop w \<and> lw_client w s = Stop_join
     \<and> (\<forall>t. t \<noteq> s \<longrightarrow> lw_client w t = Client_idle \<or> (\<exists>m. lw_client w t = Client_test m))"

lemma asleep_step:
  assumes "log_world_step False {s} w w'" "asleep s w"
  shows "asleep s w'"
  using assms(1)
proof (cases rule: log_world_step.cases)
  case writer
  then show ?thesis using assms(2) by (simp add: log_step_def asleep_def)
next
  case (client t)
  then show ?thesis using assms(2)
    by (cases "lw_client w t"; cases "t = s") (auto simp: client_step_def asleep_def split: if_splits)
qed (use assms(2) in \<open>auto simp: asleep_def\<close>)

text \<open>C38. If the thread finds the queue empty and nobody asking it to stop, and \<open>stop\<close> is called before the
  thread begins to wait, the wake-up is missed: without a spurious wake-up the call of \<open>stop\<close> does not
  return, whatever other threads log, and the program hangs at its end.\<close>

theorem log_stop_hangs:
  "\<exists>w. log_runs False {0} log_start w \<and> {w'. log_runs False {0} w w'} \<subseteq> {w'. lw_client w' 0 = Stop_join}"
proof -
  let ?s = "\<lambda>l b c. log_start\<lparr>lw_stop := b, lw_log := l, lw_client := (\<lambda>_. Client_idle)(0 := c)\<rparr>"
  have r: "log_runs False {0} log_start (?s Log_waiting True Stop_join)"
  proof (rule log_chain6)
    show "log_world_step False {0} log_start (?s Log_ask False Client_idle)" by (rule writer) (simp add: log_run_simps)
    show "log_world_step False {0} (?s Log_ask False Client_idle) (?s Log_before_wait False Client_idle)"
      by (rule writer) (simp add: log_run_simps)
    show "log_world_step False {0} (?s Log_before_wait False Client_idle) (?s Log_before_wait False Stop_set)"
      using call_stop [of "?s Log_before_wait False Client_idle" 0 "{0}" False] by (simp add: log_run_simps)
    show "log_world_step False {0} (?s Log_before_wait False Stop_set) (?s Log_before_wait True Stop_notify)"
      by (rule client [where t = 0]) (simp add: log_run_simps)
    show "log_world_step False {0} (?s Log_before_wait True Stop_notify) (?s Log_before_wait True Stop_join)"
      by (rule client [where t = 0]) (simp add: log_run_simps)
    show "log_world_step False {0} (?s Log_before_wait True Stop_join) (?s Log_waiting True Stop_join)"
      by (rule writer) (simp add: log_run_simps)
  qed
  have "asleep 0 (?s Log_waiting True Stop_join)" by (simp add: asleep_def log_start_def)
  moreover have "asleep 0 w'" if "log_runs False {0} w w'" "asleep 0 w" for w w' :: "'m log_world"
    using that by (induction rule: rtranclp_induct) (auto intro: asleep_step)
  ultimately show ?thesis using r unfolding asleep_def by blast
qed

end
