(* ===== verification/LuaFunctions.thy ===== *)
theory LuaFunctions imports Services Network Base64 ToolsText Logger Messages begin

text \<open>
  \<^verbatim>\<open>lua/luaT_reg_functions.cpp\<close>: the functions a script can call, and the start of a Lua state in
  \<^verbatim>\<open>lua/luaT.cpp\<close>. Such a function finds its arguments on the stack and returns how many results it
  has pushed; arguments that do not fit give no result. Each definition takes the Lua state that
  calls it and the parts of the program it uses. The log output about wrong arguments is left out.
\<close>

section \<open>What the functions share\<close>

record ('l, 'd) lua_script = "('l, 'd) lua_api" +
  lua_touserdata :: "int \<Rightarrow> 'l \<Rightarrow> u64"
  luaL_ref :: "int \<Rightarrow> 'l \<Rightarrow> int \<times> 'l"
  int_of_number :: "'d \<Rightarrow> int option"
  caller_line :: "'l \<Rightarrow> u8 list \<times> int"

definition lua_islightuserdata :: "('l, 'd, 'z) lua_api_scheme \<Rightarrow> int \<Rightarrow> 'l \<Rightarrow> bool" where
  "lua_islightuserdata api i L = (lua_type api i L = LUA_TLIGHTUSERDATA)"

text \<open>The bytes of a string argument; the null pointer is used without a test.\<close>

definition lua_bytes :: "('l, 'd, 'z) lua_api_scheme \<Rightarrow> int \<Rightarrow> 'l \<Rightarrow> (u8 list \<times> 'l) res" where
  "lua_bytes api i L = (case lua_tolstring api i L of (None, L) \<Rightarrow> Inl Undefined | (Some s, L) \<Rightarrow> Inr (s, L))"

definition lua_chars :: "('l, 'd, 'z) lua_api_scheme \<Rightarrow> int \<Rightarrow> 'l \<Rightarrow> (u8 list \<times> 'l) res" where
  "lua_chars api i L = seq (lua_bytes api i L) (\<lambda>(s, L). Inr (C_string s, L))"

text \<open>The service that owns the state, and the message parser of a service, an object of its own.\<close>

record ('m, 'i) parser =
  pa_messages :: "'m message_table"
  pa_importer :: 'i

definition owner_service :: "('l, 'd, 'z) lua_api_scheme \<Rightarrow> 'l \<Rightarrow> 'w host \<Rightarrow> (service \<times> 'l \<times> 'w host) run" where
  "owner_service api L H =
     (case luaT_getOwner api L of (sid, L) \<Rightarrow>
      bind_run (getService sid H) (\<lambda>(service, H).
      bind_run (case service of None \<Rightarrow> Some (Inl Assert_failed) | Some p \<Rightarrow> Some (the_service H p)) (\<lambda>sv.
      ret (sv, L, H))))"

definition messageParser :: "service \<Rightarrow> (nat \<Rightarrow> ('m, 'i) parser option) \<Rightarrow> (nat \<times> ('m, 'i) parser) res" where
  "messageParser sv P =
     (case sv_parser sv of None \<Rightarrow> Inl Undefined
      | Some q \<Rightarrow> (case P q of None \<Rightarrow> Inl Undefined | Some pr \<Rightarrow> Inr (q, pr)))"

section \<open>Texts\<close>

definition cc_json_decode :: "('l, 'd, 'z) lua_api_scheme \<Rightarrow> u8 \<Rightarrow> 'l \<Rightarrow> (int \<times> 'l) run" where
  "cc_json_decode api point L =
     (if lua_gettop api L \<noteq> 1 \<or> \<not> lua_isstring api (- 1) L then ret (0, L)
      else
        bind_run (Some (lua_bytes api (- 1) L)) (\<lambda>(jsonstr, L).
        bind_run (Some (luaT_json_parser_decode (lua.truncate api) point jsonstr L)) (\<lambda>(rc, L). ret (if rc then 1 else 0, L))))"

text \<open>A C string in a block of memory.\<close>

fun text_from :: "cells \<Rightarrow> u8 list res" where
  "text_from [] = Inl Undefined"
| "text_from (None # cs) = Inl Undefined"
| "text_from (Some b # cs) = (if b = 0 then Inr [] else seq (text_from cs) (\<lambda>t. Inr (b # t)))"

definition cc_json_encode :: "('l, 'd, 'z) lua_api_scheme \<Rightarrow> 'l \<Rightarrow> (int \<times> 'l) run" where
  "cc_json_encode api L =
     (if lua_gettop api L \<noteq> 1 \<or> \<not> lua_istable api (- 1) L then ret (0, L)
      else
        bind_run (luaT_json_parser_encode (lua_reader.truncate api) L (new_ByteBuffer 65535)) (\<lambda>(rc, L, byteBuffer).
        if rc then
          bind_run (Some (text_from (drop (ByteBuffer_rbuffer byteBuffer) (bb_buf byteBuffer)))) (\<lambda>t.
          ret (1, lua_pushstring api t L))
        else ret (1, lua_pushnil api L)))"

definition cc_xml_decode :: "('l, 'd, 'z) lua_api_scheme \<Rightarrow> 'n rapidxml \<Rightarrow> 'l \<Rightarrow> (int \<times> 'l) run" where
  "cc_xml_decode api xml L =
     (if lua_gettop api L \<noteq> 1 \<or> \<not> lua_isstring api (- 1) L then ret (0, L)
      else
        bind_run (Some (lua_chars api (- 1) L)) (\<lambda>(file, L).
        bind_run (luaT_xml_parser_decode (lua.truncate api) xml file L) (\<lambda>(rc, L). ret (if rc then 1 else 0, L))))"

definition cc_xml_encode :: "'l \<Rightarrow> (int \<times> 'l) run" where
  "cc_xml_encode L = ret (0, L)"

definition cc_hash_string :: "('l, 'd, 'z) lua_api_scheme \<Rightarrow> 'l \<Rightarrow> (int \<times> 'l) run" where
  "cc_hash_string api L =
     (if lua_gettop api L \<noteq> 1 \<or> \<not> lua_isstring api (- 1) L then ret (0, L)
      else
        bind_run (Some (lua_bytes api (- 1) L)) (\<lambda>(s, L).
        ret (1, lua_pushinteger api (uint (hashString_n s (length s))) L)))"

definition cc_base64_encode :: "('l, 'd, 'z) lua_api_scheme \<Rightarrow> 'l \<Rightarrow> (int \<times> 'l) run" where
  "cc_base64_encode api L =
     (if lua_gettop api L \<noteq> 1 \<or> \<not> lua_isstring api (- 1) L then ret (0, L)
      else
        bind_run (Some (lua_bytes api (- 1) L)) (\<lambda>(s, L).
        ret (1, lua_pushstring api (base64_encode s) L)))"

text \<open>The result goes through a C string, so it ends at its first NUL.\<close>

definition cc_base64_decode :: "('l, 'd, 'z) lua_api_scheme \<Rightarrow> 'l \<Rightarrow> (int \<times> 'l) run" where
  "cc_base64_decode api L =
     (if lua_gettop api L \<noteq> 1 \<or> \<not> lua_isstring api (- 1) L then ret (0, L)
      else
        bind_run (Some (lua_chars api (- 1) L)) (\<lambda>(encoded_string, L).
        ret (1, lua_pushstring api (base64_decode encoded_string) L)))"

text \<open>\<open>MD5\<close> of openssl is a parameter; the table has the sixteen bytes under 0 to 15.\<close>

definition cc_md5 :: "('l, 'd, 'z) lua_api_scheme \<Rightarrow> (u8 list \<Rightarrow> u8 list) \<Rightarrow> 'l \<Rightarrow> (int \<times> 'l) run" where
  "cc_md5 api md5 L =
     (if lua_gettop api L \<noteq> 1 \<or> \<not> lua_isstring api (- 1) L then ret (0, L)
      else
        bind_run (Some (lua_bytes api (- 1) L)) (\<lambda>(content, L).
        let digest = md5 content
        in ret (1, fold (\<lambda>n L. lua_settable api (- 3) (lua_pushinteger api (uint (digest ! n)) (lua_pushinteger api (int n) L)))
             [0..<16] (lua_newtable api L))))"

section \<open>Numbers and time\<close>

text \<open>The random device and the engine are parameters; a distribution on an empty interval is undefined.\<close>

definition cc_random :: "('l, 'd, 'z) lua_api_scheme \<Rightarrow> ('g \<Rightarrow> s32 \<times> 'g) \<Rightarrow> 'l \<Rightarrow> 'g \<Rightarrow> (int \<times> 'l \<times> 'g) run" where
  "cc_random api randomValue L g = (case randomValue g of (v, g) \<Rightarrow> ret (1, lua_pushinteger api (sint v) L, g))"

definition cc_random_between ::
  "('l, 'd, 'z) lua_api_scheme \<Rightarrow> (int \<Rightarrow> int \<Rightarrow> 'g \<Rightarrow> int \<times> 'g) \<Rightarrow> 'l \<Rightarrow> 'g \<Rightarrow> (int \<times> 'l \<times> 'g) run" where
  "cc_random_between api randomBetween L g =
     (if lua_gettop api L \<noteq> 2 \<or> \<not> lua_isnumber api (- 2) L \<or> \<not> lua_isnumber api (- 1) L then ret (0, L, g)
      else
        let mn = lua_tointeger api (- 2) L; mx = lua_tointeger api (- 1) L
        in if mx < mn then Some (Inl Undefined)
           else case randomBetween mn mx g of (v, g) \<Rightarrow> ret (1, lua_pushinteger api v L, g))"

text \<open>\<open>sTime.now()\<close> sets the global \<open>sTime\<close>, which is returned.\<close>

definition cc_timesec :: "('l, 'd, 'z) lua_api_scheme \<Rightarrow> ('w \<Rightarrow> time) \<Rightarrow> 'w \<Rightarrow> 'l \<Rightarrow> (int \<times> 'l \<times> time) run" where
  "cc_timesec api gettimeofday w L =
     (let sTime = Time_now gettimeofday w
      in ret (1, lua_pushinteger api (sint (secondPart sTime)) L, sTime))"

definition cc_timemsec :: "('l, 'd, 'z) lua_api_scheme \<Rightarrow> ('w \<Rightarrow> time) \<Rightarrow> 'w \<Rightarrow> 'l \<Rightarrow> (int \<times> 'l \<times> time) run" where
  "cc_timemsec api gettimeofday w L =
     (let sTime = Time_now gettimeofday w
      in bind_run (Some (Time_milliseconds sTime)) (\<lambda>ms. ret (1, lua_pushinteger api (sint ms) L, sTime)))"

text \<open>
  \<open>localtime\<close> is a parameter, with the null pointer for a time out of range. With more than one argument
  the time is never set.
\<close>

definition push_tm :: "('l, 'd, 'z) lua_api_scheme \<Rightarrow> tm \<Rightarrow> int \<Rightarrow> 'l \<Rightarrow> 'l" where
  "push_tm api t ts_milliseconds L =
     fold (lua_pushinteger api) [tm_year t + 1900, tm_mon t + 1, tm_mday t, tm_hour t, tm_min t, tm_sec t, ts_milliseconds] L"

definition cc_timespec :: "('l, 'd, 'z) lua_api_scheme \<Rightarrow> int \<times> int \<Rightarrow> (int \<Rightarrow> tm option) \<Rightarrow> 'l \<Rightarrow> (int \<times> 'l) run" where
  "cc_timespec api clock localtime L =
     (let args = lua_gettop api L;
          spec = (\<lambda>seconds ts_milliseconds. case localtime seconds of None \<Rightarrow> Some (Inl Undefined)
                    | Some t \<Rightarrow> ret (7, push_tm api t ts_milliseconds L))
      in if args = 0 then spec (fst clock) (snd clock div 1000)
         else if args = 1 then
           if \<not> lua_isnumber api (- 1) L then ret (0, L)
           else let milliseconds = lua_tointeger api (- 1) L in spec (milliseconds sdiv 1000) (milliseconds smod 1000)
         else Some (Inl Undefined))"

text \<open>With more than two arguments the buffer is pushed without ever being written.\<close>

definition format_of :: "u8 list \<Rightarrow> string" where
  "format_of s = map (\<lambda>c. char_of (unat c)) s"

definition cc_timestamp ::
  "('l, 'd, 'z) lua_api_scheme \<Rightarrow> (char \<Rightarrow> nat \<Rightarrow> tm \<Rightarrow> u8 list) \<Rightarrow> int \<times> int \<Rightarrow> 'l \<Rightarrow> (int \<times> 'l) run" where
  "cc_timestamp api other clock L =
     (let args = lua_gettop api L;
          push = (\<lambda>seconds f L. bind_run (Some (timestamp other clock 64 seconds f)) (\<lambda>buffer. ret (1, lua_pushstring api buffer L)))
      in if args = 0 then push 0 None L
         else if args = 1 then
           if lua_isnumber api (- 1) L then push (word_of_int (lua_tointeger api (- 1) L)) None L
           else if lua_isstring api (- 1) L then bind_run (Some (lua_chars api (- 1) L)) (\<lambda>(f, L). push 0 (Some (format_of f)) L)
           else ret (0, L)
         else if args = 2 then
           if \<not> lua_isnumber api (- 2) L then ret (0, L)
           else if \<not> lua_isstring api (- 1) L then ret (0, L)
           else
             let seconds = word_of_int (lua_tointeger api (- 2) L)
             in bind_run (Some (lua_chars api (- 1) L)) (\<lambda>(f, L). push seconds (Some (format_of f)) L)
         else Some (Inl Undefined))"

definition cc_msleep :: "('l, 'd, 'z) lua_api_scheme \<Rightarrow> (int \<Rightarrow> 'w \<Rightarrow> 'w) \<Rightarrow> 'l \<Rightarrow> 'w \<Rightarrow> (int \<times> 'l \<times> 'w) run" where
  "cc_msleep api sleep_for L w =
     (if lua_gettop api L \<noteq> 1 \<or> \<not> lua_isnumber api (- 1) L then ret (0, L, w)
      else ret (0, L, sleep_for (lua_tointeger api (- 1) L) w))"

section \<open>Logging\<close>

definition lua_log ::
  "'w log_io \<Rightarrow> severity \<Rightarrow> nat \<Rightarrow> u8 list \<Rightarrow> 'w easylog \<Rightarrow> 'w easylog run" where
  "lua_log io level line text e =
     bind_run (Some (new_EasylogMessage io e level (bytes_of ''luaT_reg_functions.cpp'') line)) (\<lambda>prefix.
     EasylogMessage_flush level (prefix @ text) e)"

definition cc_log_plain ::
  "severity \<Rightarrow> ('l, 'd, 'z) lua_api_scheme \<Rightarrow> 'w log_io \<Rightarrow> 'l \<Rightarrow> 'w easylog \<Rightarrow> (int \<times> 'l \<times> 'w easylog) run" where
  "cc_log_plain level api io L e =
     (if lua_gettop api L \<noteq> 1 \<or> \<not> lua_isstring api (- 1) L then ret (0, L, e)
      else case lua_tolstring api (- 1) L of
        (None, L) \<Rightarrow> ret (0, L, e)
      | (Some content, L) \<Rightarrow> bind_run (lua_log io level 0 (bytes_of ''[LUA] '' @ C_string content) e) (\<lambda>e. ret (0, L, e)))"

definition cc_log_debug :: "('l, 'd, 'z) lua_api_scheme \<Rightarrow> 'w log_io \<Rightarrow> 'l \<Rightarrow> 'w easylog \<Rightarrow> (int \<times> 'l \<times> 'w easylog) run" where
  "cc_log_debug = cc_log_plain LEVEL_DEBUG"

definition cc_log_trace :: "('l, 'd, 'z) lua_api_scheme \<Rightarrow> 'w log_io \<Rightarrow> 'l \<Rightarrow> 'w easylog \<Rightarrow> (int \<times> 'l \<times> 'w easylog) run" where
  "cc_log_trace = cc_log_plain LEVEL_TRACE"

definition cc_log_alarm :: "('l, 'd, 'z) lua_api_scheme \<Rightarrow> 'w log_io \<Rightarrow> 'l \<Rightarrow> 'w easylog \<Rightarrow> (int \<times> 'l \<times> 'w easylog) run" where
  "cc_log_alarm = cc_log_plain LEVEL_ALARM"

definition cc_log_error ::
  "('l, 'd, 'z) lua_script_scheme \<Rightarrow> 'w log_io \<Rightarrow> 'l \<Rightarrow> 'w easylog \<Rightarrow> (int \<times> 'l \<times> 'w easylog) run" where
  "cc_log_error api io L e =
     (if lua_gettop api L \<noteq> 1 \<or> \<not> lua_isstring api (- 1) L then ret (0, L, e)
      else case lua_tolstring api (- 1) L of
        (None, L) \<Rightarrow> ret (0, L, e)
      | (Some content, L) \<Rightarrow>
          (case caller_line api L of (source, currentline) \<Rightarrow>
           bind_run (lua_log io LEVEL_ERROR 314
             (bytes_of ''[LUA] ('' @ source @ bytes_of '':'' @ decimal_int currentline @ bytes_of '') '' @ C_string content) e) (\<lambda>e.
           ret (0, L, e))))"

section \<open>Messages\<close>

text \<open>\<open>pb\<close> is the library with what the importer has loaded.\<close>

definition cc_message_encode ::
  "('l, 'd, 'z) lua_api_scheme \<Rightarrow> ('i \<Rightarrow> ('m, 'f, 'D, 'd) protobuf) \<Rightarrow> 'l \<Rightarrow> 'w host \<Rightarrow> (nat \<Rightarrow> ('m, 'i) parser option)
     \<Rightarrow> (int \<times> 'l \<times> 'w host \<times> (nat \<Rightarrow> ('m, 'i) parser option)) run" where
  "cc_message_encode api pb L H P =
     (if lua_gettop api L \<noteq> 2 \<or> \<not> lua_isnumber api (- 2) L \<or> \<not> lua_istable api (- 1) L then ret (0, L, H, P)
      else
        let msgid = word_of_int (lua_tointeger api (- 2) L)
        in bind_run (owner_service api L H) (\<lambda>(sv, L, H).
           bind_run (Some (messageParser sv P)) (\<lambda>(q, pr).
           bind_run (encode_to_string api (pb (pa_importer pr)) msgid L (pa_messages pr)) (\<lambda>(out, L, mp).
           let P = P(q \<mapsto> pr\<lparr>pa_messages := mp\<rparr>)
           in case out of None \<Rightarrow> ret (0, L, H, P) | Some s \<Rightarrow> ret (1, lua_pushstring api s L, H, P)))))"

definition cc_message_decode ::
  "('l, 'd, 'z) lua_api_scheme \<Rightarrow> ('i \<Rightarrow> ('m, 'f, 'D, 'd) protobuf) \<Rightarrow> 'l \<Rightarrow> 'w host \<Rightarrow> (nat \<Rightarrow> ('m, 'i) parser option)
     \<Rightarrow> (int \<times> 'l \<times> 'w host \<times> (nat \<Rightarrow> ('m, 'i) parser option)) run" where
  "cc_message_decode api pb L H P =
     (if lua_gettop api L \<noteq> 2 \<or> \<not> lua_isnumber api (- 2) L \<or> \<not> lua_isstring api (- 1) L then ret (0, L, H, P)
      else
        let msgid = word_of_int (lua_tointeger api (- 2) L)
        in bind_run (Some (lua_chars api (- 1) L)) (\<lambda>(instring, L).
           bind_run (owner_service api L H) (\<lambda>(sv, L, H).
           bind_run (Some (messageParser sv P)) (\<lambda>(q, pr).
           bind_run (decode_string (lua.truncate api) (pb (pa_importer pr)) msgid instring L (pa_messages pr)) (\<lambda>(rc, L, mp).
           ret (if rc then 1 else 0, L, H, P(q \<mapsto> pr\<lparr>pa_messages := mp\<rparr>)))))))"

definition cc_loadmsg ::
  "('l, 'd, 'z) lua_api_scheme \<Rightarrow> 's filesystem \<Rightarrow> 's \<Rightarrow> (u8 list \<Rightarrow> 'i \<Rightarrow> bool \<times> 'i) \<Rightarrow> 'l \<Rightarrow> 'w host \<Rightarrow> (nat \<Rightarrow> ('m, 'i) parser option)
     \<Rightarrow> (int \<times> 'l \<times> 'w host \<times> (nat \<Rightarrow> ('m, 'i) parser option)) run" where
  "cc_loadmsg api os st import_file L H P =
     (if lua_gettop api L \<noteq> 1 \<or> \<not> lua_isstring api (- 1) L then ret (0, L, H, P)
      else
        bind_run (owner_service api L H) (\<lambda>(sv, L, H).
        bind_run (Some (lua_chars api (- 1) L)) (\<lambda>(filename, L).
        bind_run (Some (messageParser sv P)) (\<lambda>(q, pr).
        bind_run (loadmsg os st import_file filename (pa_importer pr)) (\<lambda>(rc, i).
        ret (0, L, H, P(q \<mapsto> pr\<lparr>pa_importer := i\<rparr>)))))))"

definition cc_regmsg ::
  "('l, 'd, 'z) lua_api_scheme \<Rightarrow> ('i \<Rightarrow> ('m, 'f, 'D, 'd) protobuf) \<Rightarrow> 'l \<Rightarrow> 'w host \<Rightarrow> (nat \<Rightarrow> ('m, 'i) parser option)
     \<Rightarrow> (int \<times> 'l \<times> 'w host \<times> (nat \<Rightarrow> ('m, 'i) parser option)) run" where
  "cc_regmsg api pb L H P =
     (if lua_gettop api L \<noteq> 2 \<or> \<not> lua_isnumber api (- 2) L \<or> \<not> lua_isstring api (- 1) L then ret (0, L, H, P)
      else
        bind_run (owner_service api L H) (\<lambda>(sv, L, H).
        let msgid = word_of_int (lua_tointeger api (- 2) L)
        in bind_run (Some (lua_chars api (- 1) L)) (\<lambda>(name, L).
           bind_run (Some (messageParser sv P)) (\<lambda>(q, pr).
           case regmsg (pb (pa_importer pr)) msgid name (pa_messages pr) of (retval, mp) \<Rightarrow>
           ret (0, L, H, P(q \<mapsto> pr\<lparr>pa_messages := mp\<rparr>))))))"

section \<open>Services and the network\<close>

definition cc_newservice ::
  "('l, 'd, 'z) lua_api_scheme \<Rightarrow> ((u32, nat option) umap \<Rightarrow> (u32, nat option) umap) \<Rightarrow> 'w scripting \<Rightarrow> 'l \<Rightarrow> 'w host
     \<Rightarrow> (int \<times> 'l \<times> 'w host) run" where
  "cc_newservice api arrange S L H =
     (if lua_gettop api L \<noteq> 1 \<or> \<not> lua_isstring api (- 1) L then ret (0, L, H)
      else
        bind_run (Some (lua_chars api (- 1) L)) (\<lambda>(entryfile, L).
        bind_run (newservice arrange S entryfile H) (\<lambda>(service, H).
        ret (1, lua_pushboolean api (service \<noteq> None) L, H))))"

text \<open>The service stops, and with it the Lua state that is running this call is closed.\<close>

definition cc_exitservice :: "('l, 'd, 'z) lua_api_scheme \<Rightarrow> 'w scripting \<Rightarrow> 'l \<Rightarrow> 'w host \<Rightarrow> (int \<times> 'l \<times> 'w host) run" where
  "cc_exitservice api S L H =
     (case luaT_getOwner api L of (sid, L) \<Rightarrow>
      bind_run (getService sid H) (\<lambda>(service, H).
      bind_run (Some (check (service \<noteq> None))) (\<lambda>_.
      bind_run (exitservice S sid H) (\<lambda>(_, H). ret (0, L, H)))))"

definition cc_newserver :: "('l, 'd, 'z) lua_api_scheme \<Rightarrow> ('k, 'y) net_kernel_scheme \<Rightarrow> 'l \<Rightarrow> 'k net \<Rightarrow> (int \<times> 'l \<times> 'k net) run" where
  "cc_newserver api K L N =
     (if lua_gettop api L \<noteq> 2 \<or> \<not> lua_isstring api (- 2) L \<or> \<not> lua_isnumber api (- 1) L then ret (0, L, N)
      else
        bind_run (Some (lua_chars api (- 2) L)) (\<lambda>(address, L).
        let port = sint (word_of_int (lua_tointeger api (- 1) L) :: s32)
        in bind_run (newserver K address port N) (\<lambda>(fd, N). ret (1, lua_pushinteger api fd L, N))))"

text \<open>The port is read as a floating point number, whose conversion is undefined out of range.\<close>

definition cc_newclient :: "('l, 'd, 'z) lua_script_scheme \<Rightarrow> ('k, 'y) net_kernel_scheme \<Rightarrow> 'l \<Rightarrow> 'k net \<Rightarrow> (int \<times> 'l \<times> 'k net) run" where
  "cc_newclient api K L N =
     (if lua_gettop api L \<noteq> 2 \<or> \<not> lua_isstring api (- 2) L \<or> \<not> lua_isnumber api (- 1) L then ret (0, L, N)
      else
        bind_run (Some (lua_chars api (- 2) L)) (\<lambda>(address, L).
        case int_of_number api (lua_tonumber api (- 1) L) of
          None \<Rightarrow> Some (Inl Undefined)
        | Some port \<Rightarrow> bind_run (newclient K address port N) (\<lambda>(fd, N). ret (1, lua_pushinteger api fd L, N))))"

definition message_header :: "u32 \<Rightarrow> u64 \<Rightarrow> u16 \<Rightarrow> u16 \<Rightarrow> u8 list" where
  "message_header len entityid msgid flags = to_le len @ to_le entityid @ to_le msgid @ to_le flags"

text \<open>\<open>response(fd, entityid, msgid, o)\<close>; of the number of the message 16 bits are sent.\<close>

definition cc_response ::
  "('l, 'd, 'z) lua_api_scheme \<Rightarrow> ('i \<Rightarrow> ('m, 'f, 'D, 'd) protobuf) \<Rightarrow> ('k, 'y) net_kernel_scheme \<Rightarrow> 'l \<Rightarrow> 'w host
     \<Rightarrow> (nat \<Rightarrow> ('m, 'i) parser option) \<Rightarrow> 'k net \<Rightarrow> (int \<times> 'l \<times> 'w host \<times> (nat \<Rightarrow> ('m, 'i) parser option) \<times> 'k net) run" where
  "cc_response api pb K L H P N =
     (if lua_gettop api L \<noteq> 4 \<or> \<not> lua_isnumber api (- 4) L \<or> \<not> lua_isnumber api (- 3) L \<or> \<not> lua_isnumber api (- 2) L
         \<or> \<not> lua_istable api (- 1) L then ret (0, L, H, P, N)
      else
        let fd = sint (word_of_int (lua_tointeger api (- 4) L) :: s32);
            entityid = word_of_int (lua_tointeger api (- 3) L);
            msgid = word_of_int (lua_tointeger api (- 2) L) :: u32
        in bind_run (owner_service api L H) (\<lambda>(sv, L, H).
           bind_run (Some (messageParser sv P)) (\<lambda>(q, pr).
           bind_run (encode_message api (pb (pa_importer pr)) msgid L (pa_messages pr)) (\<lambda>(message, L, mp).
           let P = P(q \<mapsto> pr\<lparr>pa_messages := mp\<rparr>)
           in case message of
                None \<Rightarrow> ret (0, L, H, P, N)
              | Some m \<Rightarrow>
                  let byteSize = pb_byte_size (pb (pa_importer pr)) m
                  in (case pb_serialize (pb (pa_importer pr)) m of
                        None \<Rightarrow>
                          (case allocate_message (nm_heap N) \<lparr>sm_fd = 0, sm_raw = []\<rparr> of (msg, h) \<Rightarrow>
                           bind_run (Some (release_message h msg)) (\<lambda>h. ret (0, L, H, P, N\<lparr>nm_heap := h\<rparr>)))
                      | Some payload \<Rightarrow>
                          let raw = message_header (word_of_nat (byteSize + sizeof_Socketmessage)) entityid (ucast msgid) 0 @ payload
                          in (case allocate_message (nm_heap N) \<lparr>sm_fd = fd, sm_raw = raw\<rparr> of (msg, h) \<Rightarrow>
                              bind_run (sendMessage K msg (N\<lparr>nm_heap := h\<rparr>)) (\<lambda>(_, N). ret (0, L, H, P, N))))))))"

definition cc_release_message :: "('l, 'd, 'z) lua_script_scheme \<Rightarrow> 'l \<Rightarrow> heap \<Rightarrow> (int \<times> 'l \<times> heap) run" where
  "cc_release_message api L h =
     (if lua_gettop api L \<noteq> 1 \<or> \<not> lua_islightuserdata api (- 1) L then ret (0, L, h)
      else bind_run (Some (release_message h (unat (lua_touserdata api (- 1) L)))) (\<lambda>h. ret (0, L, h)))"

definition cc_closesocket :: "('l, 'd, 'z) lua_api_scheme \<Rightarrow> ('k, 'y) net_kernel_scheme \<Rightarrow> 'l \<Rightarrow> 'k net \<Rightarrow> (int \<times> 'l \<times> 'k net) run" where
  "cc_closesocket api K L N =
     (if lua_gettop api L \<noteq> 1 \<or> \<not> lua_isnumber api (- 1) L then ret (0, L, N)
      else
        let fd = sint (word_of_int (lua_tointeger api (- 1) L) :: s32)
        in bind_run (closeSocket K fd N) (\<lambda>N. ret (0, L, N)))"

text \<open>The milliseconds are read from the place of the function, and neither they nor the reference is used.\<close>

definition cc_newtimer :: "('l, 'd, 'z) lua_script_scheme \<Rightarrow> 'l \<Rightarrow> 'w host \<Rightarrow> (int \<times> 'l \<times> 'w host) run" where
  "cc_newtimer api L H =
     (if lua_gettop api L \<noteq> 2 \<or> \<not> lua_isnumber api (- 2) L \<or> \<not> lua_isfunction api (- 1) L then ret (0, L, H)
      else
        bind_run (owner_service api L H) (\<lambda>(sv, L, H).
        let milliseconds = lua_tointeger api (- 1) L
        in case luaL_ref api LUA_REGISTRYINDEX (lua_pushvalue api (- 1) L) of (r, L) \<Rightarrow> ret (0, L, H)))"

section \<open>Registration\<close>

definition registered_functions :: "(string \<times> string) list" where
  "registered_functions =
     [(''newservice'', ''cc_newservice''), (''exitservice'', ''cc_exitservice''),
      (''newserver'', ''cc_newserver''), (''newclient'', ''cc_newclient''), (''response'', ''cc_response''),
      (''release_message'', ''cc_release_message''), (''loadmsg'', ''cc_loadmsg''), (''regmsg'', ''cc_regmsg''),
      (''closesocket'', ''cc_closesocket''),
      (''log_debug'', ''cc_log_debug''), (''log_trace'', ''cc_log_trace''), (''log_alarm'', ''cc_log_alarm''),
      (''log_error'', ''cc_log_error''),
      (''json_decode'', ''cc_json_decode''), (''json_encode'', ''cc_json_encode''),
      (''xml_decode'', ''cc_xml_decode''), (''xml_encode'', ''cc_xml_encode''),
      (''hash_string'', ''cc_hash_string''), (''random'', ''cc_random''), (''random_between'', ''cc_random_between''),
      (''base64_encode'', ''cc_base64_encode''), (''base64_decode'', ''cc_base64_decode''), (''md5'', ''cc_md5''),
      (''timesec'', ''cc_timesec''), (''timemsec'', ''cc_timemsec''), (''timestamp'', ''cc_timestamp''),
      (''timespec'', ''cc_timespec''), (''msleep'', ''cc_msleep''),
      (''message_encode'', ''cc_message_encode''), (''message_decode'', ''cc_message_decode''), (''newtimer'', ''cc_newtimer'')]"

definition luaT_reg_functions :: "('l, 'd, 'z) lua_api_scheme \<Rightarrow> 'l \<Rightarrow> 'l" where
  "luaT_reg_functions api L =
     luaT_endNamespace api (fold (\<lambda>(name, routine). luaT_regFunction api (bytes_of name) routine) registered_functions
       (luaT_beginNamespace api LUA_REGISTER_NAMESPACE L))"

text \<open>A new state, where \<open>open_state\<close> is \<open>luaL_newstate\<close> with \<open>luaL_openlibs\<close>, and \<open>check_stack\<close> asks for slots.\<close>

definition luaT_newstate :: "('l, 'd, 'z) lua_api_scheme \<Rightarrow> (nat \<Rightarrow> 'l \<Rightarrow> 'l) \<Rightarrow> nat \<Rightarrow> 'l \<Rightarrow> 'l" where
  "luaT_newstate api check_stack stackSize open_state =
     luaT_reg_functions api (luaT_regNamespace api LUA_REGISTER_NAMESPACE (check_stack stackSize open_state))"

section \<open>What a response puts on the wire\<close>

lemma message_header_fields:
  fixes entityid :: u64 and msgid flags :: u16
  assumes "unat len = length payload + sizeof_Socketmessage"
  defines "raw \<equiv> message_header len entityid msgid flags @ payload"
  shows "raw_len raw = len" "raw_entityid raw = entityid" "raw_msgid raw = msgid" "raw_flags raw = flags" "raw_payload raw = payload"
    and "length raw = unat len" "message_bytes \<lparr>sm_fd = fd, sm_raw = raw\<rparr> = Inr raw" "frames raw = ([raw], [], True)"
proof -
  have r: "raw = to_le len @ to_le entityid @ to_le msgid @ to_le flags @ payload" by (simp add: raw_def message_header_def)
  show l: "raw_len raw = len" and "raw_entityid raw = entityid" and "raw_msgid raw = msgid" and "raw_flags raw = flags"
    and "raw_payload raw = payload"
    unfolding r raw_len_def raw_entityid_def raw_msgid_def raw_flags_def raw_payload_def by simp_all
  show n: "length raw = unat len" using assms(1) by (simp add: r sizeof_Socketmessage_def)
  then have n4: "4 \<le> length raw" "sizeof_Socketmessage \<le> length raw" using assms(1) by (simp_all add: sizeof_Socketmessage_def)
  show "message_bytes \<lparr>sm_fd = fd, sm_raw = raw\<rparr> = Inr raw" using l n n4 by (simp add: message_bytes_def)
  show "frames raw = ([raw], [], True)"
    using l n n4 by (subst frames.simps) (simp add: frames.simps [of "[]"])
qed

text \<open>
  C17. What a script sends. When a script calls \<open>response(fd, entityid, msgid, o)\<close> with arguments of the right types, its
  service has a parser, and the parser makes of the table a message whose bytes are \<open>payload\<close>, then what is
  handed to \<open>sendMessage\<close> is a new message for \<open>fd\<close> whose bytes any receiver cuts out of the stream as one
  frame, with the entity, the number of the message in 16 bits, no flags, and the payload.
\<close>

theorem response_sends:
  assumes args: "lua_gettop api L = 4" "lua_isnumber api (- 4) L" "lua_isnumber api (- 3) L" "lua_isnumber api (- 2) L" "lua_istable api (- 1) L"
    and owner: "owner_service api L H = ret (sv, L1, H1)" "messageParser sv P = Inr (q, pr)"
    and message: "encode_message api (pb (pa_importer pr)) (word_of_int (lua_tointeger api (- 2) L)) L1 (pa_messages pr) = ret (Some m, L2, mp)"
      "pb_serialize (pb (pa_importer pr)) m = Some payload" "pb_byte_size (pb (pa_importer pr)) m = length payload"
    and small: "length payload + sizeof_Socketmessage < 2 ^ 32"
  shows "\<exists>raw h msg. cc_response api pb K L H P N =
      bind_run (sendMessage K msg (N\<lparr>nm_heap := h\<rparr>)) (\<lambda>(_, N). ret (0, L2, H1, P(q \<mapsto> pr\<lparr>pa_messages := mp\<rparr>), N))
    \<and> deref h msg = Inr \<lparr>sm_fd = sint (word_of_int (lua_tointeger api (- 4) L) :: s32), sm_raw = raw\<rparr>
    \<and> frames raw = ([raw], [], True) \<and> raw_entityid raw = word_of_int (lua_tointeger api (- 3) L)
    \<and> raw_msgid raw = word_of_int (lua_tointeger api (- 2) L) \<and> raw_flags raw = 0 \<and> raw_payload raw = payload"
proof -
  let ?len = "word_of_nat (length payload + sizeof_Socketmessage) :: u32"
  let ?raw = "message_header ?len (word_of_int (lua_tointeger api (- 3) L)) (ucast (word_of_int (lua_tointeger api (- 2) L) :: u32)) 0 @ payload"
  have len: "unat ?len = length payload + sizeof_Socketmessage" by (rule unat_of_nat_small) (use small in simp)
  note fields = message_header_fields [OF len, where entityid = "word_of_int (lua_tointeger api (- 3) L)"
      and msgid = "ucast (word_of_int (lua_tointeger api (- 2) L) :: u32)" and flags = 0]
  have id: "ucast (word_of_int (lua_tointeger api (- 2) L) :: u32) = (word_of_int (lua_tointeger api (- 2) L) :: u16)"
    by (rule bit_word_eqI) (simp add: bit_simps)
  obtain msg h where h: "allocate_message (nm_heap N) \<lparr>sm_fd = sint (word_of_int (lua_tointeger api (- 4) L) :: s32), sm_raw = ?raw\<rparr> = (msg, h)"
    by (cases "allocate_message (nm_heap N) \<lparr>sm_fd = sint (word_of_int (lua_tointeger api (- 4) L) :: s32), sm_raw = ?raw\<rparr>") simp
  have "deref h msg = Inr \<lparr>sm_fd = sint (word_of_int (lua_tointeger api (- 4) L) :: s32), sm_raw = ?raw\<rparr>"
    using h by (auto simp: allocate_message_def deref_def)
  moreover have "cc_response api pb K L H P N =
      bind_run (sendMessage K msg (N\<lparr>nm_heap := h\<rparr>)) (\<lambda>(_, N). ret (0, L2, H1, P(q \<mapsto> pr\<lparr>pa_messages := mp\<rparr>), N))"
    using args owner message h by (simp add: cc_response_def Let_def)
  ultimately show ?thesis using fields id by (intro exI [of _ ?raw] exI [of _ h] exI [of _ msg]) simp
qed

text \<open>A script whose state belongs to service 0, and a message type without fields.\<close>

definition script_lua :: "(int lval list, int) lua_api" where
  "script_lua = stack_lua\<lparr>get_global := (\<lambda>_ s. L_number 0 # s)\<rparr>"

definition bare_pb :: "(nat, unit, unit, int) protobuf" where
  "bare_pb = \<lparr>pb_fields = (\<lambda>d. []), pb_name = (\<lambda>f. []), pb_repeated = (\<lambda>f. False), pb_type = (\<lambda>f. CPPTYPE_BOOL), pb_message_type = id,
     pb_has = (\<lambda>f m. False), pb_size = (\<lambda>f m. 0), pb_get = (\<lambda>f m. PB_bool True), pb_get_item = (\<lambda>f i m. PB_bool True),
     pb_sub = (\<lambda>f m. m), pb_sub_item = (\<lambda>f i m. m), pb_set = (\<lambda>f v m. m), pb_add = (\<lambda>f v m. m), pb_mutable = (\<lambda>f m. m),
     pb_put = (\<lambda>f s m. m), pb_new_item = (\<lambda>f m. m), pb_put_item = (\<lambda>f s m. m), pb_find_type = (\<lambda>n. Some ()), pb_prototype = (\<lambda>d. Some 0),
     pb_new = (\<lambda>m. 0), pb_type_name = (\<lambda>m. []), pb_clear = (\<lambda>m. 0), pb_byte_size = (\<lambda>m. 0), pb_serialize = (\<lambda>m. Some []),
     pb_parse = (\<lambda>buf m. (True, 0))\<rparr>"

definition script_host :: "unit host" where
  "script_host = set_service 0 ((new_Service 0)\<lparr>sv_parser := Some 0\<rparr>) demo_host"

definition script_parser :: "(nat, unit) parser" where
  "script_parser = \<lparr>pa_messages = [0 \<mapsto> 0], pa_importer = ()\<rparr>"

theorem response_sends_witness:
  "\<forall>K N. \<exists>raw h msg H1 L2 P2. cc_response script_lua (\<lambda>_. bare_pb) K [L_table 0, L_number 0, L_number 9, L_number 3] script_host
        [0 \<mapsto> script_parser] (N :: unit net) =
      bind_run (sendMessage (K :: unit net_kernel) msg (N\<lparr>nm_heap := h\<rparr>)) (\<lambda>(_, N). ret (0, L2, H1, P2, N))
    \<and> frames raw = ([raw], [], True) \<and> raw_payload raw = []"
proof (intro allI)
  fix K :: "unit net_kernel" and N :: "unit net"
  let ?L = "[L_table 0, L_number 0, L_number 9, L_number 3] :: int lval list"
  have o: "owner_service script_lua ?L script_host = ret ((new_Service 0)\<lparr>sv_parser := Some 0\<rparr>, ?L, script_host)"
    by (simp add: owner_service_def luaT_getOwner_def script_lua_def stack_lua_def lua_isnoneornil_def type_at_def type_code_def
        LUA_TNUMBER_def getService_ret script_host_def set_service_def demo_host_def the_service_def Let_def)
  have p: "messageParser ((new_Service 0)\<lparr>sv_parser := Some 0\<rparr>) [0 \<mapsto> script_parser] = Inr (0, script_parser)"
    by (simp add: messageParser_def)
  have t: "lua_istable script_lua (- 1) ?L" "lua_gettop script_lua ?L = 4" "lua_isnumber script_lua (- 4) ?L" "lua_isnumber script_lua (- 3) ?L"
    "lua_isnumber script_lua (- 2) ?L" "lua_tointeger script_lua (- 2) ?L = 0"
    by (simp_all add: lua_istable_def script_lua_def stack_lua_def type_at_def type_code_def numeral_2_eq_2 numeral_3_eq_3)
  have "encode_call script_lua bare_pb (Encode_fields []) ?L 0 = ret (Rc True, ?L, 0)" by (subst encode_call.simps) simp
  then have "encodeDescriptor script_lua bare_pb () ?L 0 = ret (Rc True, ?L, 0)"
    using t(1) unfolding encodeDescriptor_def by (subst encode_call.simps) (simp add: bare_pb_def)
  then have e: "encode_message script_lua bare_pb (word_of_int 0) ?L [0 \<mapsto> 0] = ret (Some 0, ?L, [0 \<mapsto> 0])"
    by (simp add: encode_message_def cleared_message_def FindMessage_def bare_pb_def check_def Let_def)
  show "\<exists>raw h msg H1 L2 P2. cc_response script_lua (\<lambda>_. bare_pb) K ?L script_host [0 \<mapsto> script_parser] N =
      bind_run (sendMessage K msg (N\<lparr>nm_heap := h\<rparr>)) (\<lambda>(_, N). ret (0, L2, H1, P2, N))
    \<and> frames raw = ([raw], [], True) \<and> raw_payload raw = []"
    using response_sends [OF t(2-5,1) o p, of "\<lambda>_. bare_pb" 0 ?L "[0 \<mapsto> 0]" "[]" K N] e t(6)
    by (fastforce simp: script_parser_def bare_pb_def sizeof_Socketmessage_def)
qed

section \<open>What a script sees\<close>

text \<open>
  What the manual says of the further functions used here, for a state whose table of globals is \<open>g\<close>.
\<close>

definition script_laws :: "('l, 'd, 'z) lua_api_scheme \<Rightarrow> ('l, 'd) lua_view \<Rightarrow> nat \<Rightarrow> bool" where
  "script_laws api V g \<longleftrightarrow> lua_laws (lua.truncate api) V
     \<and> (\<forall>a. lua_pushes V (L_function a) (lua_pushcfunction api a)) \<and> lua_pushes V (L_table g) (get_global api (bytes_of ''_G''))
     \<and> (\<forall>L. lua_gettop api L = int (length (vw_stack V L)))
     \<and> (\<forall>L s r. vw_stack V L = L_string s # r \<longrightarrow> lua_isstring api (- 1) L \<and> lua_tolstring api (- 1) L = (Some s, L))
     \<and> (\<forall>L k t s r T N. look V L = (k # L_table t # s, r, T, N) \<longrightarrow> t \<in> N \<longrightarrow>
          look V (lua_rawget api (- 2) L) = (T t k # L_table t # s, r, T, N))
     \<and> (\<forall>L v k t s r T N. look V L = (v # k # L_table t # s, r, T, N) \<longrightarrow> t \<in> N \<longrightarrow> plain_key (lua.truncate api) k \<longrightarrow>
          look V (lua_rawset api (- 3) L) = (L_table t # s, r + 2, T(t := (T t)(k := v)), N))
     \<and> (\<forall>L n s r T N. look V L = (s, r, T, N) \<longrightarrow> n \<le> length s \<longrightarrow> look V (lua_pop api (int n) L) = (drop n s, r + n, T, N))"

lemma script_lawsD:
  assumes "script_laws api V g"
  shows "lua_laws (lua.truncate api) V" "lua_pushes V (L_function a) (lua_pushcfunction api a)"
    "lua_pushes V (L_table g) (get_global api (bytes_of ''_G''))" "lua_gettop api L = int (length (vw_stack V L))"
    and "vw_stack V L = L_string x # s \<Longrightarrow> lua_isstring api (- 1) L" "vw_stack V L = L_string x # s \<Longrightarrow> lua_tolstring api (- 1) L = (Some x, L)"
    and "look V L = (k # L_table t # s, r, T, N) \<Longrightarrow> t \<in> N \<Longrightarrow> look V (lua_rawget api (- 2) L) = (T t k # L_table t # s, r, T, N)"
    and "look V L = (v # k # L_table t # s, r, T, N) \<Longrightarrow> t \<in> N \<Longrightarrow> plain_key (lua.truncate api) k \<Longrightarrow>
          look V (lua_rawset api (- 3) L) = (L_table t # s, r + 2, T(t := (T t)(k := v)), N)"
    and "look V L = (s, r, T, N) \<Longrightarrow> n \<le> length s \<Longrightarrow> look V (lua_pop api (int n) L) = (drop n s, r + n, T, N)"
  by (insert assms; simp only: script_laws_def; elim conjE; iprover)+

lemma look_pushstring:
  assumes "script_laws api V g" "look V L = (s, Suc r, T, N)"
  shows "look V (lua_pushstring api x L) = (L_string (C_string x) # s, r, T, N)"
proof -
  have "lua_pushes V (L_string (C_string x)) (lua_pushlstring api (C_string x))"
    using lua_lawsD(5) [OF script_lawsD(1) [OF assms(1)], of "C_string x"] by (simp add: lua.defs)
  from look_push [OF this assms(2)] show ?thesis by (simp add: lua_pushstring_def)
qed

lemma base64_digits_no_NUL: "set ks \<subseteq> {..<64} \<Longrightarrow> 0 \<notin> (!) base64_chars ` set ks"
proof
  assume ks: "set ks \<subseteq> {..<64}" and "0 \<in> (!) base64_chars ` set ks"
  then obtain k where "k < 64" "base64_chars ! k = 0" by auto
  then have "0 \<in> set base64_chars" using nth_mem [of k base64_chars] length_base64_chars by simp
  then show False using base64_chars_ok(1) [of 0] by (simp add: is_base64_def isalnum_def)
qed

lemma rfc_digits_less: "set (rfc_digits a b c) \<subseteq> {..<64}"
  unfolding unat_split3 [symmetric] using split3_lt_64 unat_less_64 by auto

lemma base64_no_NUL: "0 \<notin> set (base64_encode s)"
proof (induction s rule: base64_rfc.induct)
  case 1
  then show ?case by simp
next
  case (2 a)
  have "set (take 2 (rfc_digits a 0 0)) \<subseteq> {..<64}" using rfc_digits_less [of a 0 0] set_take_subset [of 2] by fastforce
  from base64_digits_no_NUL [OF this] show ?case by (simp add: base64_encode_eq_rfc)
next
  case (3 a b)
  have "set (take 3 (rfc_digits a b 0)) \<subseteq> {..<64}" using rfc_digits_less [of a b 0] set_take_subset [of 3] by fastforce
  from base64_digits_no_NUL [OF this] show ?case by (simp add: base64_encode_eq_rfc)
next
  case (4 a b c bs)
  from base64_digits_no_NUL [OF rfc_digits_less [of a b c]] 4 show ?case
    by (simp only: base64_encode_eq_rfc base64_rfc.simps set_append set_map Un_iff simp_thms)
qed

lemma C_string_id: "0 \<notin> set s \<Longrightarrow> C_string s = s"
  by (auto simp: C_string_def takeWhile_eq_all_conv)

text \<open>
  Base64 for scripts. \<open>base64_encode\<close> gives a script the encoding of any string, and \<open>base64_decode\<close> of that text
  gives back the string up to its first NUL byte, so binary data is cut.
\<close>

theorem lua_base64_cut:
  assumes laws: "script_laws api V g" and L: "look V L = ([L_string s], Suc r, T, N)"
    and L': "look V L' = ([L_string (base64_encode s)], Suc r', T', N')"
  shows "\<exists>L1. cc_base64_encode api L = ret (1, L1) \<and> look V L1 = ([L_string (base64_encode s), L_string s], r, T, N)"
    and "\<exists>L1. cc_base64_decode api L' = ret (1, L1) \<and> look V L1 = ([L_string (C_string s), L_string (base64_encode s)], r', T', N')"
proof -
  have v: "vw_stack V L = [L_string s]" "vw_stack V L' = [L_string (base64_encode s)]" using L L' by (simp_all add: look_def)
  note facts = script_lawsD(4-6) [OF laws]
  have "cc_base64_encode api L = ret (1, lua_pushstring api (base64_encode s) L)"
    using facts(1) [of L] facts(2,3) [OF v(1)] v(1) by (simp add: cc_base64_encode_def lua_bytes_def)
  then show "\<exists>L1. cc_base64_encode api L = ret (1, L1) \<and> look V L1 = ([L_string (base64_encode s), L_string s], r, T, N)"
    using look_pushstring [OF laws L, of "base64_encode s"] C_string_id [OF base64_no_NUL [of s]] by simp
  have "cc_base64_decode api L' = ret (1, lua_pushstring api s L')"
    using facts(1) [of L'] facts(2,3) [OF v(2)] v(2) C_string_id [OF base64_no_NUL [of s]]
    by (simp add: cc_base64_decode_def lua_bytes_def lua_chars_def base64_decode_encode)
  then show "\<exists>L1. cc_base64_decode api L' = ret (1, L1) \<and> look V L1 = ([L_string (C_string s), L_string (base64_encode s)], r', T', N')"
    using look_pushstring [OF laws L', of s] by simp
qed

section \<open>The functions are registered\<close>

definition register_all :: "('l, 'd, 'z) lua_api_scheme \<Rightarrow> (string \<times> string) list \<Rightarrow> ('d lval \<Rightarrow> 'd lval) \<Rightarrow> 'd lval \<Rightarrow> 'd lval" where
  "register_all api fs f = fold (\<lambda>(name, routine) f. f(L_string (C_string (bytes_of name)) := L_function (C_address api routine))) fs f"

lemma plain_string_key: "plain_key lua (L_string x)"
  by (simp add: plain_key_def)

lemma look_registered:
  assumes laws: "script_laws api V g"
  shows "look V L = (L_table t # s, r, T, N) \<Longrightarrow> t \<in> N \<Longrightarrow> 2 \<le> r \<Longrightarrow>
    look V (fold (\<lambda>(name, routine). luaT_regFunction api (bytes_of name) routine) fs L)
      = (L_table t # s, r, T(t := register_all api fs (T t)), N)"
proof (induction fs arbitrary: L T)
  case (Cons f fs)
  obtain name routine where f: "f = (name, routine)" by (cases f)
  obtain q where q: "r = Suc (Suc q)" using Cons.prems(3) by (metis add_2_eq_Suc le_Suc_ex)
  let ?k = "L_string (C_string (bytes_of name))" and ?v = "L_function (C_address api routine)"
  have "look V (lua_pushstring api (bytes_of name) L) = (?k # L_table t # s, Suc q, T, N)"
    by (rule look_pushstring [OF laws]) (use Cons.prems q in simp)
  from look_push [OF script_lawsD(2) [OF laws] this]
  have "look V (lua_pushcfunction api (C_address api routine) (lua_pushstring api (bytes_of name) L)) = (?v # ?k # L_table t # s, q, T, N)" .
  from script_lawsD(8) [OF laws this Cons.prems(2)] plain_key_def
  have "look V (luaT_regFunction api (bytes_of name) routine L) = (L_table t # s, r, T(t := (T t)(?k := ?v)), N)"
    unfolding luaT_regFunction_def by (auto simp: plain_key_def q)
  from Cons.IH [OF this Cons.prems(2,3)] show ?case
    by (simp only: f fold.simps prod.case comp_apply fun_upd_same fun_upd_upd register_all_def)
qed (simp add: register_all_def)

lemma register_all_other:
  "k \<notin> set (map (\<lambda>(n, r). L_string (C_string (bytes_of n))) fs) \<Longrightarrow> register_all api fs f k = f k"
  by (induction fs arbitrary: f) (auto simp: register_all_def)

lemma register_all_gets:
  "distinct (map (\<lambda>(n, r). C_string (bytes_of n)) fs) \<Longrightarrow> (n, r) \<in> set fs \<Longrightarrow>
    register_all api fs f (L_string (C_string (bytes_of n))) = L_function (C_address api r)"
proof (induction fs arbitrary: f)
  case (Cons x fs)
  obtain m q where x: "x = (m, q)" by (cases x)
  have step: "register_all api (x # fs) f = register_all api fs (f(L_string (C_string (bytes_of m)) := L_function (C_address api q)))"
    by (simp add: register_all_def x)
  show ?case
  proof (cases "(n, r) \<in> set fs")
    case True
    then show ?thesis using Cons.IH Cons.prems(1) by (simp add: step)
  next
    case False
    then have nr: "n = m" "r = q" using Cons.prems(2) x by auto
    have "L_string (C_string (bytes_of m)) \<notin> set (map (\<lambda>(n, r). L_string (C_string (bytes_of n))) fs)"
      using Cons.prems(1) x by auto
    from register_all_other [OF this, of api "f(L_string (C_string (bytes_of m)) := L_function (C_address api q))"]
    show ?thesis unfolding step nr by simp
  qed
qed simp

lemma registered_distinct: "distinct (map (\<lambda>(n, r). C_string (bytes_of n)) registered_functions)"
  by code_simp

text \<open>
  C20. The functions a script can call. A new state has under the name \<open>cc\<close> a table of its own in which each of the
  names the program registers is the C function of that name, and nothing else; the stack is empty as
  before, and no other table has changed.
\<close>

theorem newstate_registers:
  assumes laws: "script_laws api V g" and L: "look V (check_stack n L) = (s, r, T, N)" "g \<in> N" "4 \<le> r"
  shows "\<exists>t T'. t \<notin> N \<and> look V (luaT_newstate api check_stack n L) = (s, r, T', insert t N)
    \<and> T' g = (T g)(L_string LUA_REGISTER_NAMESPACE := L_table t)
    \<and> (\<forall>(name, routine) \<in> set registered_functions. T' t (L_string (bytes_of name)) = L_function (C_address api routine))
    \<and> (\<forall>k. k \<notin> (\<lambda>(name, routine). L_string (bytes_of name)) ` set registered_functions \<longrightarrow> T' t k = L_nil)
    \<and> (\<forall>x \<in> N. x \<noteq> g \<longrightarrow> T' x = T x)"
proof -
  obtain q where q: "r = Suc (Suc (Suc (Suc q)))" using L(3) by (intro that [of "r - 4"]) simp
  let ?G = "bytes_of ''_G''" and ?cc = "L_string LUA_REGISTER_NAMESPACE"
  have cc: "C_string LUA_REGISTER_NAMESPACE = LUA_REGISTER_NAMESPACE" by code_simp
  let ?L1 = "lua_pushstring api LUA_REGISTER_NAMESPACE (get_global api ?G (check_stack n L))"
  have "look V (get_global api ?G (check_stack n L)) = (L_table g # s, Suc (Suc (Suc q)), T, N)"
    by (rule look_push [OF script_lawsD(3) [OF laws]]) (simp add: L(1) q)
  from look_pushstring [OF laws this, of LUA_REGISTER_NAMESPACE]
  have 1: "look V ?L1 = (?cc # L_table g # s, Suc (Suc q), T, N)" by (simp add: cc)
  from look_newtable [OF script_lawsD(1) [OF laws] 1] obtain t where t: "t \<notin> N"
    "look V (lua_newtable api ?L1) = (L_table t # ?cc # L_table g # s, Suc q, T(t := (\<lambda>_. L_nil)), insert t N)"
    by (auto simp: lua.defs)
  let ?L2 = "lua_rawset api (- 3) (lua_newtable api ?L1)" and ?T2 = "T(t := (\<lambda>_. L_nil), g := (T g)(?cc := L_table t))"
  have gt: "g \<noteq> t" using t(1) L(2) by blast
  from script_lawsD(8) [OF laws t(2) insertI2 [OF L(2)] plain_string_key] gt
  have "look V ?L2 = (L_table g # s, Suc (Suc (Suc q)), ?T2, insert t N)" by simp
  from script_lawsD(9) [OF laws this, of 1]
  have 3: "look V (luaT_regNamespace api LUA_REGISTER_NAMESPACE (check_stack n L)) = (s, r, ?T2, insert t N)"
    by (simp add: luaT_regNamespace_def q)
  let ?L3 = "luaT_regNamespace api LUA_REGISTER_NAMESPACE (check_stack n L)"
  have "look V (get_global api ?G ?L3) = (L_table g # s, Suc (Suc (Suc q)), ?T2, insert t N)"
    by (rule look_push [OF script_lawsD(3) [OF laws]]) (simp add: 3 q)
  from look_pushstring [OF laws this, of LUA_REGISTER_NAMESPACE]
  have "look V (lua_pushstring api LUA_REGISTER_NAMESPACE (get_global api ?G ?L3)) = (?cc # L_table g # s, Suc (Suc q), ?T2, insert t N)"
    by (simp add: cc)
  from script_lawsD(7) [OF laws this] L(2)
  have "look V (luaT_beginNamespace api LUA_REGISTER_NAMESPACE ?L3) = (L_table t # L_table g # s, Suc (Suc q), ?T2, insert t N)"
    by (simp add: luaT_beginNamespace_def)
  from look_registered [OF laws this, of registered_functions]
  have 4: "look V (fold (\<lambda>(name, routine). luaT_regFunction api (bytes_of name) routine) registered_functions
      (luaT_beginNamespace api LUA_REGISTER_NAMESPACE ?L3))
    = (L_table t # L_table g # s, Suc (Suc q), ?T2(t := register_all api registered_functions (\<lambda>_. L_nil)), insert t N)"
    using gt by simp
  let ?T = "?T2(t := register_all api registered_functions (\<lambda>_. L_nil))"
  from script_lawsD(9) [OF laws 4, of 2]
  have 5: "look V (luaT_newstate api check_stack n L) = (s, r, ?T, insert t N)"
    by (simp add: luaT_newstate_def luaT_reg_functions_def luaT_endNamespace_def q)
  have id: "\<forall>(name, routine) \<in> set registered_functions. C_string (bytes_of name) = bytes_of name" by code_simp
  have "?T t (L_string (bytes_of name)) = L_function (C_address api routine)" if "(name, routine) \<in> set registered_functions" for name routine
    using register_all_gets [OF registered_distinct that, of api "\<lambda>_. L_nil"] bspec [OF id that] by simp
  moreover have "?T t k = L_nil" if k: "k \<notin> (\<lambda>(name, routine). L_string (bytes_of name)) ` set registered_functions" for k
  proof -
    have "k \<notin> set (map (\<lambda>(n, r). L_string (C_string (bytes_of n))) registered_functions)" using k id by fastforce
    from register_all_other [OF this, of api "\<lambda>_. L_nil"] show ?thesis by simp
  qed
  moreover have "?T g = (T g)(?cc := L_table t)" "\<forall>x \<in> N. x \<noteq> g \<longrightarrow> ?T x = T x" using gt t(1) by auto
  ultimately show ?thesis using t(1) 5 by (intro exI [of _ t] exI [of _ ?T]) blast
qed

text \<open>The small Lua with the further functions; the globals are table 0.\<close>

definition toy_api :: "(toy, int + u8 list) lua_api" where
  "toy_api = \<lparr>number_of_int = number_of_int toy_lua, strtod = strtod toy_lua, lua_gettop = lua_gettop toy_lua,
     lua_settop = lua_settop toy_lua, lua_pushnil = lua_pushnil toy_lua, lua_pushboolean = lua_pushboolean toy_lua,
     lua_pushinteger = lua.lua_pushinteger toy_lua, lua_pushnumber = lua_pushnumber toy_lua, lua_pushlstring = lua_pushlstring toy_lua,
     lua_pushcfunction = lua_pushcfunction toy_lua, lua_newtable = lua_newtable toy_lua, lua_settable = lua_settable toy_lua,
     lua_type = (\<lambda>i L. LUA_TNONE), lua_tolstring = (\<lambda>i L. (case toy_stack L of L_string s # r \<Rightarrow> Some s | _ \<Rightarrow> None, L)),
     lua_toboolean = (\<lambda>i L. False), lua_tocfunction = (\<lambda>i L. 0), lua_pushvalue = (\<lambda>i L. L),
     lua_pop = (\<lambda>n L. L\<lparr>toy_stack := drop (nat n) (toy_stack L), toy_room := toy_room L + nat n\<rparr>), lua_next = (\<lambda>i L. (False, L)),
     lua_isnumber = (\<lambda>i L. False), lua_isstring = (\<lambda>i L. case toy_stack L of L_string s # r \<Rightarrow> True | _ \<Rightarrow> False),
     lua_isuserdata = (\<lambda>i L. False), lua_tonumber = (\<lambda>i L. Inl 0), lua_tointeger = (\<lambda>i L. 0), lua_pushlightuserdata = (\<lambda>a. toy_push L_nil),
     lua_gettable = (\<lambda>i L. L), lua_rawset = (\<lambda>i L. toy_settable L),
     lua_rawget = (\<lambda>i L. case toy_stack L of k # L_table t # s \<Rightarrow> L\<lparr>toy_stack := toy_table L t k # L_table t # s\<rparr> | _ \<Rightarrow> L),
     lua_rawgeti = (\<lambda>i n L. L), lua_insert = (\<lambda>i L. L), get_global = (\<lambda>x. toy_push (L_table 0)), set_global = (\<lambda>x L. L),
     load_string = (\<lambda>x L. (0, L)), protected_call = (\<lambda>n k h L. ret (0, L)), double_is_integer = (\<lambda>d. False), to_float = id,
     C_address = (\<lambda>x. 5)\<rparr>"

lemma toy_truncate: "lua.truncate toy_api = toy_lua"
  by (simp add: toy_api_def lua.defs toy_lua_def)

lemma toy_script_laws: "script_laws toy_api toy_view 0"
  unfolding script_laws_def toy_truncate
  by (rule conjI [OF toy_lua_laws])
    (auto simp: toy_api_def toy_lua_def lua_pushes_def toy_view_def toy_push_def toy_settable_def look_def plain_key_def)

theorem newstate_registers_witness:
  "\<exists>t T'. t \<noteq> 0 \<and> look toy_view (luaT_newstate toy_api (\<lambda>n L. L) 8192 (toy_start\<lparr>toy_next := 1\<rparr>)) = ([], 10, T', {t, 0})
    \<and> T' t (L_string (bytes_of ''md5'')) = L_function 5 \<and> T' t (L_string (bytes_of ''io'')) = L_nil"
proof -
  have look: "look toy_view (toy_start\<lparr>toy_next := 1\<rparr>) = ([], 10, (\<lambda>_ _. L_nil), {0})"
    by (simp add: look_def toy_view_def toy_start_def lessThan_Suc)
  from newstate_registers [OF toy_script_laws, of "\<lambda>n L. L" 8192 "toy_start\<lparr>toy_next := 1\<rparr>", OF look] obtain t T' where t:
    "t \<notin> {0}" "look toy_view (luaT_newstate toy_api (\<lambda>n L. L) 8192 (toy_start\<lparr>toy_next := 1\<rparr>)) = ([], 10, T', insert t {0})"
    "\<forall>(name, routine) \<in> set registered_functions. T' t (L_string (bytes_of name)) = L_function (C_address toy_api routine)"
    "\<forall>k. k \<notin> (\<lambda>(name, routine). L_string (bytes_of name)) ` set registered_functions \<longrightarrow> T' t k = L_nil" by auto
  have m: "(''md5'', ''cc_md5'') \<in> set registered_functions" by code_simp
  have "bytes_of ''io'' \<notin> (\<lambda>(name, routine). bytes_of name) ` set registered_functions" by code_simp
  then have "L_string (bytes_of ''io'') \<notin> (\<lambda>(name, routine). L_string (bytes_of name)) ` set registered_functions" by force
  with t(4) have "T' t (L_string (bytes_of ''io'')) = L_nil" by blast
  with t(1,2) bspec [OF t(3) m] show ?thesis by (intro exI [of _ t] exI [of _ T']) (simp add: toy_api_def)
qed

lemma lua_base64_cut_toy:
  "\<exists>L1. cc_base64_decode toy_api (toy_start\<lparr>toy_stack := [L_string (base64_encode [1, 0, 2])]\<rparr>) = ret (1, L1)
    \<and> hd (toy_stack L1) = L_string [1]"
  using lua_base64_cut(2) [OF toy_script_laws, of "toy_start\<lparr>toy_stack := [L_string [1, 0, 2]]\<rparr>" "[1, 0, 2]" 9 "\<lambda>_ _. L_nil" "{}"
      "toy_start\<lparr>toy_stack := [L_string (base64_encode [1, 0, 2])]\<rparr>" 9 "\<lambda>_ _. L_nil" "{}"]
  by (auto simp: look_def toy_view_def toy_start_def C_string_def)

end
