(* ===== verification/LuaDump.thy ===== *)
theory LuaDump imports LuaCalls begin

text \<open>
  The functions of \<^verbatim>\<open>lua/luaT.cpp\<close> that print a Lua state. \<open>debug\<close> takes a line of output, and \<open>typename\<close> is
  \<open>lua_typename\<close>. A null pointer is printed as the GNU library does; a stream prints nothing more after one.
\<close>

definition shown :: "u8 list option \<Rightarrow> u8 list" where
  "shown s = (case s of None \<Rightarrow> bytes_of ''(null)'' | Some s \<Rightarrow> s)"

text \<open>\<open>%15s\<close>.\<close>

definition pad15 :: "u8 list \<Rightarrow> u8 list" where
  "pad15 s = replicate (15 - length s) 0x20 @ s"

definition luaT_tracestack ::
  "('l, 'd, 'z) lua_api_scheme \<Rightarrow> (int \<Rightarrow> u8 list) \<Rightarrow> (u8 list \<Rightarrow> 'w \<Rightarrow> 'w) \<Rightarrow> 'l \<Rightarrow> 'w \<Rightarrow> 'l \<times> 'w" where
  "luaT_tracestack api typename debug L w =
     (let args = nat (lua_gettop api L);
          w = debug (bytes_of ''lua tracestack: '' @ decimal args) w
      in fold (\<lambda>i (L, w). case luaT_tostring api (int i) L of (s, L) \<Rightarrow>
           (L, debug (bytes_of ''  ['' @ decimal i @ bytes_of '']  '' @ (case s of None \<Rightarrow> []
                | Some s \<Rightarrow> s @ bytes_of ''('' @ typename (lua_type api (int i) L) @ bytes_of '')'')) w)) [1..<Suc args] (L, w))"

text \<open>
  The loop of \<open>luaT_dumpTable\<close> after its \<open>lua_pushnil\<close>. The key is compared with the name of the namespace even
  when it is not a string, and \<open>lua_tostring\<close> has given the null pointer for it.
\<close>

partial_function (option) dump_entries ::
  "('l, 'd, 'z) lua_api_scheme \<Rightarrow> (u8 list \<Rightarrow> 'w \<Rightarrow> 'w) \<Rightarrow> int \<Rightarrow> u8 list \<Rightarrow> 'l \<Rightarrow> 'w \<Rightarrow> ('l \<times> 'w) run" where
  "dump_entries api debug idx prefix L w =
     (case lua_next api idx L of (found, L) \<Rightarrow>
        if \<not> found then ret (L, w)
        else
          case lua_tolstring api (- 1) (lua_pushvalue api (- 2) L) of (key, L) \<Rightarrow>
          case luaT_tostring api (- 2) L of (v, L) \<Rightarrow>
          let L = lua_pop api 1 L;
              key = map_option C_string key;
              w = debug (prefix @ pad15 (shown key) @ bytes_of '': '' @ shown v) w
          in bind_run
               (if \<not> lua_istable api (- 1) L then ret (L, w)
                else case key of
                  None \<Rightarrow> Some (Inl Undefined)
                | Some key \<Rightarrow>
                    if strcaseeq key LUA_REGISTER_NAMESPACE then
                      bind_run (dump_entries api debug (lua_gettop api L) (take 959 (prefix @ [9, 9])) (lua_pushnil api L)
                          (debug (pad15 prefix @ bytes_of ''{'') w)) (\<lambda>(L, w).
                      ret (L, debug (pad15 prefix @ bytes_of ''}'') w))
                    else ret (L, w))
               (\<lambda>(L, w). dump_entries api debug idx prefix (lua_pop api 1 L) w))"

definition luaT_dumpTable ::
  "('l, 'd, 'z) lua_api_scheme \<Rightarrow> (u8 list \<Rightarrow> 'w \<Rightarrow> 'w) \<Rightarrow> int \<Rightarrow> u8 list \<Rightarrow> 'l \<Rightarrow> 'w \<Rightarrow> ('l \<times> 'w) run" where
  "luaT_dumpTable api debug idx prefix L w = dump_entries api debug idx prefix (lua_pushnil api L) w"

definition dump_top :: "('l, 'd, 'z) lua_api_scheme \<Rightarrow> (u8 list \<Rightarrow> 'w \<Rightarrow> 'w) \<Rightarrow> string \<Rightarrow> 'l \<Rightarrow> 'w \<Rightarrow> ('l \<times> 'w) run" where
  "dump_top api debug title L w =
     bind_run (luaT_dumpTable api debug (lua_gettop api L) [9] L (debug (bytes_of ''{'') (debug (bytes_of title) w))) (\<lambda>(L, w).
     ret (lua_pop api 1 L, debug (bytes_of ''}'') w))"

definition luaT_dumpRootTable :: "('l, 'd, 'z) lua_api_scheme \<Rightarrow> (u8 list \<Rightarrow> 'w \<Rightarrow> 'w) \<Rightarrow> 'l \<Rightarrow> 'w \<Rightarrow> ('l \<times> 'w) run" where
  "luaT_dumpRootTable api debug L w = dump_top api debug ''dump root table'' (get_global api (bytes_of ''_G'') L) w"

definition luaT_dumpRegistryTable :: "('l, 'd, 'z) lua_api_scheme \<Rightarrow> (u8 list \<Rightarrow> 'w \<Rightarrow> 'w) \<Rightarrow> 'l \<Rightarrow> 'w \<Rightarrow> ('l \<times> 'w) run" where
  "luaT_dumpRegistryTable api debug L w =
     dump_top api debug ''dump registry table'' (lua_pushvalue api LUA_REGISTRYINDEX L) w"

text \<open>A table kept under a key that is neither a string nor a number ends the program.\<close>

lemma dump_entries_crash:
  assumes "lua_next api idx L = (True, L1)" "lua_tolstring api (- 1) (lua_pushvalue api (- 2) L1) = (None, L2)"
    and "luaT_tostring api (- 2) L2 = (v, L3)" "lua_istable api (- 1) (lua_pop api 1 L3)"
  shows "dump_entries api debug idx prefix L w = Some (Inl Undefined)"
  by (subst dump_entries.simps) (simp add: assms Let_def)

end
