(* ===== verification/MainProgram.thy ===== *)
theory MainProgram imports Configs begin

text \<open>
  \<^verbatim>\<open>service/main.cpp\<close>: the signal handler, the main loop and the shutdown. The components it
  drives are a parameter (\<open>program\<close>) with one field for each operation \<open>main\<close> calls; the components
  themselves are the subject of the theories \<open>Scheduler\<close>, \<open>Network\<close> and \<open>Services\<close>; the start-up is in
  \<open>StartUp\<close>.
\<close>

section \<open>Signals\<close>

definition SIGHUP :: int where "SIGHUP = 1"
definition SIGINT :: int where "SIGINT = 2"
definition SIGQUIT :: int where "SIGQUIT = 3"
definition SIGUSR1 :: int where "SIGUSR1 = 10"
definition SIGUSR2 :: int where "SIGUSR2 = 12"
definition SIGTERM :: int where "SIGTERM = 15"
definition SIGWINCH :: int where "SIGWINCH = 28"

definition on_signal :: "config \<Rightarrow> int \<Rightarrow> config" where
  "on_signal c sig =
     (if sig = SIGINT \<or> sig = SIGTERM \<or> sig = SIGQUIT then c\<lparr>cf_halt := True\<rparr>
      else if sig = SIGHUP then c\<lparr>cf_reload := True\<rparr>
      else if sig = SIGUSR1 \<or> sig = SIGUSR2 then c
      else if sig = SIGWINCH then c
      else syshalt c sig)"

section \<open>The loop\<close>

text \<open>\<open>pr_sleep\<close> is the sleep of a millisecond, with the signals that come during it and the round before.\<close>

record 'w program =
  pr_init :: "'w \<Rightarrow> (bool \<times> config \<times> 'w) run"
  pr_pool_init :: "int \<Rightarrow> 'w \<Rightarrow> 'w run"
  pr_network_init :: "'w \<Rightarrow> 'w run"
  pr_manager_init :: "u8 list \<Rightarrow> 'w \<Rightarrow> (bool \<times> 'w) run"
  pr_now :: "'w \<Rightarrow> 'w"
  pr_schedule :: "'w \<Rightarrow> 'w run"
  pr_sleep :: "'w \<Rightarrow> int list \<times> 'w"
  pr_manager_stop :: "'w \<Rightarrow> 'w run"
  pr_network_stop :: "'w \<Rightarrow> 'w run"
  pr_pool_stop :: "'w \<Rightarrow> 'w run"

partial_function (option) main_loop :: "'w program \<Rightarrow> config \<Rightarrow> 'w \<Rightarrow> (config \<times> 'w) run" where
  "main_loop pr c w =
     (if cf_halt c then ret (c, w)
      else bind_run (pr_schedule pr (pr_now pr w)) (\<lambda>w.
           case pr_sleep pr w of (sigs, w) \<Rightarrow> main_loop pr (foldl on_signal c sigs) w))"

definition shutdown :: "'w program \<Rightarrow> config \<Rightarrow> 'w \<Rightarrow> (config \<times> 'w) run" where
  "shutdown pr c w =
     (let c = syshalt c 0
      in bind_run (pr_manager_stop pr w) (\<lambda>w.
         bind_run (pr_network_stop pr w) (\<lambda>w.
         bind_run (pr_pool_stop pr w) (\<lambda>w. ret (c, w)))))"

definition entryfile_key :: "u8 list" where
  "entryfile_key = bytes_of ''tnode.entryfile''"

definition main :: "'w program \<Rightarrow> 'w \<Rightarrow> (int \<times> config \<times> 'w) run" where
  "main pr w =
     bind_run (pr_init pr w) (\<lambda>(ok, c, w).
     if \<not> ok then ret (1, c, w)
     else
       bind_run (pr_pool_init pr (cf_threads c) w) (\<lambda>w.
       bind_run (pr_network_init pr w) (\<lambda>w.
       bind_run (pr_manager_init pr (Registry_get_chars (cf_values c) entryfile_key (bytes_of ''N/A'')) w) (\<lambda>(ok, w).
       bind_run (if ok then main_loop pr c w else ret (c, w)) (\<lambda>(c, w).
       bind_run (shutdown pr c w) (\<lambda>(c, w). ret (0, c, w)))))))"

section \<open>Stopping\<close>

lemma on_signal_halt: "cf_halt c \<Longrightarrow> cf_halt (on_signal c sig)"
  by (simp add: on_signal_def syshalt_def)

lemma signals_halt: "cf_halt c \<Longrightarrow> cf_halt (foldl on_signal c sigs)"
  by (induction sigs arbitrary: c) (simp_all add: on_signal_halt)

lemma stop_signal:
  assumes "sig \<in> set sigs" "sig \<in> {SIGINT, SIGTERM, SIGQUIT}"
  shows "cf_halt (foldl on_signal c sigs)"
proof -
  obtain as bs where "sigs = as @ sig # bs" using assms(1) by (meson split_list)
  moreover have "cf_halt (on_signal d sig)" for d using assms(2) by (auto simp: on_signal_def)
  ultimately show ?thesis by (simp add: signals_halt)
qed

text \<open>
  A stop signal that comes within the first \<open>n\<close> rounds ends the loop: \<open>later pr n w\<close> is the world after
  \<open>n\<close> rounds, as far as all of them return, and the signals of the round after them.
\<close>

fun later :: "'w program \<Rightarrow> nat \<Rightarrow> 'w \<Rightarrow> (int list \<times> 'w) run" where
  "later pr 0 w = bind_run (pr_schedule pr (pr_now pr w)) (\<lambda>w. ret (pr_sleep pr w))"
| "later pr (Suc n) w = bind_run (pr_schedule pr (pr_now pr w)) (\<lambda>w. later pr n (snd (pr_sleep pr w)))"

lemma main_loop_stops:
  assumes "later pr n w = ret (sigs, w')" "sig \<in> set sigs" "sig \<in> {SIGINT, SIGTERM, SIGQUIT}"
  shows "\<exists>c' w''. main_loop pr c w = ret (c', w'') \<and> cf_halt c'"
  using assms(1)
proof (induction n arbitrary: c w)
  case 0
  show ?case
  proof (cases "cf_halt c")
    case False
    obtain v where v: "pr_schedule pr (pr_now pr w) = ret v" "pr_sleep pr v = (sigs, w')"
      using 0 by (auto simp: bind_run_def ret_def split: Option.bind_splits sum.splits)
    have h: "cf_halt (foldl on_signal c sigs)" by (rule stop_signal [OF assms(2,3)])
    then have "main_loop pr c w = ret (foldl on_signal c sigs, w')"
      using False v by (subst main_loop.simps) (simp add: main_loop.simps [of pr "foldl on_signal c sigs"])
    then show ?thesis using h by blast
  qed (subst main_loop.simps, simp)
next
  case (Suc n)
  show ?case
  proof (cases "cf_halt c")
    case False
    obtain v where v: "pr_schedule pr (pr_now pr w) = ret v" "later pr n (snd (pr_sleep pr v)) = ret (sigs, w')"
      using Suc.prems by (auto simp: bind_run_def ret_def split: Option.bind_splits sum.splits)
    obtain s u where s: "pr_sleep pr v = (s, u)" by (cases "pr_sleep pr v")
    have "main_loop pr c w = main_loop pr (foldl on_signal c s) u"
      using False v(1) s by (subst main_loop.simps) simp
    then show ?thesis using Suc.IH v(2) s by simp
  qed (subst main_loop.simps, simp)
qed

end
