(* ===== verification/ToolsSystem.thy ===== *)
theory ToolsSystem imports ToolsFiles CLib begin

text \<open>
  The functions of \<^verbatim>\<open>tools/Tools.cpp\<close> around the system: process titles, which write into the memory
  of the command line; limits; the random engine; files; URL encoding and digests. System calls and the
  libraries are parameters.
\<close>

section \<open>Process titles\<close>

text \<open>
  The memory from \<open>argv[0]\<close> on: the arguments with their terminators and behind them the environment. A write
  beyond it is a fault.
\<close>

definition strlen_at :: "u8 list \<Rightarrow> nat \<Rightarrow> nat res" where
  "strlen_at m a = (if 0 \<in> set (drop a m) then Inr (length (takeWhile (\<lambda>c. c \<noteq> 0) (drop a m))) else Inl Undefined)"

definition string_at :: "u8 list \<Rightarrow> nat \<Rightarrow> u8 list res" where
  "string_at m a = seq (strlen_at m a) (\<lambda>n. Inr (take n (drop a m)))"

definition write_at :: "u8 list \<Rightarrow> nat \<Rightarrow> u8 list \<Rightarrow> u8 list res" where
  "write_at m a bs = (if a + length bs \<le> length m then Inr (take a m @ bs @ drop (a + length bs) m) else Inl Undefined)"

fun strings_at :: "u8 list \<Rightarrow> nat list \<Rightarrow> u8 list list res" where
  "strings_at m [] = Inr []"
| "strings_at m (a # as) = seq (string_at m a) (\<lambda>s. seq (strings_at m as) (\<lambda>ss. Inr (s # ss)))"

fun clear_strings :: "u8 list \<Rightarrow> nat list \<Rightarrow> u8 list res" where
  "clear_strings m [] = Inr m"
| "clear_strings m (a # as) = seq (strlen_at m a) (\<lambda>n. seq (write_at m a (replicate n 0)) (\<lambda>m. clear_strings m as))"

text \<open>\<open>saved\<close> is \<open>__argv\<close>.\<close>

definition setProcesstitle :: "nat list \<Rightarrow> u8 list \<Rightarrow> u8 list list \<times> u8 list \<Rightarrow> (u8 list list \<times> u8 list) res" where
  "setProcesstitle argv title = (\<lambda>(saved, m).
     seq (if saved = [] then strings_at m argv else Inr saved) (\<lambda>saved.
     seq (clear_strings m (tl argv)) (\<lambda>m.
     seq (strlen_at m (hd argv)) (\<lambda>n.
     seq (write_at m (hd argv + n) (title @ [0])) (\<lambda>m. Inr (saved, m))))))"

fun copy_strings :: "u8 list \<Rightarrow> nat list \<Rightarrow> u8 list list \<Rightarrow> u8 list res" where
  "copy_strings m as [] = Inr m"
| "copy_strings m [] (s # ss) = Inl Undefined"
| "copy_strings m (a # as) (s # ss) = seq (write_at m a (s @ [0])) (\<lambda>m. copy_strings m as ss)"

definition resetProcesstitle :: "nat list \<Rightarrow> u8 list list \<times> u8 list \<Rightarrow> (u8 list list \<times> u8 list) res" where
  "resetProcesstitle argv = (\<lambda>(saved, m). seq (copy_strings m argv saved) (\<lambda>m. Inr (saved, m)))"

section \<open>Limits\<close>

text \<open>\<open>rl_get\<close> is \<open>getrlimit\<close> with the soft and the hard limit, \<open>rl_set\<close> is \<open>setrlimit\<close>, for one resource.\<close>

record 'w rlimits =
  rl_get :: "'w \<Rightarrow> (u64 \<times> u64) option"
  rl_set :: "u64 \<times> u64 \<Rightarrow> 'w \<Rightarrow> bool \<times> 'w"

definition set_soft_limit :: "'w rlimits \<Rightarrow> u32 \<Rightarrow> 'w \<Rightarrow> bool \<times> 'w" where
  "set_soft_limit os v w = (case rl_get os w of None \<Rightarrow> (False, w) | Some (soft, hard) \<Rightarrow> rl_set os (ucast v, hard) w)"

definition get_soft_limit :: "'w rlimits \<Rightarrow> 'w \<Rightarrow> u32" where
  "get_soft_limit os w = (case rl_get os w of None \<Rightarrow> 0 | Some (soft, hard) \<Rightarrow> ucast soft)"

definition setStackSizeLimit :: "'w rlimits \<Rightarrow> u32 \<Rightarrow> 'w \<Rightarrow> bool \<times> 'w" where
  "setStackSizeLimit stack = set_soft_limit stack"

definition getStackSizeLimit :: "'w rlimits \<Rightarrow> 'w \<Rightarrow> u32" where
  "getStackSizeLimit stack = get_soft_limit stack"

definition setOpenFilesLimit :: "'w rlimits \<Rightarrow> u32 \<Rightarrow> 'w \<Rightarrow> bool \<times> 'w" where
  "setOpenFilesLimit nofile = set_soft_limit nofile"

definition getOpenFilesLimit :: "'w rlimits \<Rightarrow> 'w \<Rightarrow> u32" where
  "getOpenFilesLimit nofile = get_soft_limit nofile"

section \<open>Random numbers\<close>

text \<open>The seed and the engine of a thread; \<open>engine_of\<close> seeds an engine and \<open>draw\<close> is a uniform distribution on an interval.\<close>

record 'g randomness =
  rn_seed :: "32 word"
  rn_engine :: 'g

definition setRandomSeed :: "(32 word \<Rightarrow> 'g) \<Rightarrow> 32 word \<Rightarrow> 'g randomness \<Rightarrow> 32 word \<times> 'g randomness" where
  "setRandomSeed engine_of seed R = (seed, R\<lparr>rn_seed := seed, rn_engine := engine_of seed\<rparr>)"

definition getRandomSeed :: "'g randomness \<Rightarrow> 32 word" where
  "getRandomSeed R = rn_seed R"

definition randomBetween_integer :: "(int \<Rightarrow> int \<Rightarrow> 'g \<Rightarrow> int \<times> 'g) \<Rightarrow> int \<Rightarrow> int \<Rightarrow> 'g randomness \<Rightarrow> (int \<times> 'g randomness) res" where
  "randomBetween_integer draw mn mx R =
     (if mx < mn then Inl Undefined
      else case draw mn mx (rn_engine R) of (v, g) \<Rightarrow> Inr (v, R\<lparr>rn_engine := g\<rparr>))"

section \<open>Files\<close>

text \<open>\<open>stat\<close> gives the kind of a file, whether it is a directory, and its size; \<open>access\<close> is the system call.\<close>

definition isDir :: "(u8 list \<Rightarrow> 's \<Rightarrow> (bool \<times> u64) option) \<Rightarrow> u8 list \<Rightarrow> 's \<Rightarrow> bool" where
  "isDir stat file st = (case stat file st of None \<Rightarrow> False | Some (dir, n) \<Rightarrow> dir)"

definition getFileSize :: "(u8 list \<Rightarrow> 's \<Rightarrow> (bool \<times> u64) option) \<Rightarrow> u8 list \<Rightarrow> 's \<Rightarrow> u64" where
  "getFileSize stat file st = (case stat file st of None \<Rightarrow> 0 | Some (dir, n) \<Rightarrow> n)"

text \<open>A file that cannot be opened gives the empty text and is not reported.\<close>

definition loadfile :: "(u8 list \<Rightarrow> 's \<Rightarrow> u8 list option) \<Rightarrow> u8 list \<Rightarrow> 's \<Rightarrow> bool \<times> u8 list" where
  "loadfile contents file st = (True, case contents file st of None \<Rightarrow> [] | Some s \<Rightarrow> s)"

section \<open>URL encoding and digests\<close>

text \<open>\<open>curl_easy_escape\<close> and \<open>curl_easy_unescape\<close> take a length of 0 as that of the C string.\<close>

definition url_encode :: "(u8 list \<Rightarrow> u8 list option) \<Rightarrow> u8 list \<Rightarrow> u8 list \<Rightarrow> bool \<times> u8 list" where
  "url_encode escape url url_encoded =
     (let r = (case escape url of None \<Rightarrow> url_encoded | Some s \<Rightarrow> takeWhile (\<lambda>c. c \<noteq> 0) s) in (r \<noteq> [], r))"

definition url_decode :: "(u8 list \<Rightarrow> u8 list option) \<Rightarrow> u8 list \<Rightarrow> u8 list \<Rightarrow> bool \<times> u8 list" where
  "url_decode unescape url_encoded url =
     (let r = (case unescape url_encoded of None \<Rightarrow> url | Some s \<Rightarrow> s) in (r \<noteq> [], r))"

definition openssl_md5 :: "(u8 list \<Rightarrow> u8 list) \<Rightarrow> u8 list \<Rightarrow> u8 list" where
  "openssl_md5 MD5 plainString = take 16 (MD5 plainString)"

definition openssl_sha256 :: "(u8 list \<Rightarrow> u8 list) \<Rightarrow> u8 list \<Rightarrow> u8 list" where
  "openssl_sha256 SHA256 plainString = take 32 (SHA256 plainString)"

section \<open>A title and its removal\<close>

definition cstr :: "u8 list list \<Rightarrow> u8 list" where
  "cstr ss = concat (map (\<lambda>s. s @ [0]) ss)"

fun places :: "nat \<Rightarrow> u8 list list \<Rightarrow> nat list" where
  "places a [] = []"
| "places a (s # ss) = a # places (a + length s + 1) ss"

lemma cstr_simps [simp]: "cstr [] = []" "cstr (s # ss) = s @ 0 # cstr ss"
  by (simp_all add: cstr_def)

lemma strlen_at_string:
  assumes "0 \<notin> set s" "length p = a"
  shows "strlen_at (p @ s @ 0 # r) a = Inr (length s)"
proof -
  have "takeWhile (\<lambda>c. c \<noteq> 0) s = s" using assms(1) by (auto simp: takeWhile_eq_all_conv)
  with assms(2) show ?thesis by (simp add: strlen_at_def takeWhile_tail)
qed

lemma write_at_string: "length p = a \<Longrightarrow> length bs = length x \<Longrightarrow> write_at (p @ x @ r) a bs = Inr (p @ bs @ r)"
  by (simp add: write_at_def)

lemma clear_strings_args:
  "\<forall>s \<in> set ss. 0 \<notin> set s \<Longrightarrow> length p = a \<Longrightarrow> clear_strings (p @ cstr ss @ env) (places a ss)
    = Inr (p @ replicate (length (cstr ss)) 0 @ env)"
proof (induction ss arbitrary: p a)
  case (Cons s ss)
  have n: "strlen_at (p @ s @ 0 # cstr ss @ env) a = Inr (length s)" by (rule strlen_at_string) (use Cons.prems in auto)
  have w: "write_at (p @ s @ 0 # cstr ss @ env) a (replicate (length s) 0) = Inr (p @ replicate (length s) 0 @ 0 # cstr ss @ env)"
    by (rule write_at_string) (use Cons.prems in auto)
  have "clear_strings ((p @ replicate (length s) 0 @ [0]) @ cstr ss @ env) (places (a + length s + 1) ss)
      = Inr ((p @ replicate (length s) 0 @ [0]) @ replicate (length (cstr ss)) 0 @ env)"
    by (rule Cons.IH) (use Cons.prems in auto)
  with n w show ?case by (simp add: replicate_add replicate_app_Cons_same)
qed simp

lemma strings_at_args:
  "\<forall>s \<in> set ss. 0 \<notin> set s \<Longrightarrow> length p = a \<Longrightarrow> strings_at (p @ cstr ss @ env) (places a ss) = Inr ss"
proof (induction ss arbitrary: p a)
  case (Cons s ss)
  have "strlen_at (p @ s @ 0 # cstr ss @ env) a = Inr (length s)" by (rule strlen_at_string) (use Cons.prems in auto)
  moreover have "strings_at ((p @ s @ [0]) @ cstr ss @ env) (places (a + length s + 1) ss) = Inr ss"
    by (rule Cons.IH) (use Cons.prems in auto)
  ultimately show ?case using Cons.prems by (simp add: string_at_def)
qed simp

lemma copy_strings_args:
  "length x = length (cstr ss) \<Longrightarrow> length p = a \<Longrightarrow> copy_strings (p @ x @ env) (places a ss) ss = Inr (p @ cstr ss @ env)"
proof (induction ss arbitrary: p a x)
  case (Cons s ss)
  let ?n = "length s + 1"
  have x: "x = take ?n x @ drop ?n x" "length (take ?n x) = length (s @ [0])" "length (drop ?n x) = length (cstr ss)"
    using Cons.prems(1) by simp_all
  have "write_at (p @ take ?n x @ drop ?n x @ env) a (s @ [0]) = Inr (p @ (s @ [0]) @ drop ?n x @ env)"
    by (rule write_at_string) (use Cons.prems x in simp_all)
  then have w: "write_at (p @ x @ env) a (s @ [0]) = Inr ((p @ s @ [0]) @ drop ?n x @ env)"
    using x(1) by (metis append.assoc)
  have "copy_strings ((p @ s @ [0]) @ drop ?n x @ env) (places (a + length s + 1) ss) ss = Inr ((p @ s @ [0]) @ cstr ss @ env)"
    by (rule Cons.IH [OF x(3)]) (use Cons.prems in simp)
  with w show ?case by simp
qed simp

text \<open>
  C33. Process titles. A title that fits into the memory of the arguments behind the first is shown
  behind the name of the program, and resetting it restores the arguments; the environment behind
  them is untouched.
\<close>

theorem processtitle_roundtrip:
  assumes "0 \<notin> set prog" "\<forall>s \<in> set args. 0 \<notin> set s" "0 \<notin> set title" "length title \<le> length (cstr args)"
  defines "argv \<equiv> places 0 (prog # args)"
  shows "\<exists>m. setProcesstitle argv title ([], cstr (prog # args) @ env) = Inr (prog # args, m)
    \<and> string_at m 0 = Inr (prog @ title) \<and> drop (length (cstr (prog # args))) m = env
    \<and> resetProcesstitle argv (prog # args, m) = Inr (prog # args, cstr (prog # args) @ env)"
proof -
  let ?k = "length (cstr args)"
  let ?m1 = "prog @ 0 # replicate ?k 0 @ env"
  let ?m = "prog @ title @ 0 # replicate (?k - length title) 0 @ env"
  have s: "strings_at (cstr (prog # args) @ env) argv = Inr (prog # args)"
    using strings_at_args [of "prog # args" "[]" 0 env] assms(1,2) by (simp add: argv_def)
  have c: "clear_strings (cstr (prog # args) @ env) (tl argv) = Inr ?m1"
    using clear_strings_args [of args "prog @ [0]" "length prog + 1" env] assms(2) by (simp add: argv_def)
  have n: "strlen_at ?m1 (hd argv) = Inr (length prog)"
    using strlen_at_string [OF assms(1), of "[]" 0] by (simp add: argv_def)
  have split: "0 # replicate ?k 0 = replicate (length title + 1) 0 @ replicate (?k - length title) (0 :: u8)"
    using assms(4) by (simp flip: replicate_add replicate_Suc)
  have "write_at (prog @ replicate (length title + 1) 0 @ replicate (?k - length title) 0 @ env) (length prog) (title @ [0])
      = Inr (prog @ (title @ [0]) @ replicate (?k - length title) 0 @ env)"
    by (rule write_at_string) simp_all
  then have w: "write_at ?m1 (hd argv + length prog) (title @ [0]) = Inr ?m"
    using split by (simp add: argv_def)
  have "setProcesstitle argv title ([], cstr (prog # args) @ env) = Inr (prog # args, ?m)"
    using s c n w by (simp add: setProcesstitle_def)
  moreover have "string_at ?m 0 = Inr (prog @ title)"
    using strlen_at_string [of "prog @ title" "[]" 0 "replicate (?k - length title) 0 @ env"] assms(1,3) by (simp add: string_at_def)
  moreover have "drop (length (cstr (prog # args))) ?m = env" using assms(4) by (simp add: Suc_diff_le)
  moreover have "resetProcesstitle argv (prog # args, ?m) = Inr (prog # args, cstr (prog # args) @ env)"
    using copy_strings_args [of "prog @ title @ 0 # replicate (?k - length title) 0" "prog # args" "[]" 0 env] assms(4)
    by (simp add: argv_def resetProcesstitle_def)
  ultimately show ?thesis by blast
qed

theorem processtitle_roundtrip_witness:
  "\<exists>m. setProcesstitle [0, 3] [0x20, 0x67] ([], [0x61, 0x62, 0, 0x2D, 0x67, 0, 0x45]) = Inr ([[0x61, 0x62], [0x2D, 0x67]], m)
    \<and> string_at m 0 = Inr [0x61, 0x62, 0x20, 0x67]"
  using processtitle_roundtrip [of "[0x61, 0x62]" "[[0x2D, 0x67]]" "[0x20, 0x67]" "[0x45]"] by (auto simp: numeral_3_eq_3)

text \<open>
  The title of the guard process, six characters, with \<open>-g\<close> as the only argument: resetting it does not
  bring back the beginning of the environment.
\<close>

lemma guard_title_spoils_environment:
  "seq (setProcesstitle [0, 6] (bytes_of '' guard'') ([], cstr [bytes_of ''tnode'', bytes_of ''-g''] @ bytes_of ''HOME=/'' @ [0]))
     (resetProcesstitle [0, 6])
   = Inr ([bytes_of ''tnode'', bytes_of ''-g''],
       cstr [bytes_of ''tnode'', bytes_of ''-g''] @ bytes_of ''rd'' @ [0] @ bytes_of ''E=/'' @ [0])"
  by code_simp

end
