(* ===== verification/StartUp.thy ===== *)
theory StartUp imports MainProgram Logger ToolsSystem begin

text \<open>
  The start-up in \<^verbatim>\<open>service/main.cpp\<close>: the configuration, the settings of the logger and the limits. Its
  many lines of log output are left out; installing the signal handler is the assumption of
  \<open>MainProgram\<close> that signals reach \<open>on_signal\<close>.
\<close>

text \<open>A number as an \<open>EasylogSeverityLevel\<close>; the conversion of another number is undefined.\<close>

definition severity_of :: "int \<Rightarrow> severity res" where
  "severity_of i = (if 0 \<le> i \<and> i < 8 then Inr ([GLOBAL, LEVEL_DEBUG, LEVEL_TRACE, LEVEL_ALARM, LEVEL_ERROR, LEVEL_PANIC, LEVEL_SYSTEM, MAX_LEVEL] ! nat i)
     else Inl Undefined)"

lemma severity_of_number: "severity_of (int (severity_number l)) = Inr l"
  by (cases l) (simp_all add: severity_of_def)

text \<open>The settings of the logger, in order; the result of \<open>set_destination\<close> is not looked at.\<close>

definition configure_log ::
  "'s filesystem \<Rightarrow> (u8 list \<Rightarrow> nat \<Rightarrow> 's \<Rightarrow> bool) \<Rightarrow> 'w log_io \<Rightarrow> u8 list \<Rightarrow> config \<Rightarrow> 's \<Rightarrow> 'w easylog \<Rightarrow> ('s \<times> 'w easylog) res" where
  "configure_log os access io program_name c st e =
     (let vs = cf_values c
      in seq (severity_of (sint (Registry_get_s32 vs (bytes_of ''log.level'') 0))) (\<lambda>level.
         let e = set_level level e;
             e = set_autosplit_day (Registry_get_bool vs (bytes_of ''log.autosplit_day'') True) e;
             e = set_autosplit_hour (Registry_get_bool vs (bytes_of ''log.autosplit_hour'') False) e
         in seq (set_destination os access (Registry_get_chars vs (bytes_of ''log.dir'') (bytes_of ''.logs'')) st e) (\<lambda>(ok, st, e).
            seq (set_tofile io GLOBAL program_name e) (\<lambda>e.
            Inr (st, set_tostdout GLOBAL (\<not> cf_runasdaemon c) e)))))"

definition configure_limits :: "'k rlimits \<Rightarrow> 'k rlimits \<Rightarrow> config \<Rightarrow> 'k \<Rightarrow> 'k" where
  "configure_limits stack nofile c k =
     (let stack_size = Registry_get_u32 (cf_values c) (bytes_of ''limit.stack_size'') 0;
          k = (if 0 < stack_size then snd (setStackSizeLimit stack stack_size k) else k);
          max_files = Registry_get_u32 (cf_values c) (bytes_of ''limit.max_files'') 0
      in if 0 < max_files then snd (setOpenFilesLimit nofile max_files k) else k)"

text \<open>\<open>None\<close> for the configuration is the exit of the guard process.\<close>

definition init_runtime_environment ::
  "'n rapidxml \<Rightarrow> 's filesystem \<Rightarrow> (u8 list \<Rightarrow> nat \<Rightarrow> 's \<Rightarrow> bool) \<Rightarrow> 'w log_io \<Rightarrow> 'k rlimits \<Rightarrow> 'k rlimits \<Rightarrow> 'k processes \<Rightarrow> u8 list
     \<Rightarrow> config \<Rightarrow> (u8 \<times> u8 list) list \<Rightarrow> 's \<Rightarrow> 'w easylog \<Rightarrow> 'k \<Rightarrow> (bool \<times> config option \<times> 's \<times> 'w easylog \<times> 'k) run" where
  "init_runtime_environment api os access io stack nofile ps program_name c opts st e k =
     bind_run (Config_init api os st ps c opts k) (\<lambda>(ok, c, k).
     case c of
       None \<Rightarrow> ret (False, None, st, e, k)
     | Some c \<Rightarrow>
         if \<not> ok then ret (False, Some c, st, e, k)
         else
           bind_run (Some (configure_log os access io program_name c st e)) (\<lambda>(st, e).
           ret (True, Some c, st, e, configure_limits stack nofile c k)))"

section \<open>The settings take effect\<close>

lemma openfile_keeps:
  assumes "openfile io l n e = Inr (n', e')"
  shows "el_level e' = el_level e" "el_autosplit_day e' = el_autosplit_day e" "el_autosplit_hour e' = el_autosplit_hour e" "el_stop e' = el_stop e"
  using assms by (auto simp: openfile_def Let_def seq_eq_Inr_iff split: option.splits)

lemma open_files_keeps:
  "open_files io ls e = Inr e' \<Longrightarrow> el_level e' = el_level e \<and> el_autosplit_day e' = el_autosplit_day e
     \<and> el_autosplit_hour e' = el_autosplit_hour e \<and> el_stop e' = el_stop e"
proof (induction ls arbitrary: e)
  case (Cons l ls)
  show ?case
  proof (cases "el_levels e l")
    case None
    then show ?thesis using Cons by simp
  next
    case (Some n)
    show ?thesis
    proof (cases "ln_filename n \<noteq> [] \<and> ln_fs n = None")
      case True
      then obtain n1 e1 where "openfile io l n e = Inr (n1, e1)" "open_files io ls e1 = Inr e'"
        using Cons.prems Some by (auto simp: seq_eq_Inr_iff)
      then show ?thesis using Cons.IH [of e1] openfile_keeps [of io l n e n1 e1] by simp
    next
      case False
      then show ?thesis using Cons Some by auto
    qed
  qed
qed simp

text \<open>
  The settings of the configuration reach the logger: whatever directory and file names are used, once the
  start-up has configured it, the logger passes the messages from the level on that was set, splits its files as
  was set, and writes to the console unless the program runs as a daemon.
\<close>

lemma configure_log_effect:
  assumes run: "configure_log os access io program_name c st e = Inr (st', e')"
    and level: "sint (Registry_get_s32 (cf_values c) (bytes_of ''log.level'') 0) = int (severity_number l)"
  shows "el_level e' = l \<and> (el_autosplit_day e' \<longleftrightarrow> Registry_get_bool (cf_values c) (bytes_of ''log.autosplit_day'') True)
    \<and> (el_autosplit_hour e' \<longleftrightarrow> Registry_get_bool (cf_values c) (bytes_of ''log.autosplit_hour'') False)
    \<and> (\<forall>n \<in> ran (el_levels e'). ln_to_stdout n \<longleftrightarrow> \<not> cf_runasdaemon c)
    \<and> (el_level e' \<le> k \<and> k \<noteq> LEVEL_PANIC \<and> \<not> el_stop e \<and> \<not> lq_locker (el_logQueue e') \<and> k \<in> dom (el_levels e') \<longrightarrow>
         (\<exists>e''. log_message k s e' = ret e'' \<and> lq_list (el_logQueue e'') = lq_list (el_logQueue e') @ [\<lparr>lg_levelNode = k, lg_buffer = s\<rparr>]))"
proof -
  let ?e = "set_autosplit_hour (Registry_get_bool (cf_values c) (bytes_of ''log.autosplit_hour'') False)
    (set_autosplit_day (Registry_get_bool (cf_values c) (bytes_of ''log.autosplit_day'') True) (set_level l e))"
  obtain ok e1 e2 where d: "set_destination os access (Registry_get_chars (cf_values c) (bytes_of ''log.dir'') (bytes_of ''.logs'')) st ?e = Inr (ok, st', e1)"
    "set_tofile io GLOBAL program_name e1 = Inr e2" "e' = set_tostdout GLOBAL (\<not> cf_runasdaemon c) e2"
    using run unfolding configure_log_def Let_def level severity_of_number by (auto simp: seq_eq_Inr_iff)
  have 1: "el_level e1 = el_level ?e" "el_autosplit_day e1 = el_autosplit_day ?e" "el_autosplit_hour e1 = el_autosplit_hour ?e" "el_stop e1 = el_stop ?e"
    using d(1) by (auto simp: set_destination_def seq_eq_Inr_iff split: if_splits)
  have 2: "el_level e2 = el_level e1" "el_autosplit_day e2 = el_autosplit_day e1" "el_autosplit_hour e2 = el_autosplit_hour e1" "el_stop e2 = el_stop e1"
    using open_files_keeps [OF d(2) [unfolded set_tofile_def]] by (simp_all add: update_levels_def)
  have 3: "el_level e' = el_level e2" "el_autosplit_day e' = el_autosplit_day e2" "el_autosplit_hour e' = el_autosplit_hour e2" "el_stop e' = el_stop e2"
    by (simp_all add: d(3) set_tostdout_def update_levels_def)
  have 4: "el_level ?e = l" "el_autosplit_day ?e = Registry_get_bool (cf_values c) (bytes_of ''log.autosplit_day'') True"
    "el_autosplit_hour ?e = Registry_get_bool (cf_values c) (bytes_of ''log.autosplit_hour'') False" "el_stop ?e = el_stop e"
    by (simp_all add: set_level_def set_autosplit_day_def set_autosplit_hour_def)
  have 5: "\<forall>n \<in> ran (el_levels e'). ln_to_stdout n \<longleftrightarrow> \<not> cf_runasdaemon c"
    by (auto simp: d(3) set_tostdout_def update_levels_def ran_def split: option.splits)
  have 6: "\<exists>e''. log_message k s e' = ret e'' \<and> lq_list (el_logQueue e'') = lq_list (el_logQueue e') @ [\<lparr>lg_levelNode = k, lg_buffer = s\<rparr>]"
    if "el_level e' \<le> k" "k \<noteq> LEVEL_PANIC" "\<not> el_stop e" "\<not> lq_locker (el_logQueue e')" "k \<in> dom (el_levels e')"
  proof -
    have "\<not> el_stop e'" using that(3) 1(4) 2(4) 3(4) 4(4) by simp
    from log_message_queued [OF this that(1,2,4,5)] show ?thesis by simp
  qed
  show ?thesis using 1 2 3 4 5 6 by simp
qed

end
