(* ===== verification/Spec2Isabelle.thy ===== *)
theory Spec2Isabelle
  imports Base64 JsonLimits Network Services LuaTables LuaEscapes ToolsText ToolsFiles ToolsNet Http Xml
    Configs Times MessageTables LuaFunctions LuaDump StartUp
begin

text \<open>
  A verification development for \<^verbatim>\<open>tnode\<close>, a C++ server that runs services written in Lua. The
  sources are in \<^verbatim>\<open>src/src\<close>; the paths below are relative to it. The libraries under \<^verbatim>\<open>src/deps\<close> are
  third-party code and are parameters of the model.

  The program and its parts. \<^verbatim>\<open>service/main.cpp\<close> reads the command line and the configuration
  file (\<^verbatim>\<open>config\<close>, through \<^verbatim>\<open>xml\<close> into a registry of \<^verbatim>\<open>tools\<close>), may fork a guard process, and then turns
  a main loop until a signal stops it. Each turn polls the network (\<^verbatim>\<open>net\<close>): the bytes of a connection
  are gathered in a byte buffer (\<^verbatim>\<open>tools/ByteBuffer\<close>) and cut into messages (\<^verbatim>\<open>message\<close>). A message is
  given to the service manager (\<^verbatim>\<open>service\<close>), which asks the Lua program of the first service which
  service it is for and puts it into a queue of that service (\<^verbatim>\<open>tools/LockfreeQueue\<close>). A service with
  messages is given to a pool of threads (\<^verbatim>\<open>tools/ThreadPool\<close>), whose workers run the service's Lua
  program on each. Lua programs send messages back through the network manager, and use the JSON
  parser (\<^verbatim>\<open>json\<close>, \<^verbatim>\<open>lua/luaT_json_parser.cpp\<close>), the XML and protobuf conversions of \<^verbatim>\<open>lua\<close>, Base64 and the
  functions of \<^verbatim>\<open>tools/Tools.cpp\<close>. All of it logs through \<^verbatim>\<open>logger\<close>, whose thread writes the messages.

  How a definition stands for code. A structure or class is a record, an enumeration a datatype, a
  function or method a definition of the same name that takes the state and returns it updated.
  Integers of a fixed width are words, and signed overflow is a fault. A run is a sum: \<open>Inl\<close> a
  \<open>fault\<close> (an \<open>assert\<close> that failed, an access outside of memory, the use of something released or
  never written, an undefined operation), \<open>Inr\<close> the result; a loop that need not end is a
  \<open>partial_function (option)\<close>, whose \<open>None\<close> is that it never returns. No fuel is used
  anywhere: what returns is proved to return (\<open>Some\<close>), and the loops over data are recursions on the
  data. Objects that are shared live in a store of addresses. Threads are step relations, one step for
  each statement that touches shared memory.

  The build the model describes: g++ on 64-bit little-endian Linux, signed \<open>char\<close>, \<open>DEBUG\<close>
  defined as in the build files (so a failed \<open>assert\<close> ends the program), memory never exhausted.

  Shared theories:

    \<^item> \<open>Prelude\<close>: words, faults, sequencing (\<open>seq\<close>, \<open>check\<close>), buffers, the lemma
      collections, and the locale \<open>codec\<close>.
    \<^item> \<open>CLib\<close>: reading numbers from text as the C and C++ libraries define it.
    \<^item> \<open>Machine\<close>: sizes, blocks of memory with cells that may be unwritten, the layout of integers.

  The JSON push parser, \<^verbatim>\<open>json/json_parser.cpp\<close> and \<^verbatim>\<open>json/json_parser.h\<close>:

    \<^item> \<open>JsonTable\<close>, \<open>JsonParser\<close>: the tables, every function and macro, and each case of the switch
      of \<open>JSON_parser_char\<close> as a definition of its own.
    \<^item> \<open>JsonSafe\<close>, \<open>JsonActions\<close>, \<open>JsonInvariant\<close>, \<open>JsonPreserve\<close>: the object is viewed as fields,
      text and modes; every action keeps an invariant of the view; no input makes an assertion fail or
      an array be misused.
    \<^item> \<open>JsonText\<close>, \<open>JsonAccept\<close>, \<open>JsonCorrect\<close>, \<open>JsonLimits\<close>: a grammar of texts by syntax trees; every
      text of it within the depth limit is accepted with exactly the events of its tree; comments,
      the depth limit and the surrogate pairs.

  Lua and JSON, \<^verbatim>\<open>lua/luaT_json_parser.cpp\<close>:

    \<^item> \<open>LuaDecode\<close>, \<open>LuaTables\<close>: the callback that builds Lua tables; decoding a text of the grammar
      leaves the table it represents on the stack. The Lua library is a parameter; what its manual
      says of it is the predicate \<open>lua_laws\<close>. A text such as []] makes the callback use an
      empty stack.
    \<^item> \<open>LuaEncode\<close>, \<open>LuaEscapes\<close>: the encoder; what it writes for a string is a string of the JSON
      grammar that stands for the same bytes.

  The rest of \<^verbatim>\<open>lua\<close>, over the same view of the library:

    \<^item> \<open>LuaCalls\<close>: \<^verbatim>\<open>luaT.h\<close>, \<^verbatim>\<open>luaT.cpp\<close>; calls into a program and their results, owners of states,
      files, registration. A call leaves the stack as it was, whatever happens.
    \<^item> \<open>LuaXml\<close>: \<^verbatim>\<open>luaT_xml_parser.cpp\<close>; the walk over a document builds the nested tables of its elements.
    \<^item> \<open>Messages\<close>, \<open>MessageTables\<close>: \<^verbatim>\<open>MessageParser.h\<close>, \<^verbatim>\<open>MessageParser.cpp\<close>, with the reflection interface of
      protobuf as a parameter (\<open>protobuf\<close>); registration, both directions, and that a decoded message
      becomes a table with every field of it. The proof composes predicates on code that fills the
      table at the top of the stack (\<open>fills_top\<close>).
    \<^item> \<open>LuaFunctions\<close>: \<^verbatim>\<open>luaT_reg_functions.cpp\<close> and \<open>luaT_newstate\<close>; what a script can call, over the
      network manager, the services, the logger, Base64 and the JSON and message conversions; every
      function is registered under its name.
    \<^item> \<open>LuaDump\<close>: the functions of \<^verbatim>\<open>luaT.cpp\<close> that print a Lua state, and the table on which one crashes.

  Containers and memory of \<^verbatim>\<open>tools\<close>:

    \<^item> \<open>ByteBuf\<close>: \<^verbatim>\<open>ByteBuffer.h\<close>, \<^verbatim>\<open>ByteBuffer.cpp\<close>, as cells of memory; a queue of bytes (locale
      \<open>byte_queue\<close>), and the round trip of its typed operators.
    \<^item> \<open>Lockfree\<close>: \<^verbatim>\<open>Spinlocker.h\<close>, \<^verbatim>\<open>LockfreeQueue.h\<close>, as calls and as a machine of interleaved
      statements; mutual exclusion, progress, and first in first out for one popping thread.
    \<^item> \<open>Tables\<close>: \<^verbatim>\<open>LockfreeMap.h\<close>, \<^verbatim>\<open>Entry.h\<close>, \<^verbatim>\<open>Manager.h\<close>; both tables keep one contract (locale
      \<open>id_table\<close>, interpreted on each).
    \<^item> \<open>Base64\<close>: \<^verbatim>\<open>base64.cpp\<close>; the round trip and the equality with the encoding of RFC 4648
      (the locale \<open>codec\<close> is interpreted here).

  The network, \<^verbatim>\<open>net\<close> and \<^verbatim>\<open>message\<close>:

    \<^item> \<open>Sockets\<close>: \<^verbatim>\<open>Servicemessage.h\<close>, \<^verbatim>\<open>Servicemessage.cpp\<close>, \<^verbatim>\<open>Socket.cpp\<close>; the stream of a connection is
      cut into the messages it was made of, however the kernel cuts it; what is sent is put on the
      wire whole and once, or kept. The system calls are a parameter (\<open>kernel\<close>).
    \<^item> \<open>Network\<close>: \<^verbatim>\<open>Helper.cpp\<close>, \<^verbatim>\<open>SocketServer.cpp\<close>, \<^verbatim>\<open>SocketClient.cpp\<close>, \<^verbatim>\<open>Poll.cpp\<close>,
      \<^verbatim>\<open>NetworkManager.cpp\<close>; the table of sockets stays in order, and two faults are exhibited.

  Services and threads, \<^verbatim>\<open>service\<close>:

    \<^item> \<open>Scheduler\<close>: \<^verbatim>\<open>tools/Runnable.h\<close>, \<^verbatim>\<open>tools/ThreadPool.h\<close>, \<^verbatim>\<open>tools/ThreadPool.cpp\<close> and the run loop
      as threads; order and single running with one scheduling thread, and what two of them do.
    \<^item> \<open>Services\<close>: \<^verbatim>\<open>Service.h\<close>, \<^verbatim>\<open>Service.cpp\<close>, \<^verbatim>\<open>ServiceManager.cpp\<close>; dispatch, starting, exiting and
      the round of the main loop. The operations of the queues are those of \<open>Lockfree\<close>. Lua and the
      message parser are a parameter (\<open>scripting\<close>).
    \<^item> \<open>MainProgram\<close>: signals, main loop and shutdown of \<^verbatim>\<open>main.cpp\<close>, over the operations it calls.
    \<^item> \<open>StartUp\<close>: the configuration, the settings of the logger and the limits, in the order \<^verbatim>\<open>main.cpp\<close>
      sets them.

  Start-up and the rest of \<^verbatim>\<open>tools\<close>:

    \<^item> \<open>Registries\<close>, \<open>Xml\<close>, \<open>Configs\<close>: \<^verbatim>\<open>tools/Registry.cpp\<close>, \<^verbatim>\<open>xml/XmlParser.cpp\<close>, \<^verbatim>\<open>config/Config.cpp\<close>;
      settings are read back as they were set, and the walk over a document enters each attribute
      under its path. The document points into text that is already released.
    \<^item> \<open>ToolsText\<close>, \<open>ToolsFiles\<close>, \<open>ToolsNet\<close>: the functions of \<^verbatim>\<open>tools/Tools.cpp\<close> on texts (hash, split,
      UTF-8, random strings), on files, and on addresses, logins and encryption.
    \<^item> \<open>ToolsSystem\<close>: process titles, which write into the memory of the command line, limits, the seed of
      the random engine, files, URL encoding and digests.
    \<^item> \<open>Http\<close>: \<^verbatim>\<open>tools/HttpParser.cpp\<close>; a whole request is read with its parts, a beginning of one asks
      for more. Its two loops share the locale \<open>scanner\<close>, interpreted on the scan for the end of a
      line and of a header.
    \<^item> \<open>Times\<close>: \<^verbatim>\<open>time/Time.cpp\<close>, \<^verbatim>\<open>time/Timer.h\<close>: points in time and interval timers.
    \<^item> \<open>Calendar\<close>: the time stamps of \<^verbatim>\<open>tools/Tools.cpp\<close>, with \<open>gmtime_r\<close> and the conversions of \<open>strftime\<close>
      the program uses.
    \<^item> \<open>Logger\<close>: \<^verbatim>\<open>logger/Easylog.h\<close>, \<^verbatim>\<open>logger/Easylog.cpp\<close>, in the build without \<open>HAS_LOG_LAYOUT\<close>, which the
      header leaves undefined; the settings, the text of a message, the files and their splitting; then
      the threads that log, stop and write as interleaved statements: messages are written in order,
      and a call of \<open>stop\<close> can miss the thread and never return. A failed \<open>assert\<close> logs a message
      that ends the program, which is why it is a fault everywhere else.

  Parameters, where a component calls what is not under \<^verbatim>\<open>src/src\<close>: system calls, \<open>getopt\<close>, the
  clock, the random engine, the Lua library, protobuf, rapidxml, rapidjson, curl, the block cipher of
  openssl, the text of floating point numbers, and the order in which \<open>std::unordered_map\<close> iterates.
  Bounds are assumptions of single theorems, stated there: sizes stay below \<open>2 ^ 64\<close> and, where a
  buffer doubles, below \<open>2 ^ 63\<close>.

  Not modelled:

    \<^item> the log output of the other parts, and the layouts of \<^verbatim>\<open>logger/Easylog.cpp\<close>, which are not compiled.
    \<^item> of \<^verbatim>\<open>lua/luaT.cpp\<close>: \<open>luaT_showversion\<close> and \<open>luaT_close\<close>, one call of the library each.
    \<^item> of \<^verbatim>\<open>tools/Tools.cpp\<close>: functions of one call of the system or of the C++ library (wide strings, host
      and program names, thread numbers).
    \<^item> of \<^verbatim>\<open>service/main.cpp\<close>: the log output of the start-up.
    \<^item> \<^verbatim>\<open>tools/Singleton.h\<close>, \<^verbatim>\<open>tools/Noncopyable.h\<close>, \<^verbatim>\<open>tools/Constructor.h\<close>, \<^verbatim>\<open>tools/Callback.h\<close>: templates
      without state of the program.
\<close>

end
